(* ===== verification/Prelude.thy ===== *)
theory Prelude
  imports Main "HOL-Library.Word" "HOL-Library.Monad_Syntax"
begin

text \<open>
  Shared vocabulary of the development.

  \<^item> machine integers: \<open>u8\<close>, \<open>u16\<close>, \<open>u32\<close>, \<open>u64\<close> are the C
    \<open>uint8_t\<close> to \<open>uint64_t\<close>, arithmetic wraps as in C;
  \<^item> memory safety: an operation that dereferences pointers or indexes arrays returns an
    \<open>option\<close>.  \<open>None\<close> stands for an access outside every object (a NULL dereference, an
    index beyond an array): undefined behaviour in C.  A result that the C code reports
    itself (a boolean, a NULL pointer) is an ordinary value;
  \<^item> \<open>for_each\<close> is the C \<open>for\<close> loop over a known list of indices, with the error of the body
    propagated;
  \<^item> the collections \<open>page_simps\<close> (accessors of page descriptors) and \<open>bit_facts\<close>
    (word lemmas) are filled by the components.
\<close>

unbundle bit_operations_syntax

named_theorems page_simps \<open>accessors of page descriptors\<close>
named_theorems bit_facts \<open>facts on masks, shifts and alignment\<close>

type_synonym u8 = "8 word"
type_synonym u16 = "16 word"
type_synonym u32 = "32 word"
type_synonym u64 = "64 word"

section \<open>Loops over index lists\<close>

fun for_each :: "('i \<Rightarrow> 's \<Rightarrow> 's option) \<Rightarrow> 'i list \<Rightarrow> 's \<Rightarrow> 's option" where
  "for_each body [] s = Some s"
| "for_each body (i # js) s = do { s \<leftarrow> body i s; for_each body js s }"

lemma for_each_append:
  "for_each body (xs @ ys) s = do { s \<leftarrow> for_each body xs s; for_each body ys s }"
  by (induction xs arbitrary: s) (auto split: bind_split)

lemma for_each_invariant:
  assumes "P [] s"
    and "\<And>done i rest s. xs = done @ i # rest \<Longrightarrow> P done s \<Longrightarrow>
           \<exists>s'. body i s = Some s' \<and> P (done @ [i]) s'"
  shows "\<exists>s'. for_each body xs s = Some s' \<and> P xs s'"
proof -
  have "\<exists>s'. for_each body ys s = Some s' \<and> P (pre @ ys) s'"
    if "xs = pre @ ys" and "P pre s" for pre ys s
    using that
  proof (induction ys arbitrary: pre s)
    case Nil
    then show ?case by simp
  next
    case (Cons i js)
    from assms(2) [OF Cons.prems] obtain s1
      where s1: "body i s = Some s1" "P (pre @ [i]) s1" by blast
    from Cons.prems(1) have "xs = (pre @ [i]) @ js" by simp
    from Cons.IH [OF this s1(2)] s1(1) show ?case by auto
  qed
  from this [of "[]" xs s] assms(1) show ?thesis by simp
qed

lemma bind_eq_SomeE:
  assumes "Option.bind m f = Some r"
  obtains x where "m = Some x" and "f x = Some r"
  using assms by (cases m) auto

section \<open>Words as natural numbers\<close>

lemma unat_plus1_less: "unat x < k \<Longrightarrow> k < 2 ^ LENGTH('a) \<Longrightarrow> unat (x + 1) = Suc (unat x)"
  for x :: "'a::len word"
  by (simp add: unat_word_ariths)

lemma unat_index_step: "i < n \<Longrightarrow> unat (i + 1) = Suc (unat i)"
  for i n :: "'a::len word"
proof -
  assume "i < n"
  then have "unat i < unat n" by (simp add: word_less_nat_alt)
  also have "unat n < 2 ^ LENGTH('a)" by (rule unsigned_less)
  finally have "Suc (unat i) < 2 ^ LENGTH('a) \<or> Suc (unat i) = 2 ^ LENGTH('a)" by linarith
  moreover have "Suc (unat i) \<noteq> 2 ^ LENGTH('a)"
    using \<open>unat i < unat n\<close> \<open>unat n < 2 ^ LENGTH('a)\<close> by linarith
  ultimately show ?thesis by (simp add: unat_word_ariths)
qed

lemma unat_add_nowrap:
  "unat x + unat y < 2 ^ LENGTH('a) \<Longrightarrow> unat (x + y) = unat x + unat y"
  for x y :: "'a::len word"
  by (simp add: unat_word_ariths)

lemma unat_of_nat_small: "n < 2 ^ LENGTH('a) \<Longrightarrow> unat (of_nat n :: 'a::len word) = n"
  by (simp add: unat_of_nat)

lemma of_nat_eq_small:
  "m < 2 ^ LENGTH('a) \<Longrightarrow> n < 2 ^ LENGTH('a) \<Longrightarrow>
   (of_nat m :: 'a::len word) = of_nat n \<longleftrightarrow> m = n"
  by (metis unat_of_nat_small)

lemma unat_push_bit_1 [bit_facts]:
  "n < LENGTH('a) \<Longrightarrow> unat (push_bit n (1 :: 'a::len word)) = 2 ^ n"
proof -
  assume "n < LENGTH('a)"
  then have "(2::nat) ^ n < 2 ^ LENGTH('a)" by simp
  then have "unat (of_nat (2 ^ n) :: 'a word) = 2 ^ n" by (rule unat_of_nat_small)
  then show ?thesis by (simp add: push_bit_eq_mult)
qed

lemma unat_drop_bit [bit_facts]: "unat (drop_bit n w) = unat w div 2 ^ n"
  for w :: "'a::len word"
  by (metis drop_bit_eq_div unat_drop_bit_eq)

lemma and_not_mask_eq [bit_facts]: "a AND NOT (mask n) = push_bit n (drop_bit n a)"
  for a :: "'a::len word"
  by (rule bit_word_eqI) (auto simp: bit_simps)

lemma unat_align [bit_facts]: "unat (a AND NOT (mask n)) = unat a div 2 ^ n * 2 ^ n"
  for a :: "'a::len word"
proof -
  have "unat a div 2 ^ n * 2 ^ n < 2 ^ LENGTH('a)"
    by (meson div_times_less_eq_dividend order_le_less_trans unsigned_less)
  then show ?thesis
    unfolding and_not_mask_eq unsigned_push_bit_eq unat_drop_bit_eq
    unfolding push_bit_eq_mult drop_bit_eq_div
    by (rule take_bit_nat_eq_self)
qed

lemma unat_ucast_wide: "LENGTH('a) \<le> LENGTH('b) \<Longrightarrow> unat (ucast x :: 'b::len word) = unat x"
  for x :: "'a::len word"
  by (simp add: unsigned_ucast_eq take_bit_nat_eq_self_iff) (meson order_less_le_trans one_le_numeral power_increasing unsigned_less)

lemma unat_ucast_32_64 [simp]: "unat (ucast (x :: u32) :: u64) = unat x"
  by (rule unat_ucast_wide) simp

lemma ucast_of_nat_64_32 [simp]: "ucast (of_nat n :: u64) = (of_nat n :: u32)"
proof (rule bit_word_eqI)
  fix i assume "i < LENGTH(32)"
  then show "bit (ucast (of_nat n :: u64) :: u32) i = bit (of_nat n :: u32) i"
    by (simp add: bit_simps)
qed

lemma unat_minus_1: "w \<noteq> 0 \<Longrightarrow> unat (w - 1) = unat w - 1" for w :: "'a::len word"
  by (metis unat_eq_zero unat_minus_one)

end
