(* ===== verification/Page.thy ===== *)
theory Page
  imports Prelude
begin

text \<open>
  \<open>kernel/src/mm/page.h\<close>: page geometry, the page flags and the page descriptor
  \<open>struct page\<close> with its inline accessors.

  A \<open>page_t *\<close> is either NULL or the address of an element of the page database
  \<open>g_pfndb\<close>; it is modelled as \<open>page_ptr\<close>: \<open>None\<close> for NULL, \<open>Some i\<close> for
  \<open>&g_pfndb[i]\<close>.  The inline functions that mutate \<open>*page\<close> are functions on the descriptor.
\<close>

section \<open>Geometry\<close>

definition PAGE_SHIFT :: nat where
  "PAGE_SHIFT = 12"

definition PAGE_SIZE :: u64 where
  "PAGE_SIZE = push_bit PAGE_SHIFT 1"

definition PAGE_MASK :: u64 where
  "PAGE_MASK = NOT (PAGE_SIZE - 1)"

definition PAGE_ALIGN_DOWN :: "u64 \<Rightarrow> u64" where
  "PAGE_ALIGN_DOWN addr = addr AND PAGE_MASK"

definition PAGE_ALIGN_UP :: "u64 \<Rightarrow> u64" where
  "PAGE_ALIGN_UP addr = (addr + PAGE_SIZE - 1) AND PAGE_MASK"

definition PHYS_PFN :: "u64 \<Rightarrow> u64" where
  "PHYS_PFN addr = drop_bit PAGE_SHIFT addr"

definition PFN_PHYS :: "u64 \<Rightarrow> u64" where
  "PFN_PHYS pfn = push_bit PAGE_SHIFT pfn"

section \<open>Flags and the page descriptor\<close>

definition PAGE_FREE :: u32 where "PAGE_FREE = push_bit 0 1"
definition PAGE_RESERVED :: u32 where "PAGE_RESERVED = push_bit 1 1"
definition PAGE_USED :: u32 where "PAGE_USED = push_bit 2 1"

type_synonym page_ptr = "nat option"

abbreviation (input) NULL_page :: page_ptr where
  "NULL_page \<equiv> None"

record page =
  pg_flags :: u32
  pg_order :: u8
  pg_next :: page_ptr
  pg_prev :: page_ptr

definition page_has_flags :: "page \<Rightarrow> u32 \<Rightarrow> bool" where
  "page_has_flags page flags \<longleftrightarrow> pg_flags page AND flags \<noteq> 0"

definition page_set_flags :: "u32 \<Rightarrow> page \<Rightarrow> page" where
  "page_set_flags flags page = page\<lparr>pg_flags := pg_flags page OR flags\<rparr>"

definition page_clear_flags :: "u32 \<Rightarrow> page \<Rightarrow> page" where
  "page_clear_flags flags page = page\<lparr>pg_flags := pg_flags page AND NOT flags\<rparr>"

definition page_set_state :: "u32 \<Rightarrow> u8 \<Rightarrow> page \<Rightarrow> page" where
  "page_set_state flags order page =
     page\<lparr>pg_flags := flags, pg_order := order, pg_next := NULL_page, pg_prev := NULL_page\<rparr>"

definition page_reset_links :: "page \<Rightarrow> page" where
  "page_reset_links page = page\<lparr>pg_next := NULL_page, pg_prev := NULL_page\<rparr>"

definition PageFree :: "page \<Rightarrow> bool" where
  "PageFree page = page_has_flags page PAGE_FREE"

definition PageReserved :: "page \<Rightarrow> bool" where
  "PageReserved page = page_has_flags page PAGE_RESERVED"

definition PageUsed :: "page \<Rightarrow> bool" where
  "PageUsed page = page_has_flags page PAGE_USED"

definition SetPageFlags :: "u32 \<Rightarrow> page \<Rightarrow> page" where
  "SetPageFlags flags page = page_set_flags flags page"

definition ClearPageFlags :: "u32 \<Rightarrow> page \<Rightarrow> page" where
  "ClearPageFlags flags page = page_clear_flags flags page"

definition SetPageFree :: "page \<Rightarrow> page" where
  "SetPageFree page = page_set_flags PAGE_FREE page"

definition ClearPageFree :: "page \<Rightarrow> page" where
  "ClearPageFree page = page_clear_flags PAGE_FREE page"

definition SetPageReserved :: "page \<Rightarrow> page" where
  "SetPageReserved page = page_set_flags PAGE_RESERVED page"

definition ClearPageReserved :: "page \<Rightarrow> page" where
  "ClearPageReserved page = page_clear_flags PAGE_RESERVED page"

definition SetPageUsed :: "page \<Rightarrow> page" where
  "SetPageUsed page = page_set_flags PAGE_USED page"

definition ClearPageUsed :: "page \<Rightarrow> page" where
  "ClearPageUsed page = page_clear_flags PAGE_USED page"

section \<open>Facts\<close>

subsection \<open>Flags\<close>

lemmas page_flag_defs = PAGE_FREE_def PAGE_RESERVED_def PAGE_USED_def

lemma and_push_bit_1: "w AND push_bit n 1 \<noteq> 0 \<longleftrightarrow> bit w n" for w :: "'a::len word"
  by (simp add: push_bit_eq_mult and_exp_eq_0_iff_not_bit)

lemma bit_push_bit_1: "k < LENGTH('a) \<Longrightarrow> bit (push_bit k (1 :: 'a::len word)) n \<longleftrightarrow> n = k"
  by (auto simp: bit_simps)

lemma page_flag_bits [page_simps]:
  "PageFree p \<longleftrightarrow> bit (pg_flags p) 0"
  "PageReserved p \<longleftrightarrow> bit (pg_flags p) 1"
  "PageUsed p \<longleftrightarrow> bit (pg_flags p) 2"
  unfolding PageFree_def PageReserved_def PageUsed_def page_has_flags_def page_flag_defs
    and_push_bit_1 by simp_all

lemma page_flag_values:
  "PAGE_FREE = 1" "PAGE_RESERVED = 2" "PAGE_USED = 4"
  by (simp_all add: page_flag_defs)

lemma page_flag_value_bits [page_simps]:
  "bit PAGE_FREE n \<longleftrightarrow> n = 0"
  "bit PAGE_RESERVED n \<longleftrightarrow> n = 1"
  "bit PAGE_USED n \<longleftrightarrow> n = 2"
  unfolding page_flag_defs by (rule bit_push_bit_1, simp)+

lemma page_set_flags_bits [page_simps]:
  "bit (pg_flags (page_set_flags fs p)) n \<longleftrightarrow> bit (pg_flags p) n \<or> bit fs n"
  "n < 32 \<Longrightarrow> bit (pg_flags (page_clear_flags fs p)) n \<longleftrightarrow> bit (pg_flags p) n \<and> \<not> bit fs n"
  by (auto simp: page_set_flags_def page_clear_flags_def bit_simps)

lemma page_update_fields [page_simps]:
  "pg_order (page_set_flags fs p) = pg_order p"
  "pg_next (page_set_flags fs p) = pg_next p"
  "pg_prev (page_set_flags fs p) = pg_prev p"
  "pg_order (page_clear_flags fs p) = pg_order p"
  "pg_next (page_clear_flags fs p) = pg_next p"
  "pg_prev (page_clear_flags fs p) = pg_prev p"
  "pg_flags (page_set_state fl k p) = fl"
  "pg_order (page_set_state fl k p) = k"
  "pg_next (page_set_state fl k p) = None"
  "pg_prev (page_set_state fl k p) = None"
  "pg_flags (page_reset_links p) = pg_flags p"
  "pg_order (page_reset_links p) = pg_order p"
  "pg_next (page_reset_links p) = None"
  "pg_prev (page_reset_links p) = None"
  by (simp_all add: page_set_flags_def page_clear_flags_def page_set_state_def page_reset_links_def)

lemmas page_accessor_defs =
  SetPageFlags_def ClearPageFlags_def SetPageFree_def ClearPageFree_def
  SetPageReserved_def ClearPageReserved_def SetPageUsed_def ClearPageUsed_def

declare page_accessor_defs [page_simps]

subsection \<open>Alignment as arithmetic\<close>

lemma PAGE_SIZE_value: "PAGE_SIZE = 4096"
  by (simp add: PAGE_SIZE_def PAGE_SHIFT_def)

lemma PAGE_MASK_eq: "PAGE_MASK = NOT (mask 12)"
  by (simp add: PAGE_MASK_def PAGE_SIZE_value mask_numeral)

lemma unat_PAGE_ALIGN_DOWN: "unat (PAGE_ALIGN_DOWN a) = unat a div 4096 * 4096"
  by (simp add: PAGE_ALIGN_DOWN_def PAGE_MASK_eq unat_align)

lemma unat_PAGE_ALIGN_UP:
  assumes "unat a + 4095 < 2 ^ 64"
  shows "unat (PAGE_ALIGN_UP a) = (unat a + 4095) div 4096 * 4096"
proof -
  have "unat (a + 4095) = unat a + 4095"
    using assms by (simp add: unat_add_nowrap)
  then show ?thesis
    by (simp add: PAGE_ALIGN_UP_def PAGE_MASK_eq unat_align PAGE_SIZE_value add.commute)
qed

lemma unat_PHYS_PFN: "unat (PHYS_PFN a) = unat a div 4096"
  by (simp add: PHYS_PFN_def PAGE_SHIFT_def unat_drop_bit)

lemma PFN_PHYS_eq: "PFN_PHYS p = p * 4096"
  by (simp add: PFN_PHYS_def PAGE_SHIFT_def push_bit_eq_mult)

lemma unat_PFN_PHYS: "unat p < 2 ^ 52 \<Longrightarrow> unat (PFN_PHYS p) = unat p * 4096"
  by (simp add: PFN_PHYS_eq unat_word_ariths)

lemma PHYS_PFN_PFN_PHYS:
  assumes "unat p < 2 ^ 52" shows "PHYS_PFN (PFN_PHYS p) = p"
  unfolding word_unat_eq_iff unat_PHYS_PFN unat_PFN_PHYS [OF assms] by simp

lemma PAGE_ALIGN_UP_idem_iff:
  assumes "unat a + 4095 < 2 ^ 64"
  shows "PAGE_ALIGN_UP a = a \<longleftrightarrow> 4096 dvd unat a"
proof -
  have "(unat a + 4095) div 4096 * 4096 = unat a \<longleftrightarrow> 4096 dvd unat a"
    (is "?l \<longleftrightarrow> ?r")
  proof
    assume ?l
    then show ?r by (metis dvd_triv_right)
  next
    assume ?r
    then obtain k where "unat a = 4096 * k" by (rule dvdE)
    then show ?l by simp
  qed
  then show ?thesis unfolding word_unat_eq_iff unat_PAGE_ALIGN_UP [OF assms] .
qed

end
