(* ===== verification/Cpu.thy ===== *)
theory Cpu
  imports Prelude
begin

text \<open>
  \<open>kernel/src/platform/generic/cpu.h\<close>: the address conversions of the higher half direct map.
  The offset is what the boot loader puts in \<open>hhdm_request.response->offset\<close>; it is an argument
  of every definition that uses it.  A \<open>void *\<close> is its address, and NULL is 0.
\<close>

definition PHYS_TO_VIRT :: "u64 \<Rightarrow> u64 \<Rightarrow> u64" where
  "PHYS_TO_VIRT hhdm_offset phys_addr = phys_addr + hhdm_offset"

definition VIRT_TO_PHYS :: "u64 \<Rightarrow> u64 \<Rightarrow> u64" where
  "VIRT_TO_PHYS hhdm_offset virt_addr = virt_addr - hhdm_offset"

lemma VIRT_TO_PHYS_PHYS_TO_VIRT [simp]: "VIRT_TO_PHYS h (PHYS_TO_VIRT h a) = a"
  by (simp add: VIRT_TO_PHYS_def PHYS_TO_VIRT_def)

lemma PHYS_TO_VIRT_VIRT_TO_PHYS [simp]: "PHYS_TO_VIRT h (VIRT_TO_PHYS h a) = a"
  by (simp add: VIRT_TO_PHYS_def PHYS_TO_VIRT_def)

end
