(* ===== verification/Pfndb.thy ===== *)
theory Pfndb
  imports Page Cpu
begin

text \<open>
  \<open>kernel/src/mm/pfndb.c\<close>: the page frame database, an array of page descriptors indexed by
  page frame number, placed in the first usable memory region that can hold it.

  State: the three static variables of the file.  \<open>g_pfndb\<close> is \<open>None\<close> while the C pointer
  is NULL and otherwise the contents of the array it points to; only the elements
  \<open>0 .. g_max_pfn\<close> exist, and \<open>page_read\<close>/\<open>page_write\<close> are \<open>None\<close> outside them.
  The boot loader's memory map is a list of entries; the only question the code asks of an
  entry's type is whether it is \<open>LIMINE_MEMMAP_USABLE\<close>, so that answer is the field
  \<open>mm_usable\<close>.  \<open>HHDM\<close> responses are \<open>u64 option\<close>: the offset, or \<open>None\<close> for NULL.
\<close>

section \<open>State\<close>

record pfndb =
  g_pfndb :: "(nat \<Rightarrow> page) option"
  g_pfndb_phys :: u64
  g_max_pfn :: u64

record memmap_entry =
  mm_base :: u64
  mm_length :: u64
  mm_usable :: bool

text \<open>\<open>sizeof(struct page)\<close> on the 64-bit target: 4 + 1 bytes, 3 of padding, two pointers.\<close>

definition sizeof_page :: u64 where
  "sizeof_page = 24"

section \<open>Access to the array\<close>

definition page_read :: "page_ptr \<Rightarrow> 'a pfndb_scheme \<Rightarrow> page option" where
  "page_read p s = do {
     i \<leftarrow> p;
     db \<leftarrow> g_pfndb s;
     if i \<le> unat (g_max_pfn s) then Some (db i) else None }"

definition page_write ::
  "page_ptr \<Rightarrow> (page \<Rightarrow> page) \<Rightarrow> 'a pfndb_scheme \<Rightarrow> 'a pfndb_scheme option" where
  "page_write p f s = do {
     i \<leftarrow> p;
     db \<leftarrow> g_pfndb s;
     if i \<le> unat (g_max_pfn s) then Some (s\<lparr>g_pfndb := Some (db(i := f (db i)))\<rparr>) else None }"

section \<open>Operations\<close>

definition pfndb_storage_size :: "'a pfndb_scheme \<Rightarrow> u64" where
  "pfndb_storage_size s = PAGE_ALIGN_UP ((g_max_pfn s + 1) * sizeof_page)"

fun calc_max_pfn_loop :: "memmap_entry list \<Rightarrow> u64 \<Rightarrow> u64" where
  "calc_max_pfn_loop [] max_pfn = max_pfn"
| "calc_max_pfn_loop (entry # rest) max_pfn =
     (if \<not> mm_usable entry then calc_max_pfn_loop rest max_pfn
      else
        let end_pfn = drop_bit PAGE_SHIFT (PAGE_ALIGN_UP (mm_base entry + mm_length entry)) in
        calc_max_pfn_loop rest
          (if end_pfn \<noteq> 0 \<and> end_pfn - 1 > max_pfn then end_pfn - 1 else max_pfn))"

definition pfndb_calc_max_pfn :: "memmap_entry list \<Rightarrow> 'a pfndb_scheme \<Rightarrow> 'a pfndb_scheme" where
  "pfndb_calc_max_pfn memmap s = s\<lparr>g_max_pfn := calc_max_pfn_loop memmap 0\<rparr>"

fun reserve_storage_loop :: "u64 \<Rightarrow> memmap_entry list \<Rightarrow> u64 option \<times> memmap_entry list" where
  "reserve_storage_loop sz [] = (None, [])"
| "reserve_storage_loop sz (entry # rest) =
     (if \<not> mm_usable entry \<or> mm_length entry < sz then
        let (phys, rest') = reserve_storage_loop sz rest in (phys, entry # rest')
      else
        (Some (mm_base entry),
         entry\<lparr>mm_base := mm_base entry + sz, mm_length := mm_length entry - sz\<rparr> # rest))"

definition pfndb_reserve_storage ::
  "memmap_entry list \<Rightarrow> 'a pfndb_scheme \<Rightarrow> memmap_entry list \<times> 'a pfndb_scheme" where
  "pfndb_reserve_storage memmap s =
     (case reserve_storage_loop (pfndb_storage_size s) memmap of
        (Some phys, memmap') \<Rightarrow> (memmap', s\<lparr>g_pfndb_phys := phys\<rparr>)
      | (None, memmap') \<Rightarrow> (memmap', s))"

text \<open>\<open>for (pfn = start; pfn < end; pfn++)\<close> over frame numbers.\<close>

definition pfn_range :: "u64 \<Rightarrow> u64 \<Rightarrow> nat list" where
  "pfn_range start_pfn end_pfn = [unat start_pfn ..< unat end_pfn]"

definition pfndb_mark_range ::
  "u64 \<Rightarrow> u64 \<Rightarrow> u32 \<Rightarrow> 'a pfndb_scheme \<Rightarrow> 'a pfndb_scheme option" where
  "pfndb_mark_range base len flags s =
     (let start_pfn = PHYS_PFN base;
          end_pfn = PHYS_PFN (PAGE_ALIGN_UP (base + len)) in
      if g_pfndb s = None \<or> len = 0 then Some s
      else if start_pfn > g_max_pfn s then Some s
      else
        let end_pfn = (if end_pfn > g_max_pfn s + 1 then g_max_pfn s + 1 else end_pfn) in
        for_each (\<lambda>pfn. page_write (Some pfn) (page_set_state flags 0))
          (pfn_range start_pfn end_pfn) s)"

definition mark_usable :: "memmap_entry \<Rightarrow> 'a pfndb_scheme \<Rightarrow> 'a pfndb_scheme option" where
  "mark_usable entry s =
     (if mm_usable entry then pfndb_mark_range (mm_base entry) (mm_length entry) PAGE_FREE s
      else Some s)"

text \<open>A descriptor whose bytes are all zero, as after \<open>memset\<close>.\<close>

definition zero_page :: page where
  "zero_page = \<lparr>pg_flags = 0, pg_order = 0, pg_next = NULL_page, pg_prev = NULL_page\<rparr>"

definition pfndb_init ::
  "u64 option \<Rightarrow> memmap_entry list option \<Rightarrow> 'a pfndb_scheme \<Rightarrow>
   (memmap_entry list option \<times> 'a pfndb_scheme) option" where
  "pfndb_init hhdm memmap s =
     (case memmap of
        None \<Rightarrow> Some (None, s)
      | Some entries \<Rightarrow>
          if hhdm = None then Some (memmap, s)
          else
            let s = pfndb_calc_max_pfn entries s;
                (entries, s) = pfndb_reserve_storage entries s in
            if g_pfndb_phys s = 0 then Some (Some entries, s)
            else do {
              let s = s\<lparr>g_pfndb := Some (\<lambda>_. zero_page)\<rparr>;
              s \<leftarrow> for_each (\<lambda>pfn. page_write (Some pfn) (page_set_state PAGE_RESERVED 0))
                     [0..<Suc (unat (g_max_pfn s))] s;
              s \<leftarrow> for_each mark_usable entries s;
              Some (Some entries, s) })"

definition pfndb_get_db :: "'a pfndb_scheme \<Rightarrow> (nat \<Rightarrow> page) option" where
  "pfndb_get_db s = g_pfndb s"

definition pfndb_get_max_pfn :: "'a pfndb_scheme \<Rightarrow> u64" where
  "pfndb_get_max_pfn s = g_max_pfn s"

definition pfndb_get_page :: "u64 \<Rightarrow> 'a pfndb_scheme \<Rightarrow> page_ptr" where
  "pfndb_get_page pfn s =
     (if g_pfndb s = None \<or> pfn > g_max_pfn s then NULL_page else Some (unat pfn))"

definition pfndb_get_pfn :: "page_ptr \<Rightarrow> 'a pfndb_scheme \<Rightarrow> u64" where
  "pfndb_get_pfn page s =
     (case page of
        None \<Rightarrow> - 1
      | Some i \<Rightarrow>
          if g_pfndb s = None then - 1
          else if i > unat (g_max_pfn s) then - 1
          else of_nat i)"

definition pfndb_page_to_phys :: "page_ptr \<Rightarrow> 'a pfndb_scheme \<Rightarrow> u64" where
  "pfndb_page_to_phys page s =
     (let pfn = pfndb_get_pfn page s in if pfn = - 1 then 0 else PFN_PHYS pfn)"

definition pfndb_phys_to_page :: "u64 \<Rightarrow> 'a pfndb_scheme \<Rightarrow> page_ptr" where
  "pfndb_phys_to_page phys s =
     (let pfn = PHYS_PFN phys in
      if pfn > g_max_pfn s then NULL_page else pfndb_get_page pfn s)"

abbreviation "page_to_pfn \<equiv> pfndb_get_pfn"
abbreviation "pfn_to_page \<equiv> pfndb_get_page"
abbreviation "page_to_phys \<equiv> pfndb_page_to_phys"
abbreviation "phys_to_page \<equiv> pfndb_phys_to_page"

end
