(* ===== verification/Buddy.thy ===== *)
theory Buddy
  imports Prelude
begin

text \<open>
  The abstract buddy system: a block \<open>(p, k)\<close> is the aligned run of \<open>2 ^ k\<close> frames that starts
  at \<open>p\<close>.  This theory holds the arithmetic of blocks, the specification of allocation and
  release on sets of blocks, and the two facts that make a coalesced free set canonical:
  it contains every aligned free run, and it is determined by the frames it covers.
\<close>

section \<open>Blocks\<close>

type_synonym block = "nat \<times> nat"

text \<open>\<open>PMM_MAX_ORDER\<close> of \<open>pmm.h\<close>: the orders are \<open>0 .. 9\<close>.\<close>

definition PMM_MAX_ORDER :: nat where
  "PMM_MAX_ORDER = 10"

definition frames :: "nat \<Rightarrow> nat \<Rightarrow> nat set" where
  "frames p k = {p..<p + 2 ^ k}"

definition block_ok :: "nat \<Rightarrow> nat \<Rightarrow> bool" where
  "block_ok p k \<longleftrightarrow> k < PMM_MAX_ORDER \<and> 2 ^ k dvd p"

definition buddy :: "nat \<Rightarrow> nat \<Rightarrow> nat" where
  "buddy p k = (if odd (p div 2 ^ k) then p - 2 ^ k else p + 2 ^ k)"

definition frames_of :: "block set \<Rightarrow> nat set" where
  "frames_of B = (\<Union>(p, k)\<in>B. frames p k)"

definition blocks_ok :: "block set \<Rightarrow> bool" where
  "blocks_ok B \<longleftrightarrow>
     (\<forall>(p, k)\<in>B. block_ok p k) \<and>
     (\<forall>(p, k)\<in>B. \<forall>(q, j)\<in>B. (p, k) \<noteq> (q, j) \<longrightarrow> frames p k \<inter> frames q j = {})"

definition coalesced :: "block set \<Rightarrow> bool" where
  "coalesced F \<longleftrightarrow> (\<forall>(p, k)\<in>F. k + 1 < PMM_MAX_ORDER \<longrightarrow> (buddy p k, k) \<notin> F)"

subsection \<open>Arithmetic of blocks\<close>

lemma frames_nonempty: "p \<in> frames p k"
  by (simp add: frames_def)

lemma card_frames [simp]: "card (frames p k) = 2 ^ k"
  by (simp add: frames_def)

lemma finite_frames [simp]: "finite (frames p k)"
  by (simp add: frames_def)

lemma mem_frames_iff:
  assumes "2 ^ k dvd p" shows "x \<in> frames p k \<longleftrightarrow> x div 2 ^ k = p div 2 ^ k"
proof -
  from assms obtain a where p: "p = 2 ^ k * a" by (rule dvdE)
  have "x div 2 ^ k = a \<longleftrightarrow> 2 ^ k * a \<le> x \<and> x < 2 ^ k * a + 2 ^ k"
  proof
    assume "x div 2 ^ k = a"
    moreover have "x = 2 ^ k * (x div 2 ^ k) + x mod 2 ^ k" by simp
    moreover have "x mod 2 ^ k < 2 ^ k" by simp
    ultimately show "2 ^ k * a \<le> x \<and> x < 2 ^ k * a + 2 ^ k" by (metis le_add1 nat_add_left_cancel_less)
  next
    assume "2 ^ k * a \<le> x \<and> x < 2 ^ k * a + 2 ^ k"
    then show "x div 2 ^ k = a" by (intro div_nat_eqI) (simp_all add: algebra_simps)
  qed
  then show ?thesis by (simp add: p frames_def)
qed

lemma div_power_le: "o1 \<le> o2 \<Longrightarrow> (x :: nat) div 2 ^ o2 = x div 2 ^ o1 div 2 ^ (o2 - o1)"
  by (metis div_mult2_eq le_add_diff_inverse power_add)

lemma frames_nested:
  assumes "2 ^ j dvd p" and "2 ^ k dvd q" and "j \<le> k" and "frames p j \<inter> frames q k \<noteq> {}"
  shows "frames p j \<subseteq> frames q k"
proof -
  from assms(4) obtain x where "x div 2 ^ j = p div 2 ^ j" "x div 2 ^ k = q div 2 ^ k"
    using mem_frames_iff assms(1,2) by auto
  then have pq: "p div 2 ^ k = q div 2 ^ k"
    by (metis div_power_le [OF assms(3)])
  show ?thesis
  proof
    fix y assume "y \<in> frames p j"
    then have "y div 2 ^ j = p div 2 ^ j" by (simp add: mem_frames_iff assms(1))
    then have "y div 2 ^ k = p div 2 ^ k" by (metis div_power_le [OF assms(3)])
    then show "y \<in> frames q k" by (simp add: mem_frames_iff assms(2) pq)
  qed
qed

lemma frames_subset_order:
  assumes "frames p j \<subseteq> frames q k" shows "j \<le> k"
proof -
  have "card (frames p j) \<le> card (frames q k)" by (rule card_mono) (use assms in auto)
  then show ?thesis by simp
qed

lemma frames_inject:
  assumes "frames p j = frames q k" shows "p = q \<and> j = k"
proof -
  have "j = k" using assms frames_subset_order by (metis order_antisym order_refl)
  moreover have "p = q"
    using assms frames_nonempty by (metis atLeastLessThan_iff frames_def order_antisym)
  ultimately show ?thesis by simp
qed

subsection \<open>Buddies\<close>

lemma odd_div_le: "odd (p div 2 ^ k) \<Longrightarrow> 2 ^ k \<le> (p :: nat)"
  by (metis div_less even_zero not_le)

lemma buddy_neq: "buddy p k \<noteq> p"
proof -
  have "0 < (2::nat) ^ k" by simp
  then have "p - 2 ^ k \<noteq> p" if "odd (p div 2 ^ k)" using odd_div_le [OF that] by linarith
  then show ?thesis by (auto simp: buddy_def)
qed

lemma buddy_aligned: "2 ^ k dvd p \<Longrightarrow> 2 ^ k dvd buddy p k"
  by (simp add: buddy_def)

lemma buddy_mult: "buddy (2 ^ k * a) k = 2 ^ k * (if odd a then a - 1 else a + 1)"
  by (simp add: buddy_def right_diff_distrib')

lemma buddy_buddy: "2 ^ k dvd p \<Longrightarrow> buddy (buddy p k) k = p"
  by (elim dvdE) (auto simp: buddy_mult elim!: oddE)

lemma buddy_disjoint: "2 ^ k dvd p \<Longrightarrow> frames p k \<inter> frames (buddy p k) k = {}"
  using odd_div_le [of p k] by (auto simp: frames_def buddy_def)

lemma parent_frames:
  assumes "2 ^ k dvd p"
  shows "frames (min p (buddy p k)) (Suc k) = frames p k \<union> frames (buddy p k) k"
  using odd_div_le [of p k] by (auto simp: frames_def buddy_def)

lemma parent_aligned:
  assumes "2 ^ k dvd p" shows "2 ^ Suc k dvd min p (buddy p k)"
proof -
  from assms obtain a where p: "p = 2 ^ k * a" by (rule dvdE)
  show ?thesis
  proof (cases "odd a")
    case True
    then obtain b where "a = 2 * b + 1" by (rule oddE)
    then have "min p (buddy p k) = 2 ^ Suc k * b" by (simp add: p buddy_def)
    then show ?thesis by simp
  next
    case False
    then have "min p (buddy p k) = p" by (simp add: p buddy_def)
    with False show ?thesis by (auto simp: p)
  qed
qed

lemma upper_half:
  assumes "2 ^ Suc k dvd p"
  shows "2 ^ k dvd p" "2 ^ k dvd p + 2 ^ k" "buddy p k = p + 2 ^ k" "buddy (p + 2 ^ k) k = p"
    "frames p (Suc k) = frames p k \<union> frames (p + 2 ^ k) k" "frames p k \<inter> frames (p + 2 ^ k) k = {}"
proof -
  from assms obtain a where p: "p = 2 ^ k * (2 * a)" by (auto elim: dvdE)
  then have even: "even (p div 2 ^ k)" by simp
  show d: "2 ^ k dvd p" "2 ^ k dvd p + 2 ^ k" by (simp_all add: p)
  show b: "buddy p k = p + 2 ^ k" using even by (simp add: buddy_def)
  show "buddy (p + 2 ^ k) k = p" using buddy_buddy [OF d(1)] b by simp
  show "frames p (Suc k) = frames p k \<union> frames (p + 2 ^ k) k"
    and "frames p k \<inter> frames (p + 2 ^ k) k = {}"
    by (auto simp: frames_def)
qed

subsection \<open>The XOR of the code\<close>

lemma unat_xor_buddy:
  fixes x :: "'a::len word"
  assumes k: "k < LENGTH('a)" and al: "2 ^ k dvd unat x"
  shows "unat (x XOR push_bit k 1) = buddy (unat x) k"
proof -
  let ?d = "push_bit k (1 :: 'a word)"
  have d: "unat ?d = 2 ^ k" using k by (rule unat_push_bit_1)
  have bit: "bit x k \<longleftrightarrow> odd (unat x div 2 ^ k)"
    using k by (simp add: bit_unsigned_iff flip: bit_iff_odd)
  from al obtain a where a: "unat x = 2 ^ k * a" by (rule dvdE)
  show ?thesis
  proof (cases "bit x k")
    case True
    then have "x XOR ?d = unset_bit k x"
      using k by (intro bit_word_eqI) (auto simp: bit_simps)
    also have "\<dots> = x - ?d" using True by (simp add: unset_bit_eq push_bit_eq_mult)
    finally have "x XOR ?d = x - ?d" .
    moreover have "?d \<le> x" using True bit d odd_div_le by (simp add: word_le_nat_alt)
    ultimately show ?thesis using True bit d by (simp add: buddy_def unat_sub)
  next
    case False
    then have "x XOR ?d = set_bit k x"
      using k by (intro bit_word_eqI) (auto simp: bit_simps)
    also have "\<dots> = x + ?d" using False by (simp add: set_bit_eq push_bit_eq_mult)
    finally have "x XOR ?d = x + ?d" .
    moreover have "unat x + unat ?d < 2 ^ LENGTH('a)"
    proof -
      define e where "e = LENGTH('a) - Suc k"
      have len: "(2::nat) ^ LENGTH('a) = 2 ^ k * (2 * 2 ^ e)"
        using k by (simp add: e_def flip: power_Suc power_add)
      from False a bit have "even a" by simp
      moreover have "a < 2 * 2 ^ e" using unsigned_less [of x, where 'a = nat] a len by simp
      ultimately have "a + 1 < 2 * 2 ^ e" by presburger
      then have "2 ^ k * (a + 1) < (2::nat) ^ k * (2 * 2 ^ e)"
        by (simp only: mult_less_cancel1) simp
      then show ?thesis unfolding a d len by (simp add: algebra_simps)
    qed
    ultimately show ?thesis using False bit d by (simp add: buddy_def unat_add_nowrap)
  qed
qed

section \<open>Sets of blocks\<close>

lemma frames_of_simps [simp]:
  "frames_of {} = {}"
  "frames_of (insert (p, k) B) = frames p k \<union> frames_of B"
  "frames_of (B \<union> C) = frames_of B \<union> frames_of C"
  by (auto simp: frames_of_def)

lemma frames_of_mem: "(p, k) \<in> B \<Longrightarrow> frames p k \<subseteq> frames_of B"
  by (auto simp: frames_of_def)

lemma blocks_ok_mem: "blocks_ok B \<Longrightarrow> (p, k) \<in> B \<Longrightarrow> block_ok p k"
  by (auto simp: blocks_ok_def)

lemma blocks_ok_disjoint:
  "blocks_ok B \<Longrightarrow> (p, k) \<in> B \<Longrightarrow> (q, j) \<in> B \<Longrightarrow> (p, k) \<noteq> (q, j) \<Longrightarrow>
   frames p k \<inter> frames q j = {}"
  unfolding blocks_ok_def by fast

lemma blocks_ok_overlap:
  "blocks_ok B \<Longrightarrow> (p, k) \<in> B \<Longrightarrow> (q, j) \<in> B \<Longrightarrow> x \<in> frames p k \<Longrightarrow> x \<in> frames q j \<Longrightarrow>
   p = q \<and> k = j"
  using blocks_ok_disjoint [of B p k q j] by auto

lemma blocks_okI:
  assumes "\<And>p k. (p, k) \<in> B \<Longrightarrow> block_ok p k"
    and "\<And>p k q j. (p, k) \<in> B \<Longrightarrow> (q, j) \<in> B \<Longrightarrow> (p, k) \<noteq> (q, j) \<Longrightarrow>
           frames p k \<inter> frames q j = {}"
  shows "blocks_ok B"
  unfolding blocks_ok_def using assms by (intro conjI ballI) (simp_all add: split_paired_all)

lemma blocks_ok_union:
  assumes F: "blocks_ok F" and G: "blocks_ok G" and disj: "frames_of F \<inter> frames_of G = {}"
  shows "blocks_ok (F \<union> G)"
proof (rule blocks_okI)
  have apart: "frames p k \<inter> frames q j = {}" if "(p, k) \<in> F" "(q, j) \<in> G" for p k q j
    using that disj by (auto simp: frames_of_def)
  fix p k q j
  assume pq: "(p, k) \<in> F \<union> G" "(q, j) \<in> F \<union> G" "(p, k) \<noteq> (q, j)"
  then consider "(p, k) \<in> F" "(q, j) \<in> F" | "(p, k) \<in> G" "(q, j) \<in> G"
    | "(p, k) \<in> F" "(q, j) \<in> G" | "(p, k) \<in> G" "(q, j) \<in> F" by blast
  then show "frames p k \<inter> frames q j = {}"
  proof cases
    case 1
    show ?thesis using blocks_ok_disjoint [OF F 1 pq(3)] .
  next
    case 2
    show ?thesis using blocks_ok_disjoint [OF G 2 pq(3)] .
  next
    case 3
    then show ?thesis by (rule apart)
  next
    case 4
    then show ?thesis using apart [of q j p k] by blast
  qed
qed (use F G blocks_ok_mem in blast)

lemma blocks_ok_subset: "blocks_ok B \<Longrightarrow> C \<subseteq> B \<Longrightarrow> blocks_ok C"
  unfolding blocks_ok_def by blast

lemma blocks_ok_insert:
  assumes "blocks_ok B" "block_ok p k" "frames p k \<inter> frames_of B = {}"
  shows "blocks_ok (insert (p, k) B)"
  using assms unfolding blocks_ok_def frames_of_def by blast

lemma frames_of_remove:
  assumes ok: "blocks_ok B" and mem: "(p, k) \<in> B"
  shows "frames_of (B - {(p, k)}) = frames_of B - frames p k"
proof
  show "frames_of (B - {(p, k)}) \<subseteq> frames_of B - frames p k"
    using blocks_ok_disjoint [OF ok mem] by (force simp: frames_of_def)
  show "frames_of B - frames p k \<subseteq> frames_of (B - {(p, k)})"
    by (auto simp: frames_of_def)
qed

lemma blocks_ok_notin:
  assumes "blocks_ok B" "frames p k \<inter> frames_of B = {}" shows "(p, k) \<notin> B"
  using assms frames_of_mem [of p k B] frames_nonempty [of p k] by blast

subsection \<open>The coalescing loop\<close>

function abs_coalesce :: "block set \<Rightarrow> nat \<Rightarrow> nat \<Rightarrow> block set \<times> nat \<times> nat" where
  "abs_coalesce F p k =
     (if k + 1 < PMM_MAX_ORDER \<and> (buddy p k, k) \<in> F
      then abs_coalesce (F - {(buddy p k, k)}) (min p (buddy p k)) (k + 1)
      else (F, p, k))"
  by pat_completeness auto
termination by (relation "measure (\<lambda>(F, p, k). PMM_MAX_ORDER - k)") auto

declare abs_coalesce.simps [simp del]

definition abs_release :: "nat \<Rightarrow> nat \<Rightarrow> block set \<Rightarrow> block set" where
  "abs_release p k F = (case abs_coalesce F p k of (F', p', k') \<Rightarrow> insert (p', k') F')"

lemma abs_coalesce_ok:
  assumes "abs_coalesce F p k = (F', p', k')" and "block_ok p k" and "blocks_ok F"
    and "frames p k \<inter> frames_of F = {}"
  shows "F' \<subseteq> F \<and> block_ok p' k' \<and> blocks_ok F' \<and> frames p' k' \<inter> frames_of F' = {} \<and>
         frames p' k' \<union> frames_of F' = frames p k \<union> frames_of F \<and>
         (k' + 1 < PMM_MAX_ORDER \<longrightarrow> (buddy p' k', k') \<notin> F')"
  using assms
proof (induction F p k arbitrary: F' p' k' rule: abs_coalesce.induct)
  case (1 F p k)
  show ?case
  proof (cases "k + 1 < PMM_MAX_ORDER \<and> (buddy p k, k) \<in> F")
    case False
    with "1.prems" show ?thesis by (auto simp: abs_coalesce.simps [of F p k])
  next
    case True
    let ?b = "buddy p k" and ?F1 = "F - {(buddy p k, k)}"
    have al: "2 ^ k dvd p" using "1.prems"(2) by (simp add: block_ok_def)
    have rec: "abs_coalesce ?F1 (min p ?b) (k + 1) = (F', p', k')"
      using "1.prems"(1) True by (simp add: abs_coalesce.simps [of F p k])
    have ok: "block_ok (min p ?b) (k + 1)"
      using parent_aligned [OF al] True by (simp add: block_ok_def)
    have okF: "blocks_ok ?F1" using "1.prems"(3) by (rule blocks_ok_subset) auto
    have par: "frames (min p ?b) (k + 1) = frames p k \<union> frames ?b k"
      using parent_frames [OF al] by simp
    have fr: "frames_of ?F1 = frames_of F - frames ?b k"
      using frames_of_remove "1.prems"(3) True by blast
    have disj: "frames (min p ?b) (k + 1) \<inter> frames_of ?F1 = {}"
      using "1.prems"(4) unfolding par fr by blast
    have "frames ?b k \<subseteq> frames_of F" using True frames_of_mem by blast
    with "1.IH" [OF True rec ok okF disj] show ?thesis unfolding par fr by blast
  qed
qed

lemma abs_coalesce_bounds:
  "abs_coalesce F p k = (F', p', k') \<Longrightarrow> p' \<le> p \<and> k \<le> k'"
proof (induction F p k arbitrary: F' p' k' rule: abs_coalesce.induct)
  case (1 F p k)
  show ?case
  proof (cases "k + 1 < PMM_MAX_ORDER \<and> (buddy p k, k) \<in> F")
    case True
    with "1.prems" have "abs_coalesce (F - {(buddy p k, k)}) (min p (buddy p k)) (k + 1) = (F', p', k')"
      by (simp add: abs_coalesce.simps [of F p k])
    from "1.IH" [OF True this] show ?thesis by simp
  next
    case False
    with "1.prems" show ?thesis by (auto simp: abs_coalesce.simps [of F p k])
  qed
qed

lemma abs_coalesce_merged:
  assumes "abs_coalesce F p k = (F', p', k')" and "k + 1 < PMM_MAX_ORDER" "(buddy p k, k) \<in> F"
  shows "p' \<le> min p (buddy p k) \<and> k < k'"
  using assms abs_coalesce_bounds [of "F - {(buddy p k, k)}" "min p (buddy p k)" "k + 1" F' p' k']
  by (simp add: abs_coalesce.simps [of F p k])

lemma coalesced_subset: "coalesced F \<Longrightarrow> G \<subseteq> F \<Longrightarrow> coalesced G"
  by (auto simp: coalesced_def)

lemma coalesced_insert:
  assumes F: "coalesced F" and ok: "blocks_ok F" and al: "block_ok p k"
    and new: "k + 1 < PMM_MAX_ORDER \<Longrightarrow> (buddy p k, k) \<notin> F"
  shows "coalesced (insert (p, k) F)"
proof -
  have "buddy q j \<noteq> p \<or> j \<noteq> k" if q: "(q, j) \<in> F" "j + 1 < PMM_MAX_ORDER" for q j
  proof (rule ccontr)
    assume "\<not> ?thesis"
    then have "buddy p k = q" using buddy_buddy [of j q] blocks_ok_mem [OF ok q(1)]
      by (auto simp: block_ok_def)
    with q new \<open>\<not> ?thesis\<close> show False by auto
  qed
  with F new show ?thesis by (fastforce simp: coalesced_def buddy_neq)
qed

lemma abs_release_ok:
  assumes "block_ok p k" "blocks_ok F" "frames p k \<inter> frames_of F = {}"
  shows "blocks_ok (abs_release p k F)"
    and "frames_of (abs_release p k F) = frames p k \<union> frames_of F"
    and "coalesced F \<Longrightarrow> coalesced (abs_release p k F)"
proof -
  obtain F' p' k' where c: "abs_coalesce F p k = (F', p', k')" by (cases "abs_coalesce F p k")
  from abs_coalesce_ok [OF c assms] have *: "F' \<subseteq> F" "block_ok p' k'" "blocks_ok F'"
    "frames p' k' \<inter> frames_of F' = {}" "frames p' k' \<union> frames_of F' = frames p k \<union> frames_of F"
    "k' + 1 < PMM_MAX_ORDER \<Longrightarrow> (buddy p' k', k') \<notin> F'"
    by auto
  from * show "blocks_ok (abs_release p k F)" "frames_of (abs_release p k F) = frames p k \<union> frames_of F"
    by (simp_all add: abs_release_def c blocks_ok_insert)
  show "coalesced (abs_release p k F)" if "coalesced F"
    using coalesced_insert [OF coalesced_subset [OF that *(1)] *(3,2,6)] by (simp add: abs_release_def c)
qed

subsection \<open>Splitting\<close>

text \<open>The upper halves that splitting \<open>(p, c)\<close> down to order \<open>k\<close> sets free.\<close>

definition upper_halves :: "nat \<Rightarrow> nat \<Rightarrow> nat \<Rightarrow> block set" where
  "upper_halves p k c = (\<lambda>j. (p + 2 ^ j, j)) ` {k..<c}"

definition abs_take :: "nat \<Rightarrow> nat \<Rightarrow> nat \<Rightarrow> block set \<Rightarrow> block set" where
  "abs_take p k c F = upper_halves p k c \<union> (F - {(p, c)})"

lemma upper_halves_empty [simp]: "c \<le> k \<Longrightarrow> upper_halves p k c = {}"
  by (simp add: upper_halves_def)

lemma upper_halves_Suc:
  "k \<le> c \<Longrightarrow> upper_halves p k (Suc c) = insert (p + 2 ^ c, c) (upper_halves p k c)"
  by (auto simp: upper_halves_def atLeastLessThanSuc)

lemma upper_halves_ok:
  assumes "k \<le> c" and "block_ok p c"
  shows "blocks_ok (upper_halves p k c) \<and> frames p k \<inter> frames_of (upper_halves p k c) = {} \<and>
    frames p k \<union> frames_of (upper_halves p k c) = frames p c \<and> coalesced (upper_halves p k c)"
  using assms
proof (induction c rule: dec_induct)
  case base
  then show ?case by (simp add: blocks_ok_def coalesced_def)
next
  case (step c)
  have ok: "2 ^ Suc c dvd p" "Suc c < PMM_MAX_ORDER" using step.prems by (simp_all add: block_ok_def)
  note half = upper_half [OF ok(1)]
  have okc: "block_ok p c" "block_ok (p + 2 ^ c) c" using half ok(2) by (auto simp: block_ok_def)
  note IH = step.IH [OF okc(1)]
  have disj: "frames (p + 2 ^ c) c \<inter> frames_of (upper_halves p k c) = {}"
    using IH half(6) by blast
  have ok': "blocks_ok (insert (p + 2 ^ c, c) (upper_halves p k c))"
    using IH okc(2) disj by (intro blocks_ok_insert) auto
  have "(p, c) \<notin> upper_halves p k c" by (auto simp: upper_halves_def)
  then have "coalesced (insert (p + 2 ^ c, c) (upper_halves p k c))"
    using IH okc(2) half(4) by (intro coalesced_insert) auto
  with ok' IH half(5,6) disj show ?case
    unfolding upper_halves_Suc [OF step.hyps(1)] frames_of_simps by blast
qed

lemma coalesced_union:
  assumes F: "coalesced F" and G: "coalesced G" and okF: "blocks_ok F" and okG: "blocks_ok G"
    and apart: "\<And>p k. (p, k) \<in> G \<Longrightarrow> k + 1 < PMM_MAX_ORDER \<Longrightarrow> (buddy p k, k) \<notin> F"
  shows "coalesced (G \<union> F)"
proof -
  have "(buddy q j, j) \<notin> G" if q: "(q, j) \<in> F" "j + 1 < PMM_MAX_ORDER" for q j
    using apart [of "buddy q j" j] buddy_buddy [of j q] blocks_ok_mem [OF okF q(1)] q
    by (auto simp: block_ok_def)
  with F G apart show ?thesis by (fastforce simp: coalesced_def)
qed

lemma abs_take_ok:
  assumes ok: "blocks_ok F" and mem: "(p, c) \<in> F" and kc: "k \<le> c"
  shows "blocks_ok (abs_take p k c F)" and "frames p k \<inter> frames_of (abs_take p k c F) = {}"
    and "frames p k \<union> frames_of (abs_take p k c F) = frames_of F"
    and "coalesced F \<Longrightarrow> coalesced (abs_take p k c F)"
proof -
  note okpc = blocks_ok_mem [OF ok mem]
  note up = upper_halves_ok [OF kc okpc]
  have okF: "blocks_ok (F - {(p, c)})" using ok by (rule blocks_ok_subset) auto
  have fr: "frames_of (F - {(p, c)}) = frames_of F - frames p c"
    using frames_of_remove [OF ok mem] .
  have sub: "frames p c \<subseteq> frames_of F" using mem by (rule frames_of_mem)
  have disj: "frames_of (upper_halves p k c) \<inter> frames_of (F - {(p, c)}) = {}"
    using up unfolding fr by blast
  show "blocks_ok (abs_take p k c F)"
    unfolding abs_take_def using up okF disj by (intro blocks_ok_union) auto
  show "frames p k \<inter> frames_of (abs_take p k c F) = {}"
    and "frames p k \<union> frames_of (abs_take p k c F) = frames_of F"
    using up fr sub unfolding abs_take_def frames_of_simps by blast+
  show "coalesced (abs_take p k c F)" if "coalesced F"
    unfolding abs_take_def
  proof (rule coalesced_union)
    fix q j assume q: "(q, j) \<in> upper_halves p k c"
    then have qj: "q = p + 2 ^ j" "k \<le> j" "j < c" by (auto simp: upper_halves_def)
    have "2 ^ Suc j dvd p" using okpc qj(3) power_le_dvd [of 2 c p "Suc j"] by (simp add: block_ok_def)
    then have "buddy q j = p" using upper_half(4) qj(1) by blast
    moreover have "(p, j) \<notin> F - {(p, c)}"
    proof
      assume "(p, j) \<in> F - {(p, c)}"
      then have "frames p j \<subseteq> frames_of (F - {(p, c)})" by (rule frames_of_mem)
      then have "p \<in> frames_of (F - {(p, c)})" using frames_nonempty [of p j] by blast
      then show False unfolding fr using frames_nonempty [of p c] by simp
    qed
    ultimately show "(buddy q j, j) \<notin> F - {(p, c)}" by simp
  qed (use up okF coalesced_subset [OF that] in auto)
qed

subsection \<open>Coalesced sets are canonical\<close>

lemma coalesced_covers:
  assumes F: "blocks_ok F" "coalesced F"
  shows "block_ok p k \<Longrightarrow> frames p k \<subseteq> frames_of F \<Longrightarrow> \<exists>q j. (q, j) \<in> F \<and> frames p k \<subseteq> frames q j"
proof (induction k arbitrary: p)
  case 0
  then have "p \<in> frames_of F" using frames_nonempty by blast
  then obtain q j where "(q, j) \<in> F" "p \<in> frames q j" by (auto simp: frames_of_def)
  then show ?case by (auto simp: frames_def)
next
  case (Suc k)
  have ok: "2 ^ Suc k dvd p" "Suc k < PMM_MAX_ORDER" using Suc.prems by (simp_all add: block_ok_def)
  note half = upper_half [OF ok(1)]
  have okk: "block_ok p k" "block_ok (p + 2 ^ k) k" using half ok(2) by (auto simp: block_ok_def)
  from Suc.IH [OF okk(1)] Suc.prems(2) half(5) obtain q1 j1
    where q1: "(q1, j1) \<in> F" "frames p k \<subseteq> frames q1 j1" by blast
  from Suc.IH [OF okk(2)] Suc.prems(2) half(5) obtain q2 j2
    where q2: "(q2, j2) \<in> F" "frames (p + 2 ^ k) k \<subseteq> frames q2 j2" by blast
  have al: "2 ^ j1 dvd q1" "2 ^ j2 dvd q2"
    using blocks_ok_mem [OF F(1)] q1(1) q2(1) by (auto simp: block_ok_def)
  have larger: "\<exists>q j. (q, j) \<in> F \<and> frames p (Suc k) \<subseteq> frames q j"
    if "(q, j) \<in> F" "2 ^ j dvd q" "Suc k \<le> j" "x \<in> frames p (Suc k)" "x \<in> frames q j" for q j x
    using frames_nested [OF ok(1) that(2,3)] that by blast
  show ?case
  proof (cases "Suc k \<le> j1 \<or> Suc k \<le> j2")
    case True
    have "p \<in> frames p (Suc k)" "p + 2 ^ k \<in> frames p (Suc k)" by (auto simp: frames_def)
    moreover have "p \<in> frames q1 j1" "p + 2 ^ k \<in> frames q2 j2"
      using q1(2) q2(2) frames_nonempty by blast+
    ultimately show ?thesis
      using True larger [OF q1(1) al(1)] larger [OF q2(1) al(2)] by metis
  next
    case False
    with frames_subset_order [OF q1(2)] frames_subset_order [OF q2(2)]
    have j: "j1 = k" "j2 = k" by auto
    have "frames q1 j1 = frames p k" "frames q2 j2 = frames (p + 2 ^ k) k"
      using q1(2) q2(2) j by (metis card_frames card_subset_eq finite_frames)+
    then have "(p, k) \<in> F" "(buddy p k, k) \<in> F"
      using frames_inject q1(1) q2(1) half(3) by metis+
    with F(2) ok(2) show ?thesis by (auto simp: coalesced_def)
  qed
qed

lemma coalesced_subset_eq:
  assumes F: "blocks_ok F" "coalesced F" and G: "blocks_ok G" "coalesced G"
    and eq: "frames_of F = frames_of G"
  shows "F \<subseteq> G"
proof
  fix b assume "b \<in> F"
  then obtain p k where b: "b = (p, k)" "(p, k) \<in> F" by (cases b) auto
  have "frames p k \<subseteq> frames_of G" using frames_of_mem [OF b(2)] eq by simp
  then obtain q j where q: "(q, j) \<in> G" "frames p k \<subseteq> frames q j"
    using coalesced_covers [OF G blocks_ok_mem [OF F(1) b(2)]] by blast
  have "frames q j \<subseteq> frames_of F" using frames_of_mem [OF q(1)] eq by simp
  then obtain r i where r: "(r, i) \<in> F" "frames q j \<subseteq> frames r i"
    using coalesced_covers [OF F blocks_ok_mem [OF G(1) q(1)]] by blast
  have "p \<in> frames r i" using q(2) r(2) frames_nonempty by blast
  then have "r = p \<and> i = k"
    using blocks_ok_overlap [OF F(1) b(2) r(1) frames_nonempty] by auto
  then have "frames q j = frames p k" using q(2) r(2) by auto
  then show "b \<in> G" using frames_inject q(1) b(1) by metis
qed

theorem coalesced_unique:
  assumes "blocks_ok F" "coalesced F" "blocks_ok G" "coalesced G" "frames_of F = frames_of G"
  shows "F = G"
  using coalesced_subset_eq assms by (metis subset_antisym)

end
