(* ===== verification/Pmm.thy ===== *)
theory Pmm
  imports Pfndb Buddy
begin

text \<open>
  \<open>kernel/src/mm/pmm.c\<close>: the physical memory manager, a binary buddy allocator whose free
  lists are doubly linked through the page descriptors of the page frame database.

  State: the record \<open>pmm\<close> extends the page frame database with the four static variables of
  the file.  Every function is translated with its loops; an access through NULL, beyond the
  database or beyond \<open>g_free_lists[PMM_MAX_ORDER]\<close> makes the result \<open>None\<close>.
\<close>

section \<open>State\<close>

record pmm_free_list =
  fl_head :: page_ptr
  fl_count :: u64

record pmm = pfndb +
  g_free_lists :: "nat \<Rightarrow> pmm_free_list"
  g_free_pages :: u64
  g_total_pages :: u64
  g_pmm_ready :: bool

definition free_list_read :: "u8 \<Rightarrow> pmm \<Rightarrow> pmm_free_list option" where
  "free_list_read order s =
     (if unat order < PMM_MAX_ORDER then Some (g_free_lists s (unat order)) else None)"

definition free_list_write :: "u8 \<Rightarrow> pmm_free_list \<Rightarrow> pmm \<Rightarrow> pmm option" where
  "free_list_write order fl s =
     (if unat order < PMM_MAX_ORDER
      then Some (s\<lparr>g_free_lists := (g_free_lists s)(unat order := fl)\<rparr>) else None)"

section \<open>Free lists\<close>

definition pmm_prepare_page :: "page_ptr \<Rightarrow> u32 \<Rightarrow> u8 \<Rightarrow> pmm \<Rightarrow> pmm option" where
  "pmm_prepare_page page flags order s = page_write page (page_set_state flags order) s"

definition pmm_list_push :: "u8 \<Rightarrow> page_ptr \<Rightarrow> pmm \<Rightarrow> pmm option" where
  "pmm_list_push order page s = do {
     s \<leftarrow> page_write page page_reset_links s;
     fl \<leftarrow> free_list_read order s;
     s \<leftarrow> page_write page (\<lambda>p. p\<lparr>pg_next := fl_head fl\<rparr>) s;
     s \<leftarrow> (if fl_head fl \<noteq> NULL_page
           then page_write (fl_head fl) (\<lambda>p. p\<lparr>pg_prev := page\<rparr>) s else Some s);
     free_list_write order \<lparr>fl_head = page, fl_count = fl_count fl + 1\<rparr> s }"

definition pmm_list_remove :: "u8 \<Rightarrow> page_ptr \<Rightarrow> pmm \<Rightarrow> pmm option" where
  "pmm_list_remove order page s = do {
     p \<leftarrow> page_read page s;
     s \<leftarrow> (if pg_prev p \<noteq> NULL_page
           then page_write (pg_prev p) (\<lambda>q. q\<lparr>pg_next := pg_next p\<rparr>) s
           else do { fl \<leftarrow> free_list_read order s;
                     free_list_write order (fl\<lparr>fl_head := pg_next p\<rparr>) s });
     p \<leftarrow> page_read page s;
     s \<leftarrow> (if pg_next p \<noteq> NULL_page
           then page_write (pg_next p) (\<lambda>q. q\<lparr>pg_prev := pg_prev p\<rparr>) s else Some s);
     s \<leftarrow> page_write page page_reset_links s;
     fl \<leftarrow> free_list_read order s;
     free_list_write order (fl\<lparr>fl_count := fl_count fl - 1\<rparr>) s }"

section \<open>Freeing a block\<close>

definition pmm_buddy_pfn :: "u64 \<Rightarrow> u8 \<Rightarrow> u64" where
  "pmm_buddy_pfn pfn order = pfn XOR push_bit (unat order) 1"

text \<open>The \<open>while\<close> loop of \<open>pmm_free_block\<close>; the result is the loop's final \<open>page\<close> and \<open>order\<close>.\<close>

function pmm_coalesce ::
  "u64 \<Rightarrow> page_ptr \<Rightarrow> u8 \<Rightarrow> pmm \<Rightarrow> (page_ptr \<times> u8 \<times> pmm) option" where
  "pmm_coalesce pfn page order s =
     (if unat order + 1 < PMM_MAX_ORDER then
        let buddy_pfn = pmm_buddy_pfn pfn order in
        if buddy_pfn > pfndb_get_max_pfn s then Some (page, order, s)
        else
          let buddy = pfn_to_page buddy_pfn s in
          if buddy = NULL_page then Some (page, order, s)
          else do {
            b \<leftarrow> page_read buddy s;
            if \<not> PageFree b \<or> pg_order b \<noteq> order then Some (page, order, s)
            else do {
              s \<leftarrow> pmm_list_remove order buddy s;
              let (pfn, page) = (if buddy_pfn < pfn then (buddy_pfn, buddy) else (pfn, page));
              let order' = order + 1;
              s \<leftarrow> page_write page (\<lambda>p. p\<lparr>pg_order := order'\<rparr>) s;
              pmm_coalesce pfn page order' s } }
      else Some (page, order, s))"
  by pat_completeness auto
termination
  by (relation "measure (\<lambda>(pfn, page, order, s). PMM_MAX_ORDER - unat order)")
    (auto simp: PMM_MAX_ORDER_def unat_word_ariths)

declare pmm_coalesce.simps [simp del]

definition pmm_free_block :: "page_ptr \<Rightarrow> pmm \<Rightarrow> pmm option" where
  "pmm_free_block page s = do {
     let pfn = page_to_pfn page s;
     p \<leftarrow> page_read page s;
     (page, order, s) \<leftarrow> pmm_coalesce pfn page (pg_order p) s;
     s \<leftarrow> pmm_prepare_page page PAGE_FREE order s;
     pmm_list_push order page s }"

section \<open>Initialisation\<close>

definition init_scan_page :: "nat \<Rightarrow> pmm \<Rightarrow> pmm option" where
  "init_scan_page pfn s =
     (let page = pfn_to_page (of_nat pfn) s in
      if page = NULL_page then Some s
      else do {
        s \<leftarrow> page_write page (\<lambda>p. p\<lparr>pg_order := 0\<rparr>) s;
        s \<leftarrow> page_write page page_reset_links s;
        p \<leftarrow> page_read page s;
        if PageFree p then do {
          s \<leftarrow> page_write page SetPageUsed s;
          s \<leftarrow> page_write page ClearPageFree s;
          Some (s\<lparr>g_total_pages := g_total_pages s + 1\<rparr>) }
        else Some s })"

definition init_release_page :: "nat \<Rightarrow> pmm \<Rightarrow> pmm option" where
  "init_release_page pfn s =
     (let page = pfn_to_page (of_nat pfn) s in
      if page = NULL_page then Some s
      else do {
        p \<leftarrow> page_read page s;
        if \<not> PageUsed p \<or> PageReserved p then Some s
        else pmm_free_block page (s\<lparr>g_free_pages := g_free_pages s + 1\<rparr>) })"

definition pmm_init :: "pmm \<Rightarrow> (bool \<times> pmm) option" where
  "pmm_init s =
     (if pfndb_get_db s = None then Some (False, s)
      else do {
        let s = s\<lparr>g_free_lists := (\<lambda>_. \<lparr>fl_head = NULL_page, fl_count = 0\<rparr>),
                  g_free_pages := 0, g_total_pages := 0, g_pmm_ready := False\<rparr>;
        s \<leftarrow> for_each init_scan_page [0..<Suc (unat (pfndb_get_max_pfn s))] s;
        s \<leftarrow> for_each init_release_page [0..<Suc (unat (pfndb_get_max_pfn s))] s;
        Some (True, s\<lparr>g_pmm_ready := True\<rparr>) })"

definition pmm_is_ready :: "pmm \<Rightarrow> bool" where
  "pmm_is_ready s = g_pmm_ready s"

section \<open>Allocation\<close>

text \<open>
  The inner loop \<open>while (current > order)\<close>: split the block at \<open>page\<close> down to \<open>order\<close>, returning
  the upper halves to the free lists.
\<close>

function pmm_split :: "page_ptr \<Rightarrow> u8 \<Rightarrow> u8 \<Rightarrow> pmm \<Rightarrow> pmm option" where
  "pmm_split page order current s =
     (if current > order then do {
        let current' = current - 1;
        let buddy = pfn_to_page (page_to_pfn page s + push_bit (unat current') 1) s;
        s \<leftarrow> pmm_prepare_page buddy PAGE_FREE current' s;
        s \<leftarrow> pmm_list_push current' buddy s;
        pmm_split page order current' s }
      else Some s)"
  by pat_completeness auto
termination
proof (relation "measure (\<lambda>(page, order, current, s). unat current)", goal_cases)
  case (2 page order current s)
  then have "current \<noteq> 0" by auto
  with 2 show ?case by (simp add: unat_minus_1 unat_gt_0)
qed simp

declare pmm_split.simps [simp del]

function page_alloc_loop :: "u8 \<Rightarrow> u8 \<Rightarrow> pmm \<Rightarrow> (page_ptr \<times> pmm) option" where
  "page_alloc_loop order current s =
     (if unat current < PMM_MAX_ORDER then do {
        fl \<leftarrow> free_list_read current s;
        let page = fl_head fl;
        if page = NULL_page then page_alloc_loop order (current + 1) s
        else do {
          s \<leftarrow> pmm_list_remove current page s;
          s \<leftarrow> pmm_split page order current s;
          s \<leftarrow> pmm_prepare_page page PAGE_USED order s;
          Some (page, s\<lparr>g_free_pages := g_free_pages s - push_bit (unat order) 1\<rparr>) } }
      else Some (NULL_page, s))"
  by pat_completeness auto
termination
  by (relation "measure (\<lambda>(order, current, s). PMM_MAX_ORDER - unat current)")
    (auto simp: PMM_MAX_ORDER_def unat_word_ariths)

declare page_alloc_loop.simps [simp del]

definition page_alloc :: "u8 \<Rightarrow> pmm \<Rightarrow> (page_ptr \<times> pmm) option" where
  "page_alloc order s =
     (if \<not> g_pmm_ready s then Some (NULL_page, s)
      else if unat order \<ge> PMM_MAX_ORDER then Some (NULL_page, s)
      else page_alloc_loop order order s)"

text \<open>\<open>pmm_alloc\<close> repeats the code of \<open>page_alloc\<close> and returns an address.\<close>

function pmm_alloc_loop :: "u64 \<Rightarrow> u8 \<Rightarrow> u8 \<Rightarrow> pmm \<Rightarrow> (u64 \<times> pmm) option" where
  "pmm_alloc_loop hhdm order current s =
     (if unat current < PMM_MAX_ORDER then do {
        fl \<leftarrow> free_list_read current s;
        let page = fl_head fl;
        if page = NULL_page then pmm_alloc_loop hhdm order (current + 1) s
        else do {
          s \<leftarrow> pmm_list_remove current page s;
          s \<leftarrow> pmm_split page order current s;
          s \<leftarrow> pmm_prepare_page page PAGE_USED order s;
          let s = s\<lparr>g_free_pages := g_free_pages s - push_bit (unat order) 1\<rparr>;
          Some (PHYS_TO_VIRT hhdm (page_to_phys page s), s) } }
      else Some (0, s))"
  by pat_completeness auto
termination
  by (relation "measure (\<lambda>(hhdm, order, current, s). PMM_MAX_ORDER - unat current)")
    (auto simp: PMM_MAX_ORDER_def unat_word_ariths)

declare pmm_alloc_loop.simps [simp del]

definition pmm_alloc :: "u64 \<Rightarrow> u8 \<Rightarrow> pmm \<Rightarrow> (u64 \<times> pmm) option" where
  "pmm_alloc hhdm order s =
     (if \<not> g_pmm_ready s then Some (0, s)
      else if unat order \<ge> PMM_MAX_ORDER then Some (0, s)
      else pmm_alloc_loop hhdm order order s)"

section \<open>Free\<close>

definition pmm_free :: "u64 \<Rightarrow> u64 \<Rightarrow> pmm \<Rightarrow> pmm option" where
  "pmm_free hhdm ptr s =
     (if \<not> g_pmm_ready s then Some s
      else if ptr = 0 then Some s
      else
        let page = phys_to_page (VIRT_TO_PHYS hhdm ptr) s in
        if page = NULL_page then Some s
        else do {
          p \<leftarrow> page_read page s;
          if PageReserved p then Some s
          else if PageFree p then Some s
          else
            pmm_free_block page
              (s\<lparr>g_free_pages := g_free_pages s + push_bit (unat (pg_order p)) 1\<rparr>) })"

definition pmm_free_pages :: "pmm \<Rightarrow> u64" where
  "pmm_free_pages s = g_free_pages s"

definition pmm_total_pages :: "pmm \<Rightarrow> u64" where
  "pmm_total_pages s = g_total_pages s"

end
