(* ===== verification/PmmLists.thy ===== *)
theory PmmLists
  imports Pmm
begin

text \<open>
  The free lists of the physical memory manager as lists of frame numbers: the list segment
  predicate \<open>dll\<close> ties the \<open>next\<close>/\<open>prev\<close> fields to a ghost list, \<open>free_lists_rep\<close> relates the whole
  array \<open>g_free_lists\<close> to a function from orders to ghost lists, and push and remove are shown
  to be cons and \<open>remove1\<close> on them, without touching anything but links.
\<close>

section \<open>Doubly linked segments\<close>

fun dll :: "(nat \<Rightarrow> page) \<Rightarrow> page_ptr \<Rightarrow> page_ptr \<Rightarrow> nat list \<Rightarrow> page_ptr \<Rightarrow> bool" where
  "dll db prv p [] q \<longleftrightarrow> p = q"
| "dll db prv p (x # xs) q \<longleftrightarrow>
     p = Some x \<and> pg_prev (db x) = prv \<and> dll db (Some x) (pg_next (db x)) xs q"

definition last_ptr :: "page_ptr \<Rightarrow> nat list \<Rightarrow> page_ptr" where
  "last_ptr prv xs = (if xs = [] then prv else Some (last xs))"

lemma last_ptr_simps [simp]:
  "last_ptr prv [] = prv"
  "last_ptr prv (x # xs) = last_ptr (Some x) xs"
  by (simp_all add: last_ptr_def)

lemma dll_append:
  "dll db prv p (xs @ ys) q \<longleftrightarrow> (\<exists>m. dll db prv p xs m \<and> dll db (last_ptr prv xs) m ys q)"
  by (induction xs arbitrary: prv p) auto

lemma dll_cong:
  assumes "\<And>x. x \<in> set xs \<Longrightarrow> pg_next (db x) = pg_next (db' x) \<and> pg_prev (db x) = pg_prev (db' x)"
  shows "dll db prv p xs q = dll db' prv p xs q"
  using assms by (induction xs arbitrary: prv p) auto

lemma dll_update_notin [simp]:
  "i \<notin> set xs \<Longrightarrow> dll (db(i := pg)) prv p xs q = dll db prv p xs q"
  by (rule dll_cong) auto

lemma dll_relink_last:
  assumes "dll db prv p xs q" and "xs \<noteq> []" and "distinct xs"
  shows "dll (db(last xs := (db (last xs))\<lparr>pg_next := n\<rparr>)) prv p xs n"
proof -
  have xs: "xs = butlast xs @ [last xs]" using assms(2) by simp
  have notin: "last xs \<notin> set (butlast xs)" using assms(3)
    by (subst (asm) xs) simp
  from assms(1) have "dll db prv p (butlast xs @ [last xs]) q" using xs by simp
  then have "dll (db(last xs := (db (last xs))\<lparr>pg_next := n\<rparr>)) prv p (butlast xs @ [last xs]) n"
    unfolding dll_append using notin by auto
  then show ?thesis using xs by simp
qed

lemma dll_relink_first:
  assumes "dll db prv p (y # ys) q" and "y \<notin> set ys"
  shows "dll (db(y := (db y)\<lparr>pg_prev := prv'\<rparr>)) prv' p (y # ys) q"
  using assms by simp

section \<open>The array of free lists\<close>

abbreviation db_of :: "'a pfndb_scheme \<Rightarrow> nat \<Rightarrow> page" where
  "db_of s \<equiv> the (g_pfndb s)"

abbreviation max_of :: "'a pfndb_scheme \<Rightarrow> nat" where
  "max_of s \<equiv> unat (g_max_pfn s)"

definition free_list_rep :: "nat list \<Rightarrow> nat \<Rightarrow> pmm \<Rightarrow> bool" where
  "free_list_rep xs k s \<longleftrightarrow>
     dll (db_of s) None (fl_head (g_free_lists s k)) xs None \<and> distinct xs \<and>
     fl_count (g_free_lists s k) = of_nat (length xs) \<and> (\<forall>x\<in>set xs. x \<le> max_of s)"

definition free_lists_rep :: "(nat \<Rightarrow> nat list) \<Rightarrow> pmm \<Rightarrow> bool" where
  "free_lists_rep L s \<longleftrightarrow>
     g_pfndb s \<noteq> None \<and>
     (\<forall>k < PMM_MAX_ORDER. free_list_rep (L k) k s) \<and>
     (\<forall>j < PMM_MAX_ORDER. \<forall>k < PMM_MAX_ORDER. j \<noteq> k \<longrightarrow> set (L j) \<inter> set (L k) = {})"

text \<open>Nothing changes but the links of descriptors and the heads and counts of the lists.\<close>

definition links_only :: "pmm \<Rightarrow> pmm \<Rightarrow> bool" where
  "links_only s s' \<longleftrightarrow>
     g_pfndb s \<noteq> None \<and> g_pfndb s' \<noteq> None \<and>
     g_max_pfn s' = g_max_pfn s \<and> g_pfndb_phys s' = g_pfndb_phys s \<and>
     g_free_pages s' = g_free_pages s \<and> g_total_pages s' = g_total_pages s \<and>
     g_pmm_ready s' = g_pmm_ready s \<and>
     (\<forall>i. pg_flags (db_of s' i) = pg_flags (db_of s i) \<and> pg_order (db_of s' i) = pg_order (db_of s i))"

lemma links_only_trans [trans]: "links_only s t \<Longrightarrow> links_only t u \<Longrightarrow> links_only s u"
  by (simp add: links_only_def)

lemma page_read_Some [page_simps]:
  "g_pfndb s = Some db \<Longrightarrow> i \<le> max_of s \<Longrightarrow> page_read (Some i) s = Some (db i)"
  by (simp add: page_read_def)

lemma page_write_Some [page_simps]:
  "g_pfndb s = Some db \<Longrightarrow> i \<le> max_of s \<Longrightarrow>
   page_write (Some i) f s = Some (s\<lparr>g_pfndb := Some (db(i := f (db i)))\<rparr>)"
  by (simp add: page_write_def)

lemma free_list_read_Some [page_simps]:
  "unat k < PMM_MAX_ORDER \<Longrightarrow> free_list_read k s = Some (g_free_lists s (unat k))"
  by (simp add: free_list_read_def)

lemma free_list_write_Some [page_simps]:
  "unat k < PMM_MAX_ORDER \<Longrightarrow>
   free_list_write k fl s = Some (s\<lparr>g_free_lists := (g_free_lists s)(unat k := fl)\<rparr>)"
  by (simp add: free_list_write_def)

lemma free_lists_rep_upd:
  assumes rep: "free_lists_rep L s" and k: "k < PMM_MAX_ORDER"
    and db: "g_pfndb s = Some db" and db': "g_pfndb s' = Some db'"
    and max: "g_max_pfn s' = g_max_pfn s"
    and others: "\<And>j. j \<noteq> k \<Longrightarrow> g_free_lists s' j = g_free_lists s j"
    and links: "\<And>x. x \<notin> set (L k) \<Longrightarrow> x \<notin> set xs \<Longrightarrow>
                  pg_next (db' x) = pg_next (db x) \<and> pg_prev (db' x) = pg_prev (db x)"
    and new: "free_list_rep xs k s'"
    and disj: "\<And>j. j < PMM_MAX_ORDER \<Longrightarrow> j \<noteq> k \<Longrightarrow> set xs \<inter> set (L j) = {}"
  shows "free_lists_rep (L(k := xs)) s'"
proof -
  have "free_list_rep (L j) j s'" if j: "j < PMM_MAX_ORDER" "j \<noteq> k" for j
  proof -
    from rep j have old: "free_list_rep (L j) j s" by (simp add: free_lists_rep_def)
    have "x \<notin> set (L k) \<and> x \<notin> set xs" if "x \<in> set (L j)" for x
      using that rep k j disj [of j] unfolding free_lists_rep_def by blast
    then have "dll db' None (fl_head (g_free_lists s j)) (L j) None =
        dll db None (fl_head (g_free_lists s j)) (L j) None"
      using links by (intro dll_cong) blast
    with old j others [of j] show ?thesis
      by (simp add: free_list_rep_def db db' max)
  qed
  with rep new disj k show ?thesis
    by (auto simp: free_lists_rep_def db')
qed

subsection \<open>Push\<close>

lemma pmm_list_push_rep:
  assumes rep: "free_lists_rep L s" and k: "unat k < PMM_MAX_ORDER"
    and i: "i \<le> max_of s" and fresh: "\<And>j. j < PMM_MAX_ORDER \<Longrightarrow> i \<notin> set (L j)"
  shows "\<exists>s'. pmm_list_push k (Some i) s = Some s' \<and> links_only s s' \<and>
           free_lists_rep (L(unat k := i # L (unat k))) s'"
proof -
  let ?k = "unat k" and ?h = "fl_head (g_free_lists s (unat k))"
  from rep obtain db where db: "g_pfndb s = Some db" by (auto simp: free_lists_rep_def)
  from rep k have old: "free_list_rep (L ?k) ?k s" by (simp add: free_lists_rep_def)
  then have seg: "dll db None ?h (L ?k) None" and dist: "distinct (L ?k)"
    and le: "\<forall>x\<in>set (L ?k). x \<le> max_of s"
    by (simp_all add: free_list_rep_def db)
  define db1 where "db1 = db(i := (page_reset_links (db i))\<lparr>pg_next := ?h\<rparr>)"
  define db2 where
    "db2 = (case ?h of None \<Rightarrow> db1 | Some h \<Rightarrow> db1(h := (db1 h)\<lparr>pg_prev := Some i\<rparr>))"
  define s' where "s' = s\<lparr>g_pfndb := Some db2, g_free_lists := (g_free_lists s)
    (?k := \<lparr>fl_head = Some i, fl_count = fl_count (g_free_lists s ?k) + 1\<rparr>)\<rparr>"
  have head: "L ?k = h # tl (L ?k)" if "?h = Some h" for h
    using seg that by (cases "L ?k") auto
  have hle: "h \<le> max_of s" "h \<noteq> i" "h \<in> set (L ?k)" if "?h = Some h" for h
    using head [OF that] le fresh [OF k] by (metis list.set_intros(1))+
  have step: "pmm_list_push k (Some i) s = Some s'"
    using hle by (cases ?h)
      (auto simp: pmm_list_push_def page_simps db i k s'_def db1_def db2_def)
  have fields: "pg_flags (db2 j) = pg_flags (db j) \<and> pg_order (db2 j) = pg_order (db j)" for j
    by (cases ?h) (auto simp: db2_def db1_def page_simps)
  have "dll db2 None (Some i) (i # L ?k) None"
  proof (cases ?h)
    case None
    with seg have "L ?k = []" by (cases "L ?k") auto
    with None show ?thesis by (simp add: db2_def db1_def page_simps)
  next
    case (Some h)
    obtain t where t: "L ?k = h # t" using head [OF Some] by blast
    have "dll db1 None (Some h) (h # t) None"
      using seg fresh [OF k] t Some by (simp add: db1_def)
    then have "dll db2 (Some i) (Some h) (h # t) None"
      using dll_relink_first [of db1 None "Some h" h t None "Some i"] dist Some t
      by (simp add: db2_def)
    moreover have "db2 i = (page_reset_links (db i))\<lparr>pg_next := ?h\<rparr>"
      using hle(2) [OF Some] Some by (simp add: db2_def db1_def)
    ultimately show ?thesis using t Some by (simp add: page_simps)
  qed
  then have new: "free_list_rep (i # L ?k) ?k s'"
    using old fresh [OF k] i by (auto simp: free_list_rep_def s'_def)
  have "free_lists_rep (L(?k := i # L ?k)) s'"
  proof (rule free_lists_rep_upd [OF rep k db _ _ _ _ new])
    show "g_pfndb s' = Some db2" by (simp add: s'_def)
    show "pg_next (db2 x) = pg_next (db x) \<and> pg_prev (db2 x) = pg_prev (db x)"
      if "x \<notin> set (L ?k)" "x \<notin> set (i # L ?k)" for x
      using that hle(3) by (cases ?h) (auto simp: db2_def db1_def)
  qed (use rep k fresh in \<open>auto simp: s'_def free_lists_rep_def\<close>)
  with step fields show ?thesis by (auto simp: links_only_def s'_def db)
qed

subsection \<open>Remove\<close>

text \<open>What removing \<open>i\<close> does to the descriptors: its neighbours are linked to each other.\<close>

definition link_next :: "page_ptr \<Rightarrow> page_ptr \<Rightarrow> (nat \<Rightarrow> page) \<Rightarrow> (nat \<Rightarrow> page)" where
  "link_next p n db = (case p of None \<Rightarrow> db | Some q \<Rightarrow> db(q := (db q)\<lparr>pg_next := n\<rparr>))"

definition link_prev :: "page_ptr \<Rightarrow> page_ptr \<Rightarrow> (nat \<Rightarrow> page) \<Rightarrow> (nat \<Rightarrow> page)" where
  "link_prev n p db = (case n of None \<Rightarrow> db | Some q \<Rightarrow> db(q := (db q)\<lparr>pg_prev := p\<rparr>))"

definition unlink :: "nat \<Rightarrow> (nat \<Rightarrow> page) \<Rightarrow> nat \<Rightarrow> page" where
  "unlink i db =
     (let n = pg_next (db i); p = pg_prev (db i); db2 = link_prev n p (link_next p n db)
      in db2(i := page_reset_links (db2 i)))"

lemma dll_neighbours:
  assumes "dll db None h (xs @ i # ys) None"
  shows "dll db None h xs (Some i)" "dll db (Some i) (pg_next (db i)) ys None" "pg_prev (db i) = last_ptr None xs"
    "pg_prev (db i) = Some q \<Longrightarrow> q \<in> set xs \<and> q = last xs" "pg_next (db i) = Some q \<Longrightarrow> q \<in> set ys \<and> ys = q # tl ys"
proof -
  show s: "dll db None h xs (Some i)" "dll db (Some i) (pg_next (db i)) ys None" "pg_prev (db i) = last_ptr None xs"
    using assms by (auto simp: dll_append)
  show "pg_prev (db i) = Some q \<Longrightarrow> q \<in> set xs \<and> q = last xs" using s(3) by (auto simp: last_ptr_def split: if_splits)
  show "pg_next (db i) = Some q \<Longrightarrow> q \<in> set ys \<and> ys = q # tl ys" using s(2) by (cases ys; auto)
qed

lemma unlink_fields: "pg_flags (unlink i db j) = pg_flags (db j) \<and> pg_order (unlink i db j) = pg_order (db j)"
  by (cases "pg_prev (db i)"; cases "pg_next (db i)") (auto simp: unlink_def link_next_def link_prev_def Let_def page_simps)

lemma unlink_other:
  assumes "j \<noteq> i" "pg_prev (db i) \<noteq> Some j" "pg_next (db i) \<noteq> Some j" shows "unlink i db j = db j"
  using assms by (auto simp: unlink_def link_next_def link_prev_def Let_def split: option.split)

lemma dll_unlink_left:
  assumes seg: "dll db None h (xs @ i # ys) None" and dist: "distinct (xs @ i # ys)"
  shows "dll (unlink i db) None (if pg_prev (db i) = None then pg_next (db i) else h) xs (pg_next (db i))"
proof -
  let ?n = "pg_next (db i)" and ?p = "pg_prev (db i)"
  note nb = dll_neighbours [OF seg]
  have d1: "dll (link_next ?p ?n db) None (if ?p = None then ?n else h) xs ?n"
  proof (cases ?p)
    case None
    then show ?thesis using nb(1,3) by (cases xs) (auto simp: link_next_def last_ptr_def)
  next
    case (Some q)
    have "xs \<noteq> []" "q = last xs" using nb(4) [OF Some] by auto
    with dll_relink_last [OF nb(1), of ?n] Some dist show ?thesis by (simp add: link_next_def)
  qed
  have "q \<notin> set xs" if "?n = Some q" for q using nb(5) [OF that] dist by auto
  then show ?thesis using d1 dist by (cases ?n) (simp_all add: unlink_def link_prev_def Let_def)
qed

lemma dll_unlink_right:
  assumes seg: "dll db None h (xs @ i # ys) None" and dist: "distinct (xs @ i # ys)"
  shows "dll (unlink i db) (pg_prev (db i)) (pg_next (db i)) ys None"
proof -
  let ?n = "pg_next (db i)" and ?p = "pg_prev (db i)"
  note nb = dll_neighbours [OF seg]
  have "q \<notin> set ys" if "?p = Some q" for q using nb(4) [OF that] dist by auto
  then have d1: "dll (link_next ?p ?n db) (Some i) ?n ys None" using nb(2) by (cases ?p) (simp_all add: link_next_def)
  show ?thesis
  proof (cases ?n)
    case None
    then show ?thesis using nb(2) by (cases ys) auto
  next
    case (Some q)
    then obtain u where u: "ys = q # u" using nb(5) by blast
    from dll_relink_first [of "link_next ?p ?n db" "Some i" ?n q u None ?p] d1 dist u Some show ?thesis
      by (simp add: unlink_def link_prev_def Let_def)
  qed
qed

lemma dll_unlink:
  assumes "dll db None h (xs @ i # ys) None" "distinct (xs @ i # ys)"
  shows "dll (unlink i db) None (if pg_prev (db i) = None then pg_next (db i) else h) (xs @ ys) None"
  using dll_unlink_left [OF assms] dll_unlink_right [OF assms] dll_neighbours(3) [OF assms(1)] by (auto simp: dll_append)

text \<open>The code is \<open>unlink\<close>, with the head of the list moved on when \<open>i\<close> was the first.\<close>

lemma pmm_list_remove_unlink:
  assumes db: "g_pfndb s = Some db" and k: "unat k < PMM_MAX_ORDER" and i: "i \<le> max_of s"
    and nb: "\<And>q. pg_prev (db i) = Some q \<or> pg_next (db i) = Some q \<Longrightarrow> q \<le> max_of s \<and> q \<noteq> i"
  shows "pmm_list_remove k (Some i) s = Some (s\<lparr>g_pfndb := Some (unlink i db), g_free_lists := (g_free_lists s)
    (unat k := \<lparr>fl_head = (if pg_prev (db i) = None then pg_next (db i) else fl_head (g_free_lists s (unat k))),
                fl_count = fl_count (g_free_lists s (unat k)) - 1\<rparr>)\<rparr>)"
proof -
  obtain hd cnt where "g_free_lists s (unat k) = \<lparr>fl_head = hd, fl_count = cnt\<rparr>"
    by (cases "g_free_lists s (unat k)") auto
  then show ?thesis using nb
    by (cases "pg_prev (db i)"; cases "pg_next (db i)")
      (auto simp: pmm_list_remove_def page_simps db i k unlink_def link_next_def link_prev_def)
qed

lemma pmm_list_remove_rep:
  assumes rep: "free_lists_rep L s" and k: "unat k < PMM_MAX_ORDER" and i: "i \<in> set (L (unat k))"
  shows "\<exists>s'. pmm_list_remove k (Some i) s = Some s' \<and> links_only s s' \<and>
           free_lists_rep (L(unat k := remove1 i (L (unat k)))) s'"
proof -
  let ?k = "unat k" and ?h = "fl_head (g_free_lists s (unat k))"
  from rep obtain db where db: "g_pfndb s = Some db" by (auto simp: free_lists_rep_def)
  from rep k have old: "free_list_rep (L ?k) ?k s" by (simp add: free_lists_rep_def)
  from i obtain xs ys where L: "L ?k = xs @ i # ys" by (meson split_list)
  from old have dist: "distinct (xs @ i # ys)" and le: "\<forall>x\<in>set (xs @ i # ys). x \<le> max_of s"
    and seg: "dll db None ?h (xs @ i # ys) None"
    by (simp_all add: free_list_rep_def db L)
  note nb = dll_neighbours(4,5) [OF seg]
  define s' where "s' = s\<lparr>g_pfndb := Some (unlink i db), g_free_lists := (g_free_lists s)
    (?k := \<lparr>fl_head = (if pg_prev (db i) = None then pg_next (db i) else ?h), fl_count = fl_count (g_free_lists s ?k) - 1\<rparr>)\<rparr>"
  have ile: "i \<le> max_of s" using le by simp
  have step: "pmm_list_remove k (Some i) s = Some s'" unfolding s'_def
    by (rule pmm_list_remove_unlink [OF db k ile]) (use nb le dist in auto)
  have new: "free_list_rep (xs @ ys) ?k s'"
    using dll_unlink [OF seg dist] old dist le by (auto simp: free_list_rep_def s'_def L)
  have "free_lists_rep (L(?k := xs @ ys)) s'"
  proof (rule free_lists_rep_upd [OF rep k db _ _ _ _ new])
    show "g_pfndb s' = Some (unlink i db)" by (simp add: s'_def)
    show "pg_next (unlink i db x) = pg_next (db x) \<and> pg_prev (unlink i db x) = pg_prev (db x)"
      if "x \<notin> set (L ?k)" "x \<notin> set (xs @ ys)" for x
    proof -
      have "x \<noteq> i" "pg_prev (db i) \<noteq> Some x" "pg_next (db i) \<noteq> Some x" using that nb [of x] by (auto simp: L)
      then show ?thesis by (simp add: unlink_other)
    qed
    show "set (xs @ ys) \<inter> set (L j) = {}" if "j < PMM_MAX_ORDER" "j \<noteq> ?k" for j
    proof -
      have "set (L ?k) \<inter> set (L j) = {}" using rep k that by (simp add: free_lists_rep_def)
      then show ?thesis by (auto simp: L)
    qed
  qed (use rep k L in \<open>auto simp: s'_def free_lists_rep_def\<close>)
  moreover have "remove1 i (L ?k) = xs @ ys" using dist by (simp add: L remove1_append)
  ultimately show ?thesis using step unlink_fields by (auto simp: links_only_def s'_def db)
qed

end
