(* ===== verification/PmmInv.thy ===== *)
theory PmmInv
  imports PmmLists Buddy
begin

text \<open>
  The invariant of the physical memory manager and the effect of its internal steps on it.

  \<open>core F A H U s\<close>: the free lists hold exactly the blocks of \<open>F\<close>, \<open>A\<close> are the blocks handed
  out, \<open>H\<close> are frames in the hands of the operation that is running, and together they
  partition the managed frames \<open>U\<close>.  The head descriptor of every block carries the block's
  order and state; nothing is claimed of the descriptors inside a block, which the code leaves
  stale.  A descriptor outside \<open>U\<close> is marked reserved.
\<close>

definition blocks_of :: "(nat \<Rightarrow> nat list) \<Rightarrow> block set" where
  "blocks_of L = {(p, k). k < PMM_MAX_ORDER \<and> p \<in> set (L k)}"

definition layout :: "block set \<Rightarrow> block set \<Rightarrow> nat set \<Rightarrow> nat set \<Rightarrow> bool" where
  "layout F A H U \<longleftrightarrow>
     blocks_ok (F \<union> A) \<and> F \<inter> A = {} \<and>
     frames_of (F \<union> A) \<inter> H = {} \<and> frames_of (F \<union> A) \<union> H = U"

definition marks :: "block set \<Rightarrow> block set \<Rightarrow> nat set \<Rightarrow> pmm \<Rightarrow> bool" where
  "marks F A U s \<longleftrightarrow>
     (\<forall>p k. (p, k) \<in> F \<longrightarrow> PageFree (db_of s p) \<and> unat (pg_order (db_of s p)) = k) \<and>
     (\<forall>p k. (p, k) \<in> A \<longrightarrow> PageUsed (db_of s p) \<and> \<not> PageFree (db_of s p) \<and> \<not> PageReserved (db_of s p) \<and>
        unat (pg_order (db_of s p)) = k) \<and>
     (\<forall>i \<le> max_of s. i \<notin> U \<longrightarrow> PageReserved (db_of s i) \<and> \<not> PageFree (db_of s i))"

definition core :: "block set \<Rightarrow> block set \<Rightarrow> nat set \<Rightarrow> nat set \<Rightarrow> pmm \<Rightarrow> bool" where
  "core F A H U s \<longleftrightarrow>
     (\<exists>L. free_lists_rep L s \<and> blocks_of L = F) \<and>
     layout F A H U \<and> marks F A U s \<and> (\<forall>i\<in>U. i \<le> max_of s) \<and> max_of s < 2 ^ 52"

definition same_globals :: "pmm \<Rightarrow> pmm \<Rightarrow> bool" where
  "same_globals s s' \<longleftrightarrow>
     g_max_pfn s' = g_max_pfn s \<and> g_pfndb_phys s' = g_pfndb_phys s \<and>
     g_free_pages s' = g_free_pages s \<and> g_total_pages s' = g_total_pages s \<and>
     g_pmm_ready s' = g_pmm_ready s"

lemma same_globals_refl [simp]: "same_globals s s"
  by (simp add: same_globals_def)

lemma same_globals_trans [trans]: "same_globals s t \<Longrightarrow> same_globals t u \<Longrightarrow> same_globals s u"
  by (simp add: same_globals_def)

lemma links_only_same_globals: "links_only s s' \<Longrightarrow> same_globals s s'"
  by (simp add: links_only_def same_globals_def)

section \<open>Layout\<close>

lemma layout_free:
  assumes "layout F A H U" "block_ok p k" "frames p k \<subseteq> H"
  shows "layout (insert (p, k) F) A (H - frames p k) U"
proof -
  have "blocks_ok (insert (p, k) (F \<union> A))"
    using assms by (intro blocks_ok_insert) (auto simp: layout_def)
  moreover have "(p, k) \<notin> A"
    using assms frames_of_mem [of p k A] frames_nonempty [of p k] by (auto simp: layout_def)
  ultimately show ?thesis using assms by (auto simp: layout_def)
qed

lemma layout_used:
  assumes "layout F A H U" "block_ok p k" "frames p k \<subseteq> H"
  shows "layout F (insert (p, k) A) (H - frames p k) U"
  using layout_free [of A F H U p k] assms by (simp add: layout_def Un_commute Int_commute)

lemma layout_unfree:
  assumes "layout F A H U" "(p, k) \<in> F"
  shows "layout (F - {(p, k)}) A (H \<union> frames p k) U"
proof -
  have "F \<union> A - {(p, k)} = (F - {(p, k)}) \<union> A" using assms by (auto simp: layout_def)
  moreover have "frames_of (F \<union> A - {(p, k)}) = frames_of (F \<union> A) - frames p k"
    using assms frames_of_remove [of "F \<union> A" p k] by (simp add: layout_def)
  moreover have "frames p k \<subseteq> frames_of (F \<union> A)" using assms(2) by (intro frames_of_mem) simp
  moreover have "blocks_ok (F \<union> A - {(p, k)})"
    using assms(1) by (auto simp: layout_def intro: blocks_ok_subset)
  ultimately show ?thesis using assms(1) unfolding layout_def by auto
qed

lemma layout_unused:
  assumes "layout F A H U" "(p, k) \<in> A"
  shows "layout F (A - {(p, k)}) (H \<union> frames p k) U"
  using layout_unfree [of A F H U p k] assms by (simp add: layout_def Un_commute Int_commute)

lemma layout_finite:
  assumes "layout F A H U" "\<forall>i\<in>U. i \<le> m" shows "finite (frames_of F)"
proof (rule finite_subset)
  show "frames_of F \<subseteq> {..m}" using assms by (auto simp: layout_def)
qed simp

section \<open>The buddy of a block in hand\<close>

lemma buddy_head:
  assumes p: "2 ^ k dvd p" and q: "2 ^ j dvd q"
    and "buddy p k \<in> frames q j" and "p \<notin> frames q j"
  shows "q = buddy p k \<and> j \<le> k"
proof -
  let ?b = "buddy p k"
  have par: "?b \<in> frames (min p ?b) (Suc k)" "p \<in> frames (min p ?b) (Suc k)"
    using parent_frames [OF p] frames_nonempty by auto
  have "j \<le> k"
  proof (rule ccontr)
    assume "\<not> j \<le> k"
    then have "frames (min p ?b) (Suc k) \<subseteq> frames q j"
      using frames_nested [OF parent_aligned [OF p] q] par(1) assms(3) by auto
    with par(2) assms(4) show False by blast
  qed
  have "2 ^ j dvd ?b" using buddy_aligned [OF p] \<open>j \<le> k\<close> by (rule power_le_dvd)
  moreover have "?b div 2 ^ j = q div 2 ^ j" using assms(3) q by (simp add: mem_frames_iff)
  ultimately have "q = ?b" using q by (metis dvd_div_mult_self)
  with \<open>j \<le> k\<close> show ?thesis by simp
qed

lemma core_buddy_free:
  assumes core: "core F A (frames p k) U s" and ok: "block_ok p k"
    and b: "buddy p k \<le> max_of s"
  shows "PageFree (db_of s (buddy p k)) \<and> unat (pg_order (db_of s (buddy p k))) = k \<longleftrightarrow>
         (buddy p k, k) \<in> F"
proof
  let ?b = "buddy p k"
  assume free: "PageFree (db_of s ?b) \<and> unat (pg_order (db_of s ?b)) = k"
  from core have lay: "layout F A (frames p k) U" and mk: "marks F A U s"
    by (auto simp: core_def)
  have al: "2 ^ k dvd p" using ok by (simp add: block_ok_def)
  have "?b \<in> U" using mk b free by (auto simp: marks_def)
  moreover have "?b \<notin> frames p k" using buddy_disjoint [OF al] frames_nonempty [of ?b k] by blast
  ultimately have "?b \<in> frames_of (F \<union> A)" using lay by (auto simp: layout_def)
  then obtain q j where q: "(q, j) \<in> F \<union> A" "?b \<in> frames q j" by (auto simp: frames_of_def)
  have "2 ^ j dvd q" using lay q(1) blocks_ok_mem [of "F \<union> A" q j] by (simp add: layout_def block_ok_def)
  moreover have "p \<notin> frames q j"
    using lay frames_of_mem [OF q(1)] frames_nonempty [of p k] by (auto simp: layout_def)
  ultimately have "q = ?b" using buddy_head [OF al] q(2) by blast
  with q(1) mk free show "(?b, k) \<in> F" by (auto simp: marks_def)
next
  assume "(buddy p k, k) \<in> F"
  with core show "PageFree (db_of s (buddy p k)) \<and> unat (pg_order (db_of s (buddy p k))) = k"
    by (auto simp: core_def marks_def)
qed

section \<open>Steps\<close>

lemma core_db: "core F A H U s \<Longrightarrow> \<exists>db. g_pfndb s = Some db"
  by (auto simp: core_def free_lists_rep_def)

lemma core_in_range: "core F A H U s \<Longrightarrow> (p, k) \<in> F \<union> A \<Longrightarrow> p \<le> max_of s"
  using frames_of_mem [of p k "F \<union> A"] frames_nonempty [of p k]
  by (auto simp: core_def layout_def)

lemma core_hand_in_range: "core F A H U s \<Longrightarrow> i \<in> H \<Longrightarrow> i \<le> max_of s"
  by (auto simp: core_def layout_def)

lemma core_hand_not_head:
  assumes "core F A H U s" and "i \<in> H" and "(p, k) \<in> F \<union> A" shows "p \<noteq> i"
  using assms frames_of_mem [of p k "F \<union> A"] frames_nonempty [of p k]
  by (auto simp: core_def layout_def)

lemma core_write_unheaded:
  assumes core: "core F A H U s" and i: "i \<in> U" and nh: "i \<notin> fst ` (F \<union> A)"
  shows "\<exists>s'. page_write (Some i) f s = Some s' \<and> core F A H U s' \<and> same_globals s s' \<and>
           db_of s' = (db_of s)(i := f (db_of s i))"
proof -
  from core_db [OF core] obtain db where db: "g_pfndb s = Some db" ..
  from core obtain L where L: "free_lists_rep L s" "blocks_of L = F" by (auto simp: core_def)
  define s' where "s' = s\<lparr>g_pfndb := Some (db(i := f (db i)))\<rparr>"
  have "i \<le> max_of s" using core i by (simp add: core_def)
  then have w: "page_write (Some i) f s = Some s'" by (simp add: page_write_Some db s'_def)
  have notin: "i \<notin> set (L k)" if "k < PMM_MAX_ORDER" for k
    using nh L(2) that by (force simp: blocks_of_def)
  have rep: "free_lists_rep L s'"
    using L(1) notin by (simp add: free_lists_rep_def free_list_rep_def s'_def db)
  have "\<And>p k. (p, k) \<in> F \<union> A \<Longrightarrow> p \<noteq> i" using nh by force
  then have "marks F A U s'" using core i unfolding core_def marks_def s'_def by (auto simp: db)
  with rep core L(2) have "core F A H U s'" unfolding core_def by (auto simp: s'_def)
  with w show ?thesis by (auto simp: s'_def db same_globals_def)
qed

lemma core_write:
  assumes core: "core F A H U s" and i: "i \<in> H"
  shows "\<exists>s'. page_write (Some i) f s = Some s' \<and> core F A H U s' \<and> same_globals s s' \<and>
           db_of s' = (db_of s)(i := f (db_of s i))"
proof (rule core_write_unheaded [OF core])
  show "i \<in> U" using core i by (auto simp: core_def layout_def)
  show "i \<notin> fst ` (F \<union> A)" using core_hand_not_head [OF core i] by force
qed

lemma links_only_page:
  assumes "links_only s s'"
  shows "PageFree (db_of s' i) = PageFree (db_of s i)"
    and "PageUsed (db_of s' i) = PageUsed (db_of s i)"
    and "PageReserved (db_of s' i) = PageReserved (db_of s i)"
    and "pg_order (db_of s' i) = pg_order (db_of s i)"
    and "max_of s' = max_of s"
  using assms by (simp_all add: links_only_def PageFree_def PageUsed_def PageReserved_def page_has_flags_def)

lemma marks_links_only: "links_only s s' \<Longrightarrow> marks F A U s \<Longrightarrow> marks F A U s'"
  by (simp add: marks_def links_only_page)

lemma core_push:
  assumes core: "core F A H U s" and ok: "block_ok p (unat k)" and H: "frames p (unat k) \<subseteq> H"
    and mark: "PageFree (db_of s p)" "pg_order (db_of s p) = k"
  shows "\<exists>s'. pmm_list_push k (Some p) s = Some s' \<and>
           core (insert (p, unat k) F) A (H - frames p (unat k)) U s' \<and> links_only s s'"
proof -
  from core obtain L where L: "free_lists_rep L s" "blocks_of L = F" by (auto simp: core_def)
  have k: "unat k < PMM_MAX_ORDER" using ok by (simp add: block_ok_def)
  have pH: "p \<in> H" using H frames_nonempty by blast
  have "p \<notin> set (L j)" if "j < PMM_MAX_ORDER" for j
    using core_hand_not_head [OF core pH] L(2) that by (auto simp: blocks_of_def)
  from pmm_list_push_rep [OF L(1) k core_hand_in_range [OF core pH] this]
  obtain s' where s': "pmm_list_push k (Some p) s = Some s'" "links_only s s'"
    "free_lists_rep (L(unat k := p # L (unat k))) s'" by blast
  have "blocks_of (L(unat k := p # L (unat k))) = insert (p, unat k) F"
    using L(2) k by (auto simp: blocks_of_def)
  moreover have "marks (insert (p, unat k) F) A U s'"
    using core mark by (auto simp: core_def marks_def links_only_page [OF s'(2)])
  moreover have "layout (insert (p, unat k) F) A (H - frames p (unat k)) U"
    using core ok H by (auto simp: core_def intro: layout_free)
  ultimately have "core (insert (p, unat k) F) A (H - frames p (unat k)) U s'"
    using s' core by (auto simp: core_def links_only_def)
  with s' show ?thesis by blast
qed

lemma core_remove:
  assumes core: "core F A H U s" and p: "(p, unat k) \<in> F"
  shows "\<exists>s'. pmm_list_remove k (Some p) s = Some s' \<and>
           core (F - {(p, unat k)}) A (H \<union> frames p (unat k)) U s' \<and> links_only s s'"
proof -
  from core obtain L where L: "free_lists_rep L s" "blocks_of L = F" by (auto simp: core_def)
  from p L(2) have k: "unat k < PMM_MAX_ORDER" and mem: "p \<in> set (L (unat k))"
    by (auto simp: blocks_of_def)
  from pmm_list_remove_rep [OF L(1) k mem]
  obtain s' where s': "pmm_list_remove k (Some p) s = Some s'" "links_only s s'"
    "free_lists_rep (L(unat k := remove1 p (L (unat k)))) s'" by blast
  have "distinct (L (unat k))" using L(1) k by (simp add: free_lists_rep_def free_list_rep_def)
  then have "blocks_of (L(unat k := remove1 p (L (unat k)))) = F - {(p, unat k)}"
    using L(2) k by (auto simp: blocks_of_def split: if_splits)
  moreover have "marks (F - {(p, unat k)}) A U s'"
    using core by (auto simp: core_def marks_def links_only_page [OF s'(2)])
  moreover have "layout (F - {(p, unat k)}) A (H \<union> frames p (unat k)) U"
    using core p by (auto simp: core_def intro: layout_unfree)
  ultimately have "core (F - {(p, unat k)}) A (H \<union> frames p (unat k)) U s'"
    using s' core by (auto simp: core_def links_only_def)
  with s' show ?thesis by blast
qed

lemma core_take:
  assumes "core F A H U s" "block_ok p k" "frames p k \<subseteq> H"
    and "PageUsed (db_of s p)" "\<not> PageFree (db_of s p)" "\<not> PageReserved (db_of s p)"
    and "unat (pg_order (db_of s p)) = k"
  shows "core F (insert (p, k) A) (H - frames p k) U s"
  using assms layout_used [of F A H U p k] by (auto simp: core_def marks_def)

lemma core_release:
  assumes "core F A H U s" "(p, k) \<in> A"
  shows "core F (A - {(p, k)}) (H \<union> frames p k) U s"
  using assms layout_unused [of F A H U p k] by (auto simp: core_def marks_def)

section \<open>Coalescing and releasing a block\<close>

lemma max_order_word: "k < PMM_MAX_ORDER \<Longrightarrow> k < 64"
  by (simp add: PMM_MAX_ORDER_def)

lemma unat_order_Suc: "unat k + 1 < PMM_MAX_ORDER \<Longrightarrow> unat (k + 1) = unat k + 1" for k :: u8
  by (simp add: PMM_MAX_ORDER_def unat_word_ariths)

lemma pmm_buddy_pfn_eq:
  assumes "unat pfn = p" "block_ok p (unat k)" shows "unat (pmm_buddy_pfn pfn k) = buddy p (unat k)"
  using assms unat_xor_buddy [of "unat k" pfn] max_order_word [of "unat k"]
  by (simp add: pmm_buddy_pfn_def block_ok_def)

lemma core_pfn:
  "core F A H U s \<Longrightarrow> i \<le> max_of s \<Longrightarrow> unat (of_nat i :: u64) = i"
  by (simp add: core_def unat_of_nat_small)

lemma pfndb_get_page_Some:
  "core F A H U s \<Longrightarrow> unat pfn \<le> max_of s \<Longrightarrow> pfndb_get_page pfn s = Some (unat pfn)"
  using core_db [of F A H U s] by (auto simp: pfndb_get_page_def word_le_nat_alt word_less_nat_alt)

lemma pfndb_get_pfn_of_nat:
  "core F A H U s \<Longrightarrow> i \<le> max_of s \<Longrightarrow> pfndb_get_pfn (Some i) s = of_nat i"
  using core_db [of F A H U s] by (auto simp: pfndb_get_pfn_def)

text \<open>
  What the descriptors keep when the block \<open>p\<close> of order \<open>k\<close> is merged upwards: no state is touched and
  no order behind \<open>p\<close>; a merge writes a larger order to the lower buddy only, and leaves the order of the
  upper one as it was.
\<close>

definition restamped :: "block set \<Rightarrow> nat \<Rightarrow> nat \<Rightarrow> pmm \<Rightarrow> pmm \<Rightarrow> bool" where
  "restamped F p k s s' \<longleftrightarrow>
     (\<forall>q. pg_flags (db_of s' q) = pg_flags (db_of s q)) \<and>
     (\<forall>q > p. pg_order (db_of s' q) = pg_order (db_of s q)) \<and>
     (if k + 1 < PMM_MAX_ORDER \<and> (buddy p k, k) \<in> F
      then k < unat (pg_order (db_of s' (min p (buddy p k)))) \<and>
           (buddy p k < p \<longrightarrow> pg_order (db_of s' p) = pg_order (db_of s p))
      else pg_order (db_of s' p) = pg_order (db_of s p))"

lemma restamped_refl: "\<not> (k + 1 < PMM_MAX_ORDER \<and> (buddy p k, k) \<in> F) \<Longrightarrow> restamped F p k s s"
  by (auto simp: restamped_def)

text \<open>One turn of the loop: it stops, or the buddy leaves its list and the parent is held.\<close>

definition restamp_one :: "nat \<Rightarrow> u8 \<Rightarrow> pmm \<Rightarrow> pmm \<Rightarrow> bool" where
  "restamp_one m k s s' \<longleftrightarrow>
     (\<forall>q. pg_flags (db_of s' q) = pg_flags (db_of s q)) \<and>
     (\<forall>q. q \<noteq> m \<longrightarrow> pg_order (db_of s' q) = pg_order (db_of s q)) \<and> pg_order (db_of s' m) = k"

lemma restamped_step:
  assumes can: "k + 1 < PMM_MAX_ORDER" "(buddy p k, k) \<in> F"
    and one: "restamp_one (min p (buddy p k)) ord s s1" "unat ord = k + 1"
    and rest: "restamped G (min p (buddy p k)) (k + 1) s1 s'"
  shows "restamped F p k s s'"
proof -
  let ?m = "min p (buddy p k)"
  have "k < unat (pg_order (db_of s' ?m))"
    using one rest by (auto simp: restamped_def restamp_one_def min_def split: if_splits)
  moreover have "pg_order (db_of s' q) = pg_order (db_of s q)" if "?m < q" for q
    using one rest that by (auto simp: restamped_def restamp_one_def)
  moreover have "pg_flags (db_of s' q) = pg_flags (db_of s q)" for q
    using one rest by (simp add: restamped_def restamp_one_def)
  ultimately show ?thesis using can by (auto simp: restamped_def min_def)
qed

lemma coalesce_stop:
  assumes core: "core F A (frames p (unat k)) U s" and ok: "block_ok p (unat k)" and pfn: "unat pfn = p"
    and out: "\<not> (unat k + 1 < PMM_MAX_ORDER \<and> (buddy p (unat k), unat k) \<in> F)"
  shows "pmm_coalesce pfn (Some p) k s = Some (Some p, k, s)"
proof (cases "unat k + 1 < PMM_MAX_ORDER \<and> buddy p (unat k) \<le> max_of s")
  case True
  from core_db [OF core] obtain db where db: "g_pfndb s = Some db" ..
  from True out core_buddy_free [OF core ok]
  have "\<not> (PageFree (db (buddy p (unat k))) \<and> pg_order (db (buddy p (unat k))) = k)" by (auto simp: db)
  with True show ?thesis
    using pmm_buddy_pfn_eq [OF pfn ok] pfndb_get_page_Some [OF core, of "pmm_buddy_pfn pfn k"]
    by (simp add: pmm_coalesce.simps [of pfn] pfndb_get_max_pfn_def word_less_nat_alt page_read_Some db Let_def)
next
  case False
  with pmm_buddy_pfn_eq [OF pfn ok] show ?thesis
    by (auto simp: pmm_coalesce.simps [of pfn] pfndb_get_max_pfn_def word_less_nat_alt Let_def)
qed

lemma coalesce_step:
  assumes core: "core F A (frames p (unat k)) U s" and ok: "block_ok p (unat k)" and pfn: "unat pfn = p"
    and can: "unat k + 1 < PMM_MAX_ORDER" "(buddy p (unat k), unat k) \<in> F"
  defines "m \<equiv> min p (buddy p (unat k))"
  shows "\<exists>pfn' s'. pmm_coalesce pfn (Some p) k s = pmm_coalesce pfn' (Some m) (k + 1) s' \<and> unat pfn' = m \<and>
    core (F - {(buddy p (unat k), unat k)}) A (frames m (unat (k + 1))) U s' \<and> same_globals s s' \<and>
    restamp_one m (k + 1) s s' \<and> block_ok m (unat (k + 1))"
proof -
  let ?k = "unat k" and ?b = "buddy p (unat k)"
  let ?F = "F - {(?b, ?k)}"
  have al: "2 ^ ?k dvd p" using ok by (simp add: block_ok_def)
  have bpfn: "unat (pmm_buddy_pfn pfn k) = ?b" by (rule pmm_buddy_pfn_eq [OF pfn ok])
  from core_db [OF core] obtain db where db: "g_pfndb s = Some db" ..
  have ble: "?b \<le> max_of s" using core_in_range [OF core] can(2) by blast
  have k1: "unat (k + 1) = ?k + 1" using can(1) by (simp add: unat_order_Suc)
  have free: "PageFree (db ?b)" "pg_order (db ?b) = k"
    using can ble core_buddy_free [OF core ok] by (auto simp: db word_unat_eq_iff)
  obtain s1 where s1: "pmm_list_remove k (Some ?b) s = Some s1"
    "core ?F A (frames p ?k \<union> frames ?b ?k) U s1" "links_only s s1"
    using core_remove [OF core, of ?b k] can(2) by blast
  then have core1: "core ?F A (frames m (?k + 1)) U s1" using parent_frames [OF al] by (simp add: m_def)
  obtain s2 where s2: "page_write (Some m) (\<lambda>q. q\<lparr>pg_order := k + 1\<rparr>) s1 = Some s2"
    "core ?F A (frames m (?k + 1)) U s2" "same_globals s1 s2"
    "db_of s2 = (db_of s1)(m := (db_of s1 m)\<lparr>pg_order := k + 1\<rparr>)"
    using core_write [OF core1 frames_nonempty] by blast
  define pfn' where "pfn' = (if pmm_buddy_pfn pfn k < pfn then pmm_buddy_pfn pfn k else pfn)"
  have m: "(if pmm_buddy_pfn pfn k < pfn then (pmm_buddy_pfn pfn k, Some ?b) else (pfn, Some p)) = (pfn', Some m)" "unat pfn' = m"
    using bpfn pfn by (auto simp: pfn'_def m_def word_less_nat_alt min_def buddy_neq)
  have "pmm_coalesce pfn (Some p) k s = pmm_coalesce pfn' (Some m) (k + 1) s2"
    using can(1) ble bpfn free s1(1) s2(1) m(1) pfndb_get_page_Some [OF core, of "pmm_buddy_pfn pfn k"]
    by (simp add: pmm_coalesce.simps [of pfn] pfndb_get_max_pfn_def word_less_nat_alt page_read_Some db Let_def)
  moreover have "block_ok m (unat (k + 1))"
    using parent_aligned [OF al] can(1) by (simp add: k1 block_ok_def m_def)
  moreover have "same_globals s s2"
    using links_only_same_globals [OF s1(3)] s2(3) by (rule same_globals_trans)
  moreover have "restamp_one m (k + 1) s s2"
    using s1(3) by (auto simp: restamp_one_def s2(4) links_only_def)
  ultimately show ?thesis using m(2) s2(2) k1 by auto
qed

lemma pmm_coalesce_core:
  assumes "core F A (frames p (unat k)) U s" and "block_ok p (unat k)" and "unat pfn = p"
    and "abs_coalesce F p (unat k) = (F', p', k')"
  shows "\<exists>ord s'. pmm_coalesce pfn (Some p) k s = Some (Some p', ord, s') \<and> unat ord = k' \<and>
           core F' A (frames p' k') U s' \<and> same_globals s s' \<and> restamped F p (unat k) s s'"
  using assms
proof (induction "PMM_MAX_ORDER - unat k" arbitrary: F p k s pfn rule: less_induct)
  case less
  let ?k = "unat k" and ?b = "buddy p (unat k)"
  show ?case
  proof (cases "?k + 1 < PMM_MAX_ORDER \<and> (?b, ?k) \<in> F")
    case False
    then have "(F', p', k') = (F, p, ?k)"
      using less.prems(4) by (subst (asm) abs_coalesce.simps) (simp only: if_False)
    with coalesce_stop [OF less.prems(1-3) False] less.prems(1) restamped_refl [OF False]
    show ?thesis by auto
  next
    case True
    then have can: "?k + 1 < PMM_MAX_ORDER" "(?b, ?k) \<in> F" by simp_all
    have k1: "unat (k + 1) = ?k + 1" using can(1) by (simp add: unat_order_Suc)
    from coalesce_step [OF less.prems(1-3) can] obtain pfn1 s1 where
      step: "pmm_coalesce pfn (Some p) k s = pmm_coalesce pfn1 (Some (min p ?b)) (k + 1) s1" "unat pfn1 = min p ?b"
      "core (F - {(?b, ?k)}) A (frames (min p ?b) (unat (k + 1))) U s1" "same_globals s s1"
      "restamp_one (min p ?b) (k + 1) s s1" "block_ok (min p ?b) (unat (k + 1))" by blast
    have rec: "abs_coalesce (F - {(?b, ?k)}) (min p ?b) (unat (k + 1)) = (F', p', k')"
      using less.prems(4) True by (simp add: abs_coalesce.simps [of F p "unat k"] k1)
    have "PMM_MAX_ORDER - unat (k + 1) < PMM_MAX_ORDER - ?k" using can(1) unfolding k1 by linarith
    from less.hyps [OF this step(3,6,2) rec] step(1,4) restamped_step [OF can step(5) k1] k1
    show ?thesis by (auto intro: same_globals_trans)
  qed
qed

text \<open>
  A block that is freed and merged into its lower buddy leaves its own descriptor as it was, marked
  used and of its old order, and the buddy's descriptor with a larger order.
\<close>

definition stale_upper :: "nat \<Rightarrow> nat \<Rightarrow> pmm \<Rightarrow> bool" where
  "stale_upper p k s \<longleftrightarrow>
     PageUsed (db_of s p) \<and> \<not> PageFree (db_of s p) \<and> \<not> PageReserved (db_of s p) \<and>
     unat (pg_order (db_of s p)) = k \<and> k < unat (pg_order (db_of s (buddy p k)))"

lemma stale_upper_links_only: "links_only s s' \<Longrightarrow> stale_upper p k s \<Longrightarrow> stale_upper p k s'"
  by (simp add: stale_upper_def links_only_page)

lemma restamped_stale:
  assumes re: "restamped F p k s s'" and can: "k + 1 < PMM_MAX_ORDER" "(buddy p k, k) \<in> F" "buddy p k < p"
    and page: "PageUsed (db_of s p)" "\<not> PageFree (db_of s p)" "\<not> PageReserved (db_of s p)"
      "unat (pg_order (db_of s p)) = k"
  shows "stale_upper p k s'"
  using assms by (auto simp: restamped_def stale_upper_def PageUsed_def PageFree_def PageReserved_def
      page_has_flags_def min_def)

lemma stale_upper_head:
  assumes "stale_upper p k s" and "db_of s' = (db_of s)(q := page_set_state f od (db_of s q))"
    and "q < p" "k < unat od"
  shows "stale_upper p k s'"
  using assms by (auto simp: stale_upper_def page_simps)

lemma pmm_free_block_core:
  assumes core: "core F A H U s" and mem: "(p, k) \<in> A" and H: "H = {}"
  shows "\<exists>s'. pmm_free_block (Some p) s = Some s' \<and>
           core (abs_release p k F) (A - {(p, k)}) {} U s' \<and> same_globals s s' \<and>
           (k + 1 < PMM_MAX_ORDER \<and> (buddy p k, k) \<in> F \<and> buddy p k < p \<longrightarrow> stale_upper p k s')"
proof -
  from core_db [OF core] obtain db where db: "g_pfndb s = Some db" ..
  have ok: "block_ok p k" using core mem blocks_ok_mem [of "F \<union> A" p k]
    by (auto simp: core_def layout_def)
  have ple: "p \<le> max_of s" using core_in_range [OF core] mem by blast
  have ord: "unat (pg_order (db p)) = k" using core mem by (auto simp: core_def marks_def db)
  let ?A = "A - {(p, k)}"
  have core1: "core F ?A (frames p (unat (pg_order (db p)))) U s"
    using core_release [OF core mem] by (simp add: H ord)
  have okF: "blocks_ok F" "frames p k \<inter> frames_of F = {}"
    using core1 blocks_ok_subset [of "F \<union> ?A" F] by (auto simp: core_def layout_def ord)
  obtain F' p' k' where c: "abs_coalesce F p k = (F', p', k')" by (cases "abs_coalesce F p k")
  have ok': "block_ok p' k'" using abs_coalesce_ok [OF c ok okF] by blast
  obtain od s1 where s1: "pmm_coalesce (of_nat p) (Some p) (pg_order (db p)) s = Some (Some p', od, s1)"
    "unat od = k'" "core F' ?A (frames p' k') U s1" "same_globals s s1" "restamped F p k s s1"
    using pmm_coalesce_core [OF core1, of "of_nat p" F' p' k'] ok c core_pfn [OF core ple]
    by (auto simp: ord)
  obtain s2 where s2: "pmm_prepare_page (Some p') PAGE_FREE od s1 = Some s2"
    "core F' ?A (frames p' k') U s2" "same_globals s1 s2"
    "db_of s2 = (db_of s1)(p' := page_set_state PAGE_FREE od (db_of s1 p'))"
    using core_write [OF s1(3) frames_nonempty] unfolding pmm_prepare_page_def by blast
  have "PageFree (db_of s2 p')" "pg_order (db_of s2 p') = od"
    by (simp_all add: s2(4) page_simps)
  with core_push [OF s2(2), of p' od] ok' s1(2) obtain s3 where
    s3: "pmm_list_push od (Some p') s2 = Some s3"
    "core (insert (p', k') F') ?A {} U s3" "links_only s2 s3" by auto
  have "pmm_free_block (Some p) s = Some s3"
    using s1(1) s2(1) s3(1) ple
    by (simp add: pmm_free_block_def pfndb_get_pfn_of_nat [OF core ple] page_read_Some db)
  moreover have "same_globals s s3"
    using s1(4) s2(3) links_only_same_globals [OF s3(3)] by (blast intro: same_globals_trans)
  moreover have "stale_upper p k s3" if can: "k + 1 < PMM_MAX_ORDER" "(buddy p k, k) \<in> F" "buddy p k < p"
  proof -
    have "stale_upper p k s1" using core mem can by (intro restamped_stale [OF s1(5)]) (auto simp: core_def marks_def)
    moreover have "p' < p" "k < unat od" using abs_coalesce_merged [OF c can(1,2)] can(3) s1(2) by auto
    ultimately show ?thesis using stale_upper_head [OF _ s2(4)] stale_upper_links_only [OF s3(3)] by blast
  qed
  ultimately show ?thesis using s3(2) by (auto simp: abs_release_def c)
qed

section \<open>Splitting a block\<close>

text \<open>One turn: the upper half goes to its list, the lower half is held.\<close>

lemma upper_half_page:
  assumes core: "core F A (frames p (Suc j)) U s" and ok: "block_ok p (Suc j)"
  shows "pfndb_get_page (pfndb_get_pfn (Some p) s + push_bit j 1) s = Some (p + 2 ^ j)" "p + 2 ^ j \<in> frames p (Suc j)"
proof -
  have al: "2 ^ Suc j dvd p" "Suc j < PMM_MAX_ORDER" using ok by (simp_all add: block_ok_def)
  show up: "p + 2 ^ j \<in> frames p (Suc j)" using upper_half(5) [OF al(1)] frames_nonempty by blast
  have ple: "p \<le> max_of s" "p + 2 ^ j \<le> max_of s"
    using core_hand_in_range [OF core] up frames_nonempty by blast+
  have "unat (push_bit j 1 :: u64) = 2 ^ j"
    using al(2) max_order_word [of "Suc j"] by (intro unat_push_bit_1) simp
  moreover have "p + 2 ^ j < 2 ^ 64" using ple(2) core by (simp add: core_def)
  ultimately have "unat (pfndb_get_pfn (Some p) s + push_bit j 1 :: u64) = p + 2 ^ j"
    by (simp add: pfndb_get_pfn_of_nat [OF core ple(1)] unat_add_nowrap core_pfn [OF core ple(1)])
  then show "pfndb_get_page (pfndb_get_pfn (Some p) s + push_bit j 1) s = Some (p + 2 ^ j)"
    using pfndb_get_page_Some [OF core] ple(2) by metis
qed

lemma split_step:
  assumes core: "core F A (frames p (unat c)) U s" and ok: "block_ok p (unat c)" and c: "k < c" "unat c = Suc j"
  shows "\<exists>s'. pmm_split (Some p) k c s = pmm_split (Some p) k (c - 1) s' \<and>
    core (insert (p + 2 ^ j, j) F) A (frames p j) U s' \<and> same_globals s s' \<and> block_ok p j"
proof -
  let ?b = "p + 2 ^ j"
  have "c \<noteq> 0" using c(2) by auto
  then have c1: "unat (c - 1) = j" using c(2) by (simp add: unat_minus_1)
  have al: "2 ^ Suc j dvd p" "Suc j < PMM_MAX_ORDER" using ok c(2) by (simp_all add: block_ok_def)
  note half = upper_half [OF al(1)]
  have okj: "block_ok p j" "block_ok ?b j" using half al(2) by (auto simp: block_ok_def)
  note page = upper_half_page [OF core [unfolded c(2)] ok [unfolded c(2)]]
  obtain s1 where s1: "pmm_prepare_page (Some ?b) PAGE_FREE (c - 1) s = Some s1"
    "core F A (frames p (unat c)) U s1" "same_globals s s1"
    "db_of s1 = (db_of s)(?b := page_set_state PAGE_FREE (c - 1) (db_of s ?b))"
    using core_write [OF core page(2) [folded c(2)]] unfolding pmm_prepare_page_def by blast
  have "PageFree (db_of s1 ?b)" "pg_order (db_of s1 ?b) = c - 1" by (simp_all add: s1(4) page_simps)
  with core_push [OF s1(2), of ?b "c - 1"] okj(2) half(5) c(2) c1 obtain s2 where
    s2: "pmm_list_push (c - 1) (Some ?b) s1 = Some s2"
    "core (insert (?b, j) F) A (frames p (Suc j) - frames ?b j) U s2" "links_only s1 s2" by auto
  have "frames p (Suc j) - frames ?b j = frames p j" using half(5,6) by auto
  moreover have "pmm_split (Some p) k c s = pmm_split (Some p) k (c - 1) s2"
    using c(1) s1(1) s2(1) page(1) by (simp add: pmm_split.simps [of _ k c] c1)
  moreover have "same_globals s s2"
    using s1(3) links_only_same_globals [OF s2(3)] by (rule same_globals_trans)
  ultimately show ?thesis using s2(2) okj(1) by auto
qed

lemma pmm_split_core:
  assumes "core F A (frames p (unat c)) U s" and "block_ok p (unat c)" and "k \<le> c"
  shows "\<exists>s'. pmm_split (Some p) k c s = Some s' \<and>
           core (upper_halves p (unat k) (unat c) \<union> F) A (frames p (unat k)) U s' \<and>
           same_globals s s'"
  using assms
proof (induction "unat c" arbitrary: c F s)
  case 0
  then show ?case by (simp add: pmm_split.simps word_le_nat_alt word_less_nat_alt)
next
  case (Suc j)
  show ?case
  proof (cases "k = c")
    case True
    with Suc.prems(1) show ?thesis by (simp add: pmm_split.simps)
  next
    case False
    with Suc.prems(3) have less: "k < c" by simp
    from split_step [OF Suc.prems(1,2) less Suc.hyps(2) [symmetric]] obtain s1 where
      s1: "pmm_split (Some p) k c s = pmm_split (Some p) k (c - 1) s1"
      "core (insert (p + 2 ^ j, j) F) A (frames p j) U s1" "same_globals s s1" "block_ok p j" by blast
    have "c \<noteq> 0" using Suc.hyps(2) by auto
    then have c1: "unat (c - 1) = j" using Suc.hyps(2) by (simp add: unat_minus_1)
    have le: "unat k \<le> j" using less Suc.hyps(2) by (simp add: word_less_nat_alt)
    from Suc.hyps(1) [of "c - 1" "insert (p + 2 ^ j, j) F" s1] s1(2,4) c1 le obtain s2 where
      s2: "pmm_split (Some p) k (c - 1) s1 = Some s2"
      "core (upper_halves p (unat k) j \<union> insert (p + 2 ^ j, j) F) A (frames p (unat k)) U s2"
      "same_globals s1 s2" by (auto simp: word_le_nat_alt)
    have "upper_halves p (unat k) (unat c) \<union> F = upper_halves p (unat k) j \<union> insert (p + 2 ^ j, j) F"
      using upper_halves_Suc [OF le, of p] Suc.hyps(2) by simp
    then show ?thesis using s1(1,3) s2 by (auto intro: same_globals_trans)
  qed
qed

end
