(* ===== verification/PmmCorrect.thy ===== *)
theory PmmCorrect
  imports PmmInv
begin

text \<open>
  Correctness of the physical memory manager: the invariant \<open>pmm_inv U F A s\<close> (the managed
  frames \<open>U\<close> are split into the coalesced free blocks \<open>F\<close> and the blocks \<open>A\<close> handed out, and the
  counters agree), its establishment by \<open>pmm_init\<close>, and the effect of allocation and release on
  the abstract block sets of \<open>Buddy\<close>.
\<close>

definition pmm_inv :: "nat set \<Rightarrow> block set \<Rightarrow> block set \<Rightarrow> pmm \<Rightarrow> bool" where
  "pmm_inv U F A s \<longleftrightarrow>
     core F A {} U s \<and> coalesced F \<and>
     g_free_pages s = of_nat (card (frames_of F)) \<and>
     g_total_pages s = of_nat (card U) \<and> g_pmm_ready s"

lemma core_globals [simp]:
  "core F A H U (s\<lparr>g_free_pages := x\<rparr>) = core F A H U s"
  "core F A H U (s\<lparr>g_total_pages := x\<rparr>) = core F A H U s"
  "core F A H U (s\<lparr>g_pmm_ready := b\<rparr>) = core F A H U s"
  by (simp_all add: core_def free_lists_rep_def free_list_rep_def marks_def)

lemma core_blocks:
  assumes "core F A H U s"
  shows "blocks_ok (F \<union> A)" "blocks_ok F" "frames_of F \<inter> frames_of A = {}" "F \<inter> A = {}"
    "finite (frames_of F)" "finite U" "frames_of F \<subseteq> U" "frames_of A \<subseteq> U"
proof -
  from assms have lay: "layout F A H U" and le: "\<forall>i\<in>U. i \<le> max_of s" by (auto simp: core_def)
  from lay show ok: "blocks_ok (F \<union> A)" and FA: "F \<inter> A = {}" by (auto simp: layout_def)
  from ok show "blocks_ok F" by (rule blocks_ok_subset) simp
  show "frames_of F \<subseteq> U" "frames_of A \<subseteq> U" using lay by (auto simp: layout_def)
  show "finite (frames_of F)" using lay le by (rule layout_finite)
  show "finite U" using le by (meson finite_nat_set_iff_bounded_le)
  show "frames_of F \<inter> frames_of A = {}"
  proof (rule ccontr)
    assume "frames_of F \<inter> frames_of A \<noteq> {}"
    then obtain x p k q j where "(p, k) \<in> F" "x \<in> frames p k" "(q, j) \<in> A" "x \<in> frames q j"
      by (auto simp: frames_of_def)
    with blocks_ok_overlap [OF ok, of p k q j x] FA show False by auto
  qed
qed

lemma card_frames_split:
  assumes "finite X" "frames p k \<inter> Y = {}" "frames p k \<union> Y = X"
  shows "(of_nat (card X) :: 'a::len word) = 2 ^ k + of_nat (card Y)"
proof -
  have "finite Y" using assms by auto
  then have "card X = 2 ^ k + card Y"
    using assms(2,3) card_Un_disjoint [OF finite_frames \<open>finite Y\<close>] by (metis card_frames)
  then show ?thesis by simp
qed

section \<open>Allocation\<close>

lemma core_head:
  assumes "core F A H U s" "k < PMM_MAX_ORDER"
  shows "case fl_head (g_free_lists s k) of None \<Rightarrow> \<forall>p. (p, k) \<notin> F | Some p \<Rightarrow> (p, k) \<in> F"
proof -
  from assms(1) obtain L where L: "free_lists_rep L s" "blocks_of L = F" by (auto simp: core_def)
  then have "dll (db_of s) None (fl_head (g_free_lists s k)) (L k) None"
    using assms(2) by (simp add: free_lists_rep_def free_list_rep_def)
  with L(2) assms(2) show ?thesis by (cases "L k") (auto simp: blocks_of_def)
qed

text \<open>What one allocation of order \<open>k\<close> may do: take a smallest sufficient free block.\<close>

definition smallest_fit :: "block set \<Rightarrow> nat \<Rightarrow> nat \<Rightarrow> nat \<Rightarrow> bool" where
  "smallest_fit F k p c \<longleftrightarrow>
     (p, c) \<in> F \<and> k \<le> c \<and> (\<forall>q j. (q, j) \<in> F \<longrightarrow> k \<le> j \<longrightarrow> c \<le> j)"

lemma order_in_core: "core F A H U s \<Longrightarrow> (p, k) \<in> F \<Longrightarrow> k < PMM_MAX_ORDER"
  using blocks_ok_mem [OF core_blocks(2)] unfolding block_ok_def by blast

lemma page_alloc_loop_take:
  assumes core: "core F A {} U s" and kc: "k \<le> c" and fit: "(p, unat c) \<in> F"
    and head: "fl_head (g_free_lists s (unat c)) = Some p"
  shows "\<exists>s'. page_alloc_loop k c s = Some (Some p, s') \<and>
           core (abs_take p (unat k) (unat c) F) (insert (p, unat k) A) {} U s' \<and>
           same_globals (s\<lparr>g_free_pages := g_free_pages s - 2 ^ unat k\<rparr>) s'"
proof -
  have c: "unat c < PMM_MAX_ORDER" using order_in_core [OF core fit] .
  have kc': "unat k \<le> unat c" using kc by (simp add: word_le_nat_alt)
  have okc: "block_ok p (unat c)" using core_blocks(2) [OF core] fit by (rule blocks_ok_mem)
  then have okk: "block_ok p (unat k)"
    using kc' by (auto simp: block_ok_def intro: power_le_dvd)
  obtain s1 where s1: "pmm_list_remove c (Some p) s = Some s1"
    "core (F - {(p, unat c)}) A (frames p (unat c)) U s1" "links_only s s1"
    using core_remove [OF core fit] by auto
  obtain s2 where s2: "pmm_split (Some p) k c s1 = Some s2"
    "core (abs_take p (unat k) (unat c) F) A (frames p (unat k)) U s2" "same_globals s1 s2"
    using pmm_split_core [OF s1(2) okc kc] by (auto simp: abs_take_def)
  obtain s3 where s3: "pmm_prepare_page (Some p) PAGE_USED k s2 = Some s3"
    "core (abs_take p (unat k) (unat c) F) A (frames p (unat k)) U s3" "same_globals s2 s3"
    "db_of s3 = (db_of s2)(p := page_set_state PAGE_USED k (db_of s2 p))"
    using core_write [OF s2(2) frames_nonempty] unfolding pmm_prepare_page_def by blast
  have "core (abs_take p (unat k) (unat c) F) (insert (p, unat k) A) {} U s3"
    using core_take [OF s3(2) okk] by (simp add: s3(4) page_simps)
  moreover have "page_alloc_loop k c s =
      Some (Some p, s3\<lparr>g_free_pages := g_free_pages s3 - push_bit (unat k) 1\<rparr>)"
    using c head s1(1) s2(1) s3(1)
    by (simp add: page_alloc_loop.simps [of k c] free_list_read_Some)
  moreover have "same_globals s s3"
    using links_only_same_globals [OF s1(3)] s2(3) s3(3) by (blast intro: same_globals_trans)
  ultimately show ?thesis
    by (auto simp: same_globals_def push_bit_eq_mult)
qed

lemma page_alloc_loop_core:
  assumes core: "core F A {} U s" and "k \<le> c"
    and "\<And>q j. (q, j) \<in> F \<Longrightarrow> unat k \<le> j \<Longrightarrow> unat c \<le> j"
  shows "(\<nexists>p j. smallest_fit F (unat k) p j) \<and> page_alloc_loop k c s = Some (None, s) \<or>
         (\<exists>p j s'. smallest_fit F (unat k) p j \<and> page_alloc_loop k c s = Some (Some p, s') \<and>
           core (abs_take p (unat k) j F) (insert (p, unat k) A) {} U s' \<and>
           same_globals (s\<lparr>g_free_pages := g_free_pages s - 2 ^ unat k\<rparr>) s')"
  using assms(2,3)
proof (induction "PMM_MAX_ORDER - unat c" arbitrary: c rule: less_induct)
  case less
  show ?case
  proof (cases "unat c < PMM_MAX_ORDER")
    case False
    have "\<nexists>p j. smallest_fit F (unat k) p j"
      using less.prems(2) order_in_core [OF core] False by (force simp: smallest_fit_def)
    with False show ?thesis by (simp add: page_alloc_loop.simps [of k c])
  next
    case True
    show ?thesis
    proof (cases "fl_head (g_free_lists s (unat c))")
      case None
      then have no: "(p, unat c) \<notin> F" for p using core_head [OF core True] by simp
      have c1: "unat (c + 1) = unat c + 1"
        using True by (simp add: PMM_MAX_ORDER_def unat_word_ariths)
      have "k \<le> c + 1" using less.prems(1) c1 by (simp add: word_le_nat_alt)
      moreover have "unat (c + 1) \<le> j" if "(q, j) \<in> F" "unat k \<le> j" for q j
        using less.prems(2) [OF that] no that(1) c1 by (metis Suc_eq_plus1 Suc_leI le_neq_implies_less)
      moreover have "PMM_MAX_ORDER - unat (c + 1) < PMM_MAX_ORDER - unat c"
        using True unfolding c1 by linarith
      moreover have "page_alloc_loop k c s = page_alloc_loop k (c + 1) s"
        using True None by (simp add: page_alloc_loop.simps [of k c] free_list_read_Some)
      ultimately show ?thesis using less.hyps [of "c + 1"] by metis
    next
      case (Some p)
      then have fit: "(p, unat c) \<in> F" using core_head [OF core True] by simp
      then have "smallest_fit F (unat k) p (unat c)"
        using less.prems by (simp add: smallest_fit_def word_le_nat_alt)
      with page_alloc_loop_take [OF core less.prems(1) fit Some] show ?thesis by blast
    qed
  qed
qed

lemma page_alloc_cases:
  assumes inv: "pmm_inv U F A s" and k: "unat k < PMM_MAX_ORDER"
  shows "(\<nexists>p j. smallest_fit F (unat k) p j) \<and> page_alloc k s = Some (None, s) \<or>
         (\<exists>p j s'. smallest_fit F (unat k) p j \<and> page_alloc k s = Some (Some p, s') \<and>
           pmm_inv U (abs_take p (unat k) j F) (insert (p, unat k) A) s' \<and>
           g_free_pages s' = g_free_pages s - 2 ^ unat k)"
proof -
  from inv have core: "core F A {} U s" and co: "coalesced F"
    and free: "g_free_pages s = of_nat (card (frames_of F))"
    and total: "g_total_pages s = of_nat (card U)" and ready: "g_pmm_ready s"
    by (simp_all add: pmm_inv_def)
  have alloc: "page_alloc k s = page_alloc_loop k k s"
    using ready k by (simp add: page_alloc_def)
  have "pmm_inv U (abs_take p (unat k) j F) (insert (p, unat k) A) s'"
    if fit: "smallest_fit F (unat k) p j"
      and c: "core (abs_take p (unat k) j F) (insert (p, unat k) A) {} U s'"
      and g: "same_globals (s\<lparr>g_free_pages := g_free_pages s - 2 ^ unat k\<rparr>) s'" for p j s'
  proof -
    from fit have mem: "(p, j) \<in> F" "unat k \<le> j" by (simp_all add: smallest_fit_def)
    note take = abs_take_ok [OF core_blocks(2) [OF core] mem]
    have "(of_nat (card (frames_of F)) :: u64) =
        2 ^ unat k + of_nat (card (frames_of (abs_take p (unat k) j F)))"
      by (rule card_frames_split [OF core_blocks(5) [OF core] take(2,3)])
    with c g take(4) [OF co] free total ready show ?thesis
      by (simp add: pmm_inv_def same_globals_def)
  qed
  note took = this
  have "g_free_pages s' = g_free_pages s - 2 ^ unat k"
    if "same_globals (s\<lparr>g_free_pages := g_free_pages s - 2 ^ unat k\<rparr>) s'" for s'
    using that by (simp add: same_globals_def)
  with took page_alloc_loop_core [OF core order_refl, of k] show ?thesis
    unfolding alloc by blast
qed

section \<open>Release\<close>

text \<open>The descriptor that \<open>pmm_free\<close> finds for the address of a frame of the database.\<close>

lemma core_frame_page:
  assumes core: "core F A H U s" and p: "p \<le> max_of s"
  shows "phys_to_page (VIRT_TO_PHYS hhdm (PHYS_TO_VIRT hhdm (PFN_PHYS (of_nat p)))) s = Some p"
proof -
  have "unat (of_nat p :: u64) = p" using core_pfn [OF core p] .
  moreover have "p < 2 ^ 52" using core p by (simp add: core_def)
  ultimately have "PHYS_PFN (VIRT_TO_PHYS hhdm (PHYS_TO_VIRT hhdm (PFN_PHYS (of_nat p)))) = of_nat p"
    by (simp add: PHYS_PFN_PFN_PHYS)
  with p show ?thesis
    using pfndb_get_page_Some [OF core, of "of_nat p"] core_pfn [OF core p]
    by (simp add: pfndb_phys_to_page_def word_less_nat_alt)
qed

lemma pmm_free_used:
  assumes inv: "pmm_inv U F A s" and mem: "(p, k) \<in> A"
    and ptr: "ptr = PHYS_TO_VIRT hhdm (PFN_PHYS (of_nat p))" "ptr \<noteq> 0"
  shows "\<exists>s'. pmm_free hhdm ptr s = Some s' \<and> pmm_inv U (abs_release p k F) (A - {(p, k)}) s' \<and>
           g_free_pages s' = g_free_pages s + 2 ^ k \<and>
           (k + 1 < PMM_MAX_ORDER \<and> (buddy p k, k) \<in> F \<and> buddy p k < p \<longrightarrow> stale_upper p k s')"
proof -
  from inv have core: "core F A {} U s" and co: "coalesced F"
    and free: "g_free_pages s = of_nat (card (frames_of F))"
    and total: "g_total_pages s = of_nat (card U)" and ready: "g_pmm_ready s"
    by (simp_all add: pmm_inv_def)
  from core_db [OF core] obtain db where db: "g_pfndb s = Some db" ..
  have ple: "p \<le> max_of s" using core_in_range [OF core] mem by blast
  have page: "phys_to_page (VIRT_TO_PHYS hhdm ptr) s = Some p"
    using core_frame_page [OF core ple] by (simp add: ptr(1))
  have marks: "PageUsed (db p)" "\<not> PageFree (db p)" "\<not> PageReserved (db p)" "unat (pg_order (db p)) = k"
    using core mem by (auto simp: core_def marks_def db)
  let ?s = "s\<lparr>g_free_pages := g_free_pages s + 2 ^ k\<rparr>"
  obtain s' where s': "pmm_free_block (Some p) ?s = Some s'"
    "core (abs_release p k F) (A - {(p, k)}) {} U s'" "same_globals ?s s'"
    "k + 1 < PMM_MAX_ORDER \<and> (buddy p k, k) \<in> F \<and> buddy p k < p \<longrightarrow> stale_upper p k s'"
    using pmm_free_block_core [of F A "{}" U ?s p k] core mem by auto
  have run: "pmm_free hhdm ptr s = Some s'"
    using ready ptr(2) page marks s'(1)
    by (simp add: pmm_free_def page_read_Some db ple push_bit_eq_mult)
  have ok: "block_ok p k" using core_blocks(1) [OF core] mem blocks_ok_mem by blast
  have disj: "frames p k \<inter> frames_of F = {}"
    using core_blocks(3) [OF core] frames_of_mem [OF mem] by blast
  note rel = abs_release_ok [OF ok core_blocks(2) [OF core] disj]
  have "(of_nat (card (frames_of (abs_release p k F))) :: u64) = 2 ^ k + of_nat (card (frames_of F))"
    using core_blocks(5) [OF core] disj rel(2) by (intro card_frames_split) auto
  then show ?thesis
    using run s' rel(3) [OF co] free total ready
    by (auto simp: pmm_inv_def same_globals_def)
qed

end
