(* ===== verification/PmmInit.thy ===== *)
theory PmmInit
  imports PmmCorrect
begin

text \<open>
  \<open>pmm_init\<close>: from a page frame database in which every page is marked either free or
  reserved, the two passes over the database (claim every free page, then release them one by
  one through the coalescing path) end in a state that satisfies the allocator's invariant.
\<close>

definition free_frames :: "'a pfndb_scheme \<Rightarrow> nat set" where
  "free_frames s = {i. i \<le> max_of s \<and> PageFree (db_of s i)}"

definition pfndb_ready :: "'a pfndb_scheme \<Rightarrow> bool" where
  "pfndb_ready s \<longleftrightarrow>
     g_pfndb s \<noteq> None \<and> max_of s < 2 ^ 52 \<and>
     (\<forall>i \<le> max_of s. PageReserved (db_of s i) \<longleftrightarrow> \<not> PageFree (db_of s i))"

text \<open>The descriptor after the first pass.\<close>

definition scanned :: "page \<Rightarrow> page" where
  "scanned p = (let q = page_reset_links (p\<lparr>pg_order := 0\<rparr>) in
     if PageFree q then ClearPageFree (SetPageUsed q) else q)"

lemma scanned_facts:
  "\<not> PageFree (scanned p)"
  "PageReserved (scanned p) \<longleftrightarrow> PageReserved p"
  "PageFree p \<Longrightarrow> PageUsed (scanned p)"
  "pg_order (scanned p) = 0"
  by (auto simp: scanned_def Let_def page_simps)

lemma init_scan_page_eq:
  assumes db: "g_pfndb s = Some db" and i: "i \<le> max_of s" and max: "max_of s < 2 ^ 52"
  shows "init_scan_page i s = Some (s\<lparr>g_pfndb := Some (db(i := scanned (db i))),
           g_total_pages := g_total_pages s + (if PageFree (db i) then 1 else 0)\<rparr>)"
proof -
  have pg: "pfn_to_page (of_nat i) s = Some i"
    using i max db by (simp add: pfndb_get_page_def word_less_nat_alt unat_of_nat_small)
  show ?thesis
    using i
    by (auto simp: init_scan_page_def pg page_write_Some page_read_Some db scanned_def Let_def
        page_simps)
qed

text \<open>The first pass.\<close>

lemma init_scan:
  assumes db: "g_pfndb s = Some db" and max: "max_of s < 2 ^ 52" and total: "g_total_pages s = 0"
  shows "for_each init_scan_page [0..<Suc (max_of s)] s =
    Some (s\<lparr>g_pfndb := Some (\<lambda>i. if i \<le> max_of s then scanned (db i) else db i),
            g_total_pages := of_nat (card (free_frames s))\<rparr>)"
proof -
  let ?P = "\<lambda>done t. t = s\<lparr>g_pfndb := Some (\<lambda>i. if i \<in> set done then scanned (db i) else db i),
    g_total_pages := of_nat (card (free_frames s \<inter> set done))\<rparr>"
  have "\<exists>t. for_each init_scan_page [0..<Suc (max_of s)] s = Some t \<and> ?P [0..<Suc (max_of s)] t"
  proof (rule for_each_invariant)
    show "?P [] s" using db total by simp
  next
    fix don i rest t
    assume split: "[0..<Suc (max_of s)] = don @ i # rest" and P: "?P don t"
    have ile: "i \<le> max_of s" using split by (metis in_set_conv_decomp atLeastLessThan_iff
          less_Suc_eq_le set_upt)
    have "distinct (don @ i # rest)" by (metis split distinct_upt)
    then have fresh: "i \<notin> set don" by simp
    have "card (free_frames s \<inter> set (don @ [i])) =
        card (free_frames s \<inter> set don) + (if PageFree (db i) then 1 else 0)"
      using fresh ile by (auto simp: free_frames_def db Int_insert_right)
    then have cnt: "(of_nat (card (free_frames s \<inter> set (don @ [i]))) :: u64) =
        of_nat (card (free_frames s \<inter> set don)) + (if PageFree (db i) then 1 else 0)"
      by simp
    let ?db = "\<lambda>i. if i \<in> set don then scanned (db i) else db i"
    have upd: "?db(i := scanned (?db i)) = (\<lambda>j. if j \<in> set (don @ [i]) then scanned (db j) else db j)"
      using fresh by (auto intro!: ext)
    have "init_scan_page i t = Some (t\<lparr>g_pfndb := Some (?db(i := scanned (?db i))),
        g_total_pages := g_total_pages t + (if PageFree (?db i) then 1 else 0)\<rparr>)"
      using P ile max by (intro init_scan_page_eq) simp_all
    then show "\<exists>t'. init_scan_page i t = Some t' \<and> ?P (don @ [i]) t'"
      unfolding upd cnt using P fresh by simp
  qed
  moreover have "free_frames s \<inter> {0..<Suc (max_of s)} = free_frames s"
    by (auto simp: free_frames_def)
  ultimately show ?thesis
    by (auto simp: less_Suc_eq_le simp del: upt_Suc intro!: ext)
qed

text \<open>Before the second pass every managed frame is a block of order 0 that is handed out.\<close>

definition singles :: "nat set \<Rightarrow> block set" where
  "singles X = (\<lambda>p. (p, 0)) ` X"

lemma singles_facts:
  "frames_of (singles X) = X" "blocks_ok (singles X)" "(p, k) \<in> singles X \<longleftrightarrow> p \<in> X \<and> k = 0"
  "singles {} = {}" "singles (X - {p}) = singles X - {(p, 0)}"
  by (auto simp: singles_def frames_of_def frames_def blocks_ok_def block_ok_def PMM_MAX_ORDER_def)

lemma core_after_scan:
  assumes ready: "pfndb_ready s" and db: "g_pfndb s = Some db"
    and db': "g_pfndb t = Some (\<lambda>i. if i \<le> max_of s then scanned (db i) else db i)"
    and max: "g_max_pfn t = g_max_pfn s"
    and lists: "g_free_lists t = (\<lambda>_. \<lparr>fl_head = None, fl_count = 0\<rparr>)"
  shows "core {} (singles (free_frames s)) {} (free_frames s) t"
proof -
  have "free_lists_rep (\<lambda>_. []) t"
    by (simp add: free_lists_rep_def free_list_rep_def db' lists)
  moreover have "blocks_of (\<lambda>_. []) = {}" by (simp add: blocks_of_def)
  moreover have "layout {} (singles (free_frames s)) {} (free_frames s)"
    by (simp add: layout_def singles_facts)
  moreover have "marks {} (singles (free_frames s)) (free_frames s) t"
    using ready by (auto simp: marks_def singles_facts db' max scanned_facts free_frames_def
        pfndb_ready_def db)
  moreover have "\<forall>i\<in>free_frames s. i \<le> max_of t" by (simp add: free_frames_def max)
  ultimately show ?thesis using ready max by (auto simp: core_def pfndb_ready_def)
qed

text \<open>One step of the second pass.\<close>

lemma init_release_step:
  assumes core: "core F (singles (U - set don)) {} U s" and co: "coalesced F"
    and free: "g_free_pages s = of_nat (card (frames_of F))"
    and i: "i \<le> max_of s" "i \<notin> set don"
  shows "\<exists>F' s'. init_release_page i s = Some s' \<and>
           core F' (singles (U - set (don @ [i]))) {} U s' \<and> coalesced F' \<and>
           g_free_pages s' = of_nat (card (frames_of F')) \<and>
           same_globals (s\<lparr>g_free_pages := g_free_pages s'\<rparr>) s'"
proof -
  from core_db [OF core] obtain db where db: "g_pfndb s = Some db" ..
  have pg: "pfn_to_page (of_nat i) s = Some i"
    using pfndb_get_page_Some [OF core, of "of_nat i"] core_pfn [OF core i(1)] i(1) by simp
  show ?thesis
  proof (cases "i \<in> U")
    case False
    then have "\<not> PageUsed (db i) \<or> PageReserved (db i)"
      using core i(1) by (auto simp: core_def marks_def db)
    then have "init_release_page i s = Some s"
      using pg i(1) by (simp add: init_release_page_def page_read_Some db)
    moreover have "U - set (don @ [i]) = U - set don" using False by auto
    ultimately show ?thesis using core co free by (auto simp: same_globals_def)
  next
    case True
    then have mem: "(i, 0) \<in> singles (U - set don)" using i(2) by (simp add: singles_facts)
    then have marks: "PageUsed (db i)" "\<not> PageReserved (db i)"
      using core by (auto simp: core_def marks_def db)
    let ?s = "s\<lparr>g_free_pages := g_free_pages s + 1\<rparr>"
    have "core F (singles (U - set don)) {} U ?s" using core by simp
    from pmm_free_block_core [OF this mem refl] obtain s' where
      s': "pmm_free_block (Some i) ?s = Some s'"
      "core (abs_release i 0 F) (singles (U - set don) - {(i, 0)}) {} U s'" "same_globals ?s s'"
      by blast
    have run: "init_release_page i s = Some s'"
      using pg marks i(1) s'(1) by (simp add: init_release_page_def page_read_Some db)
    have rest: "singles (U - set don) - {(i, 0)} = singles (U - set (don @ [i]))"
    proof -
      have "U - set (don @ [i]) = U - set don - {i}" by auto
      then show ?thesis by (simp only: singles_facts)
    qed
    have ok: "block_ok i 0" by (simp add: block_ok_def PMM_MAX_ORDER_def)
    have disj: "frames i 0 \<inter> frames_of F = {}"
      using core_blocks(3) [OF core] frames_of_mem [OF mem] by blast
    note rel = abs_release_ok [OF ok core_blocks(2) [OF core] disj]
    have "(of_nat (card (frames_of (abs_release i 0 F))) :: u64) = 2 ^ 0 + of_nat (card (frames_of F))"
      using core_blocks(5) [OF core] disj rel(2) by (intro card_frames_split) auto
    then have "g_free_pages s' = of_nat (card (frames_of (abs_release i 0 F)))"
      using s'(3) free by (simp add: same_globals_def)
    with run s'(2,3) rel(3) [OF co] rest show ?thesis
      by (auto simp: same_globals_def)
  qed
qed

text \<open>The second pass.\<close>

lemma init_release:
  assumes core: "core {} (singles U) {} U s" and free: "g_free_pages s = 0"
  shows "\<exists>F s'. for_each init_release_page [0..<Suc (max_of s)] s = Some s' \<and>
           core F {} {} U s' \<and> coalesced F \<and> g_free_pages s' = of_nat (card (frames_of F)) \<and>
           same_globals (s\<lparr>g_free_pages := g_free_pages s'\<rparr>) s'"
proof -
  let ?P = "\<lambda>don t. \<exists>F. core F (singles (U - set don)) {} U t \<and> coalesced F \<and>
    g_free_pages t = of_nat (card (frames_of F)) \<and>
    same_globals (s\<lparr>g_free_pages := g_free_pages t\<rparr>) t"
  have "\<exists>t. for_each init_release_page [0..<Suc (max_of s)] s = Some t \<and> ?P [0..<Suc (max_of s)] t"
  proof (rule for_each_invariant)
    show "?P [] s" using core free by (auto simp: coalesced_def same_globals_def)
  next
    fix don i rest t
    assume split: "[0..<Suc (max_of s)] = don @ i # rest" and P: "?P don t"
    have ile: "i \<le> max_of s" using split by (metis in_set_conv_decomp atLeastLessThan_iff
          less_Suc_eq_le set_upt)
    have "distinct (don @ i # rest)" by (metis split distinct_upt)
    then have fresh: "i \<notin> set don" by simp
    from P obtain F where F: "core F (singles (U - set don)) {} U t" "coalesced F"
      "g_free_pages t = of_nat (card (frames_of F))"
      and g: "same_globals (s\<lparr>g_free_pages := g_free_pages t\<rparr>) t" by blast
    have "i \<le> max_of t" using ile g by (simp add: same_globals_def)
    from init_release_step [OF F this fresh] g
    show "\<exists>t'. init_release_page i t = Some t' \<and> ?P (don @ [i]) t'"
      unfolding same_globals_def by fastforce
  qed
  then obtain t where "for_each init_release_page [0..<Suc (max_of s)] s = Some t"
    and P: "?P [0..<Suc (max_of s)] t" by blast
  moreover have "singles (U - set [0..<Suc (max_of s)]) = {}"
  proof -
    have "U \<subseteq> {0..<Suc (max_of s)}" using core by (auto simp: core_def)
    then have "U - set [0..<Suc (max_of s)] = {}" by (simp del: upt_Suc)
    then show ?thesis by (simp only: singles_facts(4))
  qed
  ultimately show ?thesis using P by metis
qed

lemma pmm_init_inv:
  assumes ready: "pfndb_ready s"
  shows "\<exists>F s'. pmm_init s = Some (True, s') \<and> pmm_inv (free_frames s) F {} s' \<and>
           frames_of F = free_frames s"
proof -
  from ready obtain db where db: "g_pfndb s = Some db" and max: "max_of s < 2 ^ 52"
    by (auto simp: pfndb_ready_def)
  define s0 where "s0 = s\<lparr>g_free_lists := (\<lambda>_. \<lparr>fl_head = NULL_page, fl_count = 0\<rparr>),
    g_free_pages := 0, g_total_pages := 0, g_pmm_ready := False\<rparr>"
  have s0: "g_pfndb s0 = Some db" "g_max_pfn s0 = g_max_pfn s" "free_frames s0 = free_frames s"
    "g_total_pages s0 = 0" by (simp_all add: s0_def db free_frames_def)
  define s1 where "s1 = s0\<lparr>g_pfndb := Some (\<lambda>i. if i \<le> max_of s0 then scanned (db i) else db i),
    g_total_pages := of_nat (card (free_frames s0))\<rparr>"
  have scan: "for_each init_scan_page [0..<Suc (max_of s0)] s0 = Some s1"
    using init_scan [OF s0(1)] max s0(2,4) by (simp add: s1_def del: upt_Suc)
  have core1: "core {} (singles (free_frames s)) {} (free_frames s) s1"
    using core_after_scan [OF ready db, of s1] by (simp add: s1_def s0_def)
  have "g_free_pages s1 = 0" by (simp add: s1_def s0_def)
  from init_release [OF core1 this] obtain F s2 where
    rel: "for_each init_release_page [0..<Suc (max_of s1)] s1 = Some s2"
    "core F {} {} (free_frames s) s2" "coalesced F"
    "g_free_pages s2 = of_nat (card (frames_of F))"
    "same_globals (s1\<lparr>g_free_pages := g_free_pages s2\<rparr>) s2" by blast
  have "pmm_init s = Some (True, s2\<lparr>g_pmm_ready := True\<rparr>)"
    using db scan rel(1)
    by (simp add: pmm_init_def pfndb_get_db_def pfndb_get_max_pfn_def Let_def s0_def [symmetric] del: upt_Suc)
  moreover have "pmm_inv (free_frames s) F {} (s2\<lparr>g_pmm_ready := True\<rparr>)"
    using rel by (simp add: pmm_inv_def same_globals_def s1_def s0(3))
  moreover have "frames_of F = free_frames s"
    using rel(2) by (simp add: core_def layout_def)
  ultimately show ?thesis by blast
qed

end
