(* ===== verification/PfndbCorrect.thy ===== *)
theory PfndbCorrect
  imports PmmLists
begin

text \<open>
  Correctness of the page frame database: what \<open>pfndb_init\<close> writes into every descriptor, that
  the frames which hold the database itself stay reserved, and the conversions between
  descriptors, frame numbers and physical addresses.
\<close>

section \<open>Loops over descriptors\<close>

lemma for_each_page_write:
  assumes db: "g_pfndb s = Some db" and xs: "\<forall>x\<in>set xs. x \<le> max_of s" "distinct xs"
  shows "for_each (\<lambda>pfn. page_write (Some pfn) f) xs s =
         Some (s\<lparr>g_pfndb := Some (\<lambda>i. if i \<in> set xs then f (db i) else db i)\<rparr>)"
  using assms
proof (induction xs arbitrary: s db)
  case Nil
  then show ?case by simp
next
  case (Cons x xs)
  let ?db = "db(x := f (db x))" and ?s = "s\<lparr>g_pfndb := Some (db(x := f (db x)))\<rparr>"
  have step: "page_write (Some x) f s = Some ?s"
    using Cons.prems by (simp add: page_write_Some)
  have "for_each (\<lambda>pfn. page_write (Some pfn) f) xs ?s =
      Some (?s\<lparr>g_pfndb := Some (\<lambda>i. if i \<in> set xs then f (?db i) else ?db i)\<rparr>)"
    using Cons.prems by (intro Cons.IH) auto
  moreover have "(\<lambda>i. if i \<in> set xs then f (?db i) else ?db i) =
      (\<lambda>i. if i \<in> set (x # xs) then f (db i) else db i)"
    using Cons.prems by (auto intro!: ext)
  ultimately show ?case using step by simp
qed

text \<open>The frames that marking \<open>[base, base + len)\<close> touches.\<close>

definition range_pfns :: "u64 \<Rightarrow> u64 \<Rightarrow> nat set" where
  "range_pfns base len =
     (if len = 0 then {}
      else {unat (PHYS_PFN base)..<unat (PHYS_PFN (PAGE_ALIGN_UP (base + len)))})"

lemma pfndb_mark_range_eq:
  assumes db: "g_pfndb s = Some db" and max: "max_of s < 2 ^ 52"
  shows "pfndb_mark_range base len flags s = Some (s\<lparr>g_pfndb := Some
    (\<lambda>i. if i \<le> max_of s \<and> i \<in> range_pfns base len then page_set_state flags 0 (db i) else db i)\<rparr>)"
proof (cases "len = 0 \<or> PHYS_PFN base > g_max_pfn s")
  case True
  then have "\<not> (i \<le> max_of s \<and> i \<in> range_pfns base len)" for i
    by (auto simp: range_pfns_def word_less_nat_alt)
  then have "(\<lambda>i. if i \<le> max_of s \<and> i \<in> range_pfns base len then page_set_state flags 0 (db i)
      else db i) = db" by (intro ext) (simp only: if_False)
  with True db show ?thesis by (auto simp: pfndb_mark_range_def Let_def)
next
  case False
  let ?e = "PHYS_PFN (PAGE_ALIGN_UP (base + len))"
  define e where "e = (if ?e > g_max_pfn s + 1 then g_max_pfn s + 1 else ?e)"
  have max1: "unat (g_max_pfn s + 1) = max_of s + 1"
    using max by (simp add: unat_word_ariths)
  have e: "unat e = min (max_of s + 1) (unat ?e)"
    by (auto simp: e_def max1 word_less_nat_alt min_def)
  have set: "i \<in> set (pfn_range (PHYS_PFN base) e) \<longleftrightarrow> i \<le> max_of s \<and> i \<in> range_pfns base len" for i
    using False by (auto simp: pfn_range_def range_pfns_def e)
  have "pfndb_mark_range base len flags s =
      for_each (\<lambda>pfn. page_write (Some pfn) (page_set_state flags 0)) (pfn_range (PHYS_PFN base) e) s"
    using False db by (simp add: pfndb_mark_range_def Let_def e_def)
  also have "\<dots> = Some (s\<lparr>g_pfndb := Some (\<lambda>i. if i \<in> set (pfn_range (PHYS_PFN base) e)
      then page_set_state flags 0 (db i) else db i)\<rparr>)"
    using db set by (intro for_each_page_write) (auto simp: pfn_range_def)
  finally show ?thesis unfolding set .
qed

section \<open>The memory map\<close>

definition entry_pfns :: "memmap_entry \<Rightarrow> nat set" where
  "entry_pfns e = (if mm_usable e then range_pfns (mm_base e) (mm_length e) else {})"

definition usable_pfns :: "memmap_entry list \<Rightarrow> nat set" where
  "usable_pfns es = (\<Union>e\<in>set es. entry_pfns e)"

lemma usable_pfns_simps [simp]:
  "usable_pfns [] = {}"
  "usable_pfns (e # es) = entry_pfns e \<union> usable_pfns es"
  by (simp_all add: usable_pfns_def)

definition fresh_page :: "u32 \<Rightarrow> page" where
  "fresh_page flags = \<lparr>pg_flags = flags, pg_order = 0, pg_next = None, pg_prev = None\<rparr>"

lemma page_set_state_fresh: "page_set_state flags 0 p = fresh_page flags"
  by (cases p) (simp add: page_set_state_def fresh_page_def)

lemma mark_usable_all:
  assumes db: "g_pfndb s = Some db" and max: "max_of s < 2 ^ 52"
  shows "for_each mark_usable es s = Some (s\<lparr>g_pfndb := Some
    (\<lambda>i. if i \<le> max_of s \<and> i \<in> usable_pfns es then fresh_page PAGE_FREE else db i)\<rparr>)"
  using assms
proof (induction es arbitrary: s db)
  case Nil
  then show ?case by simp
next
  case (Cons e es)
  let ?db = "\<lambda>i. if i \<le> max_of s \<and> i \<in> entry_pfns e then fresh_page PAGE_FREE else db i"
  let ?s = "s\<lparr>g_pfndb := Some ?db\<rparr>"
  have "mark_usable e s = Some ?s"
    using Cons.prems
    by (simp add: mark_usable_def pfndb_mark_range_eq entry_pfns_def page_set_state_fresh
        cong: if_cong)
  moreover have "for_each mark_usable es ?s = Some (?s\<lparr>g_pfndb := Some
    (\<lambda>i. if i \<le> max_of ?s \<and> i \<in> usable_pfns es then fresh_page PAGE_FREE else ?db i)\<rparr>)"
    using Cons.prems by (intro Cons.IH) simp_all
  moreover have "(\<lambda>i. if i \<le> max_of s \<and> i \<in> usable_pfns es then fresh_page PAGE_FREE else ?db i) =
      (\<lambda>i. if i \<le> max_of s \<and> i \<in> usable_pfns (e # es) then fresh_page PAGE_FREE else db i)"
    by (auto intro!: ext)
  ultimately show ?case by simp
qed

lemma calc_max_pfn_loop_bounds:
  assumes "unat m < 2 ^ 52"
  shows "unat (calc_max_pfn_loop es m) < 2 ^ 52" and "m \<le> calc_max_pfn_loop es m"
  using assms
proof (induction es m rule: calc_max_pfn_loop.induct)
  case (2 e es m)
  let ?e = "drop_bit PAGE_SHIFT (PAGE_ALIGN_UP (mm_base e + mm_length e))"
  have lt: "unat ?e < 2 ^ 52"
    using unsigned_less [of "PAGE_ALIGN_UP (mm_base e + mm_length e)", where 'a = nat]
    by (simp add: PAGE_SHIFT_def unat_drop_bit less_mult_imp_div_less)
  have lt1: "unat (?e - 1) < 2 ^ 52" if "?e \<noteq> 0" using lt that by (simp add: unat_minus_1)
  {
    case 1
    then show ?case using "2.IH"(1,3) lt1 by (auto simp: Let_def)
  next
    case 2
    then show ?case using "2.IH"(2,4) lt1 by (auto simp: Let_def intro: order_trans)
  }
qed simp_all

lemma calc_max_pfn_loop_covers:
  assumes "unat m < 2 ^ 52" and "e \<in> set es" and "i \<in> entry_pfns e"
  shows "i \<le> unat (calc_max_pfn_loop es m)"
  using assms
proof (induction es m rule: calc_max_pfn_loop.induct)
  case (2 a es m)
  let ?e = "drop_bit PAGE_SHIFT (PAGE_ALIGN_UP (mm_base a + mm_length a))"
  let ?m = "if ?e \<noteq> 0 \<and> ?e - 1 > m then ?e - 1 else m"
  have lt: "unat ?e < 2 ^ 52"
    using unsigned_less [of "PAGE_ALIGN_UP (mm_base a + mm_length a)", where 'a = nat]
    by (simp add: PAGE_SHIFT_def unat_drop_bit less_mult_imp_div_less)
  then have m: "unat ?m < 2 ^ 52" using "2.prems"(1) by (auto simp: unat_minus_1)
  show ?case
  proof (cases "e \<in> set es")
    case True
    then show ?thesis using "2.IH" "2.prems" m by (auto simp: Let_def)
  next
    case False
    then have ea: "e = a" using "2.prems" by simp
    with "2.prems" have us: "mm_usable a" and i: "i < unat ?e"
      by (auto simp: entry_pfns_def range_pfns_def PHYS_PFN_def split: if_splits)
    then have "?e \<noteq> 0" by auto
    then have "i \<le> unat ?m" using i by (auto simp: unat_minus_1 word_less_nat_alt)
    also have "\<dots> \<le> unat (calc_max_pfn_loop es ?m)"
      using calc_max_pfn_loop_bounds(2) [OF m] by (simp add: word_le_nat_alt)
    finally show ?thesis using us by (simp add: Let_def)
  qed
qed simp

lemma calc_max_pfn_bound: "unat (calc_max_pfn_loop es 0) < 2 ^ 52"
  by (rule calc_max_pfn_loop_bounds) simp

section \<open>Initialisation\<close>

text \<open>The database after a successful \<open>pfndb_init\<close>, as a function of the memory map.\<close>

definition initial_db :: "memmap_entry list \<Rightarrow> nat \<Rightarrow> nat \<Rightarrow> page" where
  "initial_db es n i =
     (if i > n then zero_page
      else if i \<in> usable_pfns es then fresh_page PAGE_FREE else fresh_page PAGE_RESERVED)"

definition storage_size :: "memmap_entry list \<Rightarrow> u64" where
  "storage_size es = PAGE_ALIGN_UP ((calc_max_pfn_loop es 0 + 1) * sizeof_page)"

lemma pfndb_init_success:
  assumes res: "reserve_storage_loop (storage_size es) es = (Some phys, es')" and phys: "phys \<noteq> 0"
  shows "pfndb_init (Some h) (Some es) s = Some (Some es',
    s\<lparr>g_max_pfn := calc_max_pfn_loop es 0, g_pfndb_phys := phys,
      g_pfndb := Some (initial_db es' (unat (calc_max_pfn_loop es 0)))\<rparr>)"
proof -
  let ?m = "calc_max_pfn_loop es 0"
  define s0 where "s0 = s\<lparr>g_max_pfn := ?m, g_pfndb_phys := phys, g_pfndb := Some (\<lambda>_. zero_page)\<rparr>"
  let ?db1 = "\<lambda>i. if i \<in> set [0..<Suc (unat ?m)] then fresh_page PAGE_RESERVED else zero_page"
  define s1 where "s1 = s0\<lparr>g_pfndb := Some ?db1\<rparr>"
  have r: "for_each (\<lambda>pfn. page_write (Some pfn) (page_set_state PAGE_RESERVED 0)) [0..<Suc (unat ?m)] s0
      = Some s1"
    using for_each_page_write [of s0 "\<lambda>_. zero_page" "[0..<Suc (unat ?m)]" "page_set_state PAGE_RESERVED 0"]
    by (simp add: s0_def s1_def page_set_state_fresh del: upt_Suc cong: if_cong)
  have u: "for_each mark_usable es' s1 = Some (s1\<lparr>g_pfndb := Some
    (\<lambda>i. if i \<le> max_of s1 \<and> i \<in> usable_pfns es' then fresh_page PAGE_FREE else ?db1 i)\<rparr>)"
    using calc_max_pfn_bound [of es] by (intro mark_usable_all) (simp_all add: s1_def s0_def)
  have "(\<lambda>i. if i \<le> unat ?m \<and> i \<in> usable_pfns es' then fresh_page PAGE_FREE else ?db1 i) =
      initial_db es' (unat ?m)"
    by (auto intro!: ext simp: initial_db_def less_Suc_eq_le simp del: upt_Suc)
  then have s2: "s1\<lparr>g_pfndb := Some
    (\<lambda>i. if i \<le> max_of s1 \<and> i \<in> usable_pfns es' then fresh_page PAGE_FREE else ?db1 i)\<rparr> =
    s\<lparr>g_max_pfn := ?m, g_pfndb_phys := phys, g_pfndb := Some (initial_db es' (unat ?m))\<rparr>"
    by (simp add: s1_def s0_def del: upt_Suc)
  have "pfndb_init (Some h) (Some es) s =
      do { s \<leftarrow> for_each (\<lambda>pfn. page_write (Some pfn) (page_set_state PAGE_RESERVED 0))
             [0..<Suc (unat ?m)] s0;
           s \<leftarrow> for_each mark_usable es' s; Some (Some es', s) }"
    using res phys
    by (simp add: pfndb_init_def pfndb_calc_max_pfn_def pfndb_reserve_storage_def
        pfndb_storage_size_def storage_size_def s0_def Let_def del: upt_Suc)
  then show ?thesis by (simp only: r u s2 Option.bind.simps)
qed

lemma initial_db_marks:
  "i \<le> n \<Longrightarrow> PageFree (initial_db es n i) \<longleftrightarrow> i \<in> usable_pfns es"
  "i \<le> n \<Longrightarrow> PageReserved (initial_db es n i) \<longleftrightarrow> i \<notin> usable_pfns es"
  by (auto simp: initial_db_def page_simps fresh_page_def)

section \<open>The storage of the database\<close>

lemma reserve_storage_loop_Some:
  assumes "reserve_storage_loop n es = (Some phys, es')"
  shows "\<exists>pre e post. es = pre @ e # post \<and> mm_usable e \<and> n \<le> mm_length e \<and> phys = mm_base e \<and>
    (\<forall>x\<in>set pre. mm_usable x \<longrightarrow> mm_length x < n) \<and>
    es' = pre @ e\<lparr>mm_base := mm_base e + n, mm_length := mm_length e - n\<rparr> # post"
  using assms
proof (induction es arbitrary: es')
  case (Cons a es)
  show ?case
  proof (cases "\<not> mm_usable a \<or> mm_length a < n")
    case False
    with Cons.prems show ?thesis by (intro exI [of _ "[]"]) auto
  next
    case True
    with Cons.prems obtain r where r: "reserve_storage_loop n es = (Some phys, r)" "es' = a # r"
      by (auto split: prod.splits)
    from Cons.IH [OF r(1)] obtain pre e post where
      "es = pre @ e # post" "mm_usable e" "n \<le> mm_length e" "phys = mm_base e"
      "\<forall>x\<in>set pre. mm_usable x \<longrightarrow> mm_length x < n"
      "r = pre @ e\<lparr>mm_base := mm_base e + n, mm_length := mm_length e - n\<rparr> # post" by blast
    with True r(2) show ?thesis by (intro exI [of _ "a # pre"]) auto
  qed
qed simp

lemma reserve_storage_loop_None:
  "reserve_storage_loop n es = (None, es') \<Longrightarrow>
   es' = es \<and> (\<forall>e\<in>set es. mm_usable e \<longrightarrow> mm_length e < n)"
  by (induction es arbitrary: es') (auto split: prod.splits if_splits)

text \<open>
  What the boot protocol guarantees of usable entries: page aligned, inside the address space,
  and not overlapping.
\<close>

definition memmap_wf :: "memmap_entry list \<Rightarrow> bool" where
  "memmap_wf es \<longleftrightarrow>
     (\<forall>e\<in>set es. mm_usable e \<longrightarrow> 4096 dvd unat (mm_base e) \<and> 4096 dvd unat (mm_length e) \<and>
        unat (mm_base e) + unat (mm_length e) + 4095 < 2 ^ 64) \<and>
     sorted_wrt (\<lambda>a b. entry_pfns a \<inter> entry_pfns b = {}) es"

lemma entry_pfns_aligned:
  assumes "mm_usable e" "4096 dvd unat (mm_base e)" "4096 dvd unat (mm_length e)"
    "unat (mm_base e) + unat (mm_length e) + 4095 < 2 ^ 64"
  shows "entry_pfns e = {unat (mm_base e) div 4096..<(unat (mm_base e) + unat (mm_length e)) div 4096}"
proof -
  from assms(2,3) obtain a b where ab: "unat (mm_base e) = 4096 * a" "unat (mm_length e) = 4096 * b"
    by (auto elim!: dvdE)
  have sum: "unat (mm_base e + mm_length e) = 4096 * (a + b)"
    using assms(4) by (simp add: unat_add_nowrap ab)
  have "unat (PAGE_ALIGN_UP (mm_base e + mm_length e)) = (4096 * (a + b) + 4095) div 4096 * 4096"
    using assms(4) by (simp add: unat_PAGE_ALIGN_UP sum ab)
  then have up: "unat (PHYS_PFN (PAGE_ALIGN_UP (mm_base e + mm_length e))) = a + b"
    by (simp add: unat_PHYS_PFN)
  have "mm_length e = 0 \<longleftrightarrow> b = 0" using ab(2) unat_eq_zero [of "mm_length e"] by auto
  with up show ?thesis
    using assms(1) by (auto simp: entry_pfns_def range_pfns_def unat_PHYS_PFN ab)
qed

lemma storage_size_aligned: "4096 dvd unat (storage_size es)"
  by (simp add: storage_size_def PAGE_ALIGN_UP_def PAGE_MASK_eq unat_align)

lemma reserved_entry_pfns:
  assumes "mm_usable e" "4096 dvd unat (mm_base e)" "4096 dvd unat (mm_length e)"
    "unat (mm_base e) + unat (mm_length e) + 4095 < 2 ^ 64" "n \<le> mm_length e" "4096 dvd unat n"
  shows "entry_pfns (e\<lparr>mm_base := mm_base e + n, mm_length := mm_length e - n\<rparr>) =
    {(unat (mm_base e) + unat n) div 4096..<(unat (mm_base e) + unat (mm_length e)) div 4096}"
proof -
  let ?e = "e\<lparr>mm_base := mm_base e + n, mm_length := mm_length e - n\<rparr>"
  have n: "unat n \<le> unat (mm_length e)" using assms(5) by (simp add: word_le_nat_alt)
  have b: "unat (mm_base e + n) = unat (mm_base e) + unat n"
    using assms(4) n by (intro unat_add_nowrap) simp
  have l: "unat (mm_length e - n) = unat (mm_length e) - unat n"
    using assms(5) by (rule unat_sub)
  have "entry_pfns ?e = {unat (mm_base ?e) div 4096..<(unat (mm_base ?e) + unat (mm_length ?e)) div 4096}"
    using assms n by (intro entry_pfns_aligned) (simp_all add: b l)
  then show ?thesis using n by (simp add: b l)
qed

lemma storage_not_usable:
  assumes wf: "memmap_wf es" and res: "reserve_storage_loop (storage_size es) es = (Some phys, es')"
  shows "usable_pfns es' \<subseteq> usable_pfns es" and
    "{unat phys div 4096..<(unat phys + unat (storage_size es)) div 4096} \<subseteq> usable_pfns es" and
    "{unat phys div 4096..<(unat phys + unat (storage_size es)) div 4096} \<inter> usable_pfns es' = {}"
proof -
  let ?n = "storage_size es"
  let ?S = "{unat phys div 4096..<(unat phys + unat ?n) div 4096}"
  from reserve_storage_loop_Some [OF res] obtain pre e post where
    es: "es = pre @ e # post" and e: "mm_usable e" "?n \<le> mm_length e" "phys = mm_base e" and
    es': "es' = pre @ e\<lparr>mm_base := mm_base e + ?n, mm_length := mm_length e - ?n\<rparr> # post" by blast
  have al: "4096 dvd unat (mm_base e)" "4096 dvd unat (mm_length e)"
    "unat (mm_base e) + unat (mm_length e) + 4095 < 2 ^ 64"
    using wf e(1) by (auto simp: memmap_wf_def es)
  have new: "entry_pfns (e\<lparr>mm_base := mm_base e + ?n, mm_length := mm_length e - ?n\<rparr>) =
    {(unat (mm_base e) + unat ?n) div 4096..<(unat (mm_base e) + unat (mm_length e)) div 4096}"
    using e(1) al e(2) storage_size_aligned by (rule reserved_entry_pfns)
  note old = entry_pfns_aligned [OF e(1) al]
  have n: "unat ?n \<le> unat (mm_length e)" using e(2) by (simp add: word_le_nat_alt)
  have S: "?S \<subseteq> entry_pfns e"
    unfolding old e(3) using n by (auto intro: order.strict_trans2 div_le_mono)
  have sub: "{(unat (mm_base e) + unat ?n) div 4096..<(unat (mm_base e) + unat (mm_length e)) div 4096}
      \<subseteq> entry_pfns e"
    unfolding old using div_le_mono [of "unat (mm_base e)" "unat (mm_base e) + unat ?n" 4096] by auto
  have others: "entry_pfns x \<inter> entry_pfns e = {}" if "x \<in> set pre \<union> set post" for x
    using wf that by (auto simp: memmap_wf_def es sorted_wrt_append)
  have U: "usable_pfns es = entry_pfns e \<union> (\<Union>x\<in>set pre \<union> set post. entry_pfns x)"
    by (subst es) (auto simp: usable_pfns_def)
  have U': "usable_pfns es' = {(unat (mm_base e) + unat ?n) div 4096..<
      (unat (mm_base e) + unat (mm_length e)) div 4096} \<union> (\<Union>x\<in>set pre \<union> set post. entry_pfns x)"
    by (subst es') (auto simp: usable_pfns_def new)
  show "usable_pfns es' \<subseteq> usable_pfns es" unfolding U U' using sub by blast
  show "?S \<subseteq> usable_pfns es" unfolding U using S by blast
  have "?S \<inter> (\<Union>x\<in>set pre \<union> set post. entry_pfns x) = {}" using others S by blast
  then show "?S \<inter> usable_pfns es' = {}" unfolding U' by (auto simp: e(3))
qed

end
