(* ===== verification/BlockAllocator.thy ===== *)
theory BlockAllocator
  imports PmmInit PfndbCorrect
begin

text \<open>
  The interface of a block allocator: what a client of \<open>page_alloc\<close> and \<open>pmm_free\<close> relies on.
  The locale's laws speak of the set of blocks the client holds; its lemma is that a client
  which frees only blocks it holds runs for ever without a fault and never holds two
  overlapping blocks.  The interpretation at the end is the model of \<open>pmm.c\<close>.
\<close>

datatype client_op = Alloc nat | Free nat nat

text \<open>
  A client program over an allocator: \<open>Alloc k\<close> asks for a block of order \<open>k\<close>, \<open>Free p k\<close> gives
  back the block \<open>(p, k)\<close> if the client holds it and does nothing otherwise.
\<close>

fun client_run ::
  "(nat \<Rightarrow> 's \<Rightarrow> (nat option \<times> 's) option) \<Rightarrow> (nat \<Rightarrow> 's \<Rightarrow> 's option) \<Rightarrow>
   client_op list \<Rightarrow> block set \<Rightarrow> 's \<Rightarrow> (block set \<times> 's) option" where
  "client_run alloc free [] held s = Some (held, s)"
| "client_run alloc free (Alloc k # ops) held s = do {
     (r, s) \<leftarrow> alloc k s;
     client_run alloc free ops (case r of None \<Rightarrow> held | Some p \<Rightarrow> insert (p, k) held) s }"
| "client_run alloc free (Free p k # ops) held s =
     (if (p, k) \<in> held then do {
        s \<leftarrow> free p s;
        client_run alloc free ops (held - {(p, k)}) s }
      else client_run alloc free ops held s)"

fun op_order :: "client_op \<Rightarrow> nat" where
  "op_order (Alloc k) = k"
| "op_order (Free p k) = k"

locale block_allocator =
  fixes alloc :: "nat \<Rightarrow> 's \<Rightarrow> (nat option \<times> 's) option"
    and free :: "nat \<Rightarrow> 's \<Rightarrow> 's option"
    and holds :: "block set \<Rightarrow> 's \<Rightarrow> bool"
  assumes alloc_law: "holds A s \<Longrightarrow> k < PMM_MAX_ORDER \<Longrightarrow>
      \<exists>r s'. alloc k s = Some (r, s') \<and>
        (case r of None \<Rightarrow> holds A s'
         | Some p \<Rightarrow> block_ok p k \<and> frames p k \<inter> frames_of A = {} \<and> holds (insert (p, k) A) s')"
    and free_law: "holds A s \<Longrightarrow> (p, k) \<in> A \<Longrightarrow>
      \<exists>s'. free p s = Some s' \<and> holds (A - {(p, k)}) s'"
    and disjoint_law: "holds A s \<Longrightarrow> blocks_ok A"
begin

lemma client_run_safe:
  assumes "holds A s" and "\<forall>x\<in>set ops. op_order x < PMM_MAX_ORDER"
  shows "\<exists>A' s'. client_run alloc free ops A s = Some (A', s') \<and> holds A' s' \<and> blocks_ok A'"
  using assms
proof (induction ops arbitrary: A s)
  case Nil
  then show ?case using disjoint_law by auto
next
  case (Cons x ops)
  show ?case
  proof (cases x)
    case (Alloc k)
    with Cons.prems obtain r s1 where r: "alloc k s = Some (r, s1)"
      "case r of None \<Rightarrow> holds A s1 | Some p \<Rightarrow> block_ok p k \<and> frames p k \<inter> frames_of A = {} \<and>
         holds (insert (p, k) A) s1"
      using alloc_law [of A s k] by auto
    then have "holds (case r of None \<Rightarrow> A | Some p \<Rightarrow> insert (p, k) A) s1" by (cases r) auto
    from Cons.IH [OF this] Cons.prems(2) r(1) Alloc show ?thesis by simp
  next
    case (Free p k)
    show ?thesis
    proof (cases "(p, k) \<in> A")
      case True
      with free_law [OF Cons.prems(1)] obtain s1 where "free p s = Some s1" "holds (A - {(p, k)}) s1"
        by blast
      with Cons.IH [OF this(2)] Cons.prems(2) Free True show ?thesis by simp
    next
      case False
      with Cons.IH [OF Cons.prems(1)] Cons.prems(2) Free show ?thesis by simp
    qed
  qed
qed

end

section \<open>The physical memory manager as a block allocator\<close>

definition frame_ptr :: "u64 \<Rightarrow> nat \<Rightarrow> u64" where
  "frame_ptr hhdm p = PHYS_TO_VIRT hhdm (PFN_PHYS (of_nat p))"

definition pmm_alloc_pfn :: "nat \<Rightarrow> pmm \<Rightarrow> (nat option \<times> pmm) option" where
  "pmm_alloc_pfn k = page_alloc (of_nat k)"

definition pmm_free_pfn :: "u64 \<Rightarrow> nat \<Rightarrow> pmm \<Rightarrow> pmm option" where
  "pmm_free_pfn hhdm p = pmm_free hhdm (frame_ptr hhdm p)"

text \<open>The client holds \<open>A\<close>; no managed frame is mapped at the address 0.\<close>

definition pmm_holds :: "u64 \<Rightarrow> block set \<Rightarrow> pmm \<Rightarrow> bool" where
  "pmm_holds hhdm A s \<longleftrightarrow> (\<exists>U F. pmm_inv U F A s \<and> (\<forall>p\<in>U. frame_ptr hhdm p \<noteq> 0))"

lemma unat_of_nat_order: "k < PMM_MAX_ORDER \<Longrightarrow> unat (of_nat k :: u8) = k"
  by (rule unat_of_nat_small) (simp add: PMM_MAX_ORDER_def)

lemma pmm_inv_core: "pmm_inv U F A s \<Longrightarrow> core F A {} U s"
  by (simp add: pmm_inv_def)

lemma held_in_managed: "pmm_inv U F A s \<Longrightarrow> (p, k) \<in> A \<Longrightarrow> p \<in> U"
  using core_blocks(8) [OF pmm_inv_core] frames_of_mem frames_nonempty by blast

lemma fit_block:
  assumes inv: "pmm_inv U F A s" and fit: "smallest_fit F k p c"
  shows "block_ok p k" "frames p k \<subseteq> frames_of F" "frames p k \<inter> frames_of A = {}"
    "frames_of (abs_take p k c F) = frames_of F - frames p k"
proof -
  note core = pmm_inv_core [OF inv]
  from fit have mem: "(p, c) \<in> F" "k \<le> c" by (auto simp: smallest_fit_def)
  have "block_ok p c" using core_blocks(2) [OF core] mem(1) by (rule blocks_ok_mem)
  then show "block_ok p k" using mem(2) by (auto simp: block_ok_def intro: power_le_dvd)
  note take = abs_take_ok [OF core_blocks(2) [OF core] mem]
  show sub: "frames p k \<subseteq> frames_of F" using take(3) by blast
  then show "frames p k \<inter> frames_of A = {}" using core_blocks(3) [OF core] by blast
  show "frames_of (abs_take p k c F) = frames_of F - frames p k" using take(2,3) by blast
qed

interpretation pmm: block_allocator pmm_alloc_pfn "pmm_free_pfn hhdm" "pmm_holds hhdm" for hhdm
proof (unfold_locales, goal_cases)
  case (1 A s k)
  then obtain U F where inv: "pmm_inv U F A s" and nz: "\<forall>p\<in>U. frame_ptr hhdm p \<noteq> 0"
    by (auto simp: pmm_holds_def)
  note k = unat_of_nat_order [OF 1(2)]
  have k': "unat (of_nat k :: u8) < PMM_MAX_ORDER" using 1(2) k by simp
  from page_alloc_cases [OF inv k'] show ?case
  proof
    assume "(\<nexists>p j. smallest_fit F (unat (of_nat k :: u8)) p j) \<and> page_alloc (of_nat k) s = Some (None, s)"
    with 1 show ?thesis by (auto simp: pmm_alloc_pfn_def)
  next
    assume "\<exists>p j s'. smallest_fit F (unat (of_nat k :: u8)) p j \<and>
      page_alloc (of_nat k) s = Some (Some p, s') \<and>
      pmm_inv U (abs_take p (unat (of_nat k :: u8)) j F) (insert (p, unat (of_nat k :: u8)) A) s' \<and>
      g_free_pages s' = g_free_pages s - 2 ^ unat (of_nat k :: u8)"
    then obtain p j s' where p: "smallest_fit F k p j" "page_alloc (of_nat k) s = Some (Some p, s')"
      "pmm_inv U (abs_take p k j F) (insert (p, k) A) s'" unfolding k by blast
    with fit_block [OF inv p(1)] nz show ?thesis by (auto simp: pmm_alloc_pfn_def pmm_holds_def)
  qed
next
  case (2 A s p k)
  then obtain U F where inv: "pmm_inv U F A s" and nz: "\<forall>p\<in>U. frame_ptr hhdm p \<noteq> 0"
    by (auto simp: pmm_holds_def)
  have "frame_ptr hhdm p \<noteq> 0" using held_in_managed [OF inv 2(2)] nz by blast
  from pmm_free_used [OF inv 2(2), of "frame_ptr hhdm p" hhdm] this nz show ?case
    by (auto simp: frame_ptr_def pmm_free_pfn_def pmm_holds_def)
next
  case (3 A s)
  then obtain U F where "pmm_inv U F A s" by (auto simp: pmm_holds_def)
  then have "blocks_ok (F \<union> A)" using core_blocks(1) pmm_inv_core by blast
  then show ?case by (rule blocks_ok_subset) simp
qed

end
