(* ===== verification/MmDemo.thy ===== *)
theory MmDemo
  imports BlockAllocator
begin

text \<open>
  A small machine on which the properties are exercised: four page frames, of which frame 1
  ends up holding the page frame database and frames 2 and 3 are managed.
\<close>

definition demo_hhdm :: u64 where
  "demo_hhdm = 0xffff800000000000"

definition demo_map :: "memmap_entry list" where
  "demo_map =
     [\<lparr>mm_base = 0, mm_length = 0x1000, mm_usable = False\<rparr>,
      \<lparr>mm_base = 0x1000, mm_length = 0x3000, mm_usable = True\<rparr>]"

definition demo_cold :: pmm where
  "demo_cold =
     \<lparr>g_pfndb = None, g_pfndb_phys = 0, g_max_pfn = 0,
      g_free_lists = (\<lambda>_. \<lparr>fl_head = None, fl_count = 0\<rparr>),
      g_free_pages = 0, g_total_pages = 0, g_pmm_ready = False\<rparr>"

definition demo_map' :: "memmap_entry list" where
  "demo_map' =
     [\<lparr>mm_base = 0, mm_length = 0x1000, mm_usable = False\<rparr>,
      \<lparr>mm_base = 0x2000, mm_length = 0x2000, mm_usable = True\<rparr>]"

definition demo_db :: pmm where
  "demo_db = demo_cold\<lparr>g_max_pfn := 3, g_pfndb_phys := 0x1000, g_pfndb := Some (initial_db demo_map' 3)\<rparr>"

definition demo_pmm :: pmm where
  "demo_pmm = snd (the (pmm_init demo_db))"

lemma demo_max: "calc_max_pfn_loop demo_map 0 = 3"
  by code_simp

lemma demo_storage: "storage_size demo_map = 0x1000"
  by code_simp

lemma demo_reserve: "reserve_storage_loop (storage_size demo_map) demo_map = (Some 0x1000, demo_map')"
  unfolding demo_storage by (simp add: demo_map_def demo_map'_def)

lemma demo_pfndb_init: "pfndb_init (Some demo_hhdm) (Some demo_map) demo_cold = Some (Some demo_map', demo_db)"
  using pfndb_init_success [OF demo_reserve, of demo_hhdm demo_cold]
  by (simp add: demo_max demo_db_def)

lemma demo_entry_pfns:
  "entry_pfns \<lparr>mm_base = 0, mm_length = 0x1000, mm_usable = False\<rparr> = {}"
  "entry_pfns \<lparr>mm_base = 0x1000, mm_length = 0x3000, mm_usable = True\<rparr> = {1..<4}"
  "entry_pfns \<lparr>mm_base = 0x2000, mm_length = 0x2000, mm_usable = True\<rparr> = {2..<4}"
  by (simp_all add: entry_pfns_aligned) (simp add: entry_pfns_def)

lemma demo_usable: "usable_pfns demo_map' = {2, 3}"
  by (auto simp: demo_map'_def demo_entry_pfns)

lemma demo_map_wf: "memmap_wf demo_map"
  by (simp add: memmap_wf_def demo_map_def demo_entry_pfns)

lemma demo_db_fields: "g_pfndb demo_db = Some (initial_db demo_map' 3)" "g_max_pfn demo_db = 3"
  by (simp_all add: demo_db_def)

lemma demo_ready: "pfndb_ready demo_db"
  by (auto simp: pfndb_ready_def demo_db_fields initial_db_marks)

lemma demo_frames: "free_frames demo_db = {2, 3}"
  by (auto simp: free_frames_def demo_db_fields initial_db_marks demo_usable)

lemma demo_blocks: "blocks_ok {(2, 1)}" "coalesced {(2, 1)}" "frames_of {(2, 1)} = {2, 3}"
  by (auto simp: blocks_ok_def block_ok_def PMM_MAX_ORDER_def coalesced_def buddy_def frames_def)

lemma demo_frames_2: "frames 2 1 = {2, 3}" "frames 2 (Suc 0) = {2, 3}" "frames 2 0 = {2}" "frames 3 0 = {3}"
  by (auto simp: frames_def)

lemma demo_inv: "pmm_init demo_db = Some (True, demo_pmm) \<and> pmm_inv {2, 3} {(2, 1)} {} demo_pmm"
proof -
  obtain F s' where s': "pmm_init demo_db = Some (True, s')" "pmm_inv (free_frames demo_db) F {} s'"
    "frames_of F = free_frames demo_db"
    using pmm_init_inv [OF demo_ready] by blast
  have "F = {(2, 1)}"
    using s'(2,3) demo_blocks core_blocks(2) [of F "{}" "{}" "free_frames demo_db" s']
    by (intro coalesced_unique) (auto simp: pmm_inv_def demo_frames)
  with s' show ?thesis by (simp add: demo_pmm_def demo_frames)
qed

end
