(* ===== verification/PmmDoubleFree.thy ===== *)
theory PmmDoubleFree
  imports BlockAllocator
begin

text \<open>
  What the physical memory manager does with a second \<open>pmm_free\<close> of the same block when the block
  has been merged into its lower buddy in between.  Its descriptor is not the head of a block any
  more, so nothing in the invariant speaks of it, and it still reads as a used block of the old
  order (\<open>stale_upper\<close>): the block is put on a free list although it is part of a larger free block.
\<close>

lemma buddy_upper: "2 ^ Suc k dvd p \<Longrightarrow> buddy (p + 2 ^ k) k = p"
proof (elim dvdE)
  fix a assume "p = 2 ^ Suc k * a"
  then have "p + 2 ^ k = 2 ^ k * (2 * a + 1)" "p = 2 ^ k * (2 * a)" by (simp_all add: algebra_simps)
  then show "buddy (p + 2 ^ k) k = p" by (simp only: buddy_mult) simp
qed

lemma stale_not_head:
  assumes core: "core F A {} U s" and st: "stale_upper b k s" and b: "b \<in> frames_of F"
  shows "b \<notin> fst ` (F \<union> A)"
proof -
  have "(b, j) \<notin> F" for j using core st by (auto simp: core_def marks_def stale_upper_def)
  moreover have "(b, j) \<notin> A" for j
    using core_blocks(3) [OF core] b frames_of_mem [of b j A] frames_nonempty [of b j] by blast
  ultimately show ?thesis by auto
qed

text \<open>Pushing a descriptor that heads no block and taking it from its list again.\<close>

lemma push_remove_core:
  assumes core: "core F A {} U s" and i: "i \<in> U" and k: "unat k < PMM_MAX_ORDER"
    and nh: "i \<notin> fst ` (F \<union> A)"
  shows "\<exists>s1 s2. pmm_list_push k (Some i) s = Some s1 \<and> fl_head (g_free_lists s1 (unat k)) = Some i \<and>
    same_globals s s1 \<and> pmm_list_remove k (Some i) s1 = Some s2 \<and> core F A {} U s2 \<and> same_globals s1 s2"
proof -
  from core obtain L where L: "free_lists_rep L s" "blocks_of L = F" by (auto simp: core_def)
  have ile: "i \<le> max_of s" using core i by (simp add: core_def)
  have "i \<notin> set (L j)" if "j < PMM_MAX_ORDER" for j using nh L(2) that by (force simp: blocks_of_def)
  from pmm_list_push_rep [OF L(1) k ile this] obtain s1 where
    s1: "pmm_list_push k (Some i) s = Some s1" "links_only s s1" "free_lists_rep (L(unat k := i # L (unat k))) s1"
    by blast
  have head: "fl_head (g_free_lists s1 (unat k)) = Some i"
    using s1(3) k by (auto simp: free_lists_rep_def free_list_rep_def)
  from pmm_list_remove_rep [OF s1(3) k, of i] obtain s2 where
    s2: "pmm_list_remove k (Some i) s1 = Some s2" "links_only s1 s2" "free_lists_rep L s2" by auto
  have lo: "links_only s s2" using s1(2) s2(2) by (rule links_only_trans)
  have "marks F A U s2" using marks_links_only [OF lo] core by (simp add: core_def)
  then have "core F A {} U s2" using core lo s2(3) L(2) by (auto simp: core_def links_only_def)
  with s1 s2 head show ?thesis using links_only_same_globals by blast
qed

text \<open>
  From any state of the invariant in which the descriptor of \<open>b\<close> is stale, freeing \<open>b\<close> is accepted,
  and the next allocation of its order hands \<open>b\<close> out while \<open>b\<close> stays counted among the free frames.
\<close>

lemma stale_free_accepted:
  assumes inv: "pmm_inv U F A s" and st: "stale_upper b k s" and k: "k < PMM_MAX_ORDER"
    and b: "b \<in> frames_of F" and bud: "buddy b k \<le> max_of s" and nz: "frame_ptr hhdm b \<noteq> 0"
    and al: "2 ^ k dvd b"
  shows "\<exists>s2 s3. pmm_free hhdm (frame_ptr hhdm b) s = Some s2 \<and>
    pmm_free_pages s2 = pmm_free_pages s + 2 ^ k \<and>
    page_alloc (of_nat k) s2 = Some (Some b, s3) \<and> pmm_inv U F A s3"
proof -
  note core = pmm_inv_core [OF inv]
  from core_db [OF core] obtain db where db: "g_pfndb s = Some db" ..
  have bU: "b \<in> U" using core_blocks(7) [OF core] b by blast
  then have ble: "b \<le> max_of s" using core by (simp add: core_def)
  define od where "od = pg_order (db b)"
  have od: "unat od = k" "od = of_nat k" using st by (auto simp: stale_upper_def od_def db)
  note nh = stale_not_head [OF core st b]
  let ?s = "s\<lparr>g_free_pages := g_free_pages s + 2 ^ k\<rparr>"
  have core0: "core F A {} U ?s" using core by simp
  obtain s1 where s1: "pmm_prepare_page (Some b) PAGE_FREE od ?s = Some s1" "core F A {} U s1" "same_globals ?s s1"
    using core_write_unheaded [OF core0 bU nh] unfolding pmm_prepare_page_def by blast
  obtain s2 s2' where s2: "pmm_list_push od (Some b) s1 = Some s2" "fl_head (g_free_lists s2 (unat od)) = Some b"
    "same_globals s1 s2" "pmm_list_remove od (Some b) s2 = Some s2'" "core F A {} U s2'" "same_globals s2 s2'"
    using push_remove_core [OF s1(2) bU _ nh, of od] k by (auto simp: od(1))
  obtain s3 where s3: "pmm_prepare_page (Some b) PAGE_USED od s2' = Some s3" "core F A {} U s3" "same_globals s2' s3"
    using core_write_unheaded [OF s2(5) bU nh] unfolding pmm_prepare_page_def by blast
  have stop: "pmm_coalesce (of_nat b) (Some b) od ?s = Some (Some b, od, ?s)"
  proof -
    have bpfn: "unat (pmm_buddy_pfn (of_nat b) od) = buddy b k"
      using pmm_buddy_pfn_eq [OF core_pfn [OF core ble], of od] al k by (simp add: block_ok_def od(1))
    have "pg_order (db (buddy b k)) \<noteq> od" using st od(1) by (auto simp: stale_upper_def db)
    then show ?thesis
      using bpfn bud pfndb_get_page_Some [OF core0, of "pmm_buddy_pfn (of_nat b) od"]
      by (simp add: pmm_coalesce.simps [of "of_nat b"] pfndb_get_max_pfn_def word_less_nat_alt page_read_Some db Let_def)
  qed
  have "pmm_free_block (Some b) ?s = Some s2"
    using stop s1(1) s2(1) ble pfndb_get_pfn_of_nat [OF core0, of b]
    by (simp add: pmm_free_block_def page_read_Some db od_def)
  moreover have "g_pmm_ready s" using inv by (simp add: pmm_inv_def)
  ultimately have free: "pmm_free hhdm (frame_ptr hhdm b) s = Some s2"
    using st nz ble core_frame_page [OF core ble, of hhdm] od(1)
    by (simp add: pmm_free_def frame_ptr_def page_read_Some db push_bit_eq_mult stale_upper_def od_def)
  have ready: "g_pmm_ready s2" using \<open>g_pmm_ready s\<close> s1(3) s2(3) by (simp add: same_globals_def)
  have split: "pmm_split (Some b) od od s2' = Some s2'" by (simp add: pmm_split.simps)
  have alloc: "page_alloc od s2 = Some (Some b, s3\<lparr>g_free_pages := g_free_pages s3 - 2 ^ k\<rparr>)"
    using ready k s2(2,4) split s3(1)
    by (simp add: page_alloc_def page_alloc_loop.simps [of od od] free_list_read_Some od(1) push_bit_eq_mult)
  have cnt: "g_free_pages s3 = g_free_pages s + 2 ^ k" "g_total_pages s3 = g_total_pages s" "g_pmm_ready s3 = g_pmm_ready s"
    "g_free_pages s2 = g_free_pages s + 2 ^ k"
    using s1(3) s2(3,6) s3(3) by (simp_all add: same_globals_def)
  have "pmm_inv U F A (s3\<lparr>g_free_pages := g_free_pages s3 - 2 ^ k\<rparr>)"
    using inv s3(2) cnt by (simp add: pmm_inv_def)
  with free alloc cnt(4) show ?thesis by (auto simp: od(2) pmm_free_pages_def)
qed

lemma double_free_accepted:
  assumes inv: "pmm_inv U F A s" and mem: "(p + 2 ^ k, k) \<in> A" and low: "(p, k) \<in> F"
    and k: "k + 1 < PMM_MAX_ORDER" and al: "2 ^ (k + 1) dvd p" and nz: "frame_ptr hhdm (p + 2 ^ k) \<noteq> 0"
  shows "\<exists>F1 s1 s2 s3. pmm_free hhdm (frame_ptr hhdm (p + 2 ^ k)) s = Some s1 \<and>
    pmm_inv U F1 (A - {(p + 2 ^ k, k)}) s1 \<and> frames (p + 2 ^ k) k \<subseteq> frames_of F1 \<and>
    pmm_free hhdm (frame_ptr hhdm (p + 2 ^ k)) s1 = Some s2 \<and>
    pmm_free_pages s2 = pmm_free_pages s1 + 2 ^ k \<and>
    page_alloc (of_nat k) s2 = Some (Some (p + 2 ^ k), s3) \<and> pmm_inv U F1 (A - {(p + 2 ^ k, k)}) s3"
proof -
  let ?b = "p + 2 ^ k"
  note core = pmm_inv_core [OF inv]
  have bud: "buddy ?b k = p" using al by (simp add: buddy_upper)
  have ok: "block_ok ?b k" using core_blocks(1) [OF core] mem blocks_ok_mem by blast
  have disj: "frames ?b k \<inter> frames_of F = {}"
    using core_blocks(3) [OF core] frames_of_mem [OF mem] by blast
  obtain s1 where s1: "pmm_free hhdm (frame_ptr hhdm ?b) s = Some s1"
    "pmm_inv U (abs_release ?b k F) (A - {(?b, k)}) s1" "stale_upper ?b k s1"
    using pmm_free_used [OF inv mem frame_ptr_def nz] k low bud by auto
  have sub: "frames ?b k \<subseteq> frames_of (abs_release ?b k F)"
    using abs_release_ok(2) [OF ok core_blocks(2) [OF core] disj] by blast
  have "?b \<in> U" using sub core_blocks(7) [OF pmm_inv_core [OF s1(2)]] frames_nonempty by blast
  then have "buddy ?b k \<le> max_of s1" using bud s1(2) by (auto simp: pmm_inv_def core_def)
  from stale_free_accepted [OF s1(2,3) _ _ this nz] sub frames_nonempty ok k s1 show ?thesis
    by (fastforce simp: block_ok_def)
qed

end
