(* ===== verification/MmProps.thy ===== *)
theory MmProps
  imports MmDemo PmmDoubleFree
begin

text \<open>
  The properties of the memory management component (\<open>pfndb.c\<close>, \<open>pmm.c\<close>), each with a witness
  on the four-frame machine of \<open>MmDemo\<close>.
\<close>

section \<open>Initialisation\<close>

lemma card_managed:
  assumes "pmm_inv U F A s" shows "card U < 2 ^ 64"
proof -
  from assms have "U \<subseteq> {..max_of s}" "max_of s < 2 ^ 52"
    by (auto simp: pmm_inv_def core_def)
  then have "card U \<le> Suc (max_of s)" using card_mono [of "{..max_of s}" U] by simp
  with \<open>max_of s < 2 ^ 52\<close> show ?thesis by simp
qed

lemma counters:
  assumes "pmm_inv U F A s"
  shows "unat (pmm_free_pages s) = card (frames_of F)" "unat (pmm_total_pages s) = card U"
proof -
  have "card (frames_of F) \<le> card U"
    using core_blocks(6,7) [OF pmm_inv_core [OF assms]] by (rule card_mono)
  with card_managed [OF assms] assms
  show "unat (pmm_free_pages s) = card (frames_of F)" "unat (pmm_total_pages s) = card U"
    by (simp_all add: pmm_inv_def pmm_free_pages_def pmm_total_pages_def unat_of_nat_small)
qed

text \<open>
  C2: from any page frame database in which every page is either free or reserved, \<open>pmm_init\<close>
  returns true without a fault, and the state it leaves satisfies the allocator's invariant: the
  free lists hold, fully coalesced, exactly the frames that were marked free, nothing is handed
  out, and both counters equal the number of those frames.
\<close>

theorem pmm_init_establishes_inv:
  assumes "pfndb_ready s"
  shows "\<exists>F s'. pmm_init s = Some (True, s') \<and> pmm_inv (free_frames s) F {} s' \<and>
    frames_of F = free_frames s \<and> pmm_is_ready s' \<and>
    unat (pmm_free_pages s') = card (free_frames s) \<and>
    unat (pmm_total_pages s') = card (free_frames s)"
proof -
  from pmm_init_inv [OF assms] obtain F s' where s': "pmm_init s = Some (True, s')"
    "pmm_inv (free_frames s) F {} s'" "frames_of F = free_frames s" by blast
  with counters [OF s'(2)] show ?thesis by (auto simp: pmm_inv_def pmm_is_ready_def)
qed

theorem pmm_init_establishes_inv_witness:
  "pfndb_ready demo_db \<and> unat (pmm_total_pages demo_pmm) = 2"
  using pmm_init_establishes_inv [OF demo_ready] demo_inv demo_ready by (auto simp: demo_frames)

lemma memory_boot_ok:
  assumes wf: "memmap_wf es"
    and res: "reserve_storage_loop (storage_size es) es = (Some phys, es')" and phys: "phys \<noteq> 0"
  shows "\<exists>s1 F s2. pfndb_init (Some hhdm) (Some es) s = Some (Some es', s1) \<and>
    pmm_init s1 = Some (True, s2) \<and> pmm_inv (usable_pfns es') F {} s2 \<and>
    frames_of F = usable_pfns es' \<and> usable_pfns es' \<subseteq> usable_pfns es \<and>
    {unat phys div 4096..<(unat phys + unat (storage_size es)) div 4096} \<inter> frames_of F = {}"
proof -
  let ?m = "calc_max_pfn_loop es 0"
  define s1 where "s1 = s\<lparr>g_max_pfn := ?m, g_pfndb_phys := phys,
    g_pfndb := Some (initial_db es' (unat ?m))\<rparr>"
  have init: "pfndb_init (Some hhdm) (Some es) s = Some (Some es', s1)"
    using pfndb_init_success [OF res phys] by (simp add: s1_def)
  have ready: "pfndb_ready s1"
    using calc_max_pfn_bound [of es] by (auto simp: pfndb_ready_def s1_def initial_db_marks)
  note storage = storage_not_usable [OF wf res]
  have covered: "i \<le> unat ?m" if "i \<in> usable_pfns es'" for i
  proof -
    from that storage(1) obtain e where "e \<in> set es" "i \<in> entry_pfns e"
      by (auto simp: usable_pfns_def)
    then show ?thesis by (intro calc_max_pfn_loop_covers) simp_all
  qed
  have "free_frames s1 = usable_pfns es'"
    using covered by (auto simp: free_frames_def s1_def initial_db_marks)
  with pmm_init_inv [OF ready] obtain F s2 where "pmm_init s1 = Some (True, s2)"
    "pmm_inv (usable_pfns es') F {} s2" "frames_of F = usable_pfns es'" by auto
  with init storage(1,3) show ?thesis by blast
qed

text \<open>
  C3: booting the memory management from a well-formed memory map: when a usable region holds the
  page frame database at a nonzero address, \<open>pfndb_init\<close> and \<open>pmm_init\<close> both succeed; the managed
  frames are exactly those of the usable entries that remain, all of them were usable in the
  original map, and no frame of the database's own storage is ever handed to the allocator.
\<close>

theorem memory_boot_correct:
  assumes wf: "memmap_wf es"
    and res: "reserve_storage_loop (storage_size es) es = (Some phys, es')" and phys: "phys \<noteq> 0"
  shows "\<exists>s1 F s2. pfndb_init (Some hhdm) (Some es) s = Some (Some es', s1) \<and>
    pmm_init s1 = Some (True, s2) \<and> pmm_inv (usable_pfns es') F {} s2 \<and>
    frames_of F = usable_pfns es' \<and> usable_pfns es' \<subseteq> usable_pfns es \<and>
    {unat phys div 4096..<(unat phys + unat (storage_size es)) div 4096} \<inter> frames_of F = {}"
  by (rule memory_boot_ok [OF assms])

theorem memory_boot_correct_witness:
  "memmap_wf demo_map \<and> reserve_storage_loop (storage_size demo_map) demo_map = (Some 0x1000, demo_map') \<and>
   (\<exists>F s2. pmm_init demo_db = Some (True, s2) \<and> frames_of F = {2, 3})"
  using memory_boot_correct [OF demo_map_wf demo_reserve, of demo_hhdm demo_cold]
    demo_map_wf demo_reserve demo_pfndb_init by (auto simp: demo_usable)

section \<open>Allocation\<close>

text \<open>
  C4: an allocation that returns a page returns an aligned block of the requested order that was
  free, overlaps no block handed out before and leaves the invariant intact with the block
  handed out: exactly its frames have left the free frames and the free counter went down by
  their number.
\<close>

theorem page_alloc_sound:
  assumes inv: "pmm_inv U F A s" and k: "unat k < PMM_MAX_ORDER"
    and ret: "page_alloc k s = Some (Some p, s')"
  shows "\<exists>F'. pmm_inv U F' (insert (p, unat k) A) s' \<and> block_ok p (unat k) \<and>
    frames p (unat k) \<subseteq> frames_of F \<and> frames p (unat k) \<inter> frames_of A = {} \<and>
    frames_of F' = frames_of F - frames p (unat k) \<and>
    pmm_free_pages s' = pmm_free_pages s - 2 ^ unat k"
proof -
  from page_alloc_cases [OF inv k] ret obtain j where fit: "smallest_fit F (unat k) p j"
    and "pmm_inv U (abs_take p (unat k) j F) (insert (p, unat k) A) s'"
    and "g_free_pages s' = g_free_pages s - 2 ^ unat k" by auto
  with fit_block [OF inv fit] show ?thesis unfolding pmm_free_pages_def by blast
qed

lemma demo_alloc1: "map_option fst (page_alloc 1 demo_pmm) = Some (Some 2)"
  by code_simp

theorem page_alloc_sound_witness:
  "\<exists>s' F'. page_alloc 1 demo_pmm = Some (Some 2, s') \<and> pmm_inv {2, 3} F' {(2, 1)} s' \<and> frames_of F' = {}"
proof -
  from demo_alloc1 obtain s' where s': "page_alloc 1 demo_pmm = Some (Some 2, s')" by auto
  have "frames 2 1 = {2, 3}" by (auto simp: frames_def)
  then show ?thesis
    using page_alloc_sound [OF conjunct2 [OF demo_inv] _ s'] s'
    by (auto simp: PMM_MAX_ORDER_def demo_blocks)
qed

text \<open>
  C5: allocation never faults, and it is complete: it returns NULL only when no aligned run of
  that many free frames exists, although the free frames are spread over blocks of many orders.
  In that case the state is unchanged.
\<close>

theorem page_alloc_complete:
  assumes inv: "pmm_inv U F A s" and k: "unat k < PMM_MAX_ORDER"
  shows "\<exists>r s'. page_alloc k s = Some (r, s') \<and>
    (r = None \<longleftrightarrow> (\<nexists>p. block_ok p (unat k) \<and> frames p (unat k) \<subseteq> frames_of F)) \<and>
    (r = None \<longrightarrow> s' = s)"
proof -
  from inv have co: "coalesced F" and ok: "blocks_ok F"
    using core_blocks(2) by (auto simp: pmm_inv_def)
  have run: "\<exists>p c. smallest_fit F (unat k) p c"
    if b: "block_ok p (unat k)" "frames p (unat k) \<subseteq> frames_of F" for p
  proof -
    obtain q j where q: "(q, j) \<in> F" "unat k \<le> j"
      using coalesced_covers [OF ok co b] frames_subset_order by blast
    let ?P = "\<lambda>j. unat k \<le> j \<and> (\<exists>q. (q, j) \<in> F)"
    have "?P j" using q by blast
    then have "?P (Least ?P)" by (rule LeastI [of ?P])
    then obtain p c where "(p, c) \<in> F" "unat k \<le> c" "c = Least ?P" by blast
    moreover have "Least ?P \<le> i" if "(r, i) \<in> F" "unat k \<le> i" for r i
      using that by (intro Least_le) blast
    ultimately show ?thesis unfolding smallest_fit_def by blast
  qed
  from page_alloc_cases [OF inv k] show ?thesis
  proof (elim disjE exE conjE)
    assume "\<nexists>p j. smallest_fit F (unat k) p j" "page_alloc k s = Some (None, s)"
    with run show ?thesis by blast
  next
    fix p j s' assume "smallest_fit F (unat k) p j" "page_alloc k s = Some (Some p, s')"
    with fit_block(1,2) [OF inv] show ?thesis by blast
  qed
qed

theorem page_alloc_complete_witness: "map_option fst (page_alloc 2 demo_pmm) = Some None"
proof -
  have none: "\<not> (block_ok p 2 \<and> frames p 2 \<subseteq> {2, 3})" for p
  proof
    assume "block_ok p 2 \<and> frames p 2 \<subseteq> {2, 3}"
    then have "card (frames p 2) \<le> card {2, 3 :: nat}" by (intro card_mono) auto
    then show False by simp
  qed
  show ?thesis
    using page_alloc_complete [OF conjunct2 [OF demo_inv], of 2] none
    by (auto simp: PMM_MAX_ORDER_def demo_frames_2)
qed

lemma pmm_alloc_loop_eq:
  "pmm_alloc_loop hhdm k c s = map_option
     (\<lambda>(r, s'). (case r of None \<Rightarrow> 0 | Some p \<Rightarrow> PHYS_TO_VIRT hhdm (page_to_phys (Some p) s'), s'))
     (page_alloc_loop k c s)"
proof (induction k c s rule: page_alloc_loop.induct)
  case (1 k c s)
  show ?case
  proof (cases "unat c < PMM_MAX_ORDER")
    case False
    then show ?thesis by (simp add: pmm_alloc_loop.simps [of hhdm k c] page_alloc_loop.simps [of k c])
  next
    case True
    show ?thesis
    proof (cases "fl_head (g_free_lists s (unat c))")
      case None
      with True "1.IH" show ?thesis
        by (simp add: pmm_alloc_loop.simps [of hhdm k c] page_alloc_loop.simps [of k c] free_list_read_Some)
    next
      case (Some p)
      with True show ?thesis
        by (auto simp: pmm_alloc_loop.simps [of hhdm k c] page_alloc_loop.simps [of k c]
            free_list_read_Some Let_def split: bind_split)
    qed
  qed
qed

text \<open>
  \<open>pmm_alloc\<close>, which repeats the code of \<open>page_alloc\<close>, is \<open>page_alloc\<close> followed by the
  conversion of the descriptor to a virtual address, in every state and for every order,
  faults included.
\<close>

lemma pmm_alloc_eq_page_alloc:
  "pmm_alloc hhdm k s = map_option
     (\<lambda>(r, s'). (case r of None \<Rightarrow> 0 | Some p \<Rightarrow> PHYS_TO_VIRT hhdm (page_to_phys (Some p) s'), s'))
     (page_alloc k s)"
  by (simp add: pmm_alloc_def page_alloc_def pmm_alloc_loop_eq)

section \<open>Release\<close>

text \<open>
  C6: freeing a block that is handed out never faults, gives its frames back to the free frames,
  keeps the free blocks fully coalesced and every other block handed out, and raises the free
  counter by the size of the block.
\<close>

theorem pmm_free_correct:
  assumes inv: "pmm_inv U F A s" and mem: "(p, k) \<in> A" and nz: "frame_ptr hhdm p \<noteq> 0"
  shows "\<exists>F' s'. pmm_free hhdm (frame_ptr hhdm p) s = Some s' \<and>
    pmm_inv U F' (A - {(p, k)}) s' \<and> frames_of F' = frames p k \<union> frames_of F \<and>
    pmm_free_pages s' = pmm_free_pages s + 2 ^ k"
proof -
  note core = pmm_inv_core [OF inv]
  have ok: "block_ok p k" using core_blocks(1) [OF core] mem blocks_ok_mem by blast
  have disj: "frames p k \<inter> frames_of F = {}"
    using core_blocks(3) [OF core] frames_of_mem [OF mem] by blast
  from pmm_free_used [OF inv mem frame_ptr_def nz] obtain s' where
    "pmm_free hhdm (frame_ptr hhdm p) s = Some s'" "pmm_inv U (abs_release p k F) (A - {(p, k)}) s'"
    "g_free_pages s' = g_free_pages s + 2 ^ k" by blast
  with abs_release_ok(2) [OF ok core_blocks(2) [OF core] disj] show ?thesis
    unfolding pmm_free_pages_def by blast
qed

theorem pmm_free_correct_witness:
  "\<exists>s1 F' s2. page_alloc 0 demo_pmm = Some (Some 2, s1) \<and>
     pmm_free demo_hhdm (frame_ptr demo_hhdm 2) s1 = Some s2 \<and>
     pmm_inv {2, 3} F' {} s2 \<and> frames_of F' = {2, 3}"
proof -
  have "map_option fst (page_alloc 0 demo_pmm) = Some (Some 2)" by code_simp
  then obtain s1 where s1: "page_alloc 0 demo_pmm = Some (Some 2, s1)" by auto
  with page_alloc_cases [OF conjunct2 [OF demo_inv], of 0] obtain F1 where
    inv: "pmm_inv {2, 3} F1 {(2, 0)} s1" and "smallest_fit {(2, 1)} 0 2 1 \<longrightarrow> F1 = abs_take 2 0 1 {(2, 1)}"
    by (auto simp: PMM_MAX_ORDER_def smallest_fit_def)
  have nz: "frame_ptr demo_hhdm 2 \<noteq> 0" by code_simp
  have "layout F1 {(2, 0)} {} {2, 3}" using inv by (auto simp: pmm_inv_def core_def)
  then have "frames 2 0 \<union> frames_of F1 = {2, 3}" by (auto simp: layout_def)
  with pmm_free_correct [OF inv _ nz, of 0] s1 show ?thesis by auto
qed

text \<open>
  C7: allocating a block and freeing it again restores the set of free blocks exactly, split and
  merge being inverse to each other, whatever the order and whichever larger block had to be
  split.
\<close>

theorem alloc_free_roundtrip:
  assumes inv: "pmm_inv U F A s" and k: "unat k < PMM_MAX_ORDER"
    and ret: "page_alloc k s = Some (Some p, s1)" and nz: "frame_ptr hhdm p \<noteq> 0"
  shows "\<exists>s2. pmm_free hhdm (frame_ptr hhdm p) s1 = Some s2 \<and> pmm_inv U F A s2 \<and>
    pmm_free_pages s2 = pmm_free_pages s"
proof -
  from page_alloc_cases [OF inv k] ret obtain j where fit: "smallest_fit F (unat k) p j"
    and inv1: "pmm_inv U (abs_take p (unat k) j F) (insert (p, unat k) A) s1"
    and cnt: "g_free_pages s1 = g_free_pages s - 2 ^ unat k" by auto
  let ?F1 = "abs_take p (unat k) j F"
  note core = pmm_inv_core [OF inv] and core1 = pmm_inv_core [OF inv1]
  obtain s2 where s2: "pmm_free hhdm (frame_ptr hhdm p) s1 = Some s2"
    "pmm_inv U (abs_release p (unat k) ?F1) (insert (p, unat k) A - {(p, unat k)}) s2"
    "g_free_pages s2 = g_free_pages s1 + 2 ^ unat k"
    using pmm_free_used [OF inv1 insertI1 _ nz] by (auto simp: frame_ptr_def)
  have mem: "(p, j) \<in> F" "unat k \<le> j" using fit by (auto simp: smallest_fit_def)
  note take = abs_take_ok [OF core_blocks(2) [OF core] mem]
  note rel = abs_release_ok [OF fit_block(1) [OF inv fit] take(1,2)]
  have "abs_release p (unat k) ?F1 = F"
    using inv rel take(3) inv1 core_blocks(2) [OF core]
    by (intro coalesced_unique) (auto simp: pmm_inv_def)
  moreover have "(p, unat k) \<notin> A"
    using fit_block(3) [OF inv fit] frames_of_mem [of p "unat k" A] frames_nonempty [of p "unat k"]
    by auto
  ultimately show ?thesis using s2 cnt by (auto simp: pmm_free_pages_def)
qed

theorem alloc_free_roundtrip_witness:
  "\<exists>s1 s2. page_alloc 0 demo_pmm = Some (Some 2, s1) \<and>
     pmm_free demo_hhdm (frame_ptr demo_hhdm 2) s1 = Some s2 \<and> pmm_inv {2, 3} {(2, 1)} {} s2"
proof -
  have "map_option fst (page_alloc 0 demo_pmm) = Some (Some 2)" by code_simp
  then obtain s1 where s1: "page_alloc 0 demo_pmm = Some (Some 2, s1)" by auto
  have "frame_ptr demo_hhdm 2 \<noteq> 0" by code_simp
  from alloc_free_roundtrip [OF conjunct2 [OF demo_inv] _ s1 this] s1 show ?thesis
    by (auto simp: PMM_MAX_ORDER_def)
qed

text \<open>
  C8: any client program of allocations and releases that frees only blocks it holds runs from
  the state \<open>pmm_init\<close> leaves without a single fault (no NULL dereference, no access outside the
  database or the free list array), and at its end the blocks it holds are aligned and pairwise
  disjoint.
\<close>

theorem pmm_client_never_faults:
  assumes "pfndb_ready s" and "pmm_init s = Some (True, s0)"
    and "\<forall>p\<in>free_frames s. frame_ptr hhdm p \<noteq> 0" and "\<forall>x\<in>set ops. op_order x < PMM_MAX_ORDER"
  shows "\<exists>held s'. client_run pmm_alloc_pfn (pmm_free_pfn hhdm) ops {} s0 = Some (held, s') \<and>
    pmm_holds hhdm held s' \<and> blocks_ok held"
proof (rule pmm.client_run_safe)
  from pmm_init_inv [OF assms(1)] assms(2,3) show "pmm_holds hhdm {} s0"
    by (auto simp: pmm_holds_def)
qed fact

theorem pmm_client_never_faults_witness:
  "\<exists>held s'. client_run pmm_alloc_pfn (pmm_free_pfn demo_hhdm)
     [Alloc 0, Alloc 0, Free 2 0, Alloc 1, Free 3 0, Alloc 1] {} demo_pmm = Some (held, s') \<and>
     blocks_ok held"
proof -
  have "\<forall>p\<in>free_frames demo_db. frame_ptr demo_hhdm p \<noteq> 0"
    unfolding demo_frames by code_simp
  from pmm_client_never_faults [OF demo_ready conjunct1 [OF demo_inv] this,
      of "[Alloc 0, Alloc 0, Free 2 0, Alloc 1, Free 3 0, Alloc 1]"]
  show ?thesis by (auto simp: PMM_MAX_ORDER_def)
qed

text \<open>
  C9: \<open>pmm_free\<close> refuses, without a fault and without changing anything, the NULL pointer, any
  pointer into a frame that is not managed (beyond the database or reserved), and any pointer
  into the first frame of a block that is already free.
\<close>

theorem pmm_free_refuses:
  assumes inv: "pmm_inv U F A s" and p: "p = unat (PHYS_PFN (VIRT_TO_PHYS hhdm ptr))"
    and bad: "ptr = 0 \<or> p \<notin> U \<or> (\<exists>k. (p, k) \<in> F)"
  shows "pmm_free hhdm ptr s = Some s"
proof -
  note core = pmm_inv_core [OF inv]
  from core_db [OF core] obtain db where db: "g_pfndb s = Some db" ..
  show ?thesis
  proof (cases "ptr = 0 \<or> max_of s < p")
    case True
    then show ?thesis
      using p by (auto simp: pmm_free_def pfndb_phys_to_page_def word_less_nat_alt Let_def)
  next
    case False
    then have page: "phys_to_page (VIRT_TO_PHYS hhdm ptr) s = Some p"
      using p pfndb_get_page_Some [OF core, of "PHYS_PFN (VIRT_TO_PHYS hhdm ptr)"]
      by (simp add: pfndb_phys_to_page_def word_less_nat_alt)
    have "PageReserved (db p) \<or> PageFree (db p)"
      using bad False core by (auto simp: core_def marks_def db)
    with False page show ?thesis by (auto simp: pmm_free_def page_read_Some db)
  qed
qed

theorem pmm_free_refuses_witness:
  "pmm_free demo_hhdm (frame_ptr demo_hhdm 2) demo_pmm = Some demo_pmm \<and>
   pmm_free demo_hhdm (frame_ptr demo_hhdm 1) demo_pmm = Some demo_pmm"
proof -
  have pfn: "unat (PHYS_PFN (VIRT_TO_PHYS demo_hhdm (frame_ptr demo_hhdm 2))) = 2"
    "unat (PHYS_PFN (VIRT_TO_PHYS demo_hhdm (frame_ptr demo_hhdm 1))) = 1" by code_simp+
  show ?thesis
    using pmm_free_refuses [OF conjunct2 [OF demo_inv] pfn(1) [symmetric]]
      pmm_free_refuses [OF conjunct2 [OF demo_inv] pfn(2) [symmetric]] by simp
qed

text \<open>
  C10: the double free check does not see a second free of a block that was merged into its lower
  buddy.  In any state of the invariant, let a client hold the upper buddy of a free block (not of
  the largest order): freeing it merges the two, freeing it once more is accepted and raises the
  free counter a second time, and the next allocation of its order hands the block out although
  its frames still lie in the free blocks, from which they can be handed out again.
\<close>

theorem double_free_undetected:
  assumes inv: "pmm_inv U F A s" and held: "(p + 2 ^ k, k) \<in> A" and low: "(p, k) \<in> F"
    and k: "k + 1 < PMM_MAX_ORDER" and al: "2 ^ (k + 1) dvd p"
    and nz: "frame_ptr hhdm (p + 2 ^ k) \<noteq> 0"
  shows "\<exists>F1 s1 s2 s3. pmm_free hhdm (frame_ptr hhdm (p + 2 ^ k)) s = Some s1 \<and>
    pmm_inv U F1 (A - {(p + 2 ^ k, k)}) s1 \<and> frames (p + 2 ^ k) k \<subseteq> frames_of F1 \<and>
    pmm_free hhdm (frame_ptr hhdm (p + 2 ^ k)) s1 = Some s2 \<and>
    pmm_free_pages s2 = pmm_free_pages s1 + 2 ^ k \<and>
    page_alloc (of_nat k) s2 = Some (Some (p + 2 ^ k), s3) \<and> pmm_inv U F1 (A - {(p + 2 ^ k, k)}) s3"
  by (rule double_free_accepted [OF assms])

lemma demo_upper_held:
  "\<exists>t. do { (_, s) \<leftarrow> page_alloc 0 demo_pmm; (_, s) \<leftarrow> page_alloc 0 s;
            pmm_free demo_hhdm (frame_ptr demo_hhdm 2) s } = Some t \<and> pmm_inv {2, 3} {(2, 0)} {(3, 0)} t"
proof -
  have "map_option fst (page_alloc 0 demo_pmm) = Some (Some 2)" by code_simp
  then obtain s1 where s1: "page_alloc 0 demo_pmm = Some (Some 2, s1)" by auto
  have "do { (_, s) \<leftarrow> page_alloc 0 demo_pmm; map_option fst (page_alloc 0 s) } = Some (Some 3)" by code_simp
  then obtain s2 where s2: "page_alloc 0 s1 = Some (Some 3, s2)" by (auto simp: s1)
  obtain F1 where inv1: "pmm_inv {2, 3} F1 {(2, 0)} s1"
    using page_alloc_cases [OF conjunct2 [OF demo_inv], of 0] s1 by (auto simp: PMM_MAX_ORDER_def)
  obtain F2 where inv2: "pmm_inv {2, 3} F2 {(3, 0), (2, 0)} s2"
    using page_alloc_cases [OF inv1, of 0] s2 by (auto simp: PMM_MAX_ORDER_def)
  have "frame_ptr demo_hhdm 2 \<noteq> 0" by code_simp
  with pmm_free_used [OF inv2, of 2 0 _ demo_hhdm] obtain F3 t where
    t: "pmm_free demo_hhdm (frame_ptr demo_hhdm 2) s2 = Some t" "pmm_inv {2, 3} F3 ({(3, 0), (2, 0)} - {(2, 0)}) t"
    by (auto simp: frame_ptr_def)
  have "{(3, 0), (2, 0)} - {(2, 0)} = {(3 :: nat, 0 :: nat)}" by auto
  with t(2) have inv: "pmm_inv {2, 3} F3 {(3, 0)} t" by simp
  note core = pmm_inv_core [OF inv]
  have "frames_of F3 \<inter> {3} = {}" "frames_of F3 \<union> {3} = {2, 3}"
    using core core_blocks(3) [OF core] by (auto simp: core_def layout_def demo_frames_2)
  then have "frames_of F3 = {2, 3} - {3}" by blast
  also have "{2, 3} - {3} = {2 :: nat}" by auto
  finally have "frames_of F3 = {2}" .
  then have "F3 = {(2, 0)}"
    using inv core_blocks(2) [OF core]
    by (intro coalesced_unique)
      (auto simp: pmm_inv_def coalesced_def buddy_def blocks_ok_def block_ok_def PMM_MAX_ORDER_def demo_frames_2)
  with inv t(1) s1 s2 show ?thesis by auto
qed

theorem double_free_undetected_witness:
  "\<exists>t s1 s2 s3. do { (_, s) \<leftarrow> page_alloc 0 demo_pmm; (_, s) \<leftarrow> page_alloc 0 s;
       pmm_free demo_hhdm (frame_ptr demo_hhdm 2) s } = Some t \<and>
     pmm_free demo_hhdm (frame_ptr demo_hhdm 3) t = Some s1 \<and>
     pmm_free demo_hhdm (frame_ptr demo_hhdm 3) s1 = Some s2 \<and>
     pmm_free_pages s2 = pmm_free_pages s1 + 1 \<and> page_alloc 0 s2 = Some (Some 3, s3)"
proof -
  obtain t where t: "do { (_, s) \<leftarrow> page_alloc 0 demo_pmm; (_, s) \<leftarrow> page_alloc 0 s;
       pmm_free demo_hhdm (frame_ptr demo_hhdm 2) s } = Some t" "pmm_inv {2, 3} {(2, 0)} {(3, 0)} t"
    using demo_upper_held by blast
  have "frame_ptr demo_hhdm 3 \<noteq> 0" by code_simp
  with double_free_undetected [OF t(2), of 2 0 demo_hhdm] t(1) show ?thesis
    by (simp add: PMM_MAX_ORDER_def) blast
qed

section \<open>The page frame database\<close>

text \<open>
  C12: frame numbers, descriptors and physical addresses convert back and forth without loss for
  every frame of the database, and any address inside the frame leads to its descriptor; a frame
  beyond the database has no descriptor.
\<close>

theorem pfndb_conversions:
  assumes "g_pfndb s \<noteq> None" and "max_of s < 2 ^ 52" and "i \<le> max_of s" and "unat off < 4096"
  shows "page_to_pfn (Some i) s = of_nat i \<and> pfn_to_page (of_nat i) s = Some i \<and>
    page_to_phys (Some i) s = of_nat (i * 4096) \<and>
    phys_to_page (page_to_phys (Some i) s + off) s = Some i \<and>
    (max_of s < j \<longrightarrow> page_to_pfn (Some j) s = - 1 \<and> page_to_phys (Some j) s = 0)"
proof (intro conjI impI)
  have i: "unat (of_nat i :: u64) = i" using assms(2,3) by (simp add: unat_of_nat_small)
  show pfn: "page_to_pfn (Some i) s = of_nat i"
    using assms(1,3) by (auto simp: pfndb_get_pfn_def)
  show page: "pfn_to_page (of_nat i) s = Some i"
    using assms(1,3) i by (auto simp: pfndb_get_page_def word_less_nat_alt)
  have neq: "(of_nat i :: u64) \<noteq> - 1"
  proof
    assume "(of_nat i :: u64) = - 1"
    then have "i = unat (- 1 :: u64)" using i by metis
    with assms(2,3) show False by (simp add: unsigned_minus_1_eq_mask mask_eq_exp_minus_1)
  qed
  show phys: "page_to_phys (Some i) s = of_nat (i * 4096)"
    using neq by (simp add: pfndb_page_to_phys_def pfn PFN_PHYS_eq)
  have "unat (of_nat (i * 4096) :: u64) = i * 4096"
    using assms(2,3) by (intro unat_of_nat_small) simp
  then have "unat (of_nat (i * 4096) + off) = i * 4096 + unat off"
    using assms(2-4) by (simp add: unat_add_nowrap)
  then have "unat (PHYS_PFN (of_nat (i * 4096) + off)) = i"
    using assms(4) by (simp add: unat_PHYS_PFN)
  then show "phys_to_page (page_to_phys (Some i) s + off) s = Some i"
    using assms(1,3) unfolding phys by (auto simp: pfndb_phys_to_page_def pfndb_get_page_def word_less_nat_alt)
  show "page_to_pfn (Some j) s = - 1" "page_to_phys (Some j) s = 0" if "max_of s < j"
    using that assms(1) by (auto simp: pfndb_page_to_phys_def pfndb_get_pfn_def)
qed

theorem pfndb_conversions_witness:
  "phys_to_page (page_to_phys (Some 2) demo_db + 5) demo_db = Some 2 \<and>
   page_to_phys (Some 2) demo_db = 0x2000"
  using pfndb_conversions [of demo_db 2 5 4] demo_db_fields by force

text \<open>
  C11: after a successful \<open>pfndb_init\<close> every descriptor up to \<open>g_max_pfn\<close> is fresh (order 0, no
  links) and marked free exactly when a page touched by a usable entry of the remaining map
  belongs to it, and reserved otherwise; and every frame of a usable entry is in the database.
\<close>

theorem pfndb_init_marks:
  assumes res: "reserve_storage_loop (storage_size es) es = (Some phys, es')" and phys: "phys \<noteq> 0"
  shows "\<exists>s'. pfndb_init (Some hhdm) (Some es) s = Some (Some es', s') \<and> max_of s' < 2 ^ 52 \<and>
    usable_pfns es \<subseteq> {..max_of s'} \<and>
    (\<forall>i. i \<le> max_of s' \<longrightarrow> page_read (Some i) s' =
       Some (fresh_page (if i \<in> usable_pfns es' then PAGE_FREE else PAGE_RESERVED)))"
proof -
  let ?s = "s\<lparr>g_max_pfn := calc_max_pfn_loop es 0, g_pfndb_phys := phys,
      g_pfndb := Some (initial_db es' (unat (calc_max_pfn_loop es 0)))\<rparr>"
  have "usable_pfns es \<subseteq> {..max_of ?s}"
    using calc_max_pfn_loop_covers [of 0 _ es] by (auto simp: usable_pfns_def)
  moreover have "page_read (Some i) ?s =
      Some (fresh_page (if i \<in> usable_pfns es' then PAGE_FREE else PAGE_RESERVED))"
    if "i \<le> max_of ?s" for i
    using that by (simp add: page_read_Some initial_db_def)
  ultimately show ?thesis
    using pfndb_init_success [OF res phys] calc_max_pfn_bound [of es] by (intro exI [of _ ?s]) simp
qed

theorem pfndb_init_marks_witness:
  "\<exists>s'. pfndb_init (Some demo_hhdm) (Some demo_map) demo_cold = Some (Some demo_map', s') \<and>
     usable_pfns demo_map \<subseteq> {..max_of s'}"
  using pfndb_init_marks [OF demo_reserve, of demo_hhdm demo_cold] by auto

end
