(* ===== verification/Boot.thy ===== *)
theory Boot
  imports Pfndb
begin

text \<open>
  What the boot loader hands to the kernel (\<open>kernel/src/boot/req.c\<close>) and what the linker fixes.

  A request whose \<open>response\<close> pointer is NULL is \<open>None\<close>.  \<open>view\<close> is the address space the boot
  loader leaves behind, by which the kernel dereferences its pointers before it builds its own:
  the physical address behind a virtual one, \<open>None\<close> where nothing is mapped.  The contents of
  these answers are not under the kernel's control: a \<open>boot\<close> record is an argument of every
  definition that reads one.
\<close>

record boot =
  hhdm_response :: "u64 option"
  memmap_response :: "memmap_entry list option"
  executable_address_response :: "(u64 \<times> u64) option"
  view :: "u64 \<Rightarrow> u64 option"

text \<open>The addresses of the linker script's symbols and of \<open>g_early_pt_pool\<close>.\<close>

record kernel_image =
  limine_requests_start :: u64
  text_start :: u64
  text_end :: u64
  rodata_start :: u64
  rodata_end :: u64
  data_start :: u64
  bss_end :: u64
  early_pt_pool :: u64

end
