(* ===== verification/Paging.thy ===== *)
theory Paging
  imports Boot Pmm
begin

text \<open>
  \<open>kernel/src/mm/paging.c\<close> and \<open>paging.h\<close>: the kernel's editor of the hardware page tables.

  The state \<open>paging\<close> holds the static variables of the file, the allocator it draws tables from,
  the register \<open>satp\<close>, the physical memory (8-byte words by physical address; the page tables
  live there) and the fences executed so far.  A \<open>uint64_t *\<close> is its virtual address;
  \<open>load64\<close>/\<open>store64\<close> go through the boot loader's \<open>view\<close> and are \<open>None\<close> where it maps nothing or
  no memory is behind it.  Reading \<open>hhdm_request.response->offset\<close> through a NULL response
  is \<open>None\<close>, too.  Levels are \<open>unsigned\<close>; a shift by 64 or more is \<open>None\<close>.  Log messages are left out.
\<close>

section \<open>Constants\<close>

definition PAGING_FLAG_READ :: u64 where "PAGING_FLAG_READ = push_bit 0 1"
definition PAGING_FLAG_WRITE :: u64 where "PAGING_FLAG_WRITE = push_bit 1 1"
definition PAGING_FLAG_EXEC :: u64 where "PAGING_FLAG_EXEC = push_bit 2 1"
definition PAGING_FLAG_GLOBAL :: u64 where "PAGING_FLAG_GLOBAL = push_bit 3 1"

definition SATP_MODE_SV39 :: u64 where "SATP_MODE_SV39 = 8"
definition SATP_MODE_SV48 :: u64 where "SATP_MODE_SV48 = 9"
definition SATP_MODE_SV57 :: u64 where "SATP_MODE_SV57 = 10"
definition SATP_PPN_MASK :: u64 where "SATP_PPN_MASK = push_bit 44 1 - 1"

definition PT_ENTRIES :: nat where "PT_ENTRIES = 512"

definition PTE_V :: u64 where "PTE_V = push_bit 0 1"
definition PTE_R :: u64 where "PTE_R = push_bit 1 1"
definition PTE_W :: u64 where "PTE_W = push_bit 2 1"
definition PTE_X :: u64 where "PTE_X = push_bit 3 1"
definition PTE_U :: u64 where "PTE_U = push_bit 4 1"
definition PTE_G :: u64 where "PTE_G = push_bit 5 1"
definition PTE_A :: u64 where "PTE_A = push_bit 6 1"
definition PTE_D :: u64 where "PTE_D = push_bit 7 1"

definition PTE_TABLE_FLAGS :: u64 where "PTE_TABLE_FLAGS = PTE_V"

definition PAGING_PROT_RW :: u64 where "PAGING_PROT_RW = PAGING_FLAG_READ OR PAGING_FLAG_WRITE"
definition PAGING_PROT_RX :: u64 where "PAGING_PROT_RX = PAGING_FLAG_READ OR PAGING_FLAG_EXEC"
definition PAGING_PROT_RWG :: u64 where "PAGING_PROT_RWG = PAGING_PROT_RW OR PAGING_FLAG_GLOBAL"
definition PAGING_PROT_RXG :: u64 where "PAGING_PROT_RXG = PAGING_PROT_RX OR PAGING_FLAG_GLOBAL"
definition PAGING_PROT_RG :: u64 where "PAGING_PROT_RG = PAGING_FLAG_READ OR PAGING_FLAG_GLOBAL"

section \<open>State\<close>

datatype fence = Sfence_vma u64 | Sfence_vma_all

record paging =
  g_root_phys :: u64
  g_levels :: u32
  g_early_pt_pool_used :: u64
  allocator :: pmm
  satp :: u64
  ram :: "u64 \<Rightarrow> u64 option"
  fences :: "fence list"

definition load64 :: "boot \<Rightarrow> u64 \<Rightarrow> paging \<Rightarrow> u64 option" where
  "load64 b ptr s = do { p \<leftarrow> view b ptr; ram s p }"

definition store64 :: "boot \<Rightarrow> u64 \<Rightarrow> u64 \<Rightarrow> paging \<Rightarrow> paging option" where
  "store64 b ptr x s = do {
     p \<leftarrow> view b ptr;
     _ \<leftarrow> ram s p;
     Some (s\<lparr>ram := (ram s)(p \<mapsto> x)\<rparr>) }"

text \<open>\<open>memset(table, 0, PAGE_SIZE)\<close>, word by word.\<close>

definition memset_table :: "boot \<Rightarrow> u64 \<Rightarrow> paging \<Rightarrow> paging option" where
  "memset_table b table = for_each (\<lambda>i. store64 b (table + 8 * of_nat i) 0) [0..<PT_ENTRIES]"

definition cpu_sfence_vma :: "u64 \<Rightarrow> paging \<Rightarrow> paging" where
  "cpu_sfence_vma vaddr s = s\<lparr>fences := fences s @ [Sfence_vma vaddr]\<rparr>"

definition cpu_sfence_vma_all :: "paging \<Rightarrow> paging" where
  "cpu_sfence_vma_all s = s\<lparr>fences := fences s @ [Sfence_vma_all]\<rparr>"

section \<open>Levels, entries and flags\<close>

definition paging_satp_levels :: "u64 \<Rightarrow> u32" where
  "paging_satp_levels satp_value =
     (let mode = drop_bit 60 satp_value in
      if mode = SATP_MODE_SV39 then 3
      else if mode = SATP_MODE_SV48 then 4
      else if mode = SATP_MODE_SV57 then 5
      else 0)"

definition paging_setup_root :: "paging \<Rightarrow> bool \<times> paging" where
  "paging_setup_root s =
     (let s = s\<lparr>g_levels := paging_satp_levels (satp s),
                g_root_phys := push_bit 12 (satp s AND SATP_PPN_MASK)\<rparr>
      in (g_levels s \<noteq> 0 \<and> g_root_phys s \<noteq> 0, s))"

definition paging_leaf_flags :: "u64 \<Rightarrow> u64" where
  "paging_leaf_flags flags =
     (let pte = PTE_V OR PTE_A;
          pte = (if flags AND PAGING_FLAG_READ \<noteq> 0 then pte OR PTE_R else pte);
          pte = (if flags AND PAGING_FLAG_WRITE \<noteq> 0 then pte OR (PTE_R OR PTE_W OR PTE_D) else pte);
          pte = (if flags AND PAGING_FLAG_EXEC \<noteq> 0 then pte OR PTE_X else pte);
          pte = (if flags AND PAGING_FLAG_GLOBAL \<noteq> 0 then pte OR PTE_G else pte)
      in pte)"

definition paging_pte_to_phys :: "u64 \<Rightarrow> u64" where
  "paging_pte_to_phys pte = push_bit 12 (drop_bit 10 pte)"

definition paging_table_pte :: "u64 \<Rightarrow> u64" where
  "paging_table_pte phys_addr = push_bit 10 (drop_bit 12 phys_addr) OR PTE_TABLE_FLAGS"

definition paging_level_shift :: "u32 \<Rightarrow> u32" where
  "paging_level_shift level = 12 + level * 9"

definition paging_level_block_size :: "u32 \<Rightarrow> u64" where
  "paging_level_block_size level = push_bit (unat (paging_level_shift level)) 1"

definition paging_level_index :: "u64 \<Rightarrow> u32 \<Rightarrow> u64" where
  "paging_level_index virt_addr level =
     drop_bit (unat (paging_level_shift level)) virt_addr AND 0x1ff"

definition paging_entry_covers :: "u64 \<Rightarrow> u64 \<Rightarrow> u64 \<Rightarrow> u64 \<Rightarrow> u32 \<Rightarrow> bool" where
  "paging_entry_covers entry virt_addr phys_addr flags level =
     (let block_size = paging_level_block_size level;
          block_mask = block_size - 1;
          mapped_phys = paging_pte_to_phys entry + (virt_addr AND block_mask);
          want = paging_leaf_flags flags AND (PTE_R OR PTE_W OR PTE_X)
      in if entry AND PTE_V = 0 then False
         else if mapped_phys \<noteq> phys_addr then False
         else if entry AND want \<noteq> want then False
         else if flags AND PAGING_FLAG_WRITE \<noteq> 0 \<and> entry AND PTE_D = 0 then False
         else if entry AND PTE_A = 0 then False
         else True)"

definition paging_root_virt :: "boot \<Rightarrow> paging \<Rightarrow> u64 option" where
  "paging_root_virt b s = do { hhdm \<leftarrow> hhdm_response b; Some (PHYS_TO_VIRT hhdm (g_root_phys s)) }"

section \<open>Mapping a page\<close>

text \<open>The result 0 is NULL.\<close>

definition paging_alloc_table :: "boot \<Rightarrow> kernel_image \<Rightarrow> paging \<Rightarrow> (u64 \<times> paging) option" where
  "paging_alloc_table b img s = do {
     (page, s) \<leftarrow>
       (if pmm_is_ready (allocator s) then do {
          (page, a) \<leftarrow> page_alloc 0 (allocator s);
          Some (page, s\<lparr>allocator := a\<rparr>) }
        else Some (NULL_page, s));
     if page \<noteq> NULL_page then do {
       let phys_addr = page_to_phys page (allocator s);
       hhdm \<leftarrow> hhdm_response b;
       let table = PHYS_TO_VIRT hhdm phys_addr;
       s \<leftarrow> memset_table b table s;
       Some (table, s) }
     else if g_early_pt_pool_used s \<ge> 8 then Some (0, s)
     else do {
       let table = early_pt_pool img + 4096 * g_early_pt_pool_used s;
       let s = s\<lparr>g_early_pt_pool_used := g_early_pt_pool_used s + 1\<rparr>;
       _ \<leftarrow> hhdm_response b;
       s \<leftarrow> memset_table b table s;
       Some (table, s) } }"

text \<open>
  The first half of the loop body: the entry at \<open>ptr\<close>, after a new table has been linked there
  if it was not valid; \<open>None\<close> in the pair when no table could be had.
\<close>

definition paging_ensure_entry ::
  "boot \<Rightarrow> kernel_image \<Rightarrow> u64 \<Rightarrow> paging \<Rightarrow> (u64 option \<times> paging) option" where
  "paging_ensure_entry b img ptr s = do {
     entry \<leftarrow> load64 b ptr s;
     if entry AND PTE_V = 0 then do {
       (new_table, s) \<leftarrow> paging_alloc_table b img s;
       if new_table = 0 then Some (None, s)
       else do {
         hhdm \<leftarrow> hhdm_response b;
         let new_phys = VIRT_TO_PHYS hhdm new_table;
         s \<leftarrow> store64 b ptr (paging_table_pte new_phys) s;
         entry \<leftarrow> load64 b ptr s;
         Some (Some entry, s) } }
     else Some (Some entry, s) }"

text \<open>
  The loop of \<open>paging_map_one\<close> from \<open>table\<close> on \<open>level\<close>; on level 0 the code after the loop.
\<close>

function paging_map_walk ::
  "boot \<Rightarrow> kernel_image \<Rightarrow> u64 \<Rightarrow> u64 \<Rightarrow> u64 \<Rightarrow> u32 \<Rightarrow> u64 \<Rightarrow> paging \<Rightarrow> (bool \<times> paging) option" where
  "paging_map_walk b img virt_addr phys_addr flags level table s =
     (if unat (paging_level_shift level) \<ge> 64 then None
      else if level > 0 then do {
        let index = paging_level_index virt_addr level;
        (found, s) \<leftarrow> paging_ensure_entry b img (table + 8 * index) s;
        case found of
          None \<Rightarrow> Some (False, s)
        | Some entry \<Rightarrow>
            if entry AND (PTE_R OR PTE_W OR PTE_X) \<noteq> 0 then
              Some (paging_entry_covers entry virt_addr phys_addr flags level, s)
            else do {
              hhdm \<leftarrow> hhdm_response b;
              paging_map_walk b img virt_addr phys_addr flags (level - 1)
                (PHYS_TO_VIRT hhdm (paging_pte_to_phys entry)) s } }
      else do {
        let page_index = paging_level_index virt_addr 0;
        entry \<leftarrow> load64 b (table + 8 * page_index) s;
        if entry AND PTE_V \<noteq> 0 \<and> paging_entry_covers entry virt_addr phys_addr flags 0
        then Some (True, s)
        else do {
          s \<leftarrow> store64 b (table + 8 * page_index)
                 (push_bit 10 (drop_bit PAGE_SHIFT phys_addr) OR paging_leaf_flags flags) s;
          Some (True, cpu_sfence_vma virt_addr s) } })"
  by pat_completeness auto
termination
proof (relation "measure (\<lambda>(b, img, v, p, f, level, t, s). unat level)", goal_cases)
  case (2 b img virt_addr phys_addr flags level table s)
  then have "level \<noteq> 0" by auto
  then show ?case by (simp add: unat_minus_1 unat_gt_0)
qed simp

declare paging_map_walk.simps [simp del]

definition paging_map_one ::
  "boot \<Rightarrow> kernel_image \<Rightarrow> u64 \<Rightarrow> u64 \<Rightarrow> u64 \<Rightarrow> u64 \<Rightarrow> paging \<Rightarrow> (bool \<times> paging) option" where
  "paging_map_one b img root virt_addr phys_addr flags s =
     paging_map_walk b img virt_addr phys_addr flags (g_levels s - 1) root s"

definition paging_map_page ::
  "boot \<Rightarrow> kernel_image \<Rightarrow> u64 \<Rightarrow> u64 \<Rightarrow> u64 \<Rightarrow> paging \<Rightarrow> (bool \<times> paging) option" where
  "paging_map_page b img virt_addr phys_addr flags s =
     (if virt_addr AND (PAGE_SIZE - 1) \<noteq> 0 \<or> phys_addr AND (PAGE_SIZE - 1) \<noteq> 0 \<or> g_root_phys s = 0
      then Some (False, s)
      else do {
        root \<leftarrow> paging_root_virt b s;
        paging_map_one b img root virt_addr phys_addr flags s })"

section \<open>Mapping ranges\<close>

text \<open>
  The loops \<open>while (virt_addr < end)\<close> of \<open>paging_map_range\<close> and \<open>for (virt = start; virt < end; ...)\<close>
  of \<open>paging_map_kernel_segment\<close> step by \<open>PAGE_SIZE\<close>.  Near the top of the address space the step
  wraps, so the loop need not end: \<open>partial_function\<close> makes a run that never ends \<open>None\<close>.
\<close>

partial_function (option) map_range_loop ::
  "boot \<Rightarrow> kernel_image \<Rightarrow> u64 \<Rightarrow> u64 \<Rightarrow> u64 \<Rightarrow> u64 \<Rightarrow> paging \<Rightarrow> (bool \<times> paging) option" where
  "map_range_loop b img virt_addr phys_addr end_addr flags s =
     (if virt_addr < end_addr then do {
        (ok, s) \<leftarrow> paging_map_page b img virt_addr phys_addr flags s;
        if \<not> ok then Some (False, s)
        else map_range_loop b img (virt_addr + PAGE_SIZE) (phys_addr + PAGE_SIZE) end_addr flags s }
      else Some (True, s))"

definition paging_map_range ::
  "boot \<Rightarrow> kernel_image \<Rightarrow> u64 \<Rightarrow> u64 \<Rightarrow> u64 \<Rightarrow> u64 \<Rightarrow> paging \<Rightarrow> (bool \<times> paging) option" where
  "paging_map_range b img virt_addr phys_addr sz flags s =
     (if sz = 0 then Some (True, s)
      else map_range_loop b img virt_addr phys_addr (virt_addr + PAGE_ALIGN_UP sz) flags s)"

definition paging_map_mmio ::
  "boot \<Rightarrow> kernel_image \<Rightarrow> u64 \<Rightarrow> u64 \<Rightarrow> paging \<Rightarrow> (bool \<times> paging) option" where
  "paging_map_mmio b img phys_addr sz s =
     (let start = PAGE_ALIGN_DOWN phys_addr; end_addr = PAGE_ALIGN_UP (phys_addr + sz) in
      if sz = 0 then Some (False, s)
      else do {
        hhdm \<leftarrow> hhdm_response b;
        paging_map_range b img (PHYS_TO_VIRT hhdm start) start (end_addr - start) PAGING_PROT_RWG s })"

partial_function (option) map_segment_loop ::
  "boot \<Rightarrow> kernel_image \<Rightarrow> u64 \<Rightarrow> u64 \<Rightarrow> u64 \<Rightarrow> u64 \<Rightarrow> u64 \<Rightarrow> paging \<Rightarrow> (bool \<times> paging) option" where
  "map_segment_loop b img kernel_phys_base kernel_virt_base virt end_addr flags s =
     (if virt < end_addr then do {
        let phys = kernel_phys_base + (virt - kernel_virt_base);
        (ok, s) \<leftarrow> paging_map_page b img virt phys flags s;
        if \<not> ok then Some (False, s)
        else map_segment_loop b img kernel_phys_base kernel_virt_base (virt + PAGE_SIZE) end_addr flags s }
      else Some (True, s))"

definition paging_map_kernel_segment ::
  "boot \<Rightarrow> kernel_image \<Rightarrow> u64 \<Rightarrow> u64 \<Rightarrow> u64 \<Rightarrow> paging \<Rightarrow> (bool \<times> paging) option" where
  "paging_map_kernel_segment b img virt_start virt_end flags s =
     (let start = PAGE_ALIGN_DOWN virt_start; end_addr = PAGE_ALIGN_UP virt_end in
      if start \<ge> end_addr then Some (True, s)
      else case executable_address_response b of
        None \<Rightarrow> Some (True, s)
      | Some (physical_base, virtual_base) \<Rightarrow>
          map_segment_loop b img physical_base virtual_base start end_addr flags s)"

fun map_hhdm_loop ::
  "boot \<Rightarrow> kernel_image \<Rightarrow> u64 \<Rightarrow> memmap_entry list \<Rightarrow> paging \<Rightarrow> (bool \<times> paging) option" where
  "map_hhdm_loop b img hhdm [] s = Some (True, s)"
| "map_hhdm_loop b img hhdm (entry # rest) s =
     (let phys_start = PAGE_ALIGN_DOWN (mm_base entry);
          phys_end = PAGE_ALIGN_UP (mm_base entry + mm_length entry) in
      if phys_start = phys_end then map_hhdm_loop b img hhdm rest s
      else do {
        (ok, s) \<leftarrow> paging_map_range b img (PHYS_TO_VIRT hhdm phys_start) phys_start
                    (phys_end - phys_start) PAGING_PROT_RWG s;
        if \<not> ok then Some (False, s) else map_hhdm_loop b img hhdm rest s })"

definition paging_map_hhdm :: "boot \<Rightarrow> kernel_image \<Rightarrow> paging \<Rightarrow> (bool \<times> paging) option" where
  "paging_map_hhdm b img s =
     (case (memmap_response b, hhdm_response b) of
        (Some entries, Some hhdm) \<Rightarrow> map_hhdm_loop b img hhdm entries s
      | _ \<Rightarrow> Some (False, s))"

text \<open>The list \<open>PAGING_KERNEL_SEGMENT_LIST\<close>, without the names: start, end, flags.\<close>

definition kernel_segments :: "kernel_image \<Rightarrow> (u64 \<times> u64 \<times> u64) list" where
  "kernel_segments img =
     [(limine_requests_start img, text_start img, PAGING_PROT_RWG),
      (text_start img, text_end img, PAGING_PROT_RXG),
      (rodata_start img, rodata_end img, PAGING_PROT_RG),
      (data_start img, bss_end img, PAGING_PROT_RWG)]"

fun map_segments_loop ::
  "boot \<Rightarrow> kernel_image \<Rightarrow> (u64 \<times> u64 \<times> u64) list \<Rightarrow> paging \<Rightarrow> (bool \<times> paging) option" where
  "map_segments_loop b img [] s = Some (True, s)"
| "map_segments_loop b img ((start, end_addr, flags) # rest) s = do {
     (ok, s) \<leftarrow> paging_map_kernel_segment b img start end_addr flags s;
     if \<not> ok then Some (False, s) else map_segments_loop b img rest s }"

definition paging_map_kernel_segments :: "boot \<Rightarrow> kernel_image \<Rightarrow> paging \<Rightarrow> (bool \<times> paging) option" where
  "paging_map_kernel_segments b img s = map_segments_loop b img (kernel_segments img) s"

section \<open>Initialisation\<close>

definition paging_early_init :: "boot \<Rightarrow> paging \<Rightarrow> bool \<times> paging" where
  "paging_early_init b s =
     (let s = s\<lparr>g_early_pt_pool_used := 0\<rparr>;
          (ok, s) = paging_setup_root s in
      if \<not> ok then (False, s)
      else if hhdm_response b = None then (False, s)
      else (True, s))"

definition paging_init :: "boot \<Rightarrow> kernel_image \<Rightarrow> paging \<Rightarrow> (bool \<times> paging) option" where
  "paging_init b img s =
     (let s = s\<lparr>g_early_pt_pool_used := 0\<rparr>;
          (ok, s) = paging_setup_root s in
      if \<not> ok \<or> hhdm_response b = None \<or> memmap_response b = None \<or>
         executable_address_response b = None
      then Some (False, s)
      else do {
        (ok, s) \<leftarrow> paging_map_hhdm b img s;
        if \<not> ok then Some (False, s)
        else do {
          (ok, s) \<leftarrow> paging_map_kernel_segments b img s;
          if \<not> ok then Some (False, s) else Some (True, cpu_sfence_vma_all s) } })"

definition paging_root_phys :: "paging \<Rightarrow> u64" where
  "paging_root_phys s = g_root_phys s"

end
