(* ===== verification/Sv.thy ===== *)
theory Sv
  imports Prelude
begin

text \<open>
  The address translation of the RISC-V privileged architecture (Sv39, Sv48, Sv57), as the
  hardware performs it: the contract that \<open>paging.c\<close> programs against.  It is written from the
  architecture's algorithm and does not refer to the kernel's code.

  \<open>ram\<close> maps the physical address of an aligned 8-byte word to its contents; \<open>None\<close> is an
  address with no memory behind it, which the walker answers with an access fault.  \<open>L\<close> is the
  number of levels, 3, 4 or 5; level 0 holds the 4 KiB leaves.
\<close>

type_synonym ram = "u64 \<Rightarrow> u64 option"

section \<open>Page table entries\<close>

definition pte_valid :: "u64 \<Rightarrow> bool" where "pte_valid e = bit e 0"
definition pte_read :: "u64 \<Rightarrow> bool" where "pte_read e = bit e 1"
definition pte_write :: "u64 \<Rightarrow> bool" where "pte_write e = bit e 2"
definition pte_exec :: "u64 \<Rightarrow> bool" where "pte_exec e = bit e 3"
definition pte_user :: "u64 \<Rightarrow> bool" where "pte_user e = bit e 4"
definition pte_accessed :: "u64 \<Rightarrow> bool" where "pte_accessed e = bit e 6"
definition pte_dirty :: "u64 \<Rightarrow> bool" where "pte_dirty e = bit e 7"

lemmas pte_bit_defs =
  pte_valid_def pte_read_def pte_write_def pte_exec_def pte_user_def pte_accessed_def pte_dirty_def

text \<open>The physical page number is the field of 44 bits from bit 10; the bits above are reserved.\<close>

definition pte_ppn :: "u64 \<Rightarrow> u64" where
  "pte_ppn e = take_bit 44 (drop_bit 10 e)"

definition pte_reserved_clear :: "u64 \<Rightarrow> bool" where
  "pte_reserved_clear e \<longleftrightarrow> drop_bit 54 e = 0"

definition pte_encoding_ok :: "u64 \<Rightarrow> bool" where
  "pte_encoding_ok e \<longleftrightarrow> pte_valid e \<and> (pte_write e \<longrightarrow> pte_read e) \<and> pte_reserved_clear e"

definition pte_leaf :: "u64 \<Rightarrow> bool" where
  "pte_leaf e \<longleftrightarrow> pte_read e \<or> pte_exec e"

section \<open>The walk\<close>

definition vpn :: "nat \<Rightarrow> u64 \<Rightarrow> u64" where
  "vpn level va = take_bit 9 (drop_bit (12 + 9 * level) va)"

definition slot :: "u64 \<Rightarrow> nat \<Rightarrow> u64 \<Rightarrow> u64" where
  "slot table level va = table + 8 * vpn level va"

text \<open>
  The walk from the table at physical address \<open>a\<close> on level \<open>i\<close>: the level and the entry of the
  leaf it ends in, \<open>None\<close> for a page fault or an access fault.
\<close>

fun hw_walk :: "ram \<Rightarrow> nat \<Rightarrow> u64 \<Rightarrow> u64 \<Rightarrow> (nat \<times> u64) option" where
  "hw_walk ram i a va =
     (case ram (slot a i va) of
        None \<Rightarrow> None
      | Some e \<Rightarrow>
          if \<not> pte_encoding_ok e then None
          else if pte_leaf e then Some (i, e)
          else (case i of
                  0 \<Rightarrow> None
                | Suc j \<Rightarrow>
                    if pte_user e \<or> pte_accessed e \<or> pte_dirty e then None
                    else hw_walk ram j (push_bit 12 (pte_ppn e)) va))"

declare hw_walk.simps [simp del]

text \<open>A virtual address is canonical when the bits above the topmost index repeat its sign bit.\<close>

definition canonical :: "nat \<Rightarrow> u64 \<Rightarrow> bool" where
  "canonical L va \<longleftrightarrow> signed_take_bit (11 + 9 * L) va = va"

text \<open>
  Translation of a supervisor access: the leaf must be aligned to its size, must not belong to
  user mode, and must allow the access; the hardware is not assumed to set the accessed and
  dirty bits itself.
\<close>

datatype access = Load | Store | Fetch

fun allows :: "u64 \<Rightarrow> access \<Rightarrow> bool" where
  "allows e Load = pte_read e"
| "allows e Store = (pte_write e \<and> pte_dirty e)"
| "allows e Fetch = pte_exec e"

definition page_offset :: "nat \<Rightarrow> u64 \<Rightarrow> u64" where
  "page_offset level va = take_bit (12 + 9 * level) va"

definition hw_translate :: "ram \<Rightarrow> nat \<Rightarrow> u64 \<Rightarrow> u64 \<Rightarrow> access \<Rightarrow> u64 option" where
  "hw_translate ram L root va acc =
     (if \<not> canonical L va then None
      else case hw_walk ram (L - 1) root va of
        None \<Rightarrow> None
      | Some (level, e) \<Rightarrow>
          if page_offset level (push_bit 12 (pte_ppn e)) \<noteq> 0 then None
          else if pte_user e \<or> \<not> pte_accessed e \<or> \<not> allows e acc then None
          else Some (push_bit 12 (pte_ppn e) + page_offset level va))"

end
