(* ===== verification/PagingBits.thy ===== *)
theory PagingBits
  imports Paging Sv
begin

text \<open>
  The bit-level agreement of \<open>paging.c\<close> with the architecture of \<open>Sv\<close>: indices, the entries the
  code writes, and the tests it makes on entries it reads.
\<close>

section \<open>Single bits\<close>

lemma and_bit_zero: "w AND push_bit n 1 = 0 \<longleftrightarrow> \<not> bit w n" for w :: "'a::len word"
  using and_push_bit_1 by blast

lemma pte_tests:
  "e AND PTE_V = 0 \<longleftrightarrow> \<not> pte_valid e"
  "e AND PTE_D = 0 \<longleftrightarrow> \<not> pte_dirty e"
  "e AND PTE_A = 0 \<longleftrightarrow> \<not> pte_accessed e"
  unfolding PTE_V_def PTE_D_def PTE_A_def pte_bit_defs by (simp_all only: and_bit_zero not_not)

lemma flag_tests:
  "f AND PAGING_FLAG_READ \<noteq> 0 \<longleftrightarrow> bit f 0"
  "f AND PAGING_FLAG_WRITE \<noteq> 0 \<longleftrightarrow> bit f 1"
  "f AND PAGING_FLAG_EXEC \<noteq> 0 \<longleftrightarrow> bit f 2"
  "f AND PAGING_FLAG_GLOBAL \<noteq> 0 \<longleftrightarrow> bit f 3"
  unfolding PAGING_FLAG_READ_def PAGING_FLAG_WRITE_def PAGING_FLAG_EXEC_def PAGING_FLAG_GLOBAL_def
  by (simp_all only: and_bit_zero not_not)

lemma PTE_bits:
  "bit PTE_V n \<longleftrightarrow> n = 0" "bit PTE_R n \<longleftrightarrow> n = 1" "bit PTE_W n \<longleftrightarrow> n = 2" "bit PTE_X n \<longleftrightarrow> n = 3"
  "bit PTE_U n \<longleftrightarrow> n = 4" "bit PTE_G n \<longleftrightarrow> n = 5" "bit PTE_A n \<longleftrightarrow> n = 6" "bit PTE_D n \<longleftrightarrow> n = 7"
  unfolding PTE_V_def PTE_R_def PTE_W_def PTE_X_def PTE_U_def PTE_G_def PTE_A_def PTE_D_def
  by (rule bit_push_bit_1, simp)+

lemma word_neq_0_iff_bit: "w \<noteq> 0 \<longleftrightarrow> (\<exists>n. bit w n)" for w :: "'a::len word"
  using bit_eq_iff [of w 0] by auto

lemma rwx_test: "e AND (PTE_R OR PTE_W OR PTE_X) \<noteq> 0 \<longleftrightarrow> pte_read e \<or> pte_write e \<or> pte_exec e"
  unfolding word_neq_0_iff_bit bit_and_iff bit_or_iff PTE_bits pte_bit_defs by auto

lemma leaf_flags_bits:
  "bit (paging_leaf_flags f) n \<longleftrightarrow>
     n = 0 \<or> n = 6 \<or> n = 1 \<and> (bit f 0 \<or> bit f 1) \<or> (n = 2 \<or> n = 7) \<and> bit f 1 \<or>
     n = 3 \<and> bit f 2 \<or> n = 5 \<and> bit f 3"
  unfolding paging_leaf_flags_def Let_def flag_tests
  by (auto simp: bit_or_iff PTE_bits)

section \<open>Indices\<close>

lemma unat_level_shift: "unat level \<le> 4 \<Longrightarrow> unat (paging_level_shift level) = 12 + 9 * unat level"
  unfolding paging_level_shift_def by (simp add: unat_word_ariths)

lemma and_0x1ff: "w AND 0x1ff = take_bit 9 w" for w :: u64
  by (simp add: take_bit_eq_mask mask_numeral)

lemma level_index: "unat level \<le> 4 \<Longrightarrow> paging_level_index va level = vpn (unat level) va"
  unfolding paging_level_index_def vpn_def and_0x1ff by (simp add: unat_level_shift)

lemma level_block_mask:
  "unat level \<le> 4 \<Longrightarrow> va AND (paging_level_block_size level - 1) = page_offset (unat level) va"
  unfolding paging_level_block_size_def page_offset_def
  by (simp add: unat_level_shift take_bit_eq_mask mask_eq_exp_minus_1 push_bit_eq_mult)

lemma vpn_less: "unat (vpn l va) < 512"
proof -
  have "unat (vpn l va) = take_bit 9 (unat (drop_bit (12 + 9 * l) va))"
    unfolding vpn_def by (rule unsigned_take_bit_eq)
  also have "\<dots> < 2 ^ 9" by (rule take_bit_nat_less_exp)
  finally show ?thesis by simp
qed

section \<open>Entries\<close>

definition frame_addr :: "u64 \<Rightarrow> bool" where
  "frame_addr a \<longleftrightarrow> take_bit 12 a = 0 \<and> drop_bit 56 a = 0"

lemma frame_addr_bits: "frame_addr a \<Longrightarrow> bit a n \<Longrightarrow> 12 \<le> n \<and> n < 56"
proof -
  assume a: "frame_addr a" and n: "bit a n"
  from a have lo: "\<not> bit (take_bit 12 a) n" and hi: "\<not> bit (drop_bit 56 a) (n - 56)"
    by (simp_all add: frame_addr_def)
  from lo n have "12 \<le> n" by (simp add: bit_take_bit_iff)
  moreover from hi n have "n < 56" by (cases "n < 56") (simp_all add: bit_drop_bit_eq)
  ultimately show ?thesis by simp
qed

lemma frame_addrI: "(\<And>n. bit a n \<Longrightarrow> 12 \<le> n \<and> n < 56) \<Longrightarrow> frame_addr a"
proof -
  assume *: "\<And>n. bit a n \<Longrightarrow> 12 \<le> n \<and> n < 56"
  have "take_bit 12 a = 0" by (rule bit_word_eqI) (use * in \<open>fastforce simp: bit_take_bit_iff\<close>)
  moreover have "drop_bit 56 a = 0" by (rule bit_word_eqI) (use * in \<open>fastforce simp: bit_drop_bit_eq\<close>)
  ultimately show ?thesis by (simp add: frame_addr_def)
qed

definition make_pte :: "u64 \<Rightarrow> u64 \<Rightarrow> u64" where
  "make_pte a lo = push_bit 10 (drop_bit 12 a) OR lo"

lemma table_pte_make: "paging_table_pte a = make_pte a PTE_V"
  by (simp add: paging_table_pte_def make_pte_def PTE_TABLE_FLAGS_def)

lemma bit_make_pte:
  assumes "frame_addr a"
  shows "bit (make_pte a lo) n \<longleftrightarrow> 10 \<le> n \<and> n < 54 \<and> bit a (n + 2) \<or> bit lo n"
proof (cases "10 \<le> n")
  case True
  then have n: "12 + (n - 10) = n + 2" by simp
  have "bit (push_bit 10 (drop_bit 12 a)) n \<longleftrightarrow> n < 64 \<and> bit a (n + 2)"
    using True by (simp add: bit_push_bit_iff bit_drop_bit_eq n)
  moreover have "bit a (n + 2) \<Longrightarrow> n < 54" using frame_addr_bits [OF assms, of "n + 2"] by simp
  ultimately show ?thesis using True by (auto simp: make_pte_def bit_or_iff)
next
  case False
  then show ?thesis by (simp add: make_pte_def bit_or_iff bit_push_bit_iff)
qed

lemma make_pte_phys:
  assumes "frame_addr a" "\<And>n. bit lo n \<Longrightarrow> n < 10"
  shows "paging_pte_to_phys (make_pte a lo) = a" "push_bit 12 (pte_ppn (make_pte a lo)) = a"
    "pte_reserved_clear (make_pte a lo)"
proof -
  note b = bit_make_pte [OF assms(1)] and fa = frame_addr_bits [OF assms(1)]
  have lo: "\<not> bit lo n" if "10 \<le> n" for n using assms(2) that by fastforce
  have shift: "bit (make_pte a lo) (10 + (n - 12)) \<longleftrightarrow> bit a n" if "12 \<le> n" for n
  proof -
    have e: "10 + (n - 12) + 2 = n" and ge: "10 \<le> 10 + (n - 12)" using that by simp_all
    show ?thesis unfolding b e using lo [OF ge] fa [of n] that by auto
  qed
  show "paging_pte_to_phys (make_pte a lo) = a"
  proof (rule bit_word_eqI)
    fix n assume "n < LENGTH(64)"
    then show "bit (paging_pte_to_phys (make_pte a lo)) n \<longleftrightarrow> bit a n"
      using fa [of n] shift [of n]
      by (auto simp: paging_pte_to_phys_def bit_push_bit_iff bit_drop_bit_eq)
  qed
  show "push_bit 12 (pte_ppn (make_pte a lo)) = a"
  proof (rule bit_word_eqI)
    fix n assume "n < LENGTH(64)"
    then show "bit (push_bit 12 (pte_ppn (make_pte a lo))) n \<longleftrightarrow> bit a n"
      using fa [of n] shift [of n]
      by (auto simp: pte_ppn_def bit_push_bit_iff bit_take_bit_iff bit_drop_bit_eq)
  qed
  show "pte_reserved_clear (make_pte a lo)"
    unfolding pte_reserved_clear_def
    by (rule bit_word_eqI) (use lo in \<open>auto simp: bit_simps b\<close>)
qed

definition frame_at :: "nat \<Rightarrow> u64" where
  "frame_at p = PFN_PHYS (of_nat p)"

lemma unat_frame_at: "p < 2 ^ 44 \<Longrightarrow> unat (frame_at p) = p * 4096"
  unfolding frame_at_def PFN_PHYS_eq by (simp add: unat_word_ariths unat_of_nat)

lemma frame_addr_unat: "frame_addr a \<longleftrightarrow> 4096 dvd unat a \<and> unat a < 2 ^ 56"
proof -
  have "take_bit 12 a = 0 \<longleftrightarrow> 4096 dvd unat a"
    unfolding unat_eq_zero [symmetric] unsigned_take_bit_eq by (simp add: take_bit_eq_mod dvd_eq_mod_eq_0)
  moreover have "drop_bit 56 a = 0 \<longleftrightarrow> unat a < 2 ^ 56"
    unfolding unat_eq_zero [symmetric] unat_drop_bit by (auto simp: div_eq_0_iff)
  ultimately show ?thesis by (simp add: frame_addr_def)
qed

lemma frame_addr_frame_at: "p < 2 ^ 44 \<Longrightarrow> frame_addr (frame_at p)"
  unfolding frame_addr_unat by (simp add: unat_frame_at)

text \<open>The words of a table: index and table are determined by the address.\<close>

lemma unat_table_word:
  "frame_addr a \<Longrightarrow> unat v < 512 \<Longrightarrow> unat (a + 8 * v) = unat a + 8 * unat v"
  unfolding frame_addr_unat by (simp add: unat_word_ariths)

lemma table_word_inj:
  assumes "frame_addr a" "frame_addr a'" "unat v < 512" "unat v' < 512" "a + 8 * v = a' + 8 * v'"
  shows "a = a'" "v = v'"
proof -
  from assms obtain k k' where k: "unat a = 4096 * k" "unat a' = 4096 * k'"
    by (auto simp: frame_addr_unat elim!: dvdE)
  have eq: "4096 * k + 8 * unat v = 4096 * k' + 8 * unat v'"
    using arg_cong [OF assms(5), of unat]
    unfolding unat_table_word [OF assms(1,3)] unat_table_word [OF assms(2,4)] k .
  have "(4096 * k + 8 * unat v) div 4096 = k" "(4096 * k' + 8 * unat v') div 4096 = k'"
    using assms(3,4) by simp_all
  with eq have "k = k'" by simp
  with eq k show "a = a'" "v = v'" by (simp_all add: word_unat_eq_iff)
qed

lemma slot_inj:
  assumes "frame_addr a" "frame_addr a'" "slot a l va = slot a' l' va'"
  shows "a = a'" "vpn l va = vpn l' va'"
  using table_word_inj [OF assms(1,2) vpn_less vpn_less] assms(3) by (auto simp: slot_def)

section \<open>Well-formed entries\<close>

text \<open>
  An entry the kernel's tables may hold: the architecture accepts it, it is not a user page, and
  a leaf on a higher level is aligned to its size.
\<close>

definition entry_ok :: "nat \<Rightarrow> u64 \<Rightarrow> bool" where
  "entry_ok level e \<longleftrightarrow> pte_encoding_ok e \<and> \<not> pte_user e \<and>
     (if pte_leaf e then page_offset level (push_bit 12 (pte_ppn e)) = 0
      else \<not> pte_accessed e \<and> \<not> pte_dirty e)"

definition is_table :: "u64 \<Rightarrow> bool" where
  "is_table e \<longleftrightarrow> pte_valid e \<and> \<not> pte_leaf e"

lemma entry_ok_valid: "entry_ok l e \<Longrightarrow> pte_valid e"
  by (simp add: entry_ok_def pte_encoding_ok_def)

lemma entry_ok_rwx: "entry_ok l e \<Longrightarrow> (pte_read e \<or> pte_write e \<or> pte_exec e) \<longleftrightarrow> pte_leaf e"
  by (auto simp: entry_ok_def pte_encoding_ok_def pte_leaf_def)

lemma pte_to_phys_ppn: "pte_reserved_clear e \<Longrightarrow> paging_pte_to_phys e = push_bit 12 (pte_ppn e)"
proof -
  assume "pte_reserved_clear e"
  then have "\<not> bit (drop_bit 54 e) k" for k by (simp add: pte_reserved_clear_def)
  then have hi: "\<not> bit e (54 + k)" for k by (simp add: bit_drop_bit_eq)
  have hi': "bit e n \<Longrightarrow> n < 54" for n using hi [of "n - 54"] by (cases "n < 54") simp_all
  have "take_bit 44 (drop_bit 10 e) = drop_bit 10 e"
    by (rule bit_word_eqI) (auto simp: bit_take_bit_iff bit_drop_bit_eq dest: hi')
  then show ?thesis by (simp add: paging_pte_to_phys_def pte_ppn_def)
qed

lemma entry_ok_phys: "entry_ok l e \<Longrightarrow> paging_pte_to_phys e = push_bit 12 (pte_ppn e)"
  by (simp add: entry_ok_def pte_encoding_ok_def pte_to_phys_ppn)

lemma table_pte_ok:
  assumes "frame_addr f"
  shows "entry_ok l (paging_table_pte f)" "is_table (paging_table_pte f)"
    "push_bit 12 (pte_ppn (paging_table_pte f)) = f" "paging_pte_to_phys (paging_table_pte f) = f"
    "paging_table_pte f AND (PTE_R OR PTE_W OR PTE_X) = 0"
proof -
  have lo: "\<And>n. bit PTE_V n \<Longrightarrow> n < 10" by (simp add: PTE_bits)
  note b = bit_make_pte [OF assms, of PTE_V, unfolded PTE_bits] and mp = make_pte_phys [OF assms lo]
  show "entry_ok l (paging_table_pte f)"
    unfolding table_pte_make entry_ok_def pte_encoding_ok_def pte_leaf_def pte_bit_defs b
    using mp(3) by simp
  then show *: "is_table (paging_table_pte f)"
    unfolding table_pte_make is_table_def pte_leaf_def pte_bit_defs b by simp
  show "push_bit 12 (pte_ppn (paging_table_pte f)) = f" "paging_pte_to_phys (paging_table_pte f) = f"
    unfolding table_pte_make using mp by simp_all
  show "paging_table_pte f AND (PTE_R OR PTE_W OR PTE_X) = 0"
    using rwx_test [of "paging_table_pte f"]
    unfolding table_pte_make pte_bit_defs b by auto
qed

text \<open>What the flags of a mapping grant.\<close>

fun grants :: "u64 \<Rightarrow> access \<Rightarrow> bool" where
  "grants f Load = (bit f 0 \<or> bit f 1)"
| "grants f Store = bit f 1"
| "grants f Fetch = bit f 2"

definition leaf_pte :: "u64 \<Rightarrow> u64 \<Rightarrow> u64" where
  "leaf_pte phys f = push_bit 10 (drop_bit PAGE_SHIFT phys) OR paging_leaf_flags f"

lemma leaf_pte_make: "leaf_pte phys f = make_pte phys (paging_leaf_flags f)"
  by (simp add: leaf_pte_def make_pte_def PAGE_SHIFT_def)

lemma page_offset_0: "page_offset 0 a = take_bit 12 a"
  by (simp add: page_offset_def)

lemma leaf_pte_ok:
  assumes "frame_addr phys"
  shows "pte_valid (leaf_pte phys f)" "\<not> pte_user (leaf_pte phys f)" "pte_accessed (leaf_pte phys f)"
    "allows (leaf_pte phys f) acc \<longleftrightarrow> grants f acc" "push_bit 12 (pte_ppn (leaf_pte phys f)) = phys"
    "pte_encoding_ok (leaf_pte phys f)"
    "pte_leaf (leaf_pte phys f) \<longleftrightarrow> (\<exists>acc. grants f acc)"
proof -
  have lo: "\<And>n. bit (paging_leaf_flags f) n \<Longrightarrow> n < 10" unfolding leaf_flags_bits by auto
  note b = bit_make_pte [OF assms, of "paging_leaf_flags f", unfolded leaf_flags_bits]
    and mp = make_pte_phys [OF assms lo]
  show *: "pte_valid (leaf_pte phys f)" and "\<not> pte_user (leaf_pte phys f)"
    "pte_accessed (leaf_pte phys f)" "allows (leaf_pte phys f) acc \<longleftrightarrow> grants f acc"
    by (simp_all add: leaf_pte_make pte_bit_defs b) (cases acc; auto simp: pte_bit_defs b)
  show "push_bit 12 (pte_ppn (leaf_pte phys f)) = phys" by (simp add: leaf_pte_make mp(2))
  show "pte_encoding_ok (leaf_pte phys f)"
    using * mp(3) by (auto simp: pte_encoding_ok_def leaf_pte_make pte_bit_defs b)
  have ex: "(\<exists>acc. grants f acc) \<longleftrightarrow> bit f 0 \<or> bit f 1 \<or> bit f 2"
    by (metis access.exhaust grants.simps)
  show "pte_leaf (leaf_pte phys f) \<longleftrightarrow> (\<exists>acc. grants f acc)"
    unfolding ex by (auto simp: pte_leaf_def leaf_pte_make pte_bit_defs b)
qed

text \<open>The test \<open>paging_entry_covers\<close> means what the architecture does with the leaf.\<close>

lemma covers_iff:
  assumes "unat level \<le> 4" "pte_reserved_clear e"
  shows "paging_entry_covers e va phys f level \<longleftrightarrow>
    pte_valid e \<and> push_bit 12 (pte_ppn e) + page_offset (unat level) va = phys \<and>
    (bit f 0 \<or> bit f 1 \<longrightarrow> pte_read e) \<and> (bit f 1 \<longrightarrow> pte_write e \<and> pte_dirty e) \<and>
    (bit f 2 \<longrightarrow> pte_exec e) \<and> pte_accessed e"
proof -
  have want: "e AND (paging_leaf_flags f AND (PTE_R OR PTE_W OR PTE_X)) =
      paging_leaf_flags f AND (PTE_R OR PTE_W OR PTE_X) \<longleftrightarrow>
    (bit f 0 \<or> bit f 1 \<longrightarrow> pte_read e) \<and> (bit f 1 \<longrightarrow> pte_write e) \<and> (bit f 2 \<longrightarrow> pte_exec e)"
    (is "?l = ?r")
  proof
    assume l: ?l
    have "bit (e AND (paging_leaf_flags f AND (PTE_R OR PTE_W OR PTE_X))) n \<longleftrightarrow>
      bit (paging_leaf_flags f AND (PTE_R OR PTE_W OR PTE_X)) n" for n unfolding l ..
    from this [of 1] this [of 2] this [of 3] show ?r
      by (auto simp: bit_and_iff bit_or_iff leaf_flags_bits PTE_bits pte_bit_defs)
  next
    assume ?r
    then show ?l
      by (intro bit_word_eqI)
        (auto simp: bit_and_iff bit_or_iff leaf_flags_bits PTE_bits pte_bit_defs)
  qed
  show ?thesis
    unfolding paging_entry_covers_def Let_def level_block_mask [OF assms(1)]
      pte_to_phys_ppn [OF assms(2)] pte_tests flag_tests want
    by auto
qed

end
