(* ===== verification/PageTables.thy ===== *)
theory PageTables
  imports PagingBits
begin

text \<open>
  The tree of page tables in memory.  \<open>tab\<close> is the table reached on the way to an address,
  \<open>pt_ok\<close> says that the tables form a tree whose frames are apart from the free frames, and
  the lemmas say what the three writes the kernel makes (clearing a fresh frame, linking it,
  writing a leaf) do to the tree and to the hardware's walk of every address.
\<close>

section \<open>The tables on a path\<close>

fun tab :: "ram \<Rightarrow> u64 \<Rightarrow> nat \<Rightarrow> u64 \<Rightarrow> nat \<Rightarrow> u64 option" where
  "tab m r L va 0 = Some r"
| "tab m r L va (Suc d) = do {
     a \<leftarrow> tab m r L va d;
     e \<leftarrow> m (slot a (L - 1 - d) va);
     if is_table e then Some (push_bit 12 (pte_ppn e)) else None }"

definition agree :: "nat \<Rightarrow> nat \<Rightarrow> u64 \<Rightarrow> u64 \<Rightarrow> bool" where
  "agree L n va va' \<longleftrightarrow> (\<forall>j<n. vpn (L - 1 - j) va = vpn (L - 1 - j) va')"

lemma agree_0 [simp]: "agree L 0 va va'"
  by (simp add: agree_def)

lemma agree_refl [simp]: "agree L n va va"
  by (simp add: agree_def)

lemma agree_sym: "agree L n va va' \<Longrightarrow> agree L n va' va"
  by (simp add: agree_def)

lemma agree_trans: "agree L n x y \<Longrightarrow> agree L n y z \<Longrightarrow> agree L n x z"
  by (simp add: agree_def)

lemma agree_Suc: "agree L (Suc n) va va' \<longleftrightarrow> agree L n va va' \<and> vpn (L - 1 - n) va = vpn (L - 1 - n) va'"
  by (auto simp: agree_def less_Suc_eq)

lemma agree_mono: "agree L n va va' \<Longrightarrow> k \<le> n \<Longrightarrow> agree L k va va'"
  by (auto simp: agree_def)

lemma slot_cong: "vpn l va = vpn l va' \<Longrightarrow> slot a l va = slot a l va'"
  by (simp add: slot_def)

lemma tab_agree: "agree L d va va' \<Longrightarrow> tab m r L va d = tab m r L va' d"
proof (induction d)
  case (Suc d)
  then show ?case using slot_cong [of "L - 1 - d" va va'] by (simp add: agree_Suc)
qed simp

lemma tab_Some_less: "tab m r L va d = Some a \<Longrightarrow> k \<le> d \<Longrightarrow> \<exists>b. tab m r L va k = Some b"
proof (induction d arbitrary: a)
  case (Suc d)
  from Suc.prems(1) obtain b where "tab m r L va d = Some b" by (auto elim!: bind_eq_SomeE)
  with Suc show ?case by (cases "k = Suc d") auto
qed simp

section \<open>Well-formed trees\<close>

definition table_frame :: "ram \<Rightarrow> u64 \<Rightarrow> bool" where
  "table_frame m a \<longleftrightarrow> frame_addr a \<and> (\<forall>v. unat v < 512 \<longrightarrow> m (a + 8 * v) \<noteq> None)"

text \<open>
  \<open>pt_ok m r L X\<close>: the tables under the root \<open>r\<close> of an \<open>L\<close>-level address space lie in distinct
  frames, reached by one path each, none of them among the frames \<open>X\<close> that are free; every
  valid entry is well formed; and the free frames are backed by memory.
\<close>

definition pt_ok :: "ram \<Rightarrow> u64 \<Rightarrow> nat \<Rightarrow> nat set \<Rightarrow> bool" where
  "pt_ok m r L X \<longleftrightarrow>
     (\<forall>va d a. d < L \<longrightarrow> tab m r L va d = Some a \<longrightarrow> table_frame m a \<and> a \<notin> frame_at ` X) \<and>
     (\<forall>va va' d d' a. d < L \<longrightarrow> d' < L \<longrightarrow> tab m r L va d = Some a \<longrightarrow> tab m r L va' d' = Some a \<longrightarrow>
        d = d' \<and> agree L d va va') \<and>
     (\<forall>va d a e. d < L \<longrightarrow> tab m r L va d = Some a \<longrightarrow> m (slot a (L - 1 - d) va) = Some e \<longrightarrow>
        pte_valid e \<longrightarrow> entry_ok (L - 1 - d) e) \<and>
     (\<forall>p\<in>X. p < 2 ^ 44 \<and> table_frame m (frame_at p))"

lemma pt_ok_table:
  assumes "pt_ok m r L X" "d < L" "tab m r L va d = Some a"
  shows "table_frame m a" "frame_addr a" "a \<notin> frame_at ` X" "m (slot a l va') \<noteq> None"
  using assms vpn_less [of l va'] by (auto simp: pt_ok_def table_frame_def slot_def)

lemma pt_ok_inj:
  assumes "pt_ok m r L X" "d < L" "d' < L" "tab m r L va d = Some a" "tab m r L va' d' = Some a"
  shows "d = d'" "agree L d va va'"
  using assms unfolding pt_ok_def by blast+

lemma pt_ok_entry:
  assumes "pt_ok m r L X" "d < L" "tab m r L va d = Some a" "m (slot a (L - 1 - d) va) = Some e" "pte_valid e"
  shows "entry_ok (L - 1 - d) e"
  using assms unfolding pt_ok_def by blast

lemma pt_ok_free:
  assumes "pt_ok m r L X" "p \<in> X"
  shows "p < 2 ^ 44" "table_frame m (frame_at p)" "frame_addr (frame_at p)"
  using assms by (auto simp: pt_ok_def table_frame_def)

text \<open>Two paths meet in a slot only if they agree up to it.\<close>

lemma pt_ok_slot:
  assumes ok: "pt_ok m r L X" and d: "d < L" "d' < L"
    and t: "tab m r L va d = Some a" "tab m r L va' d' = Some a'"
    and eq: "slot a' (L - 1 - d') va' = slot a (L - 1 - d) va"
  shows "d' = d" "a' = a" "agree L (Suc d) va va'"
proof -
  have a: "a' = a" and v: "vpn (L - 1 - d') va' = vpn (L - 1 - d) va"
    using slot_inj [OF pt_ok_table(2) [OF ok d(2) t(2)] pt_ok_table(2) [OF ok d(1) t(1)] eq] by auto
  show "a' = a" by (rule a)
  from pt_ok_inj [OF ok d t(1) t(2) [unfolded a]] have *: "d = d'" "agree L d va va'" by auto
  show "d' = d" using * by simp
  show "agree L (Suc d) va va'" using * v by (simp add: agree_Suc)
qed

section \<open>The hardware's walk\<close>

lemma hw_walk_step:
  assumes "m (slot a i va) = Some e" "entry_ok i e"
  shows "hw_walk m i a va = (if pte_leaf e then Some (i, e)
    else case i of 0 \<Rightarrow> None | Suc j \<Rightarrow> hw_walk m j (push_bit 12 (pte_ppn e)) va)"
  using assms by (subst hw_walk.simps) (auto simp: entry_ok_def split: nat.split)

lemma hw_walk_invalid:
  assumes "m (slot a i va) = Some e" "\<not> pte_valid e"
  shows "hw_walk m i a va = None"
  using assms by (subst hw_walk.simps) (simp add: pte_encoding_ok_def)

text \<open>The walk passes through every table on the path.\<close>

lemma hw_walk_at:
  assumes ok: "pt_ok m r L X"
  shows "d < L \<Longrightarrow> tab m r L va d = Some a \<Longrightarrow> hw_walk m (L - 1) r va = hw_walk m (L - 1 - d) a va"
proof (induction d arbitrary: a)
  case (Suc d)
  from Suc.prems(2) obtain b e where b: "tab m r L va d = Some b"
    and e: "m (slot b (L - 1 - d) va) = Some e" "is_table e" "a = push_bit 12 (pte_ppn e)"
    by (auto elim!: bind_eq_SomeE split: if_splits)
  have d: "d < L" using Suc.prems by simp
  have eo: "entry_ok (L - 1 - d) e" using pt_ok_entry [OF ok d b e(1)] e(2) by (simp add: is_table_def)
  have lev: "L - 1 - d = Suc (L - 1 - Suc d)" using Suc.prems by simp
  have "hw_walk m (L - 1 - d) b va = hw_walk m (L - 1 - Suc d) a va"
    unfolding hw_walk_step [of m b "L - 1 - d" va e, OF e(1) eo] using e(2,3) lev by (simp add: is_table_def)
  with Suc.IH [OF d b] show ?case by simp
qed simp

definition path_slot :: "ram \<Rightarrow> u64 \<Rightarrow> nat \<Rightarrow> u64 \<Rightarrow> u64 \<Rightarrow> bool" where
  "path_slot m r L va q \<longleftrightarrow> (\<exists>d<L. \<exists>a. tab m r L va d = Some a \<and> q = slot a (L - 1 - d) va)"

lemma path_slotI: "d < L \<Longrightarrow> tab m r L va d = Some a \<Longrightarrow> path_slot m r L va (slot a (L - 1 - d) va)"
  by (auto simp: path_slot_def)

lemma tab_cong:
  assumes "\<And>q. path_slot m r L va q \<Longrightarrow> m' q = m q"
  shows "d \<le> L \<Longrightarrow> tab m' r L va d = tab m r L va d"
proof (induction d)
  case (Suc d)
  then have IH: "tab m' r L va d = tab m r L va d" by simp
  show ?case
  proof (cases "tab m r L va d")
    case (Some a)
    have "m' (slot a (L - 1 - d) va) = m (slot a (L - 1 - d) va)"
      using assms path_slotI [of d L m r va a] Suc.prems Some by simp
    then show ?thesis using IH Some by simp
  qed (use IH in simp)
qed simp

lemma hw_walk_cong:
  assumes "\<And>q. path_slot m r L va q \<Longrightarrow> m' q = m q" and "0 < L"
  shows "hw_walk m' (L - 1) r va = hw_walk m (L - 1) r va"
proof -
  have "hw_walk m' i a va = hw_walk m i a va"
    if "d < L" "tab m r L va d = Some a" "i = L - 1 - d" for i d a
    using that
  proof (induction i arbitrary: d a)
    case 0
    have "m' (slot a 0 va) = m (slot a 0 va)"
      using assms path_slotI [OF 0(1,2)] 0(3) by simp
    then show ?case by (auto simp: hw_walk.simps [of _ 0] split: option.split)
  next
    case (Suc i)
    have eq: "m' (slot a (Suc i) va) = m (slot a (Suc i) va)"
      using assms path_slotI [OF Suc.prems(1,2)] Suc.prems(3) by simp
    show ?case
    proof (cases "m (slot a (Suc i) va)")
      case None
      then show ?thesis using eq by (simp add: hw_walk.simps [of _ "Suc i"])
    next
      case (Some e)
      have "hw_walk m' i (push_bit 12 (pte_ppn e)) va = hw_walk m i (push_bit 12 (pte_ppn e)) va"
        if "pte_encoding_ok e" "\<not> pte_leaf e"
      proof (rule Suc.IH)
        show "Suc d < L" "i = L - 1 - Suc d" using Suc.prems by simp_all
        show "tab m r L va (Suc d) = Some (push_bit 12 (pte_ppn e))"
          using Suc.prems Some that by (simp add: is_table_def pte_encoding_ok_def)
      qed
      then show ?thesis using eq Some by (simp add: hw_walk.simps [of _ "Suc i"])
    qed
  qed
  from this [of 0 r "L - 1"] assms(2) show ?thesis by simp
qed

lemma walk_None_at:
  assumes "pt_ok m r L X" "d < L" "tab m r L va d = Some a"
    "m (slot a (L - 1 - d) va) = Some e" "\<not> pte_valid e"
  shows "hw_walk m (L - 1) r va = None"
  using hw_walk_at [OF assms(1-3)] hw_walk_invalid [of m a "L - 1 - d" va e, OF assms(4,5)] by simp

section \<open>Clearing a free frame\<close>

definition clear_frame :: "u64 \<Rightarrow> ram \<Rightarrow> ram" where
  "clear_frame f m = (\<lambda>q. if \<exists>v. unat v < 512 \<and> q = f + 8 * v then Some 0 else m q)"

lemma clear_frame_word: "unat v < 512 \<Longrightarrow> clear_frame f m (f + 8 * v) = Some 0"
  by (auto simp: clear_frame_def)

lemma clear_frame_other:
  "frame_addr f \<Longrightarrow> frame_addr a \<Longrightarrow> a \<noteq> f \<Longrightarrow> clear_frame f m (slot a l va) = m (slot a l va)"
  using table_word_inj(1) [OF _ _ vpn_less, of a f] by (fastforce simp: clear_frame_def slot_def)

lemma clear_frame_path:
  assumes "pt_ok m r L X" "p \<in> X" "path_slot m r L va q"
  shows "clear_frame (frame_at p) m q = m q"
proof -
  from assms(3) obtain d a where d: "d < L" "tab m r L va d = Some a" "q = slot a (L - 1 - d) va"
    by (auto simp: path_slot_def)
  note a = pt_ok_table [OF assms(1) d(1,2)]
  have "a \<noteq> frame_at p" using a(3) assms(2) by blast
  then show ?thesis unfolding d(3) using clear_frame_other pt_ok_free(3) [OF assms(1,2)] a(2) by simp
qed

lemma table_frame_clear: "table_frame m a \<Longrightarrow> table_frame (clear_frame f m) a"
  by (auto simp: table_frame_def clear_frame_def)

lemma pt_ok_clear:
  assumes ok: "pt_ok m r L X" and p: "p \<in> X"
  defines "m' \<equiv> clear_frame (frame_at p) m"
  shows "d \<le> L \<Longrightarrow> tab m' r L va d = tab m r L va d" "pt_ok m' r L X"
    "0 < L \<Longrightarrow> hw_walk m' (L - 1) r va = hw_walk m (L - 1) r va"
proof -
  have agree: "path_slot m r L va q \<Longrightarrow> m' q = m q" for va q
    unfolding m'_def by (rule clear_frame_path [OF ok p])
  then show tab: "d \<le> L \<Longrightarrow> tab m' r L va d = tab m r L va d" for va d by (rule tab_cong)
  show "0 < L \<Longrightarrow> hw_walk m' (L - 1) r va = hw_walk m (L - 1) r va"
    using agree by (rule hw_walk_cong)
  show "pt_ok m' r L X"
    unfolding pt_ok_def
  proof (intro conjI allI impI ballI)
    fix va d a assume "d < L" "tab m' r L va d = Some a"
    then have t: "tab m r L va d = Some a" using tab by simp
    show "table_frame m' a" unfolding m'_def
      by (rule table_frame_clear) (rule pt_ok_table(1) [OF ok \<open>d < L\<close> t])
    show "a \<notin> frame_at ` X" by (rule pt_ok_table(3) [OF ok \<open>d < L\<close> t])
  next
    fix va va' d d' a
    assume "d < L" "d' < L" "tab m' r L va d = Some a" "tab m' r L va' d' = Some a"
    then show "d = d'" "agree L d va va'" using pt_ok_inj [OF ok] tab by auto
  next
    fix va d a e
    assume d: "d < L" "tab m' r L va d = Some a" "m' (slot a (L - 1 - d) va) = Some e" "pte_valid e"
    then have t: "tab m r L va d = Some a" using tab by simp
    have "m (slot a (L - 1 - d) va) = Some e" using agree [OF path_slotI [OF d(1) t]] d(3) by simp
    then show "entry_ok (L - 1 - d) e" using pt_ok_entry [OF ok d(1) t] d(4) by simp
  next
    fix q assume "q \<in> X"
    then show "q < 2 ^ 44" "table_frame m' (frame_at q)"
      using pt_ok_free [OF ok] table_frame_clear m'_def by blast+
  qed
qed

section \<open>Linking a cleared frame\<close>

lemma table_frame_upd: "table_frame m a \<Longrightarrow> table_frame (m(q \<mapsto> x)) a"
  by (auto simp: table_frame_def)

text \<open>
  The situation before the link: the table \<open>a\<close> on level \<open>L - 1 - d\<close> of the path to \<open>va\<close> holds an
  invalid entry there, and the free frame \<open>p\<close> is clear.
\<close>

definition link_site :: "ram \<Rightarrow> u64 \<Rightarrow> nat \<Rightarrow> nat set \<Rightarrow> nat \<Rightarrow> u64 \<Rightarrow> nat \<Rightarrow> u64 \<Rightarrow> bool" where
  "link_site m r L X p va d a \<longleftrightarrow>
     pt_ok m r L X \<and> p \<in> X \<and> (\<forall>v. unat v < 512 \<longrightarrow> m (frame_at p + 8 * v) = Some 0) \<and>
     Suc d < L \<and> tab m r L va d = Some a \<and>
     (\<exists>e. m (slot a (L - 1 - d) va) = Some e \<and> \<not> pte_valid e)"

definition link_table :: "ram \<Rightarrow> nat \<Rightarrow> nat \<Rightarrow> u64 \<Rightarrow> nat \<Rightarrow> u64 \<Rightarrow> ram" where
  "link_table m L p va d a = m(slot a (L - 1 - d) va \<mapsto> paging_table_pte (frame_at p))"

lemma link_siteD:
  assumes "link_site m r L X p va d a"
  shows "pt_ok m r L X" "p \<in> X" "Suc d < L" "d < L" "tab m r L va d = Some a"
    "frame_addr (frame_at p)" "m (slot (frame_at p) l w) = Some 0" "frame_addr a"
    "frame_at p \<noteq> a"
  using assms pt_ok_free(3) [of m r L X p] pt_ok_table [of m r L X d va a] vpn_less [of l w]
  by (auto simp: link_site_def slot_def)

lemma not_table_0 [simp]: "\<not> is_table 0" "\<not> pte_valid 0"
  by (simp_all add: is_table_def pte_bit_defs)

lemma link_tab_before:
  assumes site: "link_site m r L X p va d a" and ag: "agree L (Suc d) va va'"
  shows "tab m r L va' d = Some a" "Suc d \<le> k \<Longrightarrow> tab m r L va' k = None"
    "hw_walk m (L - 1) r va' = None"
proof -
  note s = link_siteD [OF site]
  show t: "tab m r L va' d = Some a"
    using s(5) tab_agree [OF agree_mono [OF ag], of d m r] by simp
  have sl: "slot a (L - 1 - d) va' = slot a (L - 1 - d) va"
    using ag by (simp add: agree_Suc slot_def)
  from site obtain e where e: "m (slot a (L - 1 - d) va') = Some e" "\<not> pte_valid e"
    unfolding sl by (auto simp: link_site_def)
  then have None: "tab m r L va' (Suc d) = None" using t by (simp add: is_table_def)
  show "Suc d \<le> k \<Longrightarrow> tab m r L va' k = None"
    using None tab_Some_less [of m r L va' k _ "Suc d"] by (cases "tab m r L va' k") auto
  show "hw_walk m (L - 1) r va' = None" by (rule walk_None_at [OF s(1,4) t e])
qed

lemma link_slot_other:
  assumes site: "link_site m r L X p va d a" and "d' < L" "tab m r L va' d' = Some a'"
    and "\<not> (d' = d \<and> agree L (Suc d) va va')"
  shows "link_table m L p va d a (slot a' (L - 1 - d') va') = m (slot a' (L - 1 - d') va')"
  using pt_ok_slot [OF link_siteD(1) [OF site] link_siteD(4) [OF site] assms(2) link_siteD(5) [OF site] assms(3)]
    assms(4)
  unfolding link_table_def by auto

lemma link_tab:
  assumes site: "link_site m r L X p va d a"
  shows "d' < L \<Longrightarrow> tab (link_table m L p va d a) r L va' d' =
    (if d' = Suc d \<and> agree L (Suc d) va va' then Some (frame_at p) else tab m r L va' d')"
    (is "_ \<Longrightarrow> tab ?m _ _ _ _ = _")
proof (induction d')
  case (Suc k)
  note s = link_siteD [OF site]
  from Suc have IH: "tab ?m r L va' k =
    (if k = Suc d \<and> agree L (Suc d) va va' then Some (frame_at p) else tab m r L va' k)" by simp
  show ?case
  proof (cases "k = Suc d \<and> agree L (Suc d) va va'")
    case True
    have "frame_at p \<noteq> a" by (rule s(9))
    then have "slot (frame_at p) (L - 1 - k) va' \<noteq> slot a (L - 1 - d) va"
      using slot_inj(1) [OF s(6,8)] by blast
    then have "?m (slot (frame_at p) (L - 1 - k) va') = Some 0"
      using s(7) by (simp add: link_table_def)
    then have "tab ?m r L va' (Suc k) = None" using IH True by simp
    moreover have "tab m r L va' (Suc k) = None"
      by (rule link_tab_before(2) [OF site]) (use True in simp_all)
    ultimately show ?thesis using True by (simp del: tab.simps)
  next
    case False
    then have IH': "tab ?m r L va' k = tab m r L va' k" using IH by (simp only: if_False)
    show ?thesis
    proof (cases "k = d \<and> agree L (Suc d) va va'")
      case True
      have sl: "slot a (L - 1 - d) va' = slot a (L - 1 - d) va"
        using True by (simp add: agree_Suc slot_def)
      have "tab ?m r L va' k = Some a" using IH' True link_tab_before(1) [OF site] by simp
      moreover have "?m (slot a (L - 1 - k) va') = Some (paging_table_pte (frame_at p))"
        using sl True by (simp add: link_table_def)
      ultimately have "tab ?m r L va' (Suc k) = Some (frame_at p)"
        using table_pte_ok(2,3) [OF s(6)] by simp
      then show ?thesis using True by (simp del: tab.simps)
    next
      case nF: False
      show ?thesis
      proof (cases "tab m r L va' k")
        case None
        then show ?thesis using IH' nF by auto
      next
        case (Some a')
        have "?m (slot a' (L - 1 - k) va') = m (slot a' (L - 1 - k) va')"
          by (rule link_slot_other [OF site _ Some nF]) (use Suc.prems in simp)
        then show ?thesis using IH' Some nF by auto
      qed
    qed
  qed
qed simp

lemma link_entry:
  assumes site: "link_site m r L X p va d a" and k: "k < L"
    and t: "tab (link_table m L p va d a) r L va' k = Some b"
    and e: "link_table m L p va d a (slot b (L - 1 - k) va') = Some e" and v: "pte_valid e"
  shows "entry_ok (L - 1 - k) e"
proof -
  note s = link_siteD [OF site]
  have ne: "slot (frame_at p) l va' \<noteq> slot a (L - 1 - d) va" for l
    using slot_inj(1) [OF s(6,8)] s(9) by blast
  show ?thesis
  proof (cases "k = Suc d \<and> agree L (Suc d) va va'")
    case True
    then have b: "b = frame_at p" using t link_tab [OF site k, of va'] by auto
    have "link_table m L p va d a (slot b (L - 1 - k) va') = Some 0"
      unfolding b using ne s(7) by (simp add: link_table_def)
    with e v show ?thesis by simp
  next
    case False
    then have tk: "tab m r L va' k = Some b" using t link_tab [OF site k, of va'] by auto
    show ?thesis
    proof (cases "slot b (L - 1 - k) va' = slot a (L - 1 - d) va")
      case True
      then have "e = paging_table_pte (frame_at p)" using e by (simp add: link_table_def)
      then show ?thesis using table_pte_ok(1) [OF s(6)] by simp
    next
      case False
      then have "m (slot b (L - 1 - k) va') = Some e" using e by (simp add: link_table_def)
      then show ?thesis using pt_ok_entry [OF s(1) k tk] v by simp
    qed
  qed
qed

lemma pt_ok_link:
  assumes site: "link_site m r L X p va d a"
  shows "pt_ok (link_table m L p va d a) r L (X - {p})" (is "pt_ok ?m _ _ _")
proof -
  note s = link_siteD [OF site]
  note tab = link_tab [OF site]
  have fresh: "tab m r L va' k = Some b \<Longrightarrow> k < L \<Longrightarrow> b \<noteq> frame_at p" for va' k b
    using pt_ok_table(3) [OF s(1)] s(2) by blast
  have inj: "q \<in> X \<Longrightarrow> frame_at q = frame_at p \<Longrightarrow> q = p" for q
    using pt_ok_free(1) [OF s(1)] s(2) unat_frame_at
    by (metis mult_cancel2 zero_neq_numeral)
  show ?thesis
    unfolding pt_ok_def
  proof (intro conjI allI impI ballI)
    fix va' k b assume k: "k < L" and t: "tab ?m r L va' k = Some b"
    show "table_frame ?m b" unfolding link_table_def
      by (rule table_frame_upd)
        (use t tab [OF k, of va'] pt_ok_table(1) [OF s(1) k] pt_ok_free(2) [OF s(1,2)] in \<open>auto split: if_splits\<close>)
    show "b \<notin> frame_at ` (X - {p})"
      using t tab [OF k, of va'] pt_ok_table(3) [OF s(1) k, of va'] inj by (auto split: if_splits)
  next
    fix va1 va2 k1 k2 b
    assume k: "k1 < L" "k2 < L" and t: "tab ?m r L va1 k1 = Some b" "tab ?m r L va2 k2 = Some b"
    consider "k1 = Suc d \<and> agree L (Suc d) va va1" "k2 = Suc d \<and> agree L (Suc d) va va2"
      | "tab m r L va1 k1 = Some b" "tab m r L va2 k2 = Some b"
      using t tab [OF k(1), of va1] tab [OF k(2), of va2] fresh k by (auto split: if_splits)
    then have "k1 = k2 \<and> agree L k1 va1 va2"
      by cases (use agree_trans agree_sym pt_ok_inj [OF s(1) k] in blast)+
    then show "k1 = k2" "agree L k1 va1 va2" by auto
  next
    fix va' k b e
    assume "k < L" "tab ?m r L va' k = Some b" "?m (slot b (L - 1 - k) va') = Some e" "pte_valid e"
    then show "entry_ok (L - 1 - k) e" by (rule link_entry [OF site])
  next
    fix q assume "q \<in> X - {p}"
    then show "q < 2 ^ 44" "table_frame ?m (frame_at q)"
      using pt_ok_free [OF s(1)] table_frame_upd unfolding link_table_def by auto
  qed
qed

lemma link_walk:
  assumes site: "link_site m r L X p va d a"
  shows "hw_walk (link_table m L p va d a) (L - 1) r va' = hw_walk m (L - 1) r va'"
    (is "hw_walk ?m _ _ _ = _")
proof (cases "agree L (Suc d) va va'")
  case False
  show ?thesis
  proof (rule hw_walk_cong)
    fix q assume "path_slot m r L va' q"
    then obtain k b where kb: "k < L" "tab m r L va' k = Some b" "q = slot b (L - 1 - k) va'"
      by (auto simp: path_slot_def)
    show "?m q = m q" unfolding kb(3) by (rule link_slot_other [OF site kb(1,2)]) (use False in simp)
  qed (use link_siteD(4) [OF site] in simp)
next
  case True
  note s = link_siteD [OF site]
  have ne: "slot (frame_at p) (L - 1 - Suc d) va' \<noteq> slot a (L - 1 - d) va"
    using slot_inj(1) [OF s(6,8)] s(9) by blast
  have "hw_walk ?m (L - 1) r va' = None"
  proof (rule walk_None_at [OF pt_ok_link [OF site] s(3)])
    show "tab ?m r L va' (Suc d) = Some (frame_at p)" using link_tab [OF site s(3)] True by simp
    show "?m (slot (frame_at p) (L - 1 - Suc d) va') = Some 0" using ne s(7) by (simp add: link_table_def)
  qed simp
  with link_tab_before(3) [OF site True] show ?thesis by simp
qed

section \<open>Writing a leaf\<close>

text \<open>No other slot of a path is the one that is written.\<close>

lemma leaf_slot_other:
  assumes ok: "pt_ok m r L X" and L: "0 < L" and t: "tab m r L va (L - 1) = Some a"
    and k: "k < L" "tab m r L w k = Some b" "\<not> (k = L - 1 \<and> agree L L va w)"
  shows "(m(slot a 0 va \<mapsto> e)) (slot b (L - 1 - k) w) = m (slot b (L - 1 - k) w)"
proof -
  have "L - 1 < L" "Suc (L - 1) = L" using L by auto
  then show ?thesis using pt_ok_slot [OF ok _ k(1) t k(2)] k(3) by auto
qed

lemma leaf_tab:
  assumes ok: "pt_ok m r L X" and L: "0 < L" and t: "tab m r L va (L - 1) = Some a"
  shows "k < L \<Longrightarrow> tab (m(slot a 0 va \<mapsto> e)) r L w k = tab m r L w k"
proof (induction k)
  case (Suc k)
  define m' where "m' = m(slot a 0 va \<mapsto> e)"
  have k: "k < L" "k \<noteq> L - 1" using Suc.prems by simp_all
  have IH: "tab m' r L w k = tab m r L w k" unfolding m'_def by (rule Suc.IH [OF k(1)])
  have "tab m' r L w (Suc k) = tab m r L w (Suc k)"
  proof (cases "tab m r L w k")
    case (Some b)
    then show ?thesis using IH leaf_slot_other [OF ok L t k(1) Some, of e, folded m'_def] k(2) by simp
  qed (use IH in simp)
  then show ?case by (simp only: m'_def)
qed simp

lemma leaf_pt_ok:
  assumes ok: "pt_ok m r L X" and L: "0 < L" and t: "tab m r L va (L - 1) = Some a" and e: "entry_ok 0 e"
  shows "pt_ok (m(slot a 0 va \<mapsto> e)) r L X" (is "pt_ok ?m _ _ _")
  unfolding pt_ok_def
proof (intro conjI allI impI ballI)
  note tab = leaf_tab [OF ok L t]
  fix w k b assume k: "k < L" and "tab ?m r L w k = Some b"
  then have tb: "tab m r L w k = Some b" using tab by simp
  show "table_frame ?m b" by (rule table_frame_upd) (rule pt_ok_table(1) [OF ok k tb])
  show "b \<notin> frame_at ` X" by (rule pt_ok_table(3) [OF ok k tb])
next
  fix w w' k k' b
  assume "k < L" "k' < L" "tab ?m r L w k = Some b" "tab ?m r L w' k' = Some b"
  then show "k = k'" "agree L k w w'" using pt_ok_inj [OF ok] leaf_tab [OF ok L t] by auto
next
  fix w k b x
  assume k: "k < L" and tb: "tab ?m r L w k = Some b" and x: "?m (slot b (L - 1 - k) w) = Some x" "pte_valid x"
  have tb': "tab m r L w k = Some b" using tb leaf_tab [OF ok L t k] by simp
  show "entry_ok (L - 1 - k) x"
  proof (cases "slot b (L - 1 - k) w = slot a 0 va")
    case True
    then have "slot b (L - 1 - k) w = slot a (L - 1 - (L - 1)) va" by simp
    from pt_ok_slot(1) [OF ok _ k t tb' this] L have "k = L - 1" by simp
    then show ?thesis using True x(1) e by simp
  next
    case False
    then have "m (slot b (L - 1 - k) w) = Some x" using x(1) by simp
    then show ?thesis using pt_ok_entry [OF ok k tb'] x(2) by simp
  qed
next
  fix q assume "q \<in> X"
  then show "q < 2 ^ 44" "table_frame ?m (frame_at q)"
    using pt_ok_free [OF ok] table_frame_upd by auto
qed

lemma leaf_walk:
  assumes ok: "pt_ok m r L X" and L: "0 < L" and t: "tab m r L va (L - 1) = Some a" and e: "entry_ok 0 e" "pte_leaf e"
  shows "hw_walk (m(slot a 0 va \<mapsto> e)) (L - 1) r va' = (if agree L L va va' then Some (0, e) else hw_walk m (L - 1) r va')"
    (is "hw_walk ?m _ _ _ = _")
proof (cases "agree L L va va'")
  case True
  have LL: "L - 1 < L" "Suc (L - 1) = L" using L by auto
  have ag: "agree L (L - 1) va va'" "vpn 0 va = vpn 0 va'" using True agree_Suc [of L "L - 1" va va'] LL(2) by auto
  have t': "tab ?m r L va' (L - 1) = Some a" using leaf_tab [OF ok L t LL(1)] tab_agree [OF ag(1), of m r] t by simp
  have "?m (slot a 0 va') = Some e" using slot_cong [OF ag(2)] by simp
  then have "hw_walk ?m 0 a va' = Some (0, e)" using hw_walk_step [of ?m a 0 va' e] e by simp
  then show ?thesis using hw_walk_at [OF leaf_pt_ok [OF ok L t e(1)] LL(1) t'] True by simp
next
  case False
  have "hw_walk ?m (L - 1) r va' = hw_walk m (L - 1) r va'"
  proof (rule hw_walk_cong [OF _ L])
    fix q assume "path_slot m r L va' q"
    then obtain k b where kb: "k < L" "tab m r L va' k = Some b" "q = slot b (L - 1 - k) va'"
      by (auto simp: path_slot_def)
    show "?m q = m q" unfolding kb(3) by (rule leaf_slot_other [OF ok L t kb(1,2)]) (use False in simp)
  qed
  then show ?thesis using False by simp
qed

end
