(* ===== verification/FrameSource.thy ===== *)
theory FrameSource
  imports BlockAllocator PagingBits
begin

text \<open>
  The interface by which \<open>paging.c\<close> obtains page tables: a source of single frames.  \<open>avail X s\<close>
  says that exactly the frames \<open>X\<close> can still be drawn.  The provider is \<open>page_alloc(0)\<close>.
\<close>

locale frame_source =
  fixes draw :: "'s \<Rightarrow> (nat option \<times> 's) option"
    and phys_of :: "nat \<Rightarrow> 's \<Rightarrow> u64"
    and avail :: "nat set \<Rightarrow> 's \<Rightarrow> bool"
  assumes draw_law: "avail X s \<Longrightarrow> \<exists>r s'. draw s = Some (r, s') \<and>
      (case r of None \<Rightarrow> X = {} \<and> avail X s'
       | Some p \<Rightarrow> p \<in> X \<and> avail (X - {p}) s' \<and> phys_of p s' = frame_at p)"
    and finite_law: "avail X s \<Longrightarrow> finite X"
begin

fun draw_many :: "nat \<Rightarrow> 's \<Rightarrow> (nat list \<times> 's) option" where
  "draw_many 0 s = Some ([], s)"
| "draw_many (Suc n) s = do {
     (r, s) \<leftarrow> draw s;
     case r of None \<Rightarrow> Some ([], s)
     | Some p \<Rightarrow> do { (ps, s) \<leftarrow> draw_many n s; Some (p # ps, s) } }"

lemma draw_nonempty:
  assumes "avail X s" "X \<noteq> {}"
  obtains p s' where "draw s = Some (Some p, s')" "p \<in> X" "avail (X - {p}) s'" "phys_of p s' = frame_at p"
  using draw_law [OF assms(1)] assms(2) that by (auto split: option.splits)

lemma draw_many_distinct:
  "avail X s \<Longrightarrow> \<exists>ps s'. draw_many n s = Some (ps, s') \<and> distinct ps \<and> set ps \<subseteq> X \<and>
     length ps = min n (card X) \<and> avail (X - set ps) s'"
proof (induction n arbitrary: X s)
  case (Suc n)
  show ?case
  proof (cases "X = {}")
    case True
    then show ?thesis using draw_law [OF Suc.prems] by (auto split: option.splits)
  next
    case False
    from draw_nonempty [OF Suc.prems False] obtain p s1
      where p: "draw s = Some (Some p, s1)" "p \<in> X" "avail (X - {p}) s1" by blast
    from Suc.IH [OF p(3)] obtain ps s' where ps: "draw_many n s1 = Some (ps, s')" "distinct ps"
      "set ps \<subseteq> X - {p}" "length ps = min n (card (X - {p}))" "avail (X - {p} - set ps) s'" by blast
    have "card X = Suc (card (X - {p}))"
      using finite_law [OF Suc.prems] p(2) by (rule card.remove)
    moreover have "X - {p} - set ps = X - set (p # ps)" by auto
    ultimately show ?thesis using p ps by auto
  qed
qed simp

end

section \<open>The physical memory manager as a frame source\<close>

definition pmm_avail :: "nat set \<Rightarrow> pmm \<Rightarrow> bool" where
  "pmm_avail X s \<longleftrightarrow> (\<exists>U F A. pmm_inv U F A s \<and> X = frames_of F)"

lemma smallest_fit_0:
  assumes "F \<noteq> {}" obtains p c where "smallest_fit F 0 p c"
proof -
  from assms obtain q j where "(q, j) \<in> F" by auto
  then have "\<exists>p. (p, j) \<in> F" by blast
  then have fit: "\<exists>p. (p, LEAST c. \<exists>p. (p, c) \<in> F) \<in> F" by (rule LeastI)
  have "(LEAST c. \<exists>p. (p, c) \<in> F) \<le> i" if "(q', i) \<in> F" for q' i
    by (rule Least_le) (use that in blast)
  with fit that show ?thesis by (fastforce simp: smallest_fit_def)
qed

lemma pmm_page_phys:
  assumes "pmm_inv U F A s" "(p, k) \<in> A"
  shows "page_to_phys (Some p) s = frame_at p"
proof -
  have core: "core F A {} U s" using assms(1) by (simp add: pmm_inv_def)
  then have p: "p \<le> max_of s" "max_of s < 2 ^ 52"
    using held_in_managed [OF assms] by (auto simp: core_def)
  obtain db where "g_pfndb s = Some db"
    using core by (auto simp: core_def free_lists_rep_def)
  moreover have "(of_nat p :: u64) \<noteq> - 1"
  proof
    assume "(of_nat p :: u64) = - 1"
    then have "unat (of_nat p :: u64) = unat (- 1 :: u64)" by simp
    moreover have "unat (of_nat p :: u64) = p" by (rule unat_of_nat_small) (use p in simp)
    moreover have "unat (- 1 :: u64) = 2 ^ 64 - 1" by (simp add: unsigned_minus_1_eq_mask mask_eq_exp_minus_1)
    ultimately show False using p by simp
  qed
  ultimately show ?thesis using p
    by (simp add: pfndb_page_to_phys_def pfndb_get_pfn_def frame_at_def)
qed

interpretation frames: frame_source "page_alloc 0" "\<lambda>p. page_to_phys (Some p)" pmm_avail
proof (unfold_locales, goal_cases)
  case (1 X s)
  then obtain U F A where inv: "pmm_inv U F A s" and X: "X = frames_of F" by (auto simp: pmm_avail_def)
  have k: "unat (0::u8) < PMM_MAX_ORDER" by (simp add: PMM_MAX_ORDER_def)
  from page_alloc_cases [OF inv k] show ?case
  proof
    assume none: "(\<nexists>p j. smallest_fit F (unat (0::u8)) p j) \<and> page_alloc 0 s = Some (None, s)"
    then have "F = {}" using smallest_fit_0 [of F] by auto
    then show ?thesis using none 1 X by auto
  next
    assume "\<exists>p j s'. smallest_fit F (unat (0::u8)) p j \<and> page_alloc 0 s = Some (Some p, s') \<and>
      pmm_inv U (abs_take p (unat (0::u8)) j F) (insert (p, unat (0::u8)) A) s' \<and>
      g_free_pages s' = g_free_pages s - 2 ^ unat (0::u8)"
    then obtain p j s' where p: "smallest_fit F 0 p j" "page_alloc 0 s = Some (Some p, s')"
      "pmm_inv U (abs_take p 0 j F) (insert (p, 0) A) s'" by auto
    have fr: "frames p 0 = {p}" by (auto simp: frames_def)
    note fit = fit_block [OF inv p(1)]
    have "pmm_avail (X - {p}) s'" unfolding pmm_avail_def
      using p(3) fit(4) fr X by blast
    moreover have "p \<in> X" using fit(2) fr X by simp
    moreover have "page_to_phys (Some p) s' = frame_at p" by (rule pmm_page_phys [OF p(3), of _ 0]) simp
    ultimately show ?thesis using p(2) by auto
  qed
next
  case (2 X s)
  then show ?case using core_blocks(5) pmm_inv_core unfolding pmm_avail_def by blast
qed

lemma pmm_avail_ready: "pmm_avail X s \<Longrightarrow> pmm_is_ready s"
  by (auto simp: pmm_avail_def pmm_inv_def pmm_is_ready_def)

end
