(* ===== verification/PagingCorrect.thy ===== *)
theory PagingCorrect
  imports PageTables FrameSource
begin

text \<open>
  The code of \<open>paging_map_one\<close> against the tree of \<open>PageTables\<close>: the invariant \<open>vm_ok\<close> of the
  paging state, the budget of free frames a set of addresses needs, and the effect of one call
  on the hardware's walk of every address.
\<close>

section \<open>The invariant\<close>

definition hhdm_of :: "boot \<Rightarrow> u64" where
  "hhdm_of b = the (hhdm_response b)"

abbreviation levels_of :: "paging \<Rightarrow> nat" where
  "levels_of s \<equiv> unat (g_levels s)"

text \<open>Every word of memory can be reached through the direct map, as the boot loader sets it up.\<close>

definition direct_mapped :: "boot \<Rightarrow> ram \<Rightarrow> bool" where
  "direct_mapped b m \<longleftrightarrow>
     hhdm_response b \<noteq> None \<and> (\<forall>q. m q \<noteq> None \<longrightarrow> view b (PHYS_TO_VIRT (hhdm_of b) q) = Some q)"

text \<open>\<open>X\<close> are the frames that can still be drawn for tables.\<close>

definition vm_ok :: "boot \<Rightarrow> nat set \<Rightarrow> paging \<Rightarrow> bool" where
  "vm_ok b X s \<longleftrightarrow>
     direct_mapped b (ram s) \<and> pmm_avail X (allocator s) \<and>
     pt_ok (ram s) (g_root_phys s) (levels_of s) X \<and> 3 \<le> levels_of s \<and> levels_of s \<le> 5 \<and>
     g_root_phys s \<noteq> 0 \<and> (\<forall>p\<in>X. PHYS_TO_VIRT (hhdm_of b) (frame_at p) \<noteq> 0)"

abbreviation walk :: "paging \<Rightarrow> u64 \<Rightarrow> (nat \<times> u64) option" where
  "walk s va \<equiv> hw_walk (ram s) (levels_of s - 1) (g_root_phys s) va"

abbreviation path_tab :: "paging \<Rightarrow> u64 \<Rightarrow> nat \<Rightarrow> u64 option" where
  "path_tab s va d \<equiv> tab (ram s) (g_root_phys s) (levels_of s) va d"

definition same_config :: "paging \<Rightarrow> paging \<Rightarrow> bool" where
  "same_config s s' \<longleftrightarrow>
     g_root_phys s' = g_root_phys s \<and> g_levels s' = g_levels s \<and> satp s' = satp s \<and>
     g_early_pt_pool_used s' = g_early_pt_pool_used s"

lemma same_config_refl [simp]: "same_config s s"
  by (simp add: same_config_def)

lemma same_config_trans [trans]: "same_config s t \<Longrightarrow> same_config t u \<Longrightarrow> same_config s u"
  by (simp add: same_config_def)

lemma vm_okD:
  assumes "vm_ok b X s"
  shows "hhdm_response b = Some (hhdm_of b)" "pmm_avail X (allocator s)"
    "pt_ok (ram s) (g_root_phys s) (levels_of s) X" "3 \<le> levels_of s" "levels_of s \<le> 5"
    "0 < levels_of s" "g_root_phys s \<noteq> 0" "p \<in> X \<Longrightarrow> PHYS_TO_VIRT (hhdm_of b) (frame_at p) \<noteq> 0"
    "finite X"
  using assms frames.finite_law by (auto simp: vm_ok_def direct_mapped_def hhdm_of_def)

section \<open>Memory through the direct map\<close>

lemma virt_word: "PHYS_TO_VIRT h a + 8 * v = PHYS_TO_VIRT h (a + 8 * v)"
  by (simp add: PHYS_TO_VIRT_def)

lemma load64_direct:
  assumes "direct_mapped b (ram s)" "ram s q = Some x"
  shows "load64 b (PHYS_TO_VIRT (hhdm_of b) q) s = Some x"
  using assms by (auto simp: direct_mapped_def load64_def)

lemma store64_direct:
  assumes "direct_mapped b (ram s)" "ram s q \<noteq> None"
  shows "store64 b (PHYS_TO_VIRT (hhdm_of b) q) x s = Some (s\<lparr>ram := (ram s)(q \<mapsto> x)\<rparr>)"
  using assms by (auto simp: direct_mapped_def store64_def)

lemma direct_mapped_upd: "direct_mapped b m \<Longrightarrow> m q \<noteq> None \<Longrightarrow> direct_mapped b (m(q \<mapsto> x))"
  by (auto simp: direct_mapped_def)

lemma direct_mapped_clear: "direct_mapped b m \<Longrightarrow> table_frame m f \<Longrightarrow> direct_mapped b (clear_frame f m)"
  by (auto simp: direct_mapped_def clear_frame_def table_frame_def)

text \<open>Clearing a page through any mapping of it, and through the direct map.\<close>

lemma memset_table_viewed:
  assumes vw: "\<And>v. unat v < 512 \<Longrightarrow> view b (ptr + 8 * v) = Some (f + 8 * v)" and tf: "table_frame (ram s) f"
  shows "memset_table b ptr s = Some (s\<lparr>ram := clear_frame f (ram s)\<rparr>)"
proof -
  define cleared where "cleared n = (\<lambda>q. if \<exists>v. unat v < n \<and> q = f + 8 * v then Some 0 else ram s q)" for n
  have step: "for_each (\<lambda>i. store64 b (ptr + 8 * of_nat i) 0) [0..<n] s = Some (s\<lparr>ram := cleared n\<rparr>)"
    if "n \<le> 512" for n
    using that
  proof (induction n)
    case 0
    then show ?case by (simp add: cleared_def)
  next
    case (Suc n)
    then have IH: "for_each (\<lambda>i. store64 b (ptr + 8 * of_nat i) 0) [0..<n] s = Some (s\<lparr>ram := cleared n\<rparr>)"
      and n: "n < 512" by simp_all
    have un: "unat (of_nat n :: u64) = n" by (rule unat_of_nat_small) (use n in simp)
    let ?q = "f + 8 * of_nat n :: u64"
    have "cleared n ?q \<noteq> None" using tf un n by (auto simp: table_frame_def cleared_def)
    then have "store64 b (ptr + 8 * of_nat n) 0 (s\<lparr>ram := cleared n\<rparr>) = Some (s\<lparr>ram := (cleared n)(?q \<mapsto> 0)\<rparr>)"
      using vw [of "of_nat n"] un n by (auto simp: store64_def)
    moreover have "(cleared n)(?q \<mapsto> 0) = cleared (Suc n)"
    proof
      fix x
      have "unat v < Suc n \<longleftrightarrow> unat v < n \<or> v = of_nat n" for v :: u64
        using un by (auto simp: less_Suc_eq)
      then show "((cleared n)(?q \<mapsto> 0)) x = cleared (Suc n) x" by (auto simp: cleared_def)
    qed
    ultimately show ?case by (simp add: for_each_append IH)
  qed
  from step [of 512] show ?thesis
    by (simp add: memset_table_def PT_ENTRIES_def cleared_def clear_frame_def)
qed

lemma memset_table_direct:
  assumes dm: "direct_mapped b (ram s)" and tf: "table_frame (ram s) f"
  shows "memset_table b (PHYS_TO_VIRT (hhdm_of b) f) s = Some (s\<lparr>ram := clear_frame f (ram s)\<rparr>)"
  by (rule memset_table_viewed [OF _ tf])
    (use dm tf in \<open>simp add: virt_word direct_mapped_def table_frame_def\<close>)

section \<open>Drawing and linking a table\<close>

lemma alloc_table:
  assumes vm: "vm_ok b X s" and X: "X \<noteq> {}"
  obtains p a where "p \<in> X" "pmm_avail (X - {p}) a"
    "paging_alloc_table b img s = Some (PHYS_TO_VIRT (hhdm_of b) (frame_at p),
       s\<lparr>allocator := a, ram := clear_frame (frame_at p) (ram s)\<rparr>)"
proof -
  note v = vm_okD [OF vm]
  from frames.draw_nonempty [OF v(2) X] obtain p a where p: "page_alloc 0 (allocator s) = Some (Some p, a)"
    "p \<in> X" "pmm_avail (X - {p}) a" "page_to_phys (Some p) a = frame_at p" by blast
  have "table_frame (ram s) (frame_at p)" by (rule pt_ok_free(2) [OF v(3) p(2)])
  then have "memset_table b (PHYS_TO_VIRT (hhdm_of b) (frame_at p)) (s\<lparr>allocator := a\<rparr>) =
    Some (s\<lparr>allocator := a, ram := clear_frame (frame_at p) (ram s)\<rparr>)"
    using memset_table_direct [of b "s\<lparr>allocator := a\<rparr>" "frame_at p"] vm by (simp add: vm_ok_def)
  then have "paging_alloc_table b img s = Some (PHYS_TO_VIRT (hhdm_of b) (frame_at p),
       s\<lparr>allocator := a, ram := clear_frame (frame_at p) (ram s)\<rparr>)"
    using p(1,4) v(1) pmm_avail_ready [OF v(2)] by (simp add: paging_alloc_table_def)
  with p that show ?thesis by blast
qed

text \<open>
  The paths to the addresses \<open>VA\<close> on which a table is still missing; each needs one frame.
\<close>

definition route :: "nat \<Rightarrow> nat \<Rightarrow> u64 \<Rightarrow> u64 list" where
  "route L n va = map (\<lambda>j. vpn (L - 1 - j) va) [0..<n]"

lemma route_eq: "route L n va = route L n' va' \<longleftrightarrow> n = n' \<and> agree L n va va'"
proof
  assume eq: "route L n va = route L n' va'"
  then have n: "n = n'" using arg_cong [OF eq, of length] unfolding route_def length_map by simp
  with eq show "n = n' \<and> agree L n va va'" by (simp add: route_def agree_def)
qed (auto simp: route_def agree_def)

definition missing :: "u64 set \<Rightarrow> paging \<Rightarrow> u64 list set" where
  "missing VA s = {route (levels_of s) n va | n va. va \<in> VA \<and> n < levels_of s \<and> path_tab s va n = None}"

text \<open>The free frames \<open>X\<close> are enough for the missing tables, with \<open>k\<close> frames to spare.\<close>

definition spare_frames :: "nat \<Rightarrow> u64 set \<Rightarrow> nat set \<Rightarrow> paging \<Rightarrow> bool" where
  "spare_frames k VA X s \<longleftrightarrow> card (missing VA s) + k \<le> card X"

abbreviation enough_frames :: "u64 set \<Rightarrow> nat set \<Rightarrow> paging \<Rightarrow> bool" where
  "enough_frames \<equiv> spare_frames 0"

lemma finite_missing: "finite (missing VA s)"
proof -
  have "missing VA s \<subseteq> (\<lambda>(n, va). route (levels_of s) n va) ` ({..<levels_of s} \<times> UNIV)"
    by (auto simp: missing_def)
  then show ?thesis by (rule finite_subset) simp
qed

lemma missing_cong:
  assumes "g_levels s' = g_levels s"
    "\<And>va n. va \<in> VA \<Longrightarrow> n < levels_of s \<Longrightarrow> path_tab s' va n = path_tab s va n"
  shows "missing VA s' = missing VA s"
proof -
  have *: "va \<in> VA \<and> n < levels_of s \<and>
        tab (ram s') (g_root_phys s') (levels_of s) va n = None \<longleftrightarrow>
      va \<in> VA \<and> n < levels_of s \<and> path_tab s va n = None" for va n
    using assms(2) [of va n] assms(1) by auto
  show ?thesis unfolding missing_def assms(1) * ..
qed

text \<open>Progress that leaves the hardware's view of every address as it was.\<close>

definition quiet_step :: "boot \<Rightarrow> nat \<Rightarrow> u64 set \<Rightarrow> nat set \<Rightarrow> paging \<Rightarrow> nat set \<Rightarrow> paging \<Rightarrow> bool" where
  "quiet_step b k VA X s X' s' \<longleftrightarrow>
     vm_ok b X' s' \<and> spare_frames k VA X' s' \<and> X' \<subseteq> X \<and> same_config s s' \<and> fences s' = fences s \<and>
     (\<forall>w. walk s' w = walk s w)"

lemma quiet_step_refl: "vm_ok b X s \<Longrightarrow> spare_frames k VA X s \<Longrightarrow> quiet_step b k VA X s X s"
  by (simp add: quiet_step_def)

lemma quiet_step_trans:
  "quiet_step b k VA X s X' s' \<Longrightarrow> quiet_step b k VA X' s' X'' s'' \<Longrightarrow> quiet_step b k VA X s X'' s''"
  by (auto simp: quiet_step_def same_config_def)

lemma link_step:
  assumes vm: "vm_ok b X s" and en: "spare_frames k VA X s" and va: "va \<in> VA"
    and d: "Suc d < levels_of s" and t: "path_tab s va d = Some a"
    and e: "ram s (slot a (levels_of s - 1 - d) va) = Some e" "\<not> pte_valid e"
    and p: "p \<in> X" "pmm_avail (X - {p}) al"
  defines "s' \<equiv> s\<lparr>allocator := al,
    ram := link_table (clear_frame (frame_at p) (ram s)) (levels_of s) p va d a\<rparr>"
  shows "quiet_step b k VA X s (X - {p}) s'" "path_tab s' va d = Some a"
proof -
  note v = vm_okD [OF vm]
  let ?L = "levels_of s" and ?r = "g_root_phys s"
  let ?m = "clear_frame (frame_at p) (ram s)"
  note cl = pt_ok_clear [OF v(3) p(1)]
  have slot: "?m (slot a (?L - 1 - d) va) = Some e"
    using clear_frame_path [OF v(3) p(1) path_slotI [of d ?L, OF _ t]] d e(1) by simp
  have tm: "tab ?m ?r ?L va d = Some a" using cl(1) [of d va] t d by simp
  have site: "link_site ?m ?r ?L X p va d a"
    using cl(2) p(1) clear_frame_word d tm slot e(2) unfolding link_site_def by blast
  have ram': "ram s' = link_table ?m ?L p va d a" "g_levels s' = g_levels s" "g_root_phys s' = ?r"
    "allocator s' = al" "fences s' = fences s"
    by (simp_all add: s'_def)
  have tab': "path_tab s' w n = (if n = Suc d \<and> agree ?L (Suc d) va w then Some (frame_at p) else path_tab s w n)"
    if "n < ?L" for w n
    unfolding ram' link_tab [OF site that] using cl(1) [of n w] that by simp
  show "path_tab s' va d = Some a" using tab' [of d va] d t by simp
  have dm: "direct_mapped b (ram s')"
    unfolding ram' link_table_def
    using direct_mapped_upd [OF direct_mapped_clear] slot vm pt_ok_free(2) [OF v(3) p(1)]
    by (simp add: vm_ok_def)
  have vm': "vm_ok b (X - {p}) s'"
    unfolding vm_ok_def using dm p(2) pt_ok_link [OF site] v ram' by simp
  have none: "path_tab s va (Suc d) = None" using t e by (simp add: is_table_def)
  have mem: "route ?L (Suc d) va \<in> missing VA s" unfolding missing_def using va d none by blast
  have "missing VA s' \<subseteq> missing VA s - {route ?L (Suc d) va}"
  proof
    fix x assume "x \<in> missing VA s'"
    then obtain n w where x: "x = route ?L n w" "w \<in> VA" "n < ?L" "path_tab s' w n = None"
      unfolding missing_def ram'(2) by blast
    then have "\<not> (n = Suc d \<and> agree ?L (Suc d) va w)" "path_tab s w n = None"
      using tab' [OF x(3), of w] by (auto split: if_splits)
    moreover from this(1) have "x \<noteq> route ?L (Suc d) va"
      unfolding x(1) route_eq using agree_sym by blast
    ultimately show "x \<in> missing VA s - {route ?L (Suc d) va}"
      unfolding missing_def using x by blast
  qed
  then have "card (missing VA s') \<le> card (missing VA s - {route ?L (Suc d) va})"
    by (rule card_mono [rotated]) (simp add: finite_missing)
  also have "\<dots> < card (missing VA s)" using finite_missing mem by (rule card_Diff1_less)
  finally have "spare_frames k VA (X - {p}) s'" using en p(1) by (simp add: spare_frames_def)
  moreover have "walk s' w = walk s w" for w
    unfolding ram' link_walk [OF site] using cl(3) [OF v(6)] by simp
  ultimately show "quiet_step b k VA X s (X - {p}) s'"
    using vm' by (auto simp: quiet_step_def same_config_def s'_def)
qed

lemma ensure_entry:
  assumes vm: "vm_ok b X s" and en: "spare_frames k VA X s" and va: "va \<in> VA"
    and d: "Suc d < levels_of s" and t: "path_tab s va d = Some a"
  obtains X' s' e where
    "paging_ensure_entry b img (PHYS_TO_VIRT (hhdm_of b) a + 8 * vpn (levels_of s - 1 - d) va) s =
       Some (Some e, s')"
    "quiet_step b k VA X s X' s'" "path_tab s' va d = Some a"
    "ram s' (slot a (levels_of s - 1 - d) va) = Some e" "pte_valid e"
proof -
  note v = vm_okD [OF vm]
  define q where "q = slot a (levels_of s - 1 - d) va"
  have ptr: "PHYS_TO_VIRT (hhdm_of b) a + 8 * vpn (levels_of s - 1 - d) va = PHYS_TO_VIRT (hhdm_of b) q"
    by (simp add: virt_word slot_def q_def)
  have dm: "direct_mapped b (ram s)" using vm by (simp add: vm_ok_def)
  have "ram s q \<noteq> None" unfolding q_def by (rule pt_ok_table(4) [OF v(3) _ t]) (use d in simp)
  then obtain e where e: "ram s q = Some e" by auto
  have ld: "load64 b (PHYS_TO_VIRT (hhdm_of b) q) s = Some e" by (rule load64_direct [OF dm e])
  show thesis
  proof (cases "pte_valid e")
    case True
    then have "paging_ensure_entry b img (PHYS_TO_VIRT (hhdm_of b) q) s = Some (Some e, s)"
      by (simp add: paging_ensure_entry_def ld pte_tests)
    with that [of e s X] quiet_step_refl [OF vm en] t e True show ?thesis unfolding ptr q_def by blast
  next
    case False
    have "path_tab s va (Suc d) = None" using t e False by (simp add: is_table_def q_def)
    then have "route (levels_of s) (Suc d) va \<in> missing VA s" using va d unfolding missing_def by blast
    then have "0 < card (missing VA s)" using finite_missing [of VA s] by (auto simp: card_gt_0_iff)
    then have "X \<noteq> {}" using en by (auto simp: spare_frames_def)
    from alloc_table [OF vm this, of img] obtain p al where p: "p \<in> X" "pmm_avail (X - {p}) al"
      "paging_alloc_table b img s = Some (PHYS_TO_VIRT (hhdm_of b) (frame_at p),
         s\<lparr>allocator := al, ram := clear_frame (frame_at p) (ram s)\<rparr>)" by blast
    let ?m = "clear_frame (frame_at p) (ram s)"
    let ?s = "s\<lparr>allocator := al, ram := ?m\<rparr>"
    let ?e = "paging_table_pte (frame_at p)"
    let ?s' = "s\<lparr>allocator := al, ram := link_table ?m (levels_of s) p va d a\<rparr>"
    note step = link_step [OF vm en va d t e [unfolded q_def] False p(1,2)]
    have q: "ram ?s q \<noteq> None" using e by (simp add: clear_frame_def)
    have dm1: "direct_mapped b (ram ?s)"
      using direct_mapped_clear [OF dm pt_ok_free(2) [OF v(3) p(1)]] by simp
    have st: "store64 b (PHYS_TO_VIRT (hhdm_of b) q) ?e ?s = Some ?s'"
      using store64_direct [OF dm1 q, of ?e] by (simp add: link_table_def q_def)
    have dm2: "direct_mapped b (ram ?s')" using step(1) by (simp add: quiet_step_def vm_ok_def)
    have r2: "ram ?s' q = Some ?e" by (simp add: link_table_def q_def)
    have ld2: "load64 b (PHYS_TO_VIRT (hhdm_of b) q) ?s' = Some ?e"
      by (rule load64_direct [OF dm2 r2])
    have "paging_ensure_entry b img (PHYS_TO_VIRT (hhdm_of b) q) s = Some (Some ?e, ?s')"
      using v(8) [OF p(1)] False
      by (simp add: paging_ensure_entry_def ld pte_tests p(3) v(1) st ld2)
    moreover have "pte_valid ?e"
      using table_pte_ok(2) [OF pt_ok_free(3) [OF v(3) p(1)]] by (simp add: is_table_def)
    ultimately show ?thesis using that step r2 unfolding ptr q_def by blast
  qed
qed

section \<open>One page\<close>

text \<open>The leaf \<open>e\<close> on level \<open>i\<close> already maps \<open>va\<close> to \<open>pa\<close> with everything \<open>f\<close> asks for.\<close>

definition leaf_covers :: "nat \<Rightarrow> u64 \<Rightarrow> u64 \<Rightarrow> u64 \<Rightarrow> u64 \<Rightarrow> bool" where
  "leaf_covers i e va pa f \<longleftrightarrow>
     push_bit 12 (pte_ppn e) + page_offset i va = pa \<and> pte_accessed e \<and>
     (\<forall>acc. grants f acc \<longrightarrow> allows e acc)"

lemma all_access: "(\<forall>acc. P acc) \<longleftrightarrow> P Load \<and> P Store \<and> P Fetch"
  by (metis access.exhaust)

lemma covers_leaf:
  assumes "unat level \<le> 4" "entry_ok (unat level) e"
  shows "paging_entry_covers e va pa f level \<longleftrightarrow> leaf_covers (unat level) e va pa f"
proof -
  have "(\<forall>acc. grants f acc \<longrightarrow> allows e acc) \<longleftrightarrow>
    (bit f 0 \<or> bit f 1 \<longrightarrow> pte_read e) \<and> (bit f 1 \<longrightarrow> pte_write e \<and> pte_dirty e) \<and> (bit f 2 \<longrightarrow> pte_exec e)"
    unfolding all_access by auto
  moreover have "pte_reserved_clear e" "pte_valid e"
    using assms(2) by (simp_all add: entry_ok_def pte_encoding_ok_def)
  ultimately show ?thesis
    using covers_iff [OF assms(1), of e va pa f] unfolding leaf_covers_def by auto
qed

text \<open>The effect of a call: nothing is lost, and a refusal names the leaf that is in the way.\<close>

definition map_effect :: "u64 \<Rightarrow> u64 \<Rightarrow> u64 \<Rightarrow> bool \<Rightarrow> paging \<Rightarrow> paging \<Rightarrow> bool" where
  "map_effect va pa f ok s s' \<longleftrightarrow>
     (if ok then
        (\<exists>i e. walk s va = Some (i, e) \<and> leaf_covers i e va pa f) \<and>
          (\<forall>w. walk s' w = walk s w) \<and> fences s' = fences s \<or>
        (\<forall>w. walk s' w = (if agree (levels_of s) (levels_of s) va w then Some (0, leaf_pte pa f) else walk s w)) \<and>
          fences s' = fences s @ [Sfence_vma va]
      else
        (\<exists>i e. 0 < i \<and> walk s va = Some (i, e) \<and> \<not> leaf_covers i e va pa f) \<and>
        (\<forall>w. walk s' w = walk s w) \<and> fences s' = fences s)"

lemma map_effect_quiet:
  assumes "quiet_step b k VA X s X' s1" "map_effect va pa f ok s1 s'"
  shows "map_effect va pa f ok s s'"
proof -
  from assms(1) have c: "levels_of s1 = levels_of s" "fences s1 = fences s"
    by (auto simp: quiet_step_def same_config_def)
  from assms(1) have "walk s1 w = walk s w" for w by (simp add: quiet_step_def)
  then have w: "hw_walk (ram s1) (levels_of s - 1) (g_root_phys s1) w = walk s w" for w
    unfolding c .
  show ?thesis using assms(2) unfolding map_effect_def c w .
qed

definition map_result ::
  "boot \<Rightarrow> nat \<Rightarrow> u64 set \<Rightarrow> nat set \<Rightarrow> u64 \<Rightarrow> u64 \<Rightarrow> u64 \<Rightarrow> paging \<Rightarrow> (bool \<times> paging) option \<Rightarrow> bool" where
  "map_result b k VA X va pa f s res \<longleftrightarrow>
     (\<exists>ok X' s'. res = Some (ok, s') \<and> vm_ok b X' s' \<and> spare_frames k VA X' s' \<and> X' \<subseteq> X \<and>
        same_config s s' \<and> map_effect va pa f ok s s')"

lemma map_resultI:
  "vm_ok b X' s' \<Longrightarrow> spare_frames k VA X' s' \<Longrightarrow> X' \<subseteq> X \<Longrightarrow> same_config s s' \<Longrightarrow>
   map_effect va pa f ok s s' \<Longrightarrow> map_result b k VA X va pa f s (Some (ok, s'))"
  unfolding map_result_def by blast

lemma map_result_quiet:
  assumes "quiet_step b k VA X s X1 s1" "map_result b k VA X1 va pa f s1 res"
  shows "map_result b k VA X va pa f s res"
proof -
  from assms(2) obtain ok X' s' where r: "res = Some (ok, s')" "vm_ok b X' s'" "spare_frames k VA X' s'"
    "X' \<subseteq> X1" "same_config s1 s'" "map_effect va pa f ok s1 s'" by (auto simp: map_result_def)
  have "X1 \<subseteq> X" "same_config s s1" using assms(1) by (auto simp: quiet_step_def)
  moreover from this(2) r(5) have "same_config s s'" by (rule same_config_trans)
  moreover have "map_effect va pa f ok s s'" by (rule map_effect_quiet [OF assms(1) r(6)])
  ultimately show ?thesis unfolding r(1) using r(2-4) by (auto intro!: map_resultI)
qed

lemma walk_at_leaf:
  assumes vm: "vm_ok b X s" and d: "d < levels_of s" and t: "path_tab s va d = Some a"
    and e: "ram s (slot a (levels_of s - 1 - d) va) = Some e" "pte_valid e"
  shows "entry_ok (levels_of s - 1 - d) e"
    "pte_leaf e \<Longrightarrow> walk s va = Some (levels_of s - 1 - d, e)"
proof -
  note v = vm_okD [OF vm]
  show eo: "entry_ok (levels_of s - 1 - d) e" by (rule pt_ok_entry [OF v(3) d t e])
  show "pte_leaf e \<Longrightarrow> walk s va = Some (levels_of s - 1 - d, e)"
    using hw_walk_at [OF v(3) d t] hw_walk_step [of "ram s" a "levels_of s - 1 - d" va e, OF e(1) eo] by simp
qed

text \<open>The last level: the code after the loop.\<close>

lemma map_leaf:
  assumes vm: "vm_ok b X s" and en: "spare_frames k VA X s"
    and t: "path_tab s va (levels_of s - 1) = Some a"
    and pa: "frame_addr pa" and f: "\<exists>acc. grants f acc"
  shows "map_result b k VA X va pa f s (paging_map_walk b img va pa f 0 (PHYS_TO_VIRT (hhdm_of b) a) s)"
proof -
  note v = vm_okD [OF vm]
  have L: "levels_of s - 1 < levels_of s" "levels_of s - 1 - (levels_of s - 1) = 0" using v(4) by auto
  define q where "q = slot a 0 va"
  have ptr: "PHYS_TO_VIRT (hhdm_of b) a + 8 * paging_level_index va 0 = PHYS_TO_VIRT (hhdm_of b) q"
    using level_index [of 0 va] by (simp add: virt_word slot_def q_def)
  have dm: "direct_mapped b (ram s)" using vm by (simp add: vm_ok_def)
  have "ram s q \<noteq> None" unfolding q_def by (rule pt_ok_table(4) [OF v(3) L(1) t])
  then obtain e where e: "ram s q = Some e" by auto
  have ld: "load64 b (PHYS_TO_VIRT (hhdm_of b) q) s = Some e" by (rule load64_direct [OF dm e])
  let ?s' = "s\<lparr>ram := (ram s)(q \<mapsto> leaf_pte pa f)\<rparr>"
  have st: "store64 b (PHYS_TO_VIRT (hhdm_of b) q) (leaf_pte pa f) s = Some ?s'"
    by (rule store64_direct [OF dm]) (simp add: e)
  have code: "paging_map_walk b img va pa f 0 (PHYS_TO_VIRT (hhdm_of b) a) s =
    (if pte_valid e \<and> paging_entry_covers e va pa f 0 then Some (True, s)
     else Some (True, cpu_sfence_vma va ?s'))"
    by (subst paging_map_walk.simps)
      (simp add: paging_level_shift_def ptr ld pte_tests st leaf_pte_def [symmetric])
  show ?thesis
  proof (cases "pte_valid e \<and> paging_entry_covers e va pa f 0")
    case True
    note at = walk_at_leaf [OF vm L(1) t, unfolded L(2), OF e [unfolded q_def]]
    have lc: "leaf_covers 0 e va pa f" using True covers_leaf [of 0 e va pa f] at(1) by simp
    with f obtain acc where "allows e acc" by (auto simp: leaf_covers_def)
    then have "pte_leaf e"
      using entry_ok_rwx [OF at(1)] True by (cases acc) (auto simp: pte_leaf_def)
    then have "map_effect va pa f True s s" using at(2) True lc by (auto simp: map_effect_def)
    then show ?thesis unfolding code using True vm en by (auto intro!: map_resultI)
  next
    case False
    have eo: "entry_ok 0 (leaf_pte pa f)" "pte_leaf (leaf_pte pa f)"
      using leaf_pte_ok [OF pa, of f] f pa unfolding entry_ok_def
      by (auto simp: page_offset_0 frame_addr_def)
    note w = leaf_tab [OF v(3,6) t, where e = "leaf_pte pa f", folded q_def] leaf_pt_ok [OF v(3,6) t eo(1), folded q_def]
      leaf_walk [OF v(3,6) t eo, folded q_def]
    have dm': "direct_mapped b ((ram s)(q \<mapsto> leaf_pte pa f))"
      using direct_mapped_upd [OF dm] e by simp
    let ?t = "cpu_sfence_vma va ?s'"
    have flds: "ram ?t = (ram s)(q \<mapsto> leaf_pte pa f)" "g_levels ?t = g_levels s"
      "g_root_phys ?t = g_root_phys s" "allocator ?t = allocator s" "fences ?t = fences s @ [Sfence_vma va]"
      by (simp_all add: cpu_sfence_vma_def)
    have "vm_ok b X ?t" unfolding vm_ok_def flds using v(2,4,5,7,8) w(2) dm' by simp
    moreover have "missing VA ?t = missing VA s"
      by (rule missing_cong) (use flds w(1) in simp_all)
    then have "spare_frames k VA X ?t" using en by (simp add: spare_frames_def)
    moreover have "same_config s ?t" by (simp add: same_config_def cpu_sfence_vma_def)
    moreover have "map_effect va pa f True s ?t" unfolding map_effect_def flds using w(3) by simp
    ultimately show ?thesis unfolding code if_not_P [OF False] by (rule map_resultI [OF _ _ subset_refl])
  qed
qed

lemma map_walk_correct:
  assumes "vm_ok b X s" "spare_frames k VA X s" "va \<in> VA" "d < levels_of s"
    "path_tab s va d = Some a" "unat level = levels_of s - 1 - d"
    and pa: "frame_addr pa" and f: "\<exists>acc. grants f acc"
  shows "map_result b k VA X va pa f s (paging_map_walk b img va pa f level (PHYS_TO_VIRT (hhdm_of b) a) s)"
  using assms(1-6)
proof (induction "unat level" arbitrary: level d a s X)
  case 0
  then have "level = 0" "d = levels_of s - 1" by (simp_all add: unat_eq_zero)
  with map_leaf [OF 0(2,3) _ pa f] 0(6) show ?case by simp
next
  case (Suc n)
  note vm = Suc.prems(1) and v = vm_okD [OF Suc.prems(1)]
  have lev: "unat level \<le> 4" "level \<noteq> 0" using Suc.hyps(2) Suc.prems(6) v(5) by auto
  have d: "Suc d < levels_of s" using Suc.hyps(2) Suc.prems(6) by linarith
  from ensure_entry [OF vm Suc.prems(2,3) d Suc.prems(5), of img] obtain X1 s1 e where
    r: "paging_ensure_entry b img (PHYS_TO_VIRT (hhdm_of b) a + 8 * vpn (unat level) va) s = Some (Some e, s1)"
    and q: "quiet_step b k VA X s X1 s1" and t1: "path_tab s1 va d = Some a"
    and e: "ram s1 (slot a (unat level) va) = Some e" "pte_valid e" unfolding Suc.prems(6) by blast
  have L1: "levels_of s1 = levels_of s" and vm1: "vm_ok b X1 s1" and en1: "spare_frames k VA X1 s1"
    using q by (auto simp: quiet_step_def same_config_def)
  have eq1: "levels_of s1 - 1 - d = unat level" using L1 Suc.prems(6) by simp
  have d1: "d < levels_of s1" using d L1 by simp
  note at = walk_at_leaf [OF vm1 d1 t1, unfolded eq1, OF e]
  have sh: "\<not> 64 \<le> unat (paging_level_shift level)" using unat_level_shift [OF lev(1)] lev(1) by simp
  have code: "paging_map_walk b img va pa f level (PHYS_TO_VIRT (hhdm_of b) a) s =
    (if pte_leaf e then Some (paging_entry_covers e va pa f level, s1)
     else paging_map_walk b img va pa f (level - 1) (PHYS_TO_VIRT (hhdm_of b) (paging_pte_to_phys e)) s1)"
    using lev(2) sh
    by (subst paging_map_walk.simps)
      (simp add: level_index [OF lev(1)] r rwx_test entry_ok_rwx [OF at(1)] v(1) word_gt_0)
  have "map_result b k VA X1 va pa f s1 (paging_map_walk b img va pa f level (PHYS_TO_VIRT (hhdm_of b) a) s)"
  proof (cases "pte_leaf e")
    case True
    have "map_effect va pa f (paging_entry_covers e va pa f level) s1 s1"
      unfolding covers_leaf [OF lev(1) at(1)]
      using at(2) [OF True] lev(2) by (auto simp: map_effect_def unat_gt_0)
    then show ?thesis unfolding code if_P [OF True]
      by (intro map_resultI [OF vm1 en1 subset_refl]) simp_all
  next
    case False
    have "path_tab s1 va (Suc d) = Some (push_bit 12 (pte_ppn e))"
      using t1 e False eq1 by (simp add: is_table_def)
    then have t2: "path_tab s1 va (Suc d) = Some (paging_pte_to_phys e)"
      by (simp add: entry_ok_phys [OF at(1)])
    have n: "unat (level - 1) = n" using Suc.hyps(2) lev(2) by (simp add: unat_minus_1)
    show ?thesis unfolding code if_not_P [OF False]
      by (rule Suc.hyps(1) [OF n [symmetric] vm1 en1 Suc.prems(3) _ t2])
        (use d L1 n Suc.hyps(2) Suc.prems(6) in simp_all)
  qed
  then show ?case by (rule map_result_quiet [OF q])
qed

lemma page_aligned: "a AND (PAGE_SIZE - 1) = 0 \<longleftrightarrow> take_bit 12 a = 0"
proof -
  have "PAGE_SIZE - 1 = mask 12" by (simp add: PAGE_SIZE_value mask_numeral)
  then show ?thesis by (simp add: take_bit_eq_mask)
qed

lemma map_page_result:
  assumes vm: "vm_ok b X s" and en: "spare_frames k VA X s" "va \<in> VA"
    and al: "take_bit 12 va = 0" "frame_addr pa" and f: "\<exists>acc. grants f acc"
  shows "map_result b k VA X va pa f s (paging_map_page b img va pa f s)"
proof -
  note v = vm_okD [OF vm]
  have lev: "unat (g_levels s - 1) = levels_of s - 1 - 0" using v(4) by (subst unat_minus_1) auto
  have "paging_map_page b img va pa f s =
      paging_map_walk b img va pa f (g_levels s - 1) (PHYS_TO_VIRT (hhdm_of b) (g_root_phys s)) s"
    using al v(1,7)
    by (simp add: paging_map_page_def page_aligned frame_addr_def paging_root_virt_def paging_map_one_def)
  then show ?thesis
    using map_walk_correct [OF vm en v(6) _ lev al(2) f, of "g_root_phys s"] by simp
qed

end
