(* ===== verification/PagingMap.thy ===== *)
theory PagingMap
  imports PagingCorrect
begin

text \<open>
  From the walk to translation: what one call of \<open>paging_map_page\<close> does to the address
  translation the processor performs, and the same for a list of pages.
\<close>

section \<open>Pages and translation\<close>

abbreviation translate :: "paging \<Rightarrow> u64 \<Rightarrow> access \<Rightarrow> u64 option" where
  "translate s va acc \<equiv> hw_translate (ram s) (levels_of s) (g_root_phys s) va acc"

definition same_page :: "u64 \<Rightarrow> u64 \<Rightarrow> bool" where
  "same_page va w \<longleftrightarrow> drop_bit 12 va = drop_bit 12 w"

lemma same_page_bits: "same_page va w \<longleftrightarrow> (\<forall>n\<ge>12. bit va n = bit w n)"
proof
  assume eq: "same_page va w"
  show "\<forall>n\<ge>12. bit va n = bit w n"
  proof (intro allI impI)
    fix n :: nat assume n: "12 \<le> n"
    have "bit (drop_bit 12 va) (n - 12) = bit (drop_bit 12 w) (n - 12)"
      using eq by (simp add: same_page_def)
    then show "bit va n = bit w n" using n by (simp add: bit_drop_bit_eq)
  qed
next
  assume "\<forall>n\<ge>12. bit va n = bit w n"
  then show "same_page va w" unfolding same_page_def
    by (intro bit_word_eqI) (simp add: bit_drop_bit_eq)
qed

lemma same_page_sym: "same_page va w \<Longrightarrow> same_page w va"
  by (simp add: same_page_def)

lemma same_page_trans: "same_page x y \<Longrightarrow> same_page y z \<Longrightarrow> same_page x z"
  by (simp add: same_page_def)

lemma vpn_bit: "bit (vpn l va) n \<longleftrightarrow> n < 9 \<and> bit va (12 + 9 * l + n)"
  by (simp add: vpn_def bit_take_bit_iff bit_drop_bit_eq)

lemma same_page_agree: "same_page va w \<Longrightarrow> agree L n va w"
  unfolding agree_def by (intro allI impI bit_word_eqI) (simp add: vpn_bit same_page_bits)

lemma canonical_bits:
  assumes "2 \<le> L" "L \<le> 5"
  shows "canonical L va \<longleftrightarrow> (\<forall>n<64. 11 + 9 * L \<le> n \<longrightarrow> bit va n = bit va (11 + 9 * L))"
proof -
  have "canonical L va \<longleftrightarrow> (\<forall>n<64. bit (signed_take_bit (11 + 9 * L) va) n = bit va n)"
    unfolding canonical_def by (auto intro: bit_word_eqI)
  also have "\<dots> \<longleftrightarrow> (\<forall>n<64. bit va (min (11 + 9 * L) n) = bit va n)"
    by (simp add: bit_signed_take_bit_iff)
  also have "\<dots> \<longleftrightarrow> (\<forall>n<64. 11 + 9 * L \<le> n \<longrightarrow> bit va n = bit va (11 + 9 * L))"
    by (auto simp: min_def)
  finally show ?thesis .
qed

lemma same_page_canonical:
  assumes "2 \<le> L" "L \<le> 5" "same_page va w" "canonical L va"
  shows "canonical L w"
proof -
  have b: "12 \<le> n \<Longrightarrow> bit w n = bit va n" for n using assms(3) by (simp add: same_page_bits)
  show ?thesis unfolding canonical_bits [OF assms(1,2)]
  proof (intro allI impI)
    fix n :: nat assume n: "n < 64" "11 + 9 * L \<le> n"
    have "bit w n = bit va n" "bit w (11 + 9 * L) = bit va (11 + 9 * L)"
      by (rule b, use n assms(1) in simp)+
    then show "bit w n = bit w (11 + 9 * L)"
      using assms(4) n unfolding canonical_bits [OF assms(1,2)] by blast
  qed
qed

text \<open>Canonical addresses that share all indices lie in the same page.\<close>

lemma agree_same_page:
  assumes L: "2 \<le> L" "L \<le> 5" and ag: "agree L L va w" and can: "canonical L va" "canonical L w"
  shows "same_page va w"
  unfolding same_page_bits
proof (intro allI impI)
  have low: "bit va n = bit w n" if n: "12 \<le> n" "n < 12 + 9 * L" for n
  proof -
    define l where "l = (n - 12) div 9"
    define j where "j = (n - 12) mod 9"
    have nj: "n = 12 + 9 * l + j" "j < 9" using n(1) unfolding l_def j_def by simp_all
    have l: "l < L" using n nj by simp
    have "L - 1 - l < L" using l by simp
    then have "vpn (L - 1 - (L - 1 - l)) va = vpn (L - 1 - (L - 1 - l)) w"
      using ag unfolding agree_def by blast
    then have "vpn l va = vpn l w" using l by simp
    then have "bit (vpn l va) j = bit (vpn l w) j" by simp
    then show ?thesis using nj by (simp add: vpn_bit)
  qed
  fix n :: nat assume n: "12 \<le> n"
  show "bit va n = bit w n"
  proof (cases "n < 12 + 9 * L")
    case True
    with n show ?thesis by (rule low)
  next
    case False
    have top: "bit va (11 + 9 * L) = bit w (11 + 9 * L)" by (rule low) (use L in simp_all)
    show ?thesis
    proof (cases "n < 64")
      case True
      have le: "11 + 9 * L \<le> n" using False by simp
      have "bit va n = bit va (11 + 9 * L)" "bit w n = bit w (11 + 9 * L)"
        using can le True unfolding canonical_bits [OF L] by blast+
      with top show ?thesis by simp
    next
      case False
      then show ?thesis using bit_imp_le_length [of va n] bit_imp_le_length [of w n] by auto
    qed
  qed
qed

lemma page_offset_split:
  assumes "take_bit 12 va = 0" "same_page va w"
  shows "page_offset i w = page_offset i va + take_bit 12 w"
proof -
  have lo: "\<not> bit va n" if "n < 12" for n
    using assms(1) that by (metis bit_0_eq bit_take_bit_iff bot_fun_def bot_bool_def)
  have "page_offset i va + take_bit 12 w = page_offset i va OR take_bit 12 w"
    by (rule disjunctive_add_eq_or, rule bit_word_eqI) (auto simp: page_offset_def bit_take_bit_iff bit_and_iff lo)
  also have "\<dots> = page_offset i w"
  proof (rule bit_word_eqI)
    fix n assume "n < LENGTH(64)"
    show "bit (page_offset i va OR take_bit 12 w) n = bit (page_offset i w) n"
      using assms(2) lo [of n] unfolding same_page_bits
      by (cases "n < 12") (auto simp: page_offset_def bit_or_iff bit_take_bit_iff)
  qed
  finally show ?thesis ..
qed

section \<open>Translation\<close>

definition maps_to :: "paging \<Rightarrow> u64 \<Rightarrow> u64 \<Rightarrow> u64 \<Rightarrow> bool" where
  "maps_to s va pa f \<longleftrightarrow>
     (\<forall>w acc. same_page va w \<longrightarrow> grants f acc \<longrightarrow> translate s w acc = Some (pa + take_bit 12 w))"

lemma hw_walk_sound:
  assumes ok: "pt_ok m r L X" and L: "0 < L" and w: "hw_walk m (L - 1) r va = Some (i, e)"
  shows "i < L" "pte_leaf e" "entry_ok i e"
proof -
  have "i < L \<and> pte_leaf e \<and> entry_ok i e"
    if "d < L" "tab m r L va d = Some a" "j = L - 1 - d" "hw_walk m j a va = Some (i, e)" for j d a
    using that
  proof (induction j arbitrary: d a)
    case 0
    then obtain e' where e': "m (slot a 0 va) = Some e'"
      using pt_ok_table(4) [OF ok 0(1,2), of 0 va] by auto
    have "pte_valid e'"
      using 0(4) hw_walk_invalid [of m a 0 va e', OF e'] by (cases "pte_valid e'") auto
    then have eo: "entry_ok 0 e'" using pt_ok_entry [OF ok 0(1,2)] e' 0(3) by simp
    show ?case using 0(4) hw_walk_step [of m a 0 va e', OF e' eo] L eo by (auto split: if_splits)
  next
    case (Suc j)
    then obtain e' where e': "m (slot a (Suc j) va) = Some e'"
      using pt_ok_table(4) [OF ok Suc.prems(1,2), of "Suc j" va] by auto
    have v: "pte_valid e'"
      using Suc.prems(4) hw_walk_invalid [of m a "Suc j" va e', OF e'] by (cases "pte_valid e'") auto
    then have eo: "entry_ok (Suc j) e'"
      using pt_ok_entry [OF ok Suc.prems(1,2)] e' Suc.prems(3) by simp
    show ?case
    proof (cases "pte_leaf e'")
      case True
      then show ?thesis using Suc.prems(3,4) hw_walk_step [of m a "Suc j" va e', OF e' eo] eo by auto
    next
      case False
      have "tab m r L va (Suc d) = Some (push_bit 12 (pte_ppn e'))"
        using Suc.prems(2,3) e' v False by (simp add: is_table_def)
      moreover have "hw_walk m j (push_bit 12 (pte_ppn e')) va = Some (i, e)"
        using Suc.prems(4) hw_walk_step [of m a "Suc j" va e', OF e' eo] False by simp
      moreover have "Suc d < L" "j = L - 1 - Suc d" using Suc.prems(3) by simp_all
      ultimately show ?thesis using Suc.IH by blast
    qed
  qed
  from this [of 0 r "L - 1"] w L show "i < L" "pte_leaf e" "entry_ok i e" by simp_all
qed

lemma hw_walk_agree: "agree L L va w \<Longrightarrow> i < L \<Longrightarrow> hw_walk m i a w = hw_walk m i a va"
proof (induction i arbitrary: a)
  case 0
  have "L - 1 < L" using 0(2) by simp
  then have "vpn (L - 1 - (L - 1)) va = vpn (L - 1 - (L - 1)) w" using 0(1) unfolding agree_def by blast
  then have "vpn 0 w = vpn 0 va" by simp
  then have "slot a 0 w = slot a 0 va" by (rule slot_cong)
  then show ?case by (simp add: hw_walk.simps [of _ 0] split: option.split)
next
  case (Suc i)
  have "L - 1 - Suc i < L" using Suc.prems by simp
  then have "vpn (L - 1 - (L - 1 - Suc i)) va = vpn (L - 1 - (L - 1 - Suc i)) w"
    using Suc.prems(1) unfolding agree_def by blast
  moreover have "L - 1 - (L - 1 - Suc i) = Suc i" using Suc.prems by simp
  ultimately have "vpn (Suc i) w = vpn (Suc i) va" by simp
  then have "slot a (Suc i) w = slot a (Suc i) va" by (rule slot_cong)
  then show ?case using Suc by (simp add: hw_walk.simps [of _ "Suc i"] split: option.split)
qed

lemma translate_leaf:
  assumes w: "walk s w = Some (i, e)" and can: "canonical (levels_of s) w" and eo: "entry_ok i e" "pte_leaf e"
  shows "translate s w acc = (if pte_accessed e \<and> allows e acc
    then Some (push_bit 12 (pte_ppn e) + page_offset i w) else None)"
proof -
  have "page_offset i (push_bit 12 (pte_ppn e)) = 0" "\<not> pte_user e"
    using eo unfolding entry_ok_def by auto
  then show ?thesis unfolding hw_translate_def w using can by (cases "pte_accessed e") simp_all
qed

lemma translate_cong:
  assumes "walk s' w = walk s w" "g_levels s' = g_levels s" "g_root_phys s' = g_root_phys s"
  shows "translate s' w acc = translate s w acc"
  using assms by (simp add: hw_translate_def)

section \<open>The effect of a mapping on translation\<close>

lemma effect_walk:
  assumes "map_effect va pa f ok s s'"
  shows "walk s' w = walk s w \<or> walk s' w = Some (0, leaf_pte pa f)"
proof (cases ok)
  case True
  then show ?thesis using assms unfolding map_effect_def by (cases "agree (levels_of s) (levels_of s) va w") auto
next
  case False
  then show ?thesis using assms unfolding map_effect_def by auto
qed

lemma effect_maps_to:
  assumes vm: "vm_ok b X s" and vm': "vm_ok b X' s'" and cfg: "same_config s s'"
    and eff: "map_effect va pa f True s s'"
    and can: "canonical (levels_of s) va" and al: "take_bit 12 va = 0" "frame_addr pa"
    and f: "\<exists>acc. grants f acc"
  shows "maps_to s' va pa f"
  unfolding maps_to_def
proof (intro allI impI)
  fix w acc assume w: "same_page va w" and acc: "grants f acc"
  note v = vm_okD [OF vm]
  have L: "2 \<le> levels_of s" "levels_of s \<le> 5" using v(4,5) by simp_all
  have cw: "canonical (levels_of s') w"
    using same_page_canonical [OF L w can] cfg by (simp add: same_config_def)
  have ag: "agree (levels_of s) (levels_of s) va w" by (rule same_page_agree [OF w])
  consider (covered) i e where "walk s va = Some (i, e)" "leaf_covers i e va pa f" "walk s' w = walk s w"
    | (leaf) "walk s' w = Some (0, leaf_pte pa f)"
    using eff ag unfolding map_effect_def if_True by metis
  then show "translate s' w acc = Some (pa + take_bit 12 w)"
  proof cases
    case covered
    have snd: "i < levels_of s" "pte_leaf e" "entry_ok i e"
      using hw_walk_sound [OF v(3,6) covered(1)] by auto
    have "walk s' w = Some (i, e)"
      unfolding covered(3) using covered(1) hw_walk_agree [OF ag] L(1) by simp
    then have "translate s' w acc = Some (push_bit 12 (pte_ppn e) + page_offset i w)"
      using translate_leaf [OF _ cw snd(3,2)] covered(2) acc by (simp add: leaf_covers_def)
    also have "push_bit 12 (pte_ppn e) + page_offset i w = pa + take_bit 12 w"
      using covered(2) page_offset_split [OF al(1) w, of i] by (simp add: leaf_covers_def add.assoc [symmetric])
    finally show ?thesis .
  next
    case leaf
    note lp = leaf_pte_ok [OF al(2), of f]
    have eo: "entry_ok 0 (leaf_pte pa f)"
      using lp f al(2) by (simp add: entry_ok_def page_offset_0 frame_addr_def)
    show ?thesis
      using translate_leaf [OF leaf cw eo] lp f acc by (simp add: page_offset_0)
  qed
qed

lemma effect_frame:
  assumes vm: "vm_ok b X s" and cfg: "same_config s s'" and eff: "map_effect va pa f ok s s'"
    and can: "canonical (levels_of s) va" and w: "\<not> same_page va w"
  shows "translate s' w acc = translate s w acc"
proof (cases "canonical (levels_of s) w")
  case False
  then show ?thesis using cfg by (simp add: hw_translate_def same_config_def)
next
  case True
  note v = vm_okD [OF vm]
  have "\<not> agree (levels_of s) (levels_of s) va w"
    using agree_same_page [OF _ v(5) _ can True] v(4) w by auto
  then have "walk s' w = walk s w"
    using eff unfolding map_effect_def by (cases ok) auto
  then show ?thesis using cfg by (intro translate_cong) (simp_all add: same_config_def)
qed

text \<open>An existing translation of a page survives, or is replaced by exactly what was asked for.\<close>

lemma effect_exact:
  assumes vm: "vm_ok b X s" and cfg: "same_config s s'" and eff: "map_effect va pa f ok s s'"
    and can: "canonical (levels_of s) va" and al: "frame_addr pa"
    and f: "\<exists>acc. grants f acc"
  shows "translate s' w acc = translate s w acc \<or>
    translate s' w acc = (if grants f acc then Some (pa + take_bit 12 w) else None)"
proof (cases "walk s' w = walk s w")
  case True
  then show ?thesis using cfg translate_cong [of s' w s] by (simp add: same_config_def)
next
  case False
  then have leaf: "walk s' w = Some (0, leaf_pte pa f)"
    using effect_walk [OF eff] by blast
  show ?thesis
  proof (cases "canonical (levels_of s') w")
    case True
    note lp = leaf_pte_ok [OF al, of f]
    have eo: "entry_ok 0 (leaf_pte pa f)"
      using lp f al by (simp add: entry_ok_def page_offset_0 frame_addr_def)
    show ?thesis using translate_leaf [OF leaf True eo] lp f by (simp add: page_offset_0)
  next
    case False
    then show ?thesis using cfg by (simp add: hw_translate_def same_config_def)
  qed
qed

text \<open>A page the walk finds a conflicting larger leaf for.\<close>

definition blocked :: "paging \<Rightarrow> u64 \<Rightarrow> u64 \<Rightarrow> u64 \<Rightarrow> bool" where
  "blocked s va pa f \<longleftrightarrow> (\<exists>i e. 0 < i \<and> walk s va = Some (i, e) \<and> \<not> leaf_covers i e va pa f)"

section \<open>A list of pages\<close>

type_synonym mapping = "u64 \<times> u64 \<times> u64"

fun map_list :: "boot \<Rightarrow> kernel_image \<Rightarrow> mapping list \<Rightarrow> paging \<Rightarrow> (bool \<times> paging) option" where
  "map_list b img [] s = Some (True, s)"
| "map_list b img ((va, pa, f) # ps) s = do {
     (ok, s) \<leftarrow> paging_map_page b img va pa f s;
     if \<not> ok then Some (False, s) else map_list b img ps s }"

lemma map_list_append:
  "map_list b img (ps @ qs) s = do {
     (ok, s) \<leftarrow> map_list b img ps s;
     if \<not> ok then Some (False, s) else map_list b img qs s }"
proof (induction ps arbitrary: s)
  case (Cons m ps)
  obtain va pa f where m: "m = (va, pa, f)" by (cases m) auto
  show ?case
  proof (cases "paging_map_page b img va pa f s")
    case (Some r)
    then show ?thesis by (cases r) (simp add: m Cons.IH)
  qed (simp add: m)
qed simp

definition mapping_ok :: "nat \<Rightarrow> mapping \<Rightarrow> bool" where
  "mapping_ok L = (\<lambda>(va, pa, f). take_bit 12 va = 0 \<and> canonical L va \<and> frame_addr pa \<and> (\<exists>acc. grants f acc))"

definition consistent :: "mapping list \<Rightarrow> bool" where
  "consistent ps \<longleftrightarrow> (\<forall>va pa f va' pa' f'. (va, pa, f) \<in> set ps \<longrightarrow> (va', pa', f') \<in> set ps \<longrightarrow>
     same_page va va' \<longrightarrow> pa = pa' \<and> f = f')"

lemma consistentD:
  "consistent ps \<Longrightarrow> (va, pa, f) \<in> set ps \<Longrightarrow> (va', pa', f') \<in> set ps \<Longrightarrow> same_page va va' \<Longrightarrow>
   pa = pa' \<and> f = f'"
  unfolding consistent_def by blast

definition pages_of :: "mapping list \<Rightarrow> u64 set" where
  "pages_of ps = fst ` set ps"

lemma maps_to_frame:
  assumes "maps_to s va pa f" "\<not> same_page va' va"
    "\<And>w acc. \<not> same_page va' w \<Longrightarrow> translate s' w acc = translate s w acc"
  shows "maps_to s' va pa f"
  unfolding maps_to_def
proof (intro allI impI)
  fix w acc assume w: "same_page va w" "grants f acc"
  have "\<not> same_page va' w" using w(1) assms(2) by (simp add: same_page_def)
  then have "translate s' w acc = translate s w acc" by (rule assms(3))
  then show "translate s' w acc = Some (pa + take_bit 12 w)"
    using assms(1) w unfolding maps_to_def by simp
qed

lemma maps_to_same:
  assumes "same_page va va'" "maps_to s va' pa f" shows "maps_to s va pa f"
  using assms unfolding maps_to_def same_page_def by simp

text \<open>What mapping a list does to the translation; the lists compose, because they are consistent.\<close>

definition list_effect :: "mapping list \<Rightarrow> bool \<Rightarrow> paging \<Rightarrow> paging \<Rightarrow> bool" where
  "list_effect ps ok s s' \<longleftrightarrow>
     (ok \<longrightarrow> (\<forall>(va, pa, f)\<in>set ps. maps_to s' va pa f)) \<and>
     (\<not> ok \<longrightarrow> (\<exists>(va, pa, f)\<in>set ps. blocked s va pa f)) \<and>
     (\<forall>w acc. (\<forall>va\<in>pages_of ps. \<not> same_page va w) \<longrightarrow> translate s' w acc = translate s w acc)"

lemma effect_blocked:
  assumes "map_effect va pa f ok s s1" "blocked s1 va' pa' f'" shows "blocked s va' pa' f'"
proof -
  from assms(2) obtain i e where i: "0 < i" "walk s1 va' = Some (i, e)" "\<not> leaf_covers i e va' pa' f'"
    by (auto simp: blocked_def)
  then have "walk s1 va' = walk s va'" using effect_walk [OF assms(1), of va'] by auto
  then show ?thesis using i by (auto simp: blocked_def)
qed

lemma list_effect_page:
  assumes vm: "vm_ok b X s" "vm_ok b X' s'" and cfg: "same_config s s'" and eff: "map_effect va pa f ok s s'"
    and m: "mapping_ok (levels_of s) (va, pa, f)"
  shows "list_effect [(va, pa, f)] ok s s'"
proof -
  have m': "take_bit 12 va = 0" "canonical (levels_of s) va" "frame_addr pa" "\<exists>acc. grants f acc"
    using m by (simp_all add: mapping_ok_def)
  have "ok \<longrightarrow> maps_to s' va pa f" using effect_maps_to [OF vm cfg _ m'(2,1,3,4)] eff by (cases ok) auto
  moreover have "\<not> ok \<longrightarrow> blocked s va pa f" using eff by (auto simp: map_effect_def blocked_def)
  ultimately show ?thesis
    using effect_frame [OF vm(1) cfg eff m'(2)] by (auto simp: list_effect_def pages_of_def)
qed

lemma list_effect_cons:
  assumes con: "consistent ((va, pa, f) # ps)" and new: "maps_to s1 va pa f" and eff: "list_effect ps ok s1 s'"
    and fr: "\<And>w acc. \<not> same_page va w \<Longrightarrow> translate s1 w acc = translate s w acc"
    and bl: "\<And>va pa f. blocked s1 va pa f \<Longrightarrow> blocked s va pa f"
  shows "list_effect ((va, pa, f) # ps) ok s s'"
proof -
  have "maps_to s' va pa f" if ok
  proof (cases "\<exists>(va', pa', f')\<in>set ps. same_page va va'")
    case True
    then obtain va' pa' f' where x: "(va', pa', f') \<in> set ps" "same_page va va'" by blast
    then have "pa = pa' \<and> f = f'" using consistentD [OF con, of va pa f va' pa' f'] by simp
    with x that eff show ?thesis by (auto simp: list_effect_def intro: maps_to_same)
  next
    case False
    have "translate s' w acc = translate s1 w acc" if "same_page va w" for w acc
    proof -
      have "\<not> same_page va' w" if "va' \<in> pages_of ps" for va'
        using False that same_page_trans [OF \<open>same_page va w\<close> same_page_sym] by (force simp: pages_of_def)
      then show ?thesis using eff by (simp add: list_effect_def)
    qed
    then show ?thesis using new by (simp add: maps_to_def)
  qed
  moreover have "\<exists>(va, pa, f)\<in>set ps. blocked s va pa f" if "\<not> ok"
    using that eff bl unfolding list_effect_def by fast
  ultimately show ?thesis using eff fr by (auto simp: list_effect_def pages_of_def)
qed

lemma map_list_result:
  assumes "vm_ok b X s" "spare_frames k VA X s" "pages_of ps \<subseteq> VA" "\<forall>m\<in>set ps. mapping_ok (levels_of s) m" "consistent ps"
  shows "\<exists>ok X' s'. map_list b img ps s = Some (ok, s') \<and> vm_ok b X' s' \<and> spare_frames k VA X' s' \<and> X' \<subseteq> X \<and>
    same_config s s' \<and> list_effect ps ok s s'"
  using assms
proof (induction ps arbitrary: X s)
  case Nil
  then show ?case by (auto simp: list_effect_def)
next
  case (Cons m ps)
  obtain va pa f where m: "m = (va, pa, f)" by (cases m) auto
  note vm = Cons.prems(1)
  have mok: "mapping_ok (levels_of s) (va, pa, f)" and va: "va \<in> VA"
    using Cons.prems(3,4) m by (simp_all add: pages_of_def)
  then have al: "take_bit 12 va = 0" "frame_addr pa" "\<exists>acc. grants f acc" "canonical (levels_of s) va"
    by (simp_all add: mapping_ok_def)
  from map_page_result [OF vm Cons.prems(2) va al(1-3), of img] obtain ok X1 s1 where
    r: "paging_map_page b img va pa f s = Some (ok, s1)" and vm1: "vm_ok b X1 s1" and en1: "spare_frames k VA X1 s1"
    and X1: "X1 \<subseteq> X" and cfg: "same_config s s1" and eff: "map_effect va pa f ok s s1"
    unfolding map_result_def by blast
  have page: "list_effect [m] ok s s1" unfolding m by (rule list_effect_page [OF vm vm1 cfg eff mok])
  show ?case
  proof (cases ok)
    case False
    then have "list_effect (m # ps) ok s s1" using page by (auto simp: list_effect_def pages_of_def)
    then show ?thesis using False r vm1 en1 X1 cfg by (auto simp: m)
  next
    case True
    have "levels_of s1 = levels_of s" using cfg by (simp add: same_config_def)
    moreover have "consistent ps" using Cons.prems(5) unfolding consistent_def by (meson list.set_intros(2))
    ultimately obtain ok' X' s' where q: "map_list b img ps s1 = Some (ok', s')" "vm_ok b X' s'" "spare_frames k VA X' s'"
      "X' \<subseteq> X1" "same_config s1 s'" "list_effect ps ok' s1 s'"
      using Cons.IH [OF vm1 en1] Cons.prems(3,4) by (auto simp: pages_of_def)
    have new: "maps_to s1 va pa f" using page True by (simp add: list_effect_def m)
    have "list_effect (m # ps) ok' s s'" unfolding m
      by (rule list_effect_cons [OF _ new q(6) effect_frame [OF vm cfg eff al(4)] effect_blocked [OF eff]])
        (use Cons.prems(5) m in simp_all)
    moreover have "same_config s s'" using cfg q(5) by (rule same_config_trans)
    moreover have "map_list b img (m # ps) s = Some (ok', s')" using r True q(1) by (simp add: m)
    ultimately show ?thesis using q(2-4) X1 by blast
  qed
qed

text \<open>The list alone.\<close>

lemma map_list_correct:
  assumes "vm_ok b X s" "enough_frames (pages_of ps) X s" "\<forall>m\<in>set ps. mapping_ok (levels_of s) m" "consistent ps"
  shows "\<exists>ok X' s'. map_list b img ps s = Some (ok, s') \<and> vm_ok b X' s' \<and> X' \<subseteq> X \<and> same_config s s' \<and>
    (ok \<longrightarrow> (\<forall>(va, pa, f)\<in>set ps. maps_to s' va pa f)) \<and>
    (\<not> ok \<longrightarrow> (\<exists>(va, pa, f)\<in>set ps. blocked s va pa f)) \<and>
    (\<forall>w acc. (\<forall>va\<in>pages_of ps. \<not> same_page va w) \<longrightarrow> translate s' w acc = translate s w acc)"
  using map_list_result [OF assms(1,2) subset_refl assms(3,4), of img] unfolding list_effect_def by blast

end
