(* ===== verification/PagingRange.thy ===== *)
theory PagingRange
  imports PagingMap
begin

text \<open>
  The loops of \<open>paging_map_range\<close>, \<open>paging_map_kernel_segment\<close> and \<open>paging_init\<close> as lists of
  page mappings (\<open>map_list\<close>), so that one theorem covers them all.
\<close>

section \<open>The pages of a range\<close>

definition range_pages :: "u64 \<Rightarrow> u64 \<Rightarrow> u64 \<Rightarrow> nat \<Rightarrow> mapping list" where
  "range_pages va pa f n = map (\<lambda>i. (va + of_nat i * 4096, pa + of_nat i * 4096, f)) [0..<n]"

lemma range_pages_0 [simp]: "range_pages va pa f 0 = []"
  by (simp add: range_pages_def)

lemma range_pages_Suc:
  "range_pages va pa f (Suc n) = (va, pa, f) # range_pages (va + 4096) (pa + 4096) f n"
proof -
  have "[0..<Suc n] = 0 # map Suc [0..<n]" by (simp add: upt_conv_Cons map_Suc_upt del: upt_Suc)
  then show ?thesis by (simp add: range_pages_def algebra_simps del: upt_Suc)
qed

lemma page_step_less:
  assumes "unat va + Suc n * 4096 < 2 ^ 64"
  shows "unat (va + 4096) = unat va + 4096" "va < va + (of_nat (Suc n) * 4096 :: u64)"
proof -
  show "unat (va + 4096) = unat va + 4096" using assms by (simp add: unat_word_ariths)
  have "unat (of_nat (Suc n * 4096) :: u64) = Suc n * 4096"
    by (rule unat_of_nat_small) (use assms in simp)
  then have u: "unat (of_nat (Suc n) * 4096 :: u64) = Suc n * 4096" by simp
  have "unat (va + (of_nat (Suc n) * 4096 :: u64)) = unat va + Suc n * 4096"
    by (subst unat_add_nowrap) (use u assms in simp_all)
  then show "va < va + (of_nat (Suc n) * 4096 :: u64)"
    unfolding word_less_nat_alt by (simp only: less_add_same_cancel1) simp
qed

lemma map_range_loop_pages:
  "unat va + n * 4096 < 2 ^ 64 \<Longrightarrow>
   map_range_loop b img va pa (va + of_nat n * 4096) f s = map_list b img (range_pages va pa f n) s"
proof (induction n arbitrary: va pa s)
  case 0
  then show ?case by (simp add: map_range_loop.simps [of b img va])
next
  case (Suc n)
  note st = page_step_less [OF Suc.prems]
  have e: "va + of_nat (Suc n) * 4096 = (va + 4096) + (of_nat n * 4096 :: u64)" by (simp add: algebra_simps)
  have IH: "map_range_loop b img (va + 4096) (pa + 4096) ((va + 4096) + of_nat n * 4096) f s1 =
      map_list b img (range_pages (va + 4096) (pa + 4096) f n) s1" for s1
    by (rule Suc.IH) (use Suc.prems st(1) in simp)
  show ?case
    using st(2) unfolding e
    by (subst map_range_loop.simps) (simp add: range_pages_Suc PAGE_SIZE_value IH cong: if_cong)
qed

lemma map_segment_loop_pages:
  "unat va + n * 4096 < 2 ^ 64 \<Longrightarrow>
   map_segment_loop b img pb vb va (va + of_nat n * 4096) f s =
     map_list b img (range_pages va (pb + (va - vb)) f n) s"
proof (induction n arbitrary: va s)
  case 0
  then show ?case by (simp add: map_segment_loop.simps [of b img _ _ va])
next
  case (Suc n)
  note st = page_step_less [OF Suc.prems]
  have e: "va + of_nat (Suc n) * 4096 = (va + 4096) + (of_nat n * 4096 :: u64)" by (simp add: algebra_simps)
  have ph: "pb + (va + 4096 - vb) = pb + (va - vb) + 4096" by simp
  have IH: "map_segment_loop b img pb vb (va + 4096) ((va + 4096) + of_nat n * 4096) f s1 =
      map_list b img (range_pages (va + 4096) (pb + (va + 4096 - vb)) f n) s1" for s1
    by (rule Suc.IH) (use Suc.prems st(1) in simp)
  show ?case
    using st(2) unfolding e
    by (subst map_segment_loop.simps) (simp add: range_pages_Suc PAGE_SIZE_value IH [unfolded ph] cong: if_cong)
qed

text \<open>An address of the range lies in one of its pages.\<close>

lemma range_page_of:
  assumes "take_bit 12 va = 0" "unat va + n * 4096 < 2 ^ 64" "k < n * 4096"
  shows "same_page (va + of_nat (k div 4096) * 4096) (va + of_nat k)"
    "(va + of_nat (k div 4096) * 4096, pa + of_nat (k div 4096) * 4096, f) \<in> set (range_pages va pa f n)"
    "pa + of_nat (k div 4096) * 4096 + take_bit 12 (va + of_nat k) = pa + of_nat k"
proof -
  define i where "i = k div 4096"
  define j where "j = k mod 4096"
  have k: "k = i * 4096 + j" "j < 4096" "i < n" using assms(3) by (simp_all add: i_def j_def less_mult_imp_div_less)
  from assms(1) have "unat va mod 4096 = 0"
    unfolding unat_eq_zero [symmetric] unsigned_take_bit_eq by (simp add: take_bit_eq_mod)
  then obtain q where q: "unat va = 4096 * q" by auto
  have uk: "unat (of_nat k :: u64) = k" and ui: "unat (of_nat (i * 4096) :: u64) = i * 4096"
    by (rule unat_of_nat_small, use assms(2,3) k in simp)+
  have u1: "unat (va + of_nat k) = 4096 * (q + i) + j"
    by (subst unat_add_nowrap) (use uk q k assms(2,3) in simp_all)
  have u2: "unat (va + of_nat (i * 4096)) = 4096 * (q + i)"
    by (subst unat_add_nowrap) (use ui q k assms(2,3) in simp_all)
  have "unat (drop_bit 12 (va + of_nat (i * 4096))) = unat (drop_bit 12 (va + of_nat k))"
    unfolding unat_drop_bit u1 u2 using k(2) by simp
  then show "same_page (va + of_nat (k div 4096) * 4096) (va + of_nat k)"
    unfolding i_def [symmetric] same_page_def word_unat_eq_iff by simp
  show "(va + of_nat (k div 4096) * 4096, pa + of_nat (k div 4096) * 4096, f) \<in> set (range_pages va pa f n)"
    unfolding i_def [symmetric] range_pages_def using k(3) by auto
  have "unat (take_bit 12 (va + of_nat k)) = take_bit 12 (4096 * (q + i) + j)"
    unfolding unsigned_take_bit_eq u1 ..
  also have "\<dots> = (4096 * (q + i) + j) mod 4096" by (simp add: take_bit_eq_mod)
  also have "\<dots> = j mod 4096" by (rule mod_mult_self4)
  also have "\<dots> = j" using k(2) by simp
  finally have "unat (take_bit 12 (va + of_nat k)) = j" .
  moreover have "unat (of_nat j :: u64) = j" by (rule unat_of_nat_small) (use k(2) in simp)
  ultimately have "take_bit 12 (va + of_nat k) = of_nat j" by (simp add: word_unat_eq_iff)
  moreover have "(of_nat k :: u64) = of_nat i * 4096 + of_nat j" unfolding k(1) by simp
  ultimately show "pa + of_nat (k div 4096) * 4096 + take_bit 12 (va + of_nat k) = pa + of_nat k"
    unfolding i_def [symmetric] by simp
qed

lemma consistent_range_pages:
  assumes "take_bit 12 va = 0" "unat va + n * 4096 < 2 ^ 64"
  shows "consistent (range_pages va pa f n)"
  unfolding consistent_def
proof (intro allI impI)
  have u: "unat (drop_bit 12 (va + of_nat i * 4096)) = unat va div 4096 + i" if "i < n" for i
  proof -
    have "unat (of_nat (i * 4096) :: u64) = i * 4096"
      by (rule unat_of_nat_small) (use assms(2) that in simp)
    then have "unat (va + of_nat (i * 4096)) = unat va + i * 4096"
      by (subst unat_add_nowrap) (use assms(2) that in simp_all)
    then have "unat (va + of_nat i * 4096) = unat va + i * 4096" by simp
    then show ?thesis unfolding unat_drop_bit by simp
  qed
  fix v1 p1 f1 v2 p2 f2
  assume "(v1, p1, f1) \<in> set (range_pages va pa f n)" "(v2, p2, f2) \<in> set (range_pages va pa f n)"
    and s: "same_page v1 v2"
  then obtain i j where i: "v1 = va + of_nat i * 4096" "p1 = pa + of_nat i * 4096" "f1 = f" "i < n"
    and j: "v2 = va + of_nat j * 4096" "p2 = pa + of_nat j * 4096" "f2 = f" "j < n"
    by (auto simp: range_pages_def)
  have "drop_bit 12 (va + of_nat i * 4096) = drop_bit 12 (va + of_nat j * 4096)"
    using s unfolding same_page_def i(1) j(1) .
  then have "unat va div 4096 + i = unat va div 4096 + j"
    using u [OF i(4)] u [OF j(4)] by metis
  then show "p1 = p2 \<and> f1 = f2" using i j by simp
qed

lemma maps_to_range:
  assumes "\<forall>(va, pa, f)\<in>set (range_pages va pa f n). maps_to s va pa f"
    "take_bit 12 va = 0" "unat va + n * 4096 < 2 ^ 64" "k < n * 4096" "grants f acc"
  shows "translate s (va + of_nat k) acc = Some (pa + of_nat k)"
proof -
  note r = range_page_of [OF assms(2-4)]
  from assms(1) r(2) [of pa f]
  have "maps_to s (va + of_nat (k div 4096) * 4096) (pa + of_nat (k div 4096) * 4096) f" by blast
  then show ?thesis using r(1,3) assms(5) by (simp add: maps_to_def)
qed

section \<open>\<open>paging_map_range\<close>\<close>

definition pages_in :: "u64 \<Rightarrow> nat" where
  "pages_in sz = (unat sz + 4095) div 4096"

lemma align_up_pages:
  assumes "unat sz + 4095 < 2 ^ 64"
  shows "PAGE_ALIGN_UP sz = of_nat (pages_in sz) * 4096"
proof -
  have "unat (PAGE_ALIGN_UP sz) = pages_in sz * 4096"
    unfolding pages_in_def by (rule unat_PAGE_ALIGN_UP [OF assms])
  moreover have "pages_in sz * 4096 \<le> unat sz + 4095" by (simp add: pages_in_def)
  then have "unat (of_nat (pages_in sz * 4096) :: u64) = pages_in sz * 4096"
    by (intro unat_of_nat_small) (use assms in simp)
  ultimately have "PAGE_ALIGN_UP sz = of_nat (pages_in sz * 4096)" by (simp only: word_unat_eq_iff)
  then show ?thesis by simp
qed

lemma paging_map_range_pages:
  assumes "unat va + pages_in sz * 4096 < 2 ^ 64"
  shows "paging_map_range b img va pa sz f s = map_list b img (range_pages va pa f (pages_in sz)) s"
proof (cases "sz = 0")
  case True
  then show ?thesis by (simp add: paging_map_range_def pages_in_def)
next
  case False
  have "unat sz \<le> pages_in sz * 4096" unfolding pages_in_def by simp
  then have "unat sz + 4095 < 2 ^ 64 \<or> 2 ^ 64 - 4095 \<le> pages_in sz * 4096" by linarith
  moreover have "pages_in sz * 4096 \<le> 2 ^ 64 - 4096"
  proof -
    have "pages_in sz * 4096 < 2 ^ 52 * 4096" using assms by simp
    then have "pages_in sz < 2 ^ 52" by simp
    then show ?thesis by simp
  qed
  ultimately have "unat sz + 4095 < 2 ^ 64" by simp
  then show ?thesis
    using False map_range_loop_pages [OF assms] by (simp add: paging_map_range_def align_up_pages)
qed

end
