(* ===== verification/PagingInit.thy ===== *)
theory PagingInit
  imports PagingRange
begin

text \<open>
  \<open>paging_init\<close> as one list of page mappings: the direct map of every entry of the memory map,
  then the kernel's segments.
\<close>

section \<open>Spans of pages\<close>

definition span_pages :: "u64 \<Rightarrow> u64 \<Rightarrow> nat" where
  "span_pages start end_addr = (unat end_addr - unat start) div 4096"

lemma span_end:
  assumes "4096 dvd unat start" "4096 dvd unat end_addr" "start \<le> end_addr"
  shows "unat end_addr = unat start + span_pages start end_addr * 4096"
    "end_addr = start + of_nat (span_pages start end_addr) * 4096"
    "pages_in (end_addr - start) = span_pages start end_addr"
proof -
  from assms(1,2) obtain i j where i: "unat start = 4096 * i" and j: "unat end_addr = 4096 * j"
    by (auto elim!: dvdE)
  have le: "i \<le> j" using assms(3) i j by (simp add: word_le_nat_alt)
  have n: "span_pages start end_addr = j - i"
    unfolding span_pages_def i j by (simp add: diff_mult_distrib2 [symmetric])
  show u: "unat end_addr = unat start + span_pages start end_addr * 4096"
    unfolding n i j using le by (simp add: algebra_simps)
  have lt: "unat start + span_pages start end_addr * 4096 < 2 ^ 64"
    unfolding u [symmetric] using unsigned_less [of end_addr] by simp
  have "unat (of_nat (span_pages start end_addr * 4096) :: u64) = span_pages start end_addr * 4096"
    by (rule unat_of_nat_small) (use lt in simp)
  then have "unat (start + of_nat (span_pages start end_addr * 4096)) = unat end_addr"
    using lt u by (subst unat_add_nowrap) simp_all
  then have "start + of_nat (span_pages start end_addr * 4096) = end_addr"
    unfolding word_unat_eq_iff .
  then show "end_addr = start + of_nat (span_pages start end_addr) * 4096" by simp
  have "unat (end_addr - start) = unat end_addr - unat start"
    using assms(3) by (rule unat_sub)
  also have "\<dots> = (j - i) * 4096" unfolding i j using le by (simp add: algebra_simps)
  finally show "pages_in (end_addr - start) = span_pages start end_addr"
    unfolding pages_in_def n by simp
qed

lemma align_down_props:
  "4096 dvd unat (PAGE_ALIGN_DOWN a)" "unat (PAGE_ALIGN_DOWN a) \<le> unat a" "PAGE_ALIGN_DOWN a \<le> a"
  by (simp_all add: unat_PAGE_ALIGN_DOWN word_le_nat_alt)

lemma align_up_props:
  assumes "unat a + 4095 < 2 ^ 64"
  shows "4096 dvd unat (PAGE_ALIGN_UP a)" "unat a \<le> unat (PAGE_ALIGN_UP a)" "a \<le> PAGE_ALIGN_UP a"
    "unat (PAGE_ALIGN_UP a) \<le> unat a + 4095"
  unfolding word_le_nat_alt unat_PAGE_ALIGN_UP [OF assms] by simp_all

lemma take_bit_12_dvd: "take_bit 12 a = 0 \<longleftrightarrow> 4096 dvd unat a" for a :: u64
  unfolding unat_eq_zero [symmetric] unsigned_take_bit_eq by (simp add: take_bit_eq_mod dvd_eq_mod_eq_0)

section \<open>The direct map\<close>

definition hhdm_pages :: "u64 \<Rightarrow> memmap_entry \<Rightarrow> mapping list" where
  "hhdm_pages hhdm e =
     (let phys_start = PAGE_ALIGN_DOWN (mm_base e); phys_end = PAGE_ALIGN_UP (mm_base e + mm_length e) in
      range_pages (PHYS_TO_VIRT hhdm phys_start) phys_start PAGING_PROT_RWG (span_pages phys_start phys_end))"

text \<open>The entry ends below the end of the address space, and so does its image in the direct map.\<close>

definition entry_fits :: "u64 \<Rightarrow> memmap_entry \<Rightarrow> bool" where
  "entry_fits hhdm e \<longleftrightarrow>
     unat (mm_base e) + unat (mm_length e) + 4095 < 2 ^ 64 \<and>
     unat (PHYS_TO_VIRT hhdm (PAGE_ALIGN_DOWN (mm_base e))) +
       span_pages (PAGE_ALIGN_DOWN (mm_base e)) (PAGE_ALIGN_UP (mm_base e + mm_length e)) * 4096 < 2 ^ 64"

lemma entry_span:
  assumes "entry_fits hhdm e"
  defines "ps \<equiv> PAGE_ALIGN_DOWN (mm_base e)" and "pe \<equiv> PAGE_ALIGN_UP (mm_base e + mm_length e)"
  shows "4096 dvd unat ps" "4096 dvd unat pe" "ps \<le> pe" "unat ps \<le> unat (mm_base e)"
    "unat (mm_base e) + unat (mm_length e) \<le> unat pe" "unat pe = unat ps + span_pages ps pe * 4096"
proof -
  have b: "unat (mm_base e) + unat (mm_length e) + 4095 < 2 ^ 64" using assms(1) by (simp add: entry_fits_def)
  then have s: "unat (mm_base e + mm_length e) = unat (mm_base e) + unat (mm_length e)"
    by (intro unat_add_nowrap) simp
  have up: "unat (mm_base e + mm_length e) + 4095 < 2 ^ 64" using s b by simp
  show "4096 dvd unat ps" "unat ps \<le> unat (mm_base e)" unfolding ps_def by (rule align_down_props)+
  show "4096 dvd unat pe" "unat (mm_base e) + unat (mm_length e) \<le> unat pe"
    unfolding pe_def using align_up_props [OF up] s by simp_all
  then show "ps \<le> pe" using \<open>unat ps \<le> _\<close> by (simp add: word_le_nat_alt)
  then show "unat pe = unat ps + span_pages ps pe * 4096"
    using \<open>4096 dvd unat ps\<close> \<open>4096 dvd unat pe\<close> by (intro span_end(1))
qed

lemma map_hhdm_loop_pages:
  "\<forall>e\<in>set entries. entry_fits hhdm e \<Longrightarrow>
   map_hhdm_loop b img hhdm entries s = map_list b img (concat (map (hhdm_pages hhdm) entries)) s"
proof (induction entries arbitrary: s)
  case (Cons e rest)
  let ?ps = "PAGE_ALIGN_DOWN (mm_base e)" and ?pe = "PAGE_ALIGN_UP (mm_base e + mm_length e)"
  have fits: "entry_fits hhdm e" and rest: "\<forall>e\<in>set rest. entry_fits hhdm e" using Cons.prems by simp_all
  note sp = entry_span [OF fits]
  have range: "paging_map_range b img (PHYS_TO_VIRT hhdm ?ps) ?ps (?pe - ?ps) PAGING_PROT_RWG s1 =
      map_list b img (hhdm_pages hhdm e) s1" for s1
    using paging_map_range_pages [of "PHYS_TO_VIRT hhdm ?ps" "?pe - ?ps" b img ?ps PAGING_PROT_RWG s1]
      span_end(3) [OF sp(1-3)] fits by (simp add: hhdm_pages_def entry_fits_def Let_def)
  show ?case
  proof (cases "?ps = ?pe")
    case True
    then have "hhdm_pages hhdm e = []" by (simp add: hhdm_pages_def span_pages_def)
    then show ?thesis using True Cons.IH [OF rest] by simp
  next
    case False
    then show ?thesis using Cons.IH [OF rest] by (simp add: range map_list_append cong: if_cong)
  qed
qed simp

section \<open>The kernel's segments\<close>

definition segment_pages :: "u64 \<Rightarrow> u64 \<Rightarrow> u64 \<times> u64 \<times> u64 \<Rightarrow> mapping list" where
  "segment_pages physical_base virtual_base = (\<lambda>(start, end_addr, f).
     let s = PAGE_ALIGN_DOWN start; e = PAGE_ALIGN_UP end_addr in
     if s \<ge> e then [] else range_pages s (physical_base + (s - virtual_base)) f (span_pages s e))"

definition segment_fits :: "u64 \<times> u64 \<times> u64 \<Rightarrow> bool" where
  "segment_fits = (\<lambda>(start, end_addr, f). unat end_addr + 4095 < 2 ^ 64)"

lemma map_kernel_segment_pages:
  assumes ex: "executable_address_response b = Some (pb, vb)" and fits: "segment_fits (start, end_addr, f)"
  shows "paging_map_kernel_segment b img start end_addr f s = map_list b img (segment_pages pb vb (start, end_addr, f)) s"
proof -
  let ?s = "PAGE_ALIGN_DOWN start" and ?e = "PAGE_ALIGN_UP end_addr"
  show ?thesis
  proof (cases "?s \<ge> ?e")
    case True
    then show ?thesis by (simp add: paging_map_kernel_segment_def segment_pages_def)
  next
    case False
    have d: "4096 dvd unat ?s" "4096 dvd unat ?e" "?s \<le> ?e"
      using False align_down_props align_up_props fits by (auto simp: segment_fits_def)
    note sp = span_end [OF d]
    have "unat ?s + span_pages ?s ?e * 4096 < 2 ^ 64"
      unfolding sp(1) [symmetric] using unsigned_less [of ?e] by simp
    from map_segment_loop_pages [OF this, of b img pb vb f s, folded sp(2)]
    show ?thesis using False ex by (simp add: paging_map_kernel_segment_def segment_pages_def Let_def)
  qed
qed

lemma map_segments_loop_pages:
  assumes ex: "executable_address_response b = Some (pb, vb)"
  shows "\<forall>x\<in>set segs. segment_fits x \<Longrightarrow>
    map_segments_loop b img segs s = map_list b img (concat (map (segment_pages pb vb) segs)) s"
proof (induction segs arbitrary: s)
  case (Cons x rest)
  obtain st en f where x: "x = (st, en, f)" by (cases x) auto
  have fits: "segment_fits (st, en, f)" using Cons.prems x by simp
  show ?case using Cons.IH Cons.prems
    by (simp add: x map_list_append map_kernel_segment_pages [OF ex fits] cong: if_cong)
qed simp

section \<open>The whole initialisation\<close>

definition init_pages :: "kernel_image \<Rightarrow> u64 \<Rightarrow> memmap_entry list \<Rightarrow> u64 \<Rightarrow> u64 \<Rightarrow> mapping list" where
  "init_pages img hhdm entries pb vb =
     concat (map (hhdm_pages hhdm) entries) @ concat (map (segment_pages pb vb) (kernel_segments img))"

lemma paging_init_pages:
  assumes h: "hhdm_response b = Some hhdm" and m: "memmap_response b = Some entries"
    and ex: "executable_address_response b = Some (pb, vb)"
    and fits: "\<forall>e\<in>set entries. entry_fits hhdm e" "\<forall>x\<in>set (kernel_segments img). segment_fits x"
    and root: "paging_setup_root (s\<lparr>g_early_pt_pool_used := 0\<rparr>) = (True, s0)"
  shows "paging_init b img s = do {
    (ok, s1) \<leftarrow> map_list b img (init_pages img hhdm entries pb vb) s0;
    Some (if ok then (True, cpu_sfence_vma_all s1) else (False, s1)) }"
proof -
  have hh: "paging_map_hhdm b img s1 = map_list b img (concat (map (hhdm_pages hhdm) entries)) s1" for s1
    using map_hhdm_loop_pages [OF fits(1)] by (simp add: paging_map_hhdm_def h m)
  have seg: "paging_map_kernel_segments b img s1 =
      map_list b img (concat (map (segment_pages pb vb) (kernel_segments img))) s1" for s1
    using map_segments_loop_pages [OF ex fits(2)] by (simp add: paging_map_kernel_segments_def)
  show ?thesis
  proof (cases "map_list b img (concat (map (hhdm_pages hhdm) entries)) s0")
    case None
    then show ?thesis by (simp add: paging_init_def root h m ex hh init_pages_def map_list_append)
  next
    case (Some r)
    obtain ok s1 where r: "r = (ok, s1)" by (cases r)
    show ?thesis
    proof (cases "map_list b img (concat (map (segment_pages pb vb) (kernel_segments img))) s1")
      case None
      then show ?thesis
        using Some r by (cases ok) (simp_all add: paging_init_def root h m ex hh seg init_pages_def map_list_append)
    next
      case (Some r')
      then show ?thesis using \<open>map_list b img _ s0 = Some r\<close> r
        by (cases ok; cases r')
          (simp_all add: paging_init_def root h m ex hh seg init_pages_def map_list_append)
    qed
  qed
qed

text \<open>The setup of the root from \<open>satp\<close>.\<close>

lemma paging_setup_root_fields:
  assumes "paging_setup_root s = (ok, s0)"
  shows "ram s0 = ram s" "allocator s0 = allocator s" "satp s0 = satp s" "fences s0 = fences s"
    "g_early_pt_pool_used s0 = g_early_pt_pool_used s"
    "g_root_phys s0 = push_bit 12 (take_bit 44 (satp s))" "g_levels s0 = paging_satp_levels (satp s)"
proof -
  have "SATP_PPN_MASK = mask 44" by (simp add: SATP_PPN_MASK_def mask_eq_exp_minus_1 push_bit_eq_mult)
  then have "satp s AND SATP_PPN_MASK = take_bit 44 (satp s)" by (simp add: take_bit_eq_mask)
  then show "ram s0 = ram s" "allocator s0 = allocator s" "satp s0 = satp s" "fences s0 = fences s"
    "g_early_pt_pool_used s0 = g_early_pt_pool_used s"
    "g_root_phys s0 = push_bit 12 (take_bit 44 (satp s))" "g_levels s0 = paging_satp_levels (satp s)"
    using assms by (auto simp: paging_setup_root_def Let_def)
qed

lemma satp_levels_range: "paging_satp_levels x \<noteq> 0 \<Longrightarrow> unat (paging_satp_levels x) \<in> {3, 4, 5}"
  by (auto simp: paging_satp_levels_def Let_def split: if_splits)

end
