(* ===== verification/VmDemo.thy ===== *)
theory VmDemo
  imports PagingInit MmDemo
begin

text \<open>
  A small Sv39 machine on which the paging properties are exercised: sixteen frames of memory,
  frames 2 to 8 managed by \<open>pmm.c\<close>, frame 15 the (empty) root table the boot loader left in
  \<open>satp\<close>, and a kernel whose text is one page at the usual link address.
\<close>

section \<open>An empty root\<close>

lemma tab_empty:
  assumes "\<forall>v. unat v < 512 \<longrightarrow> m (r + 8 * v) = Some 0"
  shows "tab m r L va (Suc d) = None"
proof (induction d)
  case 0
  have "m (slot r (L - 1) va) = Some 0" using assms vpn_less by (simp add: slot_def)
  then show ?case by simp
qed simp

lemma pt_ok_empty:
  assumes r: "frame_addr r" "\<forall>v. unat v < 512 \<longrightarrow> m (r + 8 * v) = Some 0" "r \<notin> frame_at ` X"
    and X: "\<forall>p\<in>X. p < 2 ^ 44 \<and> table_frame m (frame_at p)"
  shows "pt_ok m r L X"
proof -
  have t: "d = 0 \<and> a = r" if "tab m r L va d = Some a" for va d a
    using that tab_empty [OF r(2), of L va] by (cases d) auto
  show ?thesis
    unfolding pt_ok_def
  proof (intro conjI allI impI)
    fix va d a assume "d < L" "tab m r L va d = Some a"
    with t [of va d a] r show "table_frame m a" "a \<notin> frame_at ` X" by (auto simp: table_frame_def)
  next
    fix va va' d d' a
    assume "tab m r L va d = Some a" "tab m r L va' d' = Some a"
    with t [of va d a] t [of va' d' a] show "d = d'" "agree L d va va'" by auto
  next
    fix va d a e
    assume "tab m r L va d = Some a" "m (slot a (L - 1 - d) va) = Some e" "pte_valid e"
    with t [of va d a] r(2) vpn_less [of "L - 1 - d" va] show "entry_ok (L - 1 - d) e"
      by (auto simp: slot_def)
  qed (use X in blast)
qed

lemma missing_single: "card (missing {va} s) \<le> levels_of s - 1"
proof -
  have "missing {va} s \<subseteq> (\<lambda>n. route (levels_of s) n va) ` {1..<levels_of s}"
  proof
    fix x assume "x \<in> missing {va} s"
    then obtain n where n: "x = route (levels_of s) n va" "n < levels_of s" "path_tab s va n = None"
      unfolding missing_def by blast
    then have "n \<noteq> 0" by (cases n) auto
    with n show "x \<in> (\<lambda>n. route (levels_of s) n va) ` {1..<levels_of s}" by auto
  qed
  then have "card (missing {va} s) \<le> card ((\<lambda>n. route (levels_of s) n va) ` {1..<levels_of s})"
    by (rule card_mono [rotated]) simp
  also have "\<dots> \<le> card {1..<levels_of s}" by (rule card_image_le) simp
  finally show ?thesis by simp
qed

text \<open>An upper bound of the tables a list of addresses needs, computed.\<close>

definition routes :: "nat \<Rightarrow> u64 list \<Rightarrow> u64 list list" where
  "routes L vas = remdups (concat (map (\<lambda>va. map (\<lambda>n. route L n va) [1..<L]) vas))"

lemma card_missing_routes: "card (missing (set vas) s) \<le> length (routes (levels_of s) vas)"
proof -
  have "missing (set vas) s \<subseteq> set (routes (levels_of s) vas)"
  proof
    fix x assume "x \<in> missing (set vas) s"
    then obtain n va where n: "x = route (levels_of s) n va" "va \<in> set vas" "n < levels_of s"
      "path_tab s va n = None" unfolding missing_def by blast
    then have "n \<noteq> 0" by (cases n) auto
    with n(3) have "n \<in> set [1..<levels_of s]" by simp
    then have "x \<in> set (map (\<lambda>n. route (levels_of s) n va) [1..<levels_of s])" using n(1) by auto
    with n(2) show "x \<in> set (routes (levels_of s) vas)"
      unfolding routes_def set_remdups set_concat by (auto intro!: bexI [of _ va])
  qed
  then have "card (missing (set vas) s) \<le> card (set (routes (levels_of s) vas))"
    by (rule card_mono [rotated]) simp
  also have "\<dots> \<le> length (routes (levels_of s) vas)" by (rule card_length)
  finally show ?thesis .
qed

section \<open>The machine\<close>

definition vm_hhdm :: u64 where "vm_hhdm = 0xffffffc000000000"

definition vm_map :: "memmap_entry list" where
  "vm_map =
     [\<lparr>mm_base = 0, mm_length = 0x1000, mm_usable = False\<rparr>,
      \<lparr>mm_base = 0x2000, mm_length = 0x7000, mm_usable = True\<rparr>]"

definition vm_db :: pmm where
  "vm_db = demo_cold\<lparr>g_max_pfn := 8, g_pfndb_phys := 0x1000, g_pfndb := Some (initial_db vm_map 8)\<rparr>"

definition vm_pmm :: pmm where
  "vm_pmm = snd (the (pmm_init vm_db))"

definition vm_boot :: boot where
  "vm_boot =
     \<lparr>hhdm_response = Some vm_hhdm, memmap_response = Some vm_map,
      executable_address_response = Some (0x9000, 0xffffffff80000000),
      view = (\<lambda>v. if v - vm_hhdm < 0x10000 then Some (v - vm_hhdm) else None)\<rparr>"

definition vm_image :: kernel_image where
  "vm_image =
     \<lparr>limine_requests_start = 0xffffffff80000000, text_start = 0xffffffff80000000,
      text_end = 0xffffffff80000123, rodata_start = 0xffffffff80001000, rodata_end = 0xffffffff80001000,
      data_start = 0xffffffff80001000, bss_end = 0xffffffff80002000, early_pt_pool = 0xffffffff80001000\<rparr>"

definition vm_cold :: paging where
  "vm_cold =
     \<lparr>g_root_phys = 0, g_levels = 0, g_early_pt_pool_used = 0, allocator = vm_pmm,
      satp = 0x800000000000000f, ram = (\<lambda>q. if q < 0x10000 then Some 0 else None), fences = []\<rparr>"

definition vm_ready :: paging where
  "vm_ready = vm_cold\<lparr>g_root_phys := 0xf000, g_levels := 3\<rparr>"

lemma vm_setup: "paging_setup_root (vm_cold\<lparr>g_early_pt_pool_used := 0\<rparr>) = (True, vm_ready)"
  by (simp add: vm_cold_def vm_ready_def paging_setup_root_def paging_satp_levels_def
      SATP_MODE_SV39_def SATP_MODE_SV48_def SATP_MODE_SV57_def SATP_PPN_MASK_def)

lemma vm_entry_pfns:
  "entry_pfns \<lparr>mm_base = 0, mm_length = 0x1000, mm_usable = False\<rparr> = {}"
  "entry_pfns \<lparr>mm_base = 0x2000, mm_length = 0x7000, mm_usable = True\<rparr> = {2..<9}"
  by (simp_all add: entry_pfns_aligned) (simp add: entry_pfns_def)

lemma vm_usable: "usable_pfns vm_map = {2..<9}"
  by (simp add: vm_map_def vm_entry_pfns)

lemma vm_frames: "pfndb_ready vm_db" "free_frames vm_db = {2..<9}"
  by (auto simp: pfndb_ready_def free_frames_def vm_db_def initial_db_marks vm_usable)

lemma vm_avail: "pmm_avail {2..<9} vm_pmm"
proof -
  from pmm_init_inv [OF vm_frames(1)] obtain F s where s: "pmm_init vm_db = Some (True, s)"
    "pmm_inv (free_frames vm_db) F {} s" "frames_of F = free_frames vm_db" by blast
  then have "vm_pmm = s" by (simp add: vm_pmm_def)
  with s(2,3) vm_frames(2) show ?thesis unfolding pmm_avail_def by metis
qed

lemma vm_word:
  assumes "frame_addr a" "unat a < 65536" "unat v < 512"
  shows "ram vm_cold (a + 8 * v) = Some 0"
proof -
  from assms(1) obtain k where k: "unat a = 4096 * k" by (auto simp: frame_addr_unat elim!: dvdE)
  have "unat (a + 8 * v) = unat a + 8 * unat v" by (rule unat_table_word [OF assms(1,3)])
  also have "\<dots> < 65536"
  proof -
    have "k \<le> 15" using k assms(2) by simp
    then show ?thesis unfolding k using assms(3) by simp
  qed
  finally show ?thesis by (simp add: vm_cold_def word_less_nat_alt)
qed

lemma vm_frame_word: "p < 16 \<Longrightarrow> table_frame (ram vm_cold) (frame_at p)"
  using vm_word [of "frame_at p"] frame_addr_frame_at [of p] unat_frame_at [of p]
  by (auto simp: table_frame_def)

lemma vm_root_word: "unat v < 512 \<Longrightarrow> ram vm_cold (0xf000 + 8 * v) = Some 0"
  by (rule vm_word) (simp_all, code_simp)

text \<open>The root is empty, and apart from any set of lower frames.\<close>

lemma vm_pt_ok:
  assumes X: "X \<subseteq> {..<15}" shows "pt_ok (ram vm_cold) 0xf000 3 X"
proof (rule pt_ok_empty)
  have r: "frame_at 15 = 0xf000" by (simp add: frame_at_def PFN_PHYS_eq)
  show "frame_addr (0xf000 :: u64)" using frame_addr_frame_at [of 15] by (simp add: r)
  show "\<forall>v. unat v < 512 \<longrightarrow> ram vm_cold (0xf000 + 8 * v) = Some 0" using vm_root_word by simp
  show "0xf000 \<notin> frame_at ` X"
  proof
    assume "0xf000 \<in> frame_at ` X"
    then obtain p where p: "p \<in> X" "0xf000 = frame_at p" by blast
    have "unat (0xf000 :: u64) = 61440" by simp
    then show False using p(1) X unat_frame_at [of p] unfolding p(2) by auto
  qed
  show "\<forall>p\<in>X. p < 2 ^ 44 \<and> table_frame (ram vm_cold) (frame_at p)"
    using vm_frame_word X by (auto simp: subset_iff)
qed

lemma vm_ok_ready: "vm_ok vm_boot {2..<9} vm_ready"
proof -
  have "pt_ok (ram vm_cold) 0xf000 3 {2..<9}" by (rule vm_pt_ok) auto
  moreover have "PHYS_TO_VIRT vm_hhdm (frame_at p) \<noteq> 0" if "p \<in> {2..<9}" for p
    using that by (auto simp: PHYS_TO_VIRT_def frame_at_def PFN_PHYS_eq vm_hhdm_def atLeastLessThan_nat_numeral)
  moreover have "direct_mapped vm_boot (ram vm_cold)"
    by (auto simp: direct_mapped_def hhdm_of_def vm_boot_def vm_cold_def PHYS_TO_VIRT_def)
  ultimately show ?thesis
    using vm_avail by (simp add: vm_ok_def vm_ready_def hhdm_of_def vm_boot_def vm_cold_def)
qed

end
