(* ===== verification/PagingProps.thy ===== *)
theory PagingProps
  imports VmDemo
begin

text \<open>
  The properties of \<open>paging.c\<close>, stated over the translation the processor performs
  (\<open>hw_translate\<close>), each with a witness on the machine of \<open>VmDemo\<close>.
\<close>

section \<open>One page\<close>

text \<open>
  C13: as long as the allocator can supply the tables an address still lacks, \<open>paging_map_page\<close>
  never faults and keeps the page tables well formed; when it returns true the processor
  translates every address of the page to the requested frame for every access the flags grant;
  when it returns false a larger leaf that does not cover the request is in the way; either way
  the translation of every other page is as before, and a changed translation has been fenced.
\<close>

theorem map_page_correct:
  assumes vm: "vm_ok b X s" and en: "enough_frames {va} X s"
    and al: "take_bit 12 va = 0" "canonical (levels_of s) va" "frame_addr pa" and f: "\<exists>acc. grants f acc"
  shows "\<exists>ok X' s'. paging_map_page b img va pa f s = Some (ok, s') \<and> vm_ok b X' s' \<and> X' \<subseteq> X \<and>
    (ok \<longrightarrow> maps_to s' va pa f) \<and> (\<not> ok \<longrightarrow> blocked s va pa f) \<and>
    (\<forall>w acc. \<not> same_page va w \<longrightarrow> translate s' w acc = translate s w acc) \<and>
    (\<forall>w acc. translate s' w acc \<noteq> translate s w acc \<longrightarrow> Sfence_vma va \<in> set (fences s'))"
proof -
  from map_page_result [OF vm en _ al(1,3) f, of img] obtain ok X' s' where
    r: "paging_map_page b img va pa f s = Some (ok, s')" "vm_ok b X' s'" "X' \<subseteq> X"
    and cfg: "same_config s s'" and eff: "map_effect va pa f ok s s'"
    unfolding map_result_def by blast
  have "ok \<longrightarrow> maps_to s' va pa f"
    using effect_maps_to [OF vm r(2) cfg _ al(2,1,3) f] eff by (cases ok) auto
  moreover have "\<not> ok \<longrightarrow> blocked s va pa f"
    using eff unfolding map_effect_def blocked_def by auto
  moreover have "Sfence_vma va \<in> set (fences s')" if "translate s' w acc \<noteq> translate s w acc" for w acc
  proof -
    have "walk s' w \<noteq> walk s w"
      using that translate_cong [of s' w s acc] cfg by (auto simp: same_config_def)
    then have "fences s' = fences s @ [Sfence_vma va]"
      using eff unfolding map_effect_def by (cases ok) auto
    then show ?thesis by simp
  qed
  ultimately show ?thesis using r effect_frame [OF vm cfg eff al(2)] by blast
qed

lemma vm_RWG: "grants PAGING_PROT_RWG Load" "grants PAGING_PROT_RWG Store"
  by code_simp+

lemma vm_levels: "levels_of vm_ready = 3"
  by (simp add: vm_ready_def)

lemma vm_single: "enough_frames {va} {2..<9} vm_ready"
  using missing_single [of va vm_ready] by (simp add: spare_frames_def vm_levels)

lemma vm_page:
  "take_bit 12 (0xffffffc000004000 :: u64) = 0" "canonical 3 0xffffffc000004000" "frame_addr 0x4000"
  by code_simp+

theorem map_page_correct_witness:
  "\<exists>ok s'. paging_map_page vm_boot vm_image 0xffffffc000004000 0x4000 PAGING_PROT_RWG vm_ready = Some (ok, s') \<and>
    (ok \<longrightarrow> translate s' 0xffffffc000004010 Store = Some 0x4010)"
proof -
  have f: "\<exists>acc. grants PAGING_PROT_RWG acc" using vm_RWG by blast
  from map_page_correct [OF vm_ok_ready vm_single vm_page(1) vm_page(2) [folded vm_levels] vm_page(3) f, of vm_image]
  obtain ok s' where r: "paging_map_page vm_boot vm_image 0xffffffc000004000 0x4000 PAGING_PROT_RWG vm_ready = Some (ok, s')"
    "ok \<longrightarrow> maps_to s' 0xffffffc000004000 0x4000 PAGING_PROT_RWG" by blast
  have "same_page 0xffffffc000004000 0xffffffc000004010" by code_simp
  then have "ok \<longrightarrow> translate s' 0xffffffc000004010 Store = Some (0x4000 + take_bit 12 0xffffffc000004010)"
    using r(2) vm_RWG(2) unfolding maps_to_def by blast
  moreover have "0x4000 + take_bit 12 0xffffffc000004010 = (0x4010 :: u64)" by code_simp
  ultimately show ?thesis using r(1) by auto
qed

text \<open>
  C17: \<open>paging_map_page\<close> never gives an access more than was asked for: for every address and every
  kind of access the translation afterwards is the one from before, or it is the requested frame
  if the flags grant that access and a fault if they do not.
\<close>

theorem map_page_exact:
  assumes vm: "vm_ok b X s" and en: "enough_frames {va} X s"
    and al: "take_bit 12 va = 0" "canonical (levels_of s) va" "frame_addr pa" and f: "\<exists>acc. grants f acc"
    and r: "paging_map_page b img va pa f s = Some (ok, s')"
  shows "translate s' w acc = translate s w acc \<or>
    same_page va w \<and> translate s' w acc = (if grants f acc then Some (pa + take_bit 12 w) else None)"
proof -
  from map_page_result [OF vm en _ al(1,3) f, of img] r have
    cfg: "same_config s s'" and eff: "map_effect va pa f ok s s'"
    unfolding map_result_def by auto
  show ?thesis
    using effect_exact [OF vm cfg eff al(2,3) f, of w acc] effect_frame [OF vm cfg eff al(2), of w acc] by blast
qed

theorem map_page_exact_witness:
  "\<exists>ok s'. paging_map_page vm_boot vm_image 0xffffffc000004000 0x4000 PAGING_PROT_RWG vm_ready = Some (ok, s') \<and>
    translate s' 0xffffffc000004000 Fetch = None"
proof -
  have f: "\<exists>acc. grants PAGING_PROT_RWG acc" using vm_RWG by blast
  note prems = vm_ok_ready vm_single vm_page(1) vm_page(2) [folded vm_levels] vm_page(3) f
  from map_page_result [OF vm_ok_ready vm_single _ vm_page(1,3) f, of _ vm_image] obtain ok s' where
    r: "paging_map_page vm_boot vm_image 0xffffffc000004000 0x4000 PAGING_PROT_RWG vm_ready = Some (ok, s')"
    unfolding map_result_def by blast
  have "\<not> grants PAGING_PROT_RWG Fetch" by code_simp
  moreover have "translate vm_ready 0xffffffc000004000 Fetch = None" by code_simp
  ultimately show ?thesis
    using map_page_exact [OF prems r, of "0xffffffc000004000" Fetch] r by auto
qed

text \<open>What a walk finds and covers, the code finds and accepts, without touching the state.\<close>

lemma map_walk_covered:
  assumes vm: "vm_ok b X s" and w: "walk s va = Some (i, e)" "leaf_covers i e va pa f"
  shows "d < levels_of s \<Longrightarrow> path_tab s va d = Some a \<Longrightarrow> unat level = levels_of s - 1 - d \<Longrightarrow>
    paging_map_walk b img va pa f level (PHYS_TO_VIRT (hhdm_of b) a) s = Some (True, s)"
proof (induction "unat level" arbitrary: level d a)
  case IH: 0
  note v = vm_okD [OF vm]
  have l0: "level = 0" using IH(1) by (simp add: unat_eq_zero)
  have d0: "levels_of s - 1 - d = 0" using IH(1,4) by simp
  obtain x where x: "ram s (slot a (levels_of s - 1 - d) va) = Some x"
    using pt_ok_table(4) [OF v(3) IH(2,3)] by blast
  have val: "pte_valid x" using walk_None_at [OF v(3) IH(2,3) x] w(1) by auto
  note at = walk_at_leaf [OF vm IH(2,3) x val]
  have "hw_walk (ram s) 0 a va = Some (i, e)" using hw_walk_at [OF v(3) IH(2,3)] w(1) d0 by simp
  then have "pte_leaf x" using hw_walk_step [of "ram s" a 0 va x] x at(1) d0 by (auto split: if_splits)
  then have xe: "i = 0" "x = e" using at(2) w(1) d0 by auto
  have dm: "direct_mapped b (ram s)" using vm by (simp add: vm_ok_def)
  have "load64 b (PHYS_TO_VIRT (hhdm_of b) (slot a 0 va)) s = Some e"
    by (rule load64_direct [OF dm]) (use x xe d0 in simp)
  moreover have "PHYS_TO_VIRT (hhdm_of b) a + 8 * paging_level_index va 0 =
      PHYS_TO_VIRT (hhdm_of b) (slot a 0 va)"
    using level_index [of 0 va] by (simp add: virt_word slot_def)
  moreover have "paging_entry_covers e va pa f 0"
    using covers_leaf [of 0 e va pa f] at(1) d0 xe w(2) by simp
  ultimately show ?case using val xe
    by (subst paging_map_walk.simps) (simp add: l0 paging_level_shift_def pte_tests)
next
  case IH: (Suc n)
  note v = vm_okD [OF vm]
  have lev: "unat level \<le> 4" "level \<noteq> 0" using IH(2,5) v(5) by auto
  have d: "Suc d < levels_of s" using IH(2,5) by linarith
  obtain x where x: "ram s (slot a (levels_of s - 1 - d) va) = Some x"
    using pt_ok_table(4) [OF v(3) IH(3,4)] by blast
  have val: "pte_valid x" using walk_None_at [OF v(3) IH(3,4) x] w(1) by auto
  note at = walk_at_leaf [OF vm IH(3,4) x val, folded IH(5)]
  have dm: "direct_mapped b (ram s)" using vm by (simp add: vm_ok_def)
  have "load64 b (PHYS_TO_VIRT (hhdm_of b) (slot a (unat level) va)) s = Some x"
    by (rule load64_direct [OF dm]) (use x IH(5) in simp)
  moreover have ptr: "PHYS_TO_VIRT (hhdm_of b) a + 8 * vpn (unat level) va =
      PHYS_TO_VIRT (hhdm_of b) (slot a (unat level) va)" by (simp add: virt_word slot_def)
  ultimately have en: "paging_ensure_entry b img (PHYS_TO_VIRT (hhdm_of b) a + 8 * vpn (unat level) va) s = Some (Some x, s)"
    using val unfolding ptr by (simp add: paging_ensure_entry_def pte_tests)
  have sh: "\<not> 64 \<le> unat (paging_level_shift level)" using unat_level_shift [OF lev(1)] lev(1) by simp
  have code: "paging_map_walk b img va pa f level (PHYS_TO_VIRT (hhdm_of b) a) s =
    (if pte_leaf x then Some (paging_entry_covers x va pa f level, s)
     else paging_map_walk b img va pa f (level - 1) (PHYS_TO_VIRT (hhdm_of b) (paging_pte_to_phys x)) s)"
    using lev(2) sh
    by (subst paging_map_walk.simps)
      (simp add: level_index [OF lev(1)] en rwx_test entry_ok_rwx [OF at(1)] v(1) word_gt_0)
  show ?case
  proof (cases "pte_leaf x")
    case True
    then have "i = unat level" "x = e" using at(2) w(1) by auto
    then show ?thesis using True w(2) covers_leaf [OF lev(1) at(1)] by (simp add: code)
  next
    case False
    have "path_tab s va (Suc d) = Some (paging_pte_to_phys x)"
      using IH(4) x val False by (simp add: is_table_def entry_ok_phys [OF at(1)])
    moreover have "n = unat (level - 1)" using IH(2) lev(2) by (simp add: unat_minus_1)
    moreover from this have "unat (level - 1) = levels_of s - 1 - Suc d" using IH(2,5) by simp
    ultimately show ?thesis using IH(1) d False by (simp add: code)
  qed
qed

text \<open>
  C18: mapping is idempotent: repeating a call that returned true returns true again and leaves the
  state, the page tables and the allocator included, exactly as it is.
\<close>

theorem map_page_idempotent:
  assumes vm: "vm_ok b X s" and en: "enough_frames {va} X s"
    and al: "take_bit 12 va = 0" "frame_addr pa" and f: "\<exists>acc. grants f acc"
    and r: "paging_map_page b img va pa f s = Some (True, s')"
  shows "paging_map_page b img va pa f s' = Some (True, s')"
proof -
  from map_page_result [OF vm en _ al f, of img] r obtain X' where vm': "vm_ok b X' s'"
    and cfg: "same_config s s'" and eff: "map_effect va pa f True s s'"
    unfolding map_result_def by auto
  note v = vm_okD [OF vm'] and lp = leaf_pte_ok [OF al(2), of f]
  have "\<exists>i e. walk s' va = Some (i, e) \<and> leaf_covers i e va pa f"
    using eff lp al unfolding map_effect_def by (auto simp: leaf_covers_def page_offset_0)
  then obtain i e where w: "walk s' va = Some (i, e)" "leaf_covers i e va pa f" by blast
  have lev: "unat (g_levels s' - 1) = levels_of s' - 1 - 0" using v(4) by (subst unat_minus_1) auto
  have "paging_map_walk b img va pa f (g_levels s' - 1) (PHYS_TO_VIRT (hhdm_of b) (g_root_phys s')) s' = Some (True, s')"
    by (rule map_walk_covered [OF vm' w v(6) _ lev]) simp
  then show ?thesis using al v(1,7)
    by (simp add: paging_map_page_def page_aligned frame_addr_def paging_root_virt_def paging_map_one_def)
qed

lemma vm_page_mapped:
  obtains s' where "paging_map_page vm_boot vm_image 0xffffffc000004000 0x4000 PAGING_PROT_RWG vm_ready = Some (True, s')"
proof -
  have f: "\<exists>acc. grants PAGING_PROT_RWG acc" using vm_RWG by blast
  from map_page_result [OF vm_ok_ready vm_single _ vm_page(1,3) f, of _ vm_image] obtain ok s' where
    r: "paging_map_page vm_boot vm_image 0xffffffc000004000 0x4000 PAGING_PROT_RWG vm_ready = Some (ok, s')"
    and eff: "map_effect 0xffffffc000004000 0x4000 PAGING_PROT_RWG ok vm_ready s'"
    unfolding map_result_def by blast
  have "walk vm_ready 0xffffffc000004000 = None" by code_simp
  with eff have ok by (auto simp: map_effect_def split: if_splits)
  with r that show thesis by simp
qed

theorem map_page_idempotent_witness:
  "\<exists>s'. paging_map_page vm_boot vm_image 0xffffffc000004000 0x4000 PAGING_PROT_RWG vm_ready = Some (True, s') \<and>
    paging_map_page vm_boot vm_image 0xffffffc000004000 0x4000 PAGING_PROT_RWG s' = Some (True, s')"
proof -
  have f: "\<exists>acc. grants PAGING_PROT_RWG acc" using vm_RWG by blast
  obtain s' where "paging_map_page vm_boot vm_image 0xffffffc000004000 0x4000 PAGING_PROT_RWG vm_ready = Some (True, s')"
    by (rule vm_page_mapped)
  with map_page_idempotent [OF vm_ok_ready vm_single vm_page(1,3) f this] show ?thesis by blast
qed

section \<open>Ranges\<close>

lemma range_pages_ok:
  assumes "take_bit 12 va = 0" "take_bit 12 pa = 0" "unat pa + n * 4096 \<le> 2 ^ 56"
    "\<forall>i<n. canonical L (va + of_nat i * 4096)" "unat va + n * 4096 < 2 ^ 64" "\<exists>acc. grants f acc"
  shows "\<forall>m\<in>set (range_pages va pa f n). mapping_ok L m"
proof
  fix m assume "m \<in> set (range_pages va pa f n)"
  then obtain i where i: "m = (va + of_nat i * 4096, pa + of_nat i * 4096, f)" "i < n"
    by (auto simp: range_pages_def)
  have ui: "unat (of_nat i * 4096 :: u64) = i * 4096"
  proof -
    have "unat (of_nat (i * 4096) :: u64) = i * 4096"
      by (rule unat_of_nat_small) (use assms(5) i(2) in simp)
    then show ?thesis by simp
  qed
  have "unat (va + of_nat i * 4096) = unat va + i * 4096"
    by (subst unat_add_nowrap) (use ui assms(5) i(2) in simp_all)
  then have "take_bit 12 (va + of_nat i * 4096) = 0"
    using assms(1) unfolding take_bit_12_dvd by simp
  moreover have "unat (pa + of_nat i * 4096) = unat pa + i * 4096"
    by (subst unat_add_nowrap) (use ui assms(3) i(2) in simp_all)
  then have "frame_addr (pa + of_nat i * 4096)"
    using assms(2,3) i(2) unfolding frame_addr_unat take_bit_12_dvd by simp
  ultimately show "mapping_ok L m" using assms(4,6) i by (simp add: mapping_ok_def)
qed

text \<open>
  C15: \<open>paging_map_range\<close> maps exactly its range: with enough frames for the tables, a page-aligned
  start and a range that does not reach the end of the address space, it never faults; when it
  returns true, every byte of the pages the range touches translates to the byte at the same
  offset of the physical range; it returns false only if a larger leaf is in the way; and no
  address outside those pages changes its translation.
\<close>

theorem map_range_correct:
  assumes vm: "vm_ok b X s" and en: "enough_frames (pages_of (range_pages va pa f (pages_in sz))) X s"
    and al: "take_bit 12 va = 0" "take_bit 12 pa = 0" "unat pa + pages_in sz * 4096 \<le> 2 ^ 56"
    and can: "\<forall>i<pages_in sz. canonical (levels_of s) (va + of_nat i * 4096)"
    and fit: "unat va + pages_in sz * 4096 < 2 ^ 64" and f: "\<exists>acc. grants f acc"
  shows "\<exists>ok X' s'. paging_map_range b img va pa sz f s = Some (ok, s') \<and> vm_ok b X' s' \<and>
    (ok \<longrightarrow> (\<forall>k acc. k < pages_in sz * 4096 \<longrightarrow> grants f acc \<longrightarrow>
       translate s' (va + of_nat k) acc = Some (pa + of_nat k))) \<and>
    (\<not> ok \<longrightarrow> (\<exists>i<pages_in sz. blocked s (va + of_nat i * 4096) (pa + of_nat i * 4096) f)) \<and>
    (\<forall>w acc. (\<forall>i<pages_in sz. \<not> same_page (va + of_nat i * 4096) w) \<longrightarrow>
       translate s' w acc = translate s w acc)"
proof -
  let ?ps = "range_pages va pa f (pages_in sz)"
  from map_list_correct [OF vm en range_pages_ok [OF al can fit f] consistent_range_pages [OF al(1) fit], of img]
  obtain ok X' s' where r: "map_list b img ?ps s = Some (ok, s')" "vm_ok b X' s'"
    "ok \<longrightarrow> (\<forall>(va, pa, f)\<in>set ?ps. maps_to s' va pa f)"
    "\<not> ok \<longrightarrow> (\<exists>(va, pa, f)\<in>set ?ps. blocked s va pa f)"
    "\<forall>w. (\<forall>va\<in>pages_of ?ps. \<not> same_page va w) \<longrightarrow> (\<forall>acc. translate s' w acc = translate s w acc)"
    by blast
  have "ok \<longrightarrow> (\<forall>k acc. k < pages_in sz * 4096 \<longrightarrow> grants f acc \<longrightarrow>
       translate s' (va + of_nat k) acc = Some (pa + of_nat k))"
    using r(3) maps_to_range [OF _ al(1) fit] by blast
  moreover have "\<not> ok \<longrightarrow> (\<exists>i<pages_in sz. blocked s (va + of_nat i * 4096) (pa + of_nat i * 4096) f)"
    using r(4) by (auto simp: range_pages_def)
  moreover have "\<forall>w acc. (\<forall>i<pages_in sz. \<not> same_page (va + of_nat i * 4096) w) \<longrightarrow>
       translate s' w acc = translate s w acc"
    using r(5) by (auto simp: pages_of_def range_pages_def)
  ultimately show ?thesis
    using paging_map_range_pages [OF fit, of b img pa f s] r(1,2) by metis
qed

lemma vm_enough:
  assumes "length (routes 3 (map fst ps)) \<le> 7"
  shows "enough_frames (pages_of ps) {2..<9} vm_ready"
proof -
  have "pages_of ps = set (map fst ps)" by (simp add: pages_of_def)
  then show ?thesis
    using card_missing_routes [of "map fst ps" vm_ready] assms by (simp add: spare_frames_def vm_levels)
qed

lemma all_less_2: "(\<forall>i<2. P i) \<longleftrightarrow> P 0 \<and> P (1::nat)"
  by (auto simp: less_2_cases_iff)

theorem map_range_correct_witness:
  "\<exists>ok s'. paging_map_range vm_boot vm_image 0xffffffc000004000 0x4000 0x1800 PAGING_PROT_RWG vm_ready = Some (ok, s') \<and>
    (ok \<longrightarrow> translate s' (0xffffffc000004000 + of_nat 0x1234) Load = Some (0x4000 + of_nat 0x1234))"
proof -
  have n: "pages_in 0x1800 = 2" by (simp add: pages_in_def)
  have f: "\<exists>acc. grants PAGING_PROT_RWG acc" using vm_RWG by blast
  have en: "enough_frames (pages_of (range_pages 0xffffffc000004000 0x4000 PAGING_PROT_RWG (pages_in 0x1800))) {2..<9} vm_ready"
    unfolding n by (rule vm_enough) code_simp
  have al: "take_bit 12 (0x4000 :: u64) = 0" "unat (0x4000 :: u64) + pages_in 0x1800 * 4096 \<le> 2 ^ 56"
    "unat (0xffffffc000004000 :: u64) + pages_in 0x1800 * 4096 < 2 ^ 64"
    unfolding n by simp_all
  have c: "\<forall>i<pages_in 0x1800. canonical (levels_of vm_ready) (0xffffffc000004000 + of_nat i * 4096)"
    unfolding n all_less_2 vm_levels by code_simp
  have k: "(0x1234 :: nat) < pages_in 0x1800 * 4096" unfolding n by simp
  from map_range_correct [OF vm_ok_ready en vm_page(1) al(1,2) c al(3) f, of vm_image] k vm_RWG(1)
  show ?thesis by blast
qed

text \<open>
  C19: a range that ends at or beyond the top of the address space is silently not mapped: whenever
  \<open>virt_addr + PAGE_ALIGN_UP(size)\<close> wraps to at most \<open>virt_addr\<close>, \<open>paging_map_range\<close> returns true
  and changes nothing; the last page of the address space is such a range.
\<close>

theorem map_range_wrap_maps_nothing:
  "(va + PAGE_ALIGN_UP sz \<le> va \<longrightarrow> paging_map_range b img va pa sz f s = Some (True, s)) \<and>
   (0xfffffffffffff000 + PAGE_ALIGN_UP 0x1000 \<le> (0xfffffffffffff000 :: u64))"
proof
  show "va + PAGE_ALIGN_UP sz \<le> va \<longrightarrow> paging_map_range b img va pa sz f s = Some (True, s)"
    by (auto simp: paging_map_range_def map_range_loop.simps [of b img va])
  show "0xfffffffffffff000 + PAGE_ALIGN_UP 0x1000 \<le> (0xfffffffffffff000 :: u64)" by code_simp
qed

theorem map_range_wrap_maps_nothing_witness:
  "paging_map_range vm_boot vm_image 0xfffffffffffff000 0x4000 0x1000 PAGING_PROT_RWG vm_ready = Some (True, vm_ready) \<and>
   translate vm_ready 0xfffffffffffff000 Load = None"
proof
  show "paging_map_range vm_boot vm_image 0xfffffffffffff000 0x4000 0x1000 PAGING_PROT_RWG vm_ready = Some (True, vm_ready)"
    using map_range_wrap_maps_nothing [of "0xfffffffffffff000" "0x1000" vm_boot vm_image "0x4000" PAGING_PROT_RWG vm_ready]
    by blast
  show "translate vm_ready 0xfffffffffffff000 Load = None" by code_simp
qed

section \<open>Device memory and initialisation\<close>

lemma hhdm_pages_translate:
  assumes fits: "entry_fits hhdm e" and ok: "\<forall>m\<in>set (hhdm_pages hhdm e). mapping_ok L m"
    and maps: "\<forall>(va, pa, f)\<in>set (hhdm_pages hhdm e). maps_to s va pa f"
    and k: "unat (mm_base e) \<le> unat p" "unat p < unat (mm_base e) + unat (mm_length e)"
    and acc: "grants PAGING_PROT_RWG acc"
  shows "translate s (PHYS_TO_VIRT hhdm p) acc = Some p"
proof -
  let ?ps = "PAGE_ALIGN_DOWN (mm_base e)" and ?pe = "PAGE_ALIGN_UP (mm_base e + mm_length e)"
  define n where "n = span_pages ?ps ?pe"
  note sp = entry_span [OF fits, folded n_def]
  define j where "j = unat p - unat ?ps"
  have j: "unat p = unat ?ps + j" "j < n * 4096" using k sp(4-6) by (simp_all add: j_def)
  have up: "unat p < 2 ^ LENGTH(64)" by (rule unsigned_less)
  have "unat (of_nat j :: u64) = j" by (rule unat_of_nat_small) (use j(1) up in simp)
  then have "unat (?ps + of_nat j) = unat p"
    using j(1) up by (subst unat_add_nowrap) simp_all
  then have p: "p = ?ps + of_nat j" by (simp only: word_unat_eq_iff)
  have hp: "hhdm_pages hhdm e = range_pages (PHYS_TO_VIRT hhdm ?ps) ?ps PAGING_PROT_RWG n"
    by (simp add: hhdm_pages_def n_def Let_def)
  have "n \<noteq> 0" using j(2) by auto
  then have "(PHYS_TO_VIRT hhdm ?ps, ?ps, PAGING_PROT_RWG) \<in> set (hhdm_pages hhdm e)"
    unfolding hp range_pages_def by (auto intro!: image_eqI [of _ _ 0])
  then have al: "take_bit 12 (PHYS_TO_VIRT hhdm ?ps) = 0" using ok by (auto simp: mapping_ok_def)
  have "translate s (PHYS_TO_VIRT hhdm ?ps + of_nat j) acc = Some (?ps + of_nat j)"
    by (rule maps_to_range [OF maps [unfolded hp] al _ j(2) acc])
      (use fits in \<open>simp add: entry_fits_def n_def\<close>)
  moreover have "PHYS_TO_VIRT hhdm (?ps + of_nat j) = PHYS_TO_VIRT hhdm ?ps + of_nat j"
    by (simp add: PHYS_TO_VIRT_def)
  ultimately show ?thesis unfolding p by simp
qed

text \<open>The call on a device is the list of its pages.\<close>

lemma map_mmio_pages:
  assumes h: "hhdm_response b = Some hhdm" and e: "e = \<lparr>mm_base = phys, mm_length = sz, mm_usable = False\<rparr>"
    and fits: "entry_fits hhdm e" and sz: "sz \<noteq> 0"
  shows "paging_map_mmio b img phys sz s = map_list b img (hhdm_pages hhdm e) s"
proof -
  let ?ps = "PAGE_ALIGN_DOWN phys" and ?pe = "PAGE_ALIGN_UP (phys + sz)"
  note sp = entry_span [OF fits, unfolded e, simplified]
  have "unat (PHYS_TO_VIRT hhdm ?ps) + span_pages ?ps ?pe * 4096 < 2 ^ 64" using fits by (simp add: entry_fits_def e)
  then show ?thesis
    using paging_map_range_pages [of "PHYS_TO_VIRT hhdm ?ps" "?pe - ?ps" b img ?ps PAGING_PROT_RWG s]
      span_end(3) [OF sp(1-3)] sz by (simp add: paging_map_mmio_def hhdm_pages_def e h Let_def)
qed

lemma map_mmio_ok:
  assumes vm: "vm_ok b X s" and e: "e = \<lparr>mm_base = phys, mm_length = sz, mm_usable = False\<rparr>"
    and fits: "entry_fits (hhdm_of b) e" and sz: "sz \<noteq> 0"
    and ok: "\<forall>m\<in>set (hhdm_pages (hhdm_of b) e). mapping_ok (levels_of s) m"
    and en: "enough_frames (pages_of (hhdm_pages (hhdm_of b) e)) X s"
  shows "\<exists>ok X' s'. paging_map_mmio b img phys sz s = Some (ok, s') \<and> vm_ok b X' s' \<and>
    (ok \<longrightarrow> (\<forall>p acc. unat phys \<le> unat p \<longrightarrow> unat p < unat phys + unat sz \<longrightarrow> acc \<in> {Load, Store} \<longrightarrow>
       translate s' (PHYS_TO_VIRT (hhdm_of b) p) acc = Some p)) \<and>
    (\<not> ok \<longrightarrow> (\<exists>(va, pa, f)\<in>set (hhdm_pages (hhdm_of b) e). blocked s va pa f)) \<and>
    paging_map_mmio b img phys 0 s = Some (False, s)"
proof -
  let ?ps = "PAGE_ALIGN_DOWN phys" and ?pe = "PAGE_ALIGN_UP (phys + sz)"
  let ?v = "PHYS_TO_VIRT (hhdm_of b) ?ps"
  note sp = entry_span [OF fits, unfolded e, simplified]
  have hp: "hhdm_pages (hhdm_of b) e = range_pages ?v ?ps PAGING_PROT_RWG (span_pages ?ps ?pe)"
    by (simp add: hhdm_pages_def e Let_def)
  have fit: "unat ?v + span_pages ?ps ?pe * 4096 < 2 ^ 64" using fits by (simp add: entry_fits_def e)
  have code: "paging_map_mmio b img phys sz s = map_list b img (hhdm_pages (hhdm_of b) e) s"
    by (rule map_mmio_pages [OF vm_okD(1) [OF vm] e fits sz])
  have "span_pages ?ps ?pe \<noteq> 0"
    using sp(4-6) sz by (auto simp: unat_gt_0 [symmetric])
  then have "(?v, ?ps, PAGING_PROT_RWG) \<in> set (hhdm_pages (hhdm_of b) e)"
    unfolding hp range_pages_def by (auto intro!: image_eqI [of _ _ 0])
  then have al: "take_bit 12 ?v = 0" using ok by (auto simp: mapping_ok_def)
  have con: "consistent (hhdm_pages (hhdm_of b) e)"
    unfolding hp by (rule consistent_range_pages [OF al fit])
  from map_list_correct [OF vm en ok con, of img]
  obtain r X' s' where r: "map_list b img (hhdm_pages (hhdm_of b) e) s = Some (r, s')" "vm_ok b X' s'"
    "r \<longrightarrow> (\<forall>(va, pa, f)\<in>set (hhdm_pages (hhdm_of b) e). maps_to s' va pa f)"
    "\<not> r \<longrightarrow> (\<exists>(va, pa, f)\<in>set (hhdm_pages (hhdm_of b) e). blocked s va pa f)" by blast
  have "translate s' (PHYS_TO_VIRT (hhdm_of b) p) acc = Some p"
    if "r" "unat phys \<le> unat p" "unat p < unat phys + unat sz" "acc \<in> {Load, Store}" for p acc
    by (rule hhdm_pages_translate [OF fits ok]) (use that r(3) vm_RWG in \<open>auto simp: e\<close>)
  moreover have "paging_map_mmio b img phys 0 s = Some (False, s)" by (simp add: paging_map_mmio_def)
  ultimately show ?thesis
    using r by (intro exI [of _ r] exI [of _ X'] exI [of _ s'] conjI) (simp_all add: code)
qed

lemma vm_RWG_ok:
  assumes "take_bit 12 va = 0" "canonical 3 va" "frame_addr pa"
  shows "mapping_ok (levels_of vm_ready) (va, pa, PAGING_PROT_RWG)"
  using assms vm_RWG unfolding mapping_ok_def vm_levels by blast

lemma vm_hhdm_of: "hhdm_of vm_boot = vm_hhdm"
  by (simp add: hhdm_of_def vm_boot_def)

lemmas vm_fits_defs =
  entry_fits_def span_pages_def PAGE_ALIGN_DOWN_def PAGE_ALIGN_UP_def PAGE_MASK_def PAGE_SIZE_def
  PAGE_SHIFT_def PHYS_TO_VIRT_def vm_hhdm_def

lemma vm_mmio_demo:
  "entry_fits (hhdm_of vm_boot) \<lparr>mm_base = 0x4010, mm_length = 0x20, mm_usable = False\<rparr>"
  "\<forall>m\<in>set (hhdm_pages (hhdm_of vm_boot) \<lparr>mm_base = 0x4010, mm_length = 0x20, mm_usable = False\<rparr>). mapping_ok (levels_of vm_ready) m"
  "enough_frames (pages_of (hhdm_pages (hhdm_of vm_boot) \<lparr>mm_base = 0x4010, mm_length = 0x20, mm_usable = False\<rparr>)) {2..<9} vm_ready"
proof -
  let ?e = "\<lparr>mm_base = 0x4010, mm_length = 0x20, mm_usable = False\<rparr>"
  have p: "hhdm_pages (hhdm_of vm_boot) ?e = [(0xffffffc000004000, 0x4000, PAGING_PROT_RWG)]"
    unfolding vm_hhdm_of by code_simp
  show "entry_fits (hhdm_of vm_boot) ?e" unfolding vm_hhdm_of by (simp add: vm_fits_defs)
  show "\<forall>m\<in>set (hhdm_pages (hhdm_of vm_boot) ?e). mapping_ok (levels_of vm_ready) m"
    unfolding p using vm_RWG_ok [OF vm_page] by simp
  show "enough_frames (pages_of (hhdm_pages (hhdm_of vm_boot) ?e)) {2..<9} vm_ready"
    unfolding p by (rule vm_enough) code_simp
qed

lemma vm_mmio_runs: "\<exists>ok s'. paging_map_mmio vm_boot vm_image 0x4010 0x20 vm_ready = Some (ok, s')"
  using map_mmio_ok [OF vm_ok_ready refl vm_mmio_demo(1) _ vm_mmio_demo(2,3), of vm_image] by auto

text \<open>
  C16: \<open>paging_map_mmio\<close> makes a device's registers usable at the addresses \<open>mmio_read8\<close> and
  \<open>mmio_write8\<close> use: when it returns true, the direct-map address of every byte of the region
  translates to that byte for loads and for stores; a region of size zero is refused.
\<close>

theorem map_mmio_correct:
  assumes vm: "vm_ok b X s" and e: "e = \<lparr>mm_base = phys, mm_length = sz, mm_usable = False\<rparr>"
    and fits: "entry_fits (hhdm_of b) e" and sz: "sz \<noteq> 0"
    and ok: "\<forall>m\<in>set (hhdm_pages (hhdm_of b) e). mapping_ok (levels_of s) m"
    and en: "enough_frames (pages_of (hhdm_pages (hhdm_of b) e)) X s"
  shows "\<exists>ok X' s'. paging_map_mmio b img phys sz s = Some (ok, s') \<and> vm_ok b X' s' \<and>
    (ok \<longrightarrow> (\<forall>p acc. unat phys \<le> unat p \<longrightarrow> unat p < unat phys + unat sz \<longrightarrow> acc \<in> {Load, Store} \<longrightarrow>
       translate s' (PHYS_TO_VIRT (hhdm_of b) p) acc = Some p)) \<and>
    (\<not> ok \<longrightarrow> (\<exists>(va, pa, f)\<in>set (hhdm_pages (hhdm_of b) e). blocked s va pa f)) \<and>
    paging_map_mmio b img phys 0 s = Some (False, s)"
  by (rule map_mmio_ok [OF assms])

theorem map_mmio_correct_witness:
  "\<exists>ok s'. paging_map_mmio vm_boot vm_image 0x4010 0x20 vm_ready = Some (ok, s') \<and>
    (ok \<longrightarrow> translate s' (PHYS_TO_VIRT vm_hhdm 0x4018) Store = Some 0x4018)"
proof -
  have b: "unat (0x4010 :: u64) \<le> unat (0x4018 :: u64)" "unat (0x4018 :: u64) < unat (0x4010 :: u64) + unat (0x20 :: u64)"
    "(0x20 :: u64) \<noteq> 0" by simp_all
  from map_mmio_correct [OF vm_ok_ready refl vm_mmio_demo(1) b(3) vm_mmio_demo(2,3), of vm_image] b
  show ?thesis unfolding vm_hhdm_of by blast
qed

text \<open>What the list of \<open>paging_init\<close> means for the entries of the memory map and for the segments.\<close>

lemma init_pages_mapped:
  assumes fits: "\<forall>e\<in>set entries. entry_fits hhdm e" and ok: "\<forall>m\<in>set (init_pages img hhdm entries pb vb). mapping_ok L m"
    and maps: "\<forall>(va, pa, f)\<in>set (init_pages img hhdm entries pb vb). maps_to s va pa f"
  shows "\<forall>e\<in>set entries. \<forall>p acc. unat (mm_base e) \<le> unat p \<longrightarrow>
       unat p < unat (mm_base e) + unat (mm_length e) \<longrightarrow> acc \<in> {Load, Store} \<longrightarrow>
       translate s (PHYS_TO_VIRT hhdm p) acc = Some p"
    and "\<forall>x\<in>set (kernel_segments img). \<forall>(va, pa, f)\<in>set (segment_pages pb vb x). maps_to s va pa f"
proof -
  have sub: "set (hhdm_pages hhdm e) \<subseteq> set (init_pages img hhdm entries pb vb)" if "e \<in> set entries" for e
    using that by (auto simp: init_pages_def)
  show "\<forall>e\<in>set entries. \<forall>p acc. unat (mm_base e) \<le> unat p \<longrightarrow>
       unat p < unat (mm_base e) + unat (mm_length e) \<longrightarrow> acc \<in> {Load, Store} \<longrightarrow>
       translate s (PHYS_TO_VIRT hhdm p) acc = Some p"
  proof (intro ballI allI impI)
    fix e and p :: u64 and acc
    assume "e \<in> set entries" "unat (mm_base e) \<le> unat p" "unat p < unat (mm_base e) + unat (mm_length e)" "acc \<in> {Load, Store}"
    then show "translate s (PHYS_TO_VIRT hhdm p) acc = Some p"
      using fits ok maps sub vm_RWG by (intro hhdm_pages_translate [where e = e and L = L]) blast+
  qed
  show "\<forall>x\<in>set (kernel_segments img). \<forall>(va, pa, f)\<in>set (segment_pages pb vb x). maps_to s va pa f"
    using maps unfolding init_pages_def set_append set_concat set_map by blast
qed

text \<open>The root is found again where the configuration has not changed.\<close>

lemma setup_root_again:
  assumes "paging_setup_root (v\<lparr>g_early_pt_pool_used := 0\<rparr>) = (True, v0)" "same_config v0 v1"
  shows "paging_setup_root (v1\<lparr>g_early_pt_pool_used := 0\<rparr>) = (True, v1)"
  using assms paging_setup_root_fields [OF assms(1)]
  by (cases v1) (auto simp: paging_setup_root_def same_config_def Let_def)

text \<open>The two steps of the boot, a device and then everything, are one list.\<close>

lemma address_space_up:
  assumes h: "hhdm_response b = Some hhdm" and m: "memmap_response b = Some entries"
    and ex: "executable_address_response b = Some (pb, vb)"
    and e: "e = \<lparr>mm_base = phys, mm_length = sz, mm_usable = False\<rparr>" "sz \<noteq> 0"
    and fits: "\<forall>e\<in>set (e # entries). entry_fits hhdm e" "\<forall>x\<in>set (kernel_segments img). segment_fits x"
    and root: "paging_setup_root (v\<lparr>g_early_pt_pool_used := 0\<rparr>) = (True, v0)"
    and vm: "vm_ok b X v0" and en: "spare_frames k (pages_of (hhdm_pages hhdm e @ init_pages img hhdm entries pb vb)) X v0"
    and ok: "\<forall>m\<in>set (hhdm_pages hhdm e @ init_pages img hhdm entries pb vb). mapping_ok (levels_of v0) m"
    and con: "consistent (hhdm_pages hhdm e @ init_pages img hhdm entries pb vb)"
    and free: "\<forall>(va, pa, f)\<in>set (hhdm_pages hhdm e @ init_pages img hhdm entries pb vb). \<not> blocked v0 va pa f"
  shows "\<exists>v1 X' v2. paging_map_mmio b img phys sz v0 = Some (True, v1) \<and> paging_init b img v1 = Some (True, v2) \<and>
    vm_ok b X' v2 \<and> X' \<subseteq> X \<and> k \<le> card X' \<and> last (fences v2) = Sfence_vma_all \<and>
    (\<forall>(va, pa, f)\<in>set (hhdm_pages hhdm e @ init_pages img hhdm entries pb vb). maps_to v2 va pa f) \<and>
    (\<forall>w acc. (\<forall>va\<in>pages_of (hhdm_pages hhdm e @ init_pages img hhdm entries pb vb). \<not> same_page va w) \<longrightarrow>
       translate v2 w acc = translate v0 w acc)"
proof -
  let ?d = "hhdm_pages hhdm e" and ?i = "init_pages img hhdm entries pb vb"
  from map_list_result [OF vm en subset_refl ok con, of img] obtain r X' v2 where
    "map_list b img (?d @ ?i) v0 = Some (r, v2)" "vm_ok b X' v2" "spare_frames k (pages_of (?d @ ?i)) X' v2"
    "X' \<subseteq> X" "list_effect (?d @ ?i) r v0 v2" by blast
  moreover from this(5) have r using free unfolding list_effect_def by blast
  ultimately have v2: "map_list b img (?d @ ?i) v0 = Some (True, v2)" "vm_ok b X' v2" "spare_frames k (pages_of (?d @ ?i)) X' v2"
    "X' \<subseteq> X" "list_effect (?d @ ?i) True v0 v2" by simp_all
  have con1: "consistent ?d" using con unfolding consistent_def set_append by blast
  have "pages_of ?d \<subseteq> pages_of (?d @ ?i)" by (auto simp: pages_of_def)
  from map_list_result [OF vm en this _ con1, of img] ok obtain r1 v1 where
    v1: "map_list b img ?d v0 = Some (r1, v1)" "same_config v0 v1" by auto
  have r: r1 "map_list b img ?i v1 = Some (True, v2)" using v2(1) v1(1) by (auto simp: map_list_append split: if_splits)
  let ?v2 = "cpu_sfence_vma_all v2"
  have same: "ram ?v2 = ram v2" "g_levels ?v2 = g_levels v2" "g_root_phys ?v2 = g_root_phys v2"
    "allocator ?v2 = allocator v2" "fences ?v2 = fences v2 @ [Sfence_vma_all]"
    by (simp_all add: cpu_sfence_vma_all_def)
  have fits': "\<forall>e\<in>set entries. entry_fits hhdm e" using fits(1) by simp
  have "paging_init b img v1 = Some (True, ?v2)"
    using paging_init_pages [OF h m ex fits' fits(2) setup_root_again [OF root v1(2)]] r(2) by simp
  moreover have "paging_map_mmio b img phys sz v0 = Some (True, v1)"
    using map_mmio_pages [OF h e(1) _ e(2)] fits(1) v1(1) r(1) by simp
  moreover have "vm_ok b X' ?v2" using v2(2) unfolding vm_ok_def same .
  moreover have "k \<le> card X'" using v2(3) by (simp add: spare_frames_def)
  moreover have "\<forall>(va, pa, f)\<in>set (?d @ ?i). maps_to ?v2 va pa f"
    using v2(5) unfolding list_effect_def maps_to_def same by simp
  moreover have "\<forall>w acc. (\<forall>va\<in>pages_of (?d @ ?i). \<not> same_page va w) \<longrightarrow> translate ?v2 w acc = translate v0 w acc"
    using v2(5) unfolding list_effect_def same by simp
  moreover have "last (fences ?v2) = Sfence_vma_all" by (simp add: same)
  ultimately show ?thesis using v2(4) by blast
qed

text \<open>
  C14: \<open>paging_init\<close> builds the kernel's address space: on a well-formed memory map and kernel
  image, with enough frames for the missing tables and no conflicting larger leaf, it returns true
  without a fault; afterwards every byte of every entry of the memory map translates at its
  direct-map address for loads and stores, every page of every kernel segment translates to the
  kernel's physical image for the accesses its flags name, all other addresses are as before, and the last thing executed is a fence of the whole address space.
\<close>

theorem paging_init_correct:
  assumes h: "hhdm_response b = Some hhdm" and m: "memmap_response b = Some entries"
    and ex: "executable_address_response b = Some (pb, vb)"
    and fits: "\<forall>e\<in>set entries. entry_fits hhdm e" "\<forall>x\<in>set (kernel_segments img). segment_fits x"
    and root: "paging_setup_root (s\<lparr>g_early_pt_pool_used := 0\<rparr>) = (True, s0)"
    and vm: "vm_ok b X s0" and en: "enough_frames (pages_of (init_pages img hhdm entries pb vb)) X s0"
    and ok: "\<forall>m\<in>set (init_pages img hhdm entries pb vb). mapping_ok (levels_of s0) m"
    and con: "consistent (init_pages img hhdm entries pb vb)"
    and free: "\<forall>(va, pa, f)\<in>set (init_pages img hhdm entries pb vb). \<not> blocked s0 va pa f"
  shows "\<exists>X' s'. paging_init b img s = Some (True, s') \<and> vm_ok b X' s' \<and>
    (\<forall>e\<in>set entries. \<forall>p acc. unat (mm_base e) \<le> unat p \<longrightarrow>
       unat p < unat (mm_base e) + unat (mm_length e) \<longrightarrow> acc \<in> {Load, Store} \<longrightarrow>
       translate s' (PHYS_TO_VIRT hhdm p) acc = Some p) \<and>
    (\<forall>x\<in>set (kernel_segments img). \<forall>(va, pa, f)\<in>set (segment_pages pb vb x). maps_to s' va pa f) \<and>
    (\<forall>w acc. (\<forall>va\<in>pages_of (init_pages img hhdm entries pb vb). \<not> same_page va w) \<longrightarrow>
       translate s' w acc = translate s0 w acc) \<and>
    last (fences s') = Sfence_vma_all"
proof -
  let ?ps = "init_pages img hhdm entries pb vb"
  from map_list_correct [OF vm en ok con, of img]
  obtain r X' s1 where q: "map_list b img ?ps s0 = Some (r, s1)" "vm_ok b X' s1"
    "r \<longrightarrow> (\<forall>(va, pa, f)\<in>set ?ps. maps_to s1 va pa f)"
    "\<not> r \<longrightarrow> (\<exists>(va, pa, f)\<in>set ?ps. blocked s0 va pa f)"
    "\<forall>w. (\<forall>va\<in>pages_of ?ps. \<not> same_page va w) \<longrightarrow> (\<forall>acc. translate s1 w acc = translate s0 w acc)"
    by blast
  have finished: "r" using q(4) free by blast
  then have maps: "\<forall>(va, pa, f)\<in>set ?ps. maps_to s1 va pa f" using q(3) by blast
  let ?s' = "cpu_sfence_vma_all s1"
  have same: "ram ?s' = ram s1" "g_levels ?s' = g_levels s1" "g_root_phys ?s' = g_root_phys s1"
    "allocator ?s' = allocator s1" "fences ?s' = fences s1 @ [Sfence_vma_all]"
    by (simp_all add: cpu_sfence_vma_all_def)
  have "paging_init b img s = Some (True, ?s')"
    using paging_init_pages [OF h m ex fits root] q(1) finished by simp
  moreover have "vm_ok b X' ?s'" using q(2) unfolding vm_ok_def same .
  moreover have maps': "\<forall>(va, pa, f)\<in>set ?ps. maps_to ?s' va pa f" using maps unfolding maps_to_def same .
  moreover have "translate ?s' w acc = translate s0 w acc"
    if "\<forall>va\<in>pages_of ?ps. \<not> same_page va w" for w acc
    unfolding same using q(5) that by blast
  moreover have "last (fences ?s') = Sfence_vma_all" by (simp add: same)
  ultimately show ?thesis using init_pages_mapped [OF fits(1) ok maps'] by blast
qed

lemma consistent_check:
  assumes "list_all (\<lambda>(va, pa, f). list_all (\<lambda>(va', pa', f').
    drop_bit 12 va = drop_bit 12 va' \<longrightarrow> pa = pa' \<and> f = f') ps) ps"
  shows "consistent ps"
  unfolding consistent_def same_page_def
proof (intro allI impI)
  fix va pa f va' pa' f'
  assume m: "(va, pa, f) \<in> set ps" "(va', pa', f') \<in> set ps" "drop_bit 12 va = drop_bit 12 va'"
  from bspec [OF assms [unfolded list_all_iff] m(1)]
  have "list_all (\<lambda>(va', pa', f'). drop_bit 12 va = drop_bit 12 va' \<longrightarrow> pa = pa' \<and> f = f') ps"
    by (simp add: list_all_iff)
  from bspec [OF this [unfolded list_all_iff] m(2)] m(3) show "pa = pa' \<and> f = f'" by simp
qed

lemma mapping_ok_check:
  assumes "list_all (\<lambda>(va, pa, f). take_bit 12 va = 0 \<and> canonical L va \<and> frame_addr pa \<and> grants f Load) ps"
  shows "\<forall>m\<in>set ps. mapping_ok L m"
proof
  fix m assume "m \<in> set ps"
  obtain va pa f where m: "m = (va, pa, f)" by (cases m) auto
  from bspec [OF assms [unfolded list_all_iff] \<open>m \<in> set ps\<close>] m
  have "take_bit 12 va = 0" "canonical L va" "frame_addr pa" "grants f Load" by (simp_all del: grants.simps)
  then show "mapping_ok L m" unfolding mapping_ok_def m by blast
qed

lemma vm_walk: "walk vm_ready va = None"
proof -
  have "ram vm_ready (slot 0xf000 2 va) = Some 0"
  proof -
    have "frame_addr (0xf000 :: u64)" by code_simp
    from vm_word [OF this _ vpn_less [of 2 va]] show ?thesis
      by (simp add: slot_def vm_ready_def)
  qed
  then have "hw_walk (ram vm_ready) 2 0xf000 va = None" by (rule hw_walk_invalid) simp
  then show ?thesis by (simp add: vm_ready_def)
qed

definition vm_pages :: "mapping list" where
  "vm_pages = init_pages vm_image vm_hhdm vm_map 0x9000 0xffffffff80000000"

lemma vm_spans:
  "span_pages 0 0x1000 = 1" "span_pages 0x2000 0x9000 = 7"
  "span_pages 0xffffffff80000000 0xffffffff80001000 = 1"
  "span_pages 0xffffffff80001000 0xffffffff80002000 = 1"
  "[0..<7] = [0, 1, 2, 3, 4, 5, 6]" "[0..<Suc 0] = [0]"
  by (simp_all add: span_pages_def upt_rec)

lemma vm_aligned:
  "PAGE_ALIGN_DOWN 0 = 0" "PAGE_ALIGN_UP 0x1000 = 0x1000"
  "PAGE_ALIGN_DOWN 0x2000 = 0x2000" "PAGE_ALIGN_UP 0x9000 = 0x9000"
  "PAGE_ALIGN_DOWN 0xffffffff80000000 = 0xffffffff80000000"
  "PAGE_ALIGN_UP 0xffffffff80000000 = 0xffffffff80000000"
  "PAGE_ALIGN_UP 0xffffffff80000123 = 0xffffffff80001000"
  "PAGE_ALIGN_DOWN 0xffffffff80001000 = 0xffffffff80001000"
  "PAGE_ALIGN_UP 0xffffffff80001000 = 0xffffffff80001000"
  "PAGE_ALIGN_UP 0xffffffff80002000 = 0xffffffff80002000"
  by (simp_all add: PAGE_ALIGN_DOWN_def PAGE_ALIGN_UP_def PAGE_MASK_eq PAGE_SIZE_value mask_numeral)

lemma vm_pages_list:
  "vm_pages =
     [(0xffffffc000000000, 0x0, PAGING_PROT_RWG),
      (0xffffffc000002000, 0x2000, PAGING_PROT_RWG),
      (0xffffffc000003000, 0x3000, PAGING_PROT_RWG),
      (0xffffffc000004000, 0x4000, PAGING_PROT_RWG),
      (0xffffffc000005000, 0x5000, PAGING_PROT_RWG),
      (0xffffffc000006000, 0x6000, PAGING_PROT_RWG),
      (0xffffffc000007000, 0x7000, PAGING_PROT_RWG),
      (0xffffffc000008000, 0x8000, PAGING_PROT_RWG),
      (0xffffffff80000000, 0x9000, PAGING_PROT_RXG),
      (0xffffffff80001000, 0xa000, PAGING_PROT_RWG)]"
  by (simp add: vm_pages_def init_pages_def hhdm_pages_def vm_map_def kernel_segments_def vm_image_def
      segment_pages_def vm_aligned vm_spans range_pages_def PHYS_TO_VIRT_def vm_hhdm_def del: upt_Suc)

theorem paging_init_correct_witness:
  "\<exists>s'. paging_init vm_boot vm_image vm_cold = Some (True, s') \<and>
    translate s' (PHYS_TO_VIRT vm_hhdm 0x8123) Store = Some 0x8123 \<and>
    last (fences s') = Sfence_vma_all"
proof -
  have b: "hhdm_response vm_boot = Some vm_hhdm" "memmap_response vm_boot = Some vm_map"
    "executable_address_response vm_boot = Some (0x9000, 0xffffffff80000000)"
    by (simp_all add: vm_boot_def)
  have fits: "\<forall>e\<in>set vm_map. entry_fits vm_hhdm e" by (simp add: vm_map_def vm_fits_defs)
  have seg: "\<forall>x\<in>set (kernel_segments vm_image). segment_fits x"
    by (simp add: kernel_segments_def segment_fits_def vm_image_def)
  have en: "enough_frames (pages_of vm_pages) {2..<9} vm_ready" unfolding vm_pages_list by (rule vm_enough) code_simp
  have ok: "\<forall>m\<in>set vm_pages. mapping_ok (levels_of vm_ready) m"
    unfolding vm_levels vm_pages_list by (rule mapping_ok_check) code_simp
  have con: "consistent vm_pages" unfolding vm_pages_list by (rule consistent_check) code_simp
  have free: "\<forall>(va, pa, f)\<in>set vm_pages. \<not> blocked vm_ready va pa f"
    unfolding blocked_def vm_walk by simp
  from paging_init_correct [OF b fits seg vm_setup vm_ok_ready en [unfolded vm_pages_def]
      ok [unfolded vm_pages_def] con [unfolded vm_pages_def] free [unfolded vm_pages_def]]
  obtain s' where s': "paging_init vm_boot vm_image vm_cold = Some (True, s')"
    "\<forall>e\<in>set vm_map. \<forall>p acc. unat (mm_base e) \<le> unat p \<longrightarrow>
       unat p < unat (mm_base e) + unat (mm_length e) \<longrightarrow> acc \<in> {Load, Store} \<longrightarrow>
       translate s' (PHYS_TO_VIRT vm_hhdm p) acc = Some p"
    "last (fences s') = Sfence_vma_all" by blast
  have "\<lparr>mm_base = 0x2000, mm_length = 0x7000, mm_usable = True\<rparr> \<in> set vm_map" by (simp add: vm_map_def)
  from bspec [OF s'(2) this] have "translate s' (PHYS_TO_VIRT vm_hhdm 0x8123) Store = Some 0x8123" by simp
  with s'(1,3) show ?thesis by blast
qed

end
