(* ===== verification/EarlyPool.thy ===== *)
theory EarlyPool
  imports PagingProps
begin

text \<open>
  What happens when \<open>paging_alloc_table\<close> falls virt on \<open>g_early_pt_pool\<close>.  The pool is a part of the
  kernel's image, which the boot loader maps at its own physical address, while
  \<open>paging_ensure_entry\<close> turns the virtual address of a new table into a physical one by subtracting
  the offset of the direct map.  The lemmas follow the walk of the code, and that of the processor,
  down to the first missing table, through the tables of the pool, and a second time over the result.
\<close>

section \<open>The pages of the pool\<close>

definition pool_virt :: "kernel_image \<Rightarrow> nat \<Rightarrow> u64" where
  "pool_virt img i = early_pt_pool img + 4096 * of_nat i"

text \<open>Where a page of the pool lies, and the address the code takes for it.\<close>

definition pool_phys :: "boot \<Rightarrow> kernel_image \<Rightarrow> nat \<Rightarrow> u64" where
  "pool_phys b img i =
     (case executable_address_response b of
        None \<Rightarrow> 0 | Some (physical_base, virtual_base) \<Rightarrow> physical_base + (pool_virt img i - virtual_base))"

definition linked_phys :: "boot \<Rightarrow> kernel_image \<Rightarrow> nat \<Rightarrow> u64" where
  "linked_phys b img i = VIRT_TO_PHYS (hhdm_of b) (pool_virt img i)"

definition pool_page :: "boot \<Rightarrow> kernel_image \<Rightarrow> ram \<Rightarrow> nat \<Rightarrow> bool" where
  "pool_page b img m i \<longleftrightarrow>
     pool_virt img i \<noteq> 0 \<and> table_frame m (pool_phys b img i) \<and> frame_addr (linked_phys b img i) \<and>
     (\<forall>v. unat v < 512 \<longrightarrow> view b (pool_virt img i + 8 * v) = Some (pool_phys b img i + 8 * v))"

text \<open>The words of the pages \<open>c\<close> to \<open>n\<close>.\<close>

definition pool_word :: "boot \<Rightarrow> kernel_image \<Rightarrow> nat \<Rightarrow> nat \<Rightarrow> u64 \<Rightarrow> bool" where
  "pool_word b img c n q \<longleftrightarrow> (\<exists>j v. c \<le> j \<and> j \<le> n \<and> unat v < 512 \<and> q = pool_phys b img j + 8 * v)"

lemma pool_phys_inj:
  assumes "executable_address_response b \<noteq> None" "i < 8" "j < 8" "pool_phys b img i = pool_phys b img j"
  shows "i = j"
proof -
  from assms(1,4) have eq: "4096 * of_nat i = (4096 * of_nat j :: u64)"
    by (auto simp: pool_phys_def pool_virt_def)
  have "unat (4096 * of_nat i :: u64) = 4096 * i" "unat (4096 * of_nat j :: u64) = 4096 * j"
    using assms(2,3) by (simp_all add: unat_word_ariths unat_of_nat)
  with arg_cong [OF eq, of unat] show ?thesis by linarith
qed

lemma pool_word_slot:
  assumes "frame_addr a" "\<And>j. c \<le> j \<Longrightarrow> j \<le> n \<Longrightarrow> frame_addr (pool_phys b img j) \<and> pool_phys b img j \<noteq> a"
  shows "\<not> pool_word b img c n (slot a l va)"
proof
  assume "pool_word b img c n (slot a l va)"
  then obtain j v where j: "c \<le> j" "j \<le> n" "unat v < 512" "a + 8 * vpn l va = pool_phys b img j + 8 * v"
    by (auto simp: pool_word_def slot_def)
  with assms table_word_inj(1) [OF assms(1) _ vpn_less j(3,4)] show False by blast
qed

lemma pool_wordI: "c \<le> j \<Longrightarrow> j \<le> n \<Longrightarrow> unat v < 512 \<Longrightarrow> pool_word b img c n (pool_phys b img j + 8 * v)"
  unfolding pool_word_def by blast

lemma clear_pool_other:
  "\<not> pool_word b img c n p \<Longrightarrow> c \<le> j \<Longrightarrow> j \<le> n \<Longrightarrow> clear_frame (pool_phys b img j) m p = m p"
  using pool_wordI by (auto simp: clear_frame_def)

lemma pool_page_cong:
  assumes "pool_page b img m i" "\<And>q. m q \<noteq> None \<Longrightarrow> m' q \<noteq> None"
  shows "pool_page b img m' i"
  using assms unfolding pool_page_def table_frame_def by blast

section \<open>Taking a table and linking it\<close>

lemma pool_alloc:
  assumes pg: "pool_page b img (ram s) i" and used: "g_early_pt_pool_used s = of_nat i" "i < 8"
    and cold: "\<not> pmm_is_ready (allocator s)" and h: "hhdm_response b = Some h"
  shows "paging_alloc_table b img s = Some (pool_virt img i,
    s\<lparr>g_early_pt_pool_used := of_nat (Suc i), ram := clear_frame (pool_phys b img i) (ram s)\<rparr>)"
proof -
  have "\<not> 8 \<le> (of_nat i :: u64)" using used(2) by (simp add: word_le_nat_alt unat_of_nat)
  moreover have "memset_table b (pool_virt img i) (s\<lparr>g_early_pt_pool_used := of_nat (Suc i)\<rparr>) =
    Some (s\<lparr>g_early_pt_pool_used := of_nat (Suc i), ram := clear_frame (pool_phys b img i) (ram s)\<rparr>)"
    using memset_table_viewed [of b "pool_virt img i" "pool_phys b img i" "s\<lparr>g_early_pt_pool_used := of_nat (Suc i)\<rparr>"] pg
    by (simp add: pool_page_def)
  ultimately show ?thesis
    using cold used(1) h by (simp add: paging_alloc_table_def pool_virt_def add.commute)
qed

text \<open>The state after the invalid entry in the word \<open>q\<close> was linked to the page \<open>i\<close> of the pool.\<close>

definition pool_linked :: "boot \<Rightarrow> kernel_image \<Rightarrow> nat \<Rightarrow> u64 \<Rightarrow> paging \<Rightarrow> paging" where
  "pool_linked b img i q s = s\<lparr>g_early_pt_pool_used := of_nat (Suc i),
     ram := (clear_frame (pool_phys b img i) (ram s))(q \<mapsto> paging_table_pte (linked_phys b img i))\<rparr>"

lemma pool_page_linked:
  assumes "pool_page b img (ram s) j" shows "pool_page b img (ram (pool_linked b img i q s)) j"
  by (rule pool_page_cong [OF assms]) (simp add: pool_linked_def clear_frame_def)

lemma pool_ensure:
  assumes pg: "pool_page b img (ram s) i" and used: "g_early_pt_pool_used s = of_nat i" "i < 8"
    and cold: "\<not> pmm_is_ready (allocator s)" and h: "hhdm_response b \<noteq> None"
    and q: "view b ptr = Some q" "ram s q = Some e" "\<not> pte_valid e"
  shows "paging_ensure_entry b img ptr s =
    Some (Some (paging_table_pte (linked_phys b img i)), pool_linked b img i q s)"
proof -
  have h': "hhdm_response b = Some (hhdm_of b)" using h by (auto simp: hhdm_of_def)
  have "clear_frame (pool_phys b img i) (ram s) q \<noteq> None" using q(2) by (simp add: clear_frame_def)
  then show ?thesis
    using pool_alloc [OF pg used cold h'] pg q h'
    by (auto simp: paging_ensure_entry_def load64_def store64_def pte_tests pool_page_def linked_phys_def pool_linked_def Let_def)
qed

lemma ensure_valid:
  assumes "view b ptr = Some q" "ram s q = Some e" "pte_valid e"
  shows "paging_ensure_entry b img ptr s = Some (Some e, s)"
  using assms by (simp add: paging_ensure_entry_def load64_def pte_tests)

text \<open>One turn of the loop over an entry that points to a table.\<close>

lemma map_walk_table:
  assumes l: "l < 4" and h: "hhdm_response b \<noteq> None"
    and r: "paging_ensure_entry b img (T + 8 * vpn (Suc l) va) s = Some (Some e, s1)"
    and e: "entry_ok (Suc l) e" "is_table e"
  shows "paging_map_walk b img va pa f (of_nat (Suc l)) T s =
    paging_map_walk b img va pa f (of_nat l) (PHYS_TO_VIRT (hhdm_of b) (push_bit 12 (pte_ppn e))) s1"
proof -
  have h': "hhdm_response b = Some (hhdm_of b)" using h by (auto simp: hhdm_of_def)
  have un: "unat (of_nat (Suc l) :: u32) = Suc l" by (rule unat_of_nat_small) (use l in simp)
  then have le: "unat (of_nat (Suc l) :: u32) \<le> 4" using l by simp
  have "(of_nat (Suc l) :: u32) \<noteq> 0" using un by (metis nat.distinct(1) unat_0)
  moreover have "\<not> 64 \<le> unat (paging_level_shift (of_nat (Suc l)))" using unat_level_shift [OF le] un l by simp
  moreover have "e AND (PTE_R OR PTE_W OR PTE_X) = 0"
    using rwx_test [of e] entry_ok_rwx [OF e(1)] e(2) by (auto simp: is_table_def)
  ultimately show ?thesis
    using r h' by (subst paging_map_walk.simps)
      (simp add: level_index [OF le] un entry_ok_phys [OF e(1)] word_gt_0 del: of_nat_Suc, simp)
qed

section \<open>Through the tables of the pool\<close>

text \<open>The last level: the leaf is written, and a second run finds it.\<close>

lemma pool_leaf:
  assumes vw: "view b (T + 8 * vpn 0 va) = Some q" and e: "ram s q = Some e" "\<not> pte_valid e"
    and pa: "frame_addr pa" and f: "\<exists>acc. grants f acc"
  defines "s' \<equiv> cpu_sfence_vma va (s\<lparr>ram := (ram s)(q \<mapsto> leaf_pte pa f)\<rparr>)"
  assumes va: "take_bit 12 va = 0"
  shows "paging_map_walk b img va pa f 0 T s = Some (True, s')"
    "paging_map_walk b img va pa f 0 T s' = Some (True, s')"
proof -
  have ix: "paging_level_index va 0 = vpn 0 va" using level_index [of 0 va] by simp
  have sh: "\<not> 64 \<le> unat (paging_level_shift 0)" by (simp add: paging_level_shift_def)
  show "paging_map_walk b img va pa f 0 T s = Some (True, s')"
    using vw e sh by (subst paging_map_walk.simps)
      (simp add: ix load64_def store64_def pte_tests s'_def leaf_pte_def)
  note lp = leaf_pte_ok [OF pa, of f]
  have eo: "entry_ok 0 (leaf_pte pa f)"
    using lp f pa by (simp add: entry_ok_def page_offset_0 frame_addr_def)
  have "leaf_covers 0 (leaf_pte pa f) va pa f" using lp va by (simp add: leaf_covers_def page_offset_0)
  then have "paging_entry_covers (leaf_pte pa f) va pa f 0" using covers_leaf [of 0] eo by simp
  moreover have "ram s' q = Some (leaf_pte pa f)" by (simp add: s'_def cpu_sfence_vma_def)
  ultimately show "paging_map_walk b img va pa f 0 T s' = Some (True, s')"
    using vw sh lp(1) by (subst paging_map_walk.simps) (simp add: ix load64_def pte_tests)
qed

text \<open>What a run may have changed: pool words, the fences and the number of pages used.\<close>

definition pool_only :: "boot \<Rightarrow> kernel_image \<Rightarrow> nat \<Rightarrow> nat \<Rightarrow> paging \<Rightarrow> paging \<Rightarrow> bool" where
  "pool_only b img c n s s' \<longleftrightarrow>
     g_root_phys s' = g_root_phys s \<and> g_levels s' = g_levels s \<and> allocator s' = allocator s \<and>
     g_early_pt_pool_used s' = of_nat (Suc n) \<and> (\<forall>q. \<not> pool_word b img c n q \<longrightarrow> ram s' q = ram s q)"

lemma pool_descent:
  assumes h: "hhdm_response b \<noteq> None" and x: "executable_address_response b \<noteq> None"
    and pa: "frame_addr pa" and f: "\<exists>acc. grants f acc" and va: "take_bit 12 va = 0"
  shows "l < 5 \<Longrightarrow> c + l < 8 \<Longrightarrow> \<not> pmm_is_ready (allocator s) \<Longrightarrow> g_early_pt_pool_used s = of_nat (Suc c) \<Longrightarrow>
    (\<forall>j. c \<le> j \<longrightarrow> j \<le> c + l \<longrightarrow> pool_page b img (ram s) j) \<Longrightarrow>
    (\<forall>v. unat v < 512 \<longrightarrow> ram s (pool_phys b img c + 8 * v) = Some 0) \<Longrightarrow>
    \<exists>s'. paging_map_walk b img va pa f (of_nat l) (pool_virt img c) s = Some (True, s') \<and>
      pool_only b img c (c + l) s s' \<and>
      paging_map_walk b img va pa f (of_nat l) (pool_virt img c) s' = Some (True, s')"
proof (induction l arbitrary: c s)
  case 0
  let ?q = "pool_phys b img c + 8 * vpn 0 va"
  have vw: "view b (pool_virt img c + 8 * vpn 0 va) = Some ?q" and e: "ram s ?q = Some 0"
    using 0 vpn_less [of 0 va] by (simp_all add: pool_page_def)
  have "pool_word b img c c ?q" using vpn_less [of 0 va] by (auto simp: pool_word_def)
  then show ?case
    using pool_leaf [OF vw e not_table_0(2) pa f va] 0(4) by (auto simp: pool_only_def cpu_sfence_vma_def)
next
  case (Suc l)
  let ?q = "pool_phys b img c + 8 * vpn (Suc l) va" and ?e = "paging_table_pte (linked_phys b img (Suc c))"
  let ?s = "pool_linked b img (Suc c) ?q s"
  have vw: "view b (pool_virt img c + 8 * vpn (Suc l) va) = Some ?q" and z: "ram s ?q = Some 0"
    using Suc.prems(5,6) vpn_less [of "Suc l" va] by (simp_all add: pool_page_def)
  have pgs: "pool_page b img (ram s) j" if "c \<le> j" "j \<le> c + Suc l" for j using Suc.prems(5) that by blast
  then have pg: "pool_page b img (ram s) c" "pool_page b img (ram s) (Suc c)" by simp_all
  have fa: "frame_addr (linked_phys b img (Suc c))" using pg(2) by (simp add: pool_page_def)
  note te = table_pte_ok [OF fa]
  have virt: "PHYS_TO_VIRT (hhdm_of b) (push_bit 12 (pte_ppn ?e)) = pool_virt img (Suc c)"
    unfolding te(3) by (simp add: linked_phys_def PHYS_TO_VIRT_def VIRT_TO_PHYS_def)
  have used: "g_early_pt_pool_used s = of_nat (Suc c)" "Suc c < 8" using Suc.prems by simp_all
  have ens: "paging_ensure_entry b img (pool_virt img c + 8 * vpn (Suc l) va) s = Some (Some ?e, ?s)"
    by (rule pool_ensure [OF pg(2) used Suc.prems(3) h vw z not_table_0(2)])
  have l4: "l < 4" using Suc.prems(1) by simp
  have step: "paging_map_walk b img va pa f (of_nat (Suc l)) (pool_virt img c) s =
      paging_map_walk b img va pa f (of_nat l) (pool_virt img (Suc c)) ?s"
    unfolding map_walk_table [OF l4 h ens te(1,2)] virt ..
  have apart: "pool_phys b img j \<noteq> pool_phys b img c" "frame_addr (pool_phys b img j)" "frame_addr (pool_phys b img c)"
    if "Suc c \<le> j" "j \<le> Suc c + l" for j
    using pool_phys_inj [OF x, of j c img] Suc.prems(2) that pgs [of j] pg(1) by (auto simp: pool_page_def table_frame_def)
  have "\<exists>s'. paging_map_walk b img va pa f (of_nat l) (pool_virt img (Suc c)) ?s = Some (True, s') \<and>
      pool_only b img (Suc c) (Suc c + l) ?s s' \<and>
      paging_map_walk b img va pa f (of_nat l) (pool_virt img (Suc c)) s' = Some (True, s')"
  proof (rule Suc.IH)
    show "\<forall>j. Suc c \<le> j \<longrightarrow> j \<le> Suc c + l \<longrightarrow> pool_page b img (ram ?s) j"
      using pgs pool_page_linked by simp
    show "\<forall>v. unat v < 512 \<longrightarrow> ram ?s (pool_phys b img (Suc c) + 8 * v) = Some 0"
    proof (intro allI impI)
      fix v :: u64 assume v: "unat v < 512"
      have "pool_phys b img (Suc c) + 8 * v \<noteq> ?q"
        using table_word_inj(1) [OF apart(2,3) v vpn_less, of "Suc c" "Suc c"] apart(1) [of "Suc c"] by auto
      then show "ram ?s (pool_phys b img (Suc c) + 8 * v) = Some 0"
        using clear_frame_word [OF v] by (simp add: pool_linked_def)
    qed
  qed (use Suc.prems in \<open>simp_all add: pool_linked_def\<close>)
  then obtain s' where s': "paging_map_walk b img va pa f (of_nat l) (pool_virt img (Suc c)) ?s = Some (True, s')"
    "pool_only b img (Suc c) (Suc c + l) ?s s'"
    "paging_map_walk b img va pa f (of_nat l) (pool_virt img (Suc c)) s' = Some (True, s')" by blast
  have "\<not> pool_word b img (Suc c) (Suc c + l) ?q"
    using pool_word_slot [of "pool_phys b img c" "Suc c" "Suc c + l" b img "Suc l" va] apart pg(1)
    by (auto simp: slot_def pool_page_def table_frame_def)
  then have "ram s' ?q = ram ?s ?q" using s'(2) by (simp add: pool_only_def)
  then have q': "ram s' ?q = Some ?e" by (simp add: pool_linked_def)
  have "pte_valid ?e" using te(2) by (simp add: is_table_def)
  from ensure_valid [OF vw q' this] have "paging_map_walk b img va pa f (of_nat (Suc l)) (pool_virt img c) s' = Some (True, s')"
    using map_walk_table [OF l4 h _ te(1,2)] s'(3) unfolding virt by metis
  moreover have "pool_only b img c (c + Suc l) s s'"
  proof -
    have "ram s' p = ram s p" if p: "\<not> pool_word b img c (c + Suc l) p" for p
    proof -
      have "\<not> pool_word b img (Suc c) (Suc c + l) p" using p unfolding pool_word_def by fastforce
      moreover have "p \<noteq> ?q" using p pool_wordI [of c c "c + Suc l", OF _ _ vpn_less] by auto
      moreover have "clear_frame (pool_phys b img (Suc c)) (ram s) p = ram s p"
        by (rule clear_pool_other [OF p]) simp_all
      ultimately show ?thesis using s'(2) by (simp add: pool_only_def pool_linked_def)
    qed
    with s'(2) show ?thesis by (simp add: pool_only_def pool_linked_def)
  qed
  ultimately show ?case using step s'(1) by metis
qed

section \<open>From the root to the missing table\<close>

lemma walk_down:
  assumes ok: "pt_ok m r L X" and L: "L \<le> 5" and dm: "direct_mapped b m"
  shows "d < L \<Longrightarrow> tab m r L va d = Some a \<Longrightarrow>
    (\<forall>k a'. k < d \<longrightarrow> tab m r L va k = Some a' \<longrightarrow> ram t (slot a' (L - 1 - k) va) = m (slot a' (L - 1 - k) va)) \<Longrightarrow>
    paging_map_walk b img va pa f (of_nat (L - 1)) (PHYS_TO_VIRT (hhdm_of b) r) t =
      paging_map_walk b img va pa f (of_nat (L - 1 - d)) (PHYS_TO_VIRT (hhdm_of b) a) t \<and>
    hw_walk (ram t) (L - 1) r va = hw_walk (ram t) (L - 1 - d) a va"
proof (induction d arbitrary: a)
  case (Suc d)
  from Suc.prems(2) obtain a0 e where a0: "tab m r L va d = Some a0"
    and e: "m (slot a0 (L - 1 - d) va) = Some e" "is_table e" "a = push_bit 12 (pte_ppn e)"
    by (auto elim!: bind_eq_SomeE split: if_splits)
  have d: "d < L" using Suc.prems(1) by simp
  have h: "hhdm_response b \<noteq> None" using dm by (simp add: direct_mapped_def)
  define l where "l = L - 1 - Suc d"
  have lev: "L - 1 - d = Suc l" "l < 4" using Suc.prems(1) L by (simp_all add: l_def)
  have eo: "entry_ok (Suc l) e" using pt_ok_entry [OF ok d a0 e(1)] e(2) unfolding is_table_def lev by blast
  have t: "ram t (slot a0 (Suc l) va) = Some e"
    using Suc.prems(3) [rule_format, of d a0] a0 e(1) unfolding lev by simp
  have vw: "view b (PHYS_TO_VIRT (hhdm_of b) a0 + 8 * vpn (Suc l) va) = Some (slot a0 (Suc l) va)"
    using dm e(1) [unfolded lev] by (simp add: virt_word slot_def direct_mapped_def)
  have "pte_valid e" using e(2) by (simp add: is_table_def)
  from map_walk_table [OF lev(2) h ensure_valid [OF vw t this] eo e(2)]
  have "paging_map_walk b img va pa f (of_nat (Suc l)) (PHYS_TO_VIRT (hhdm_of b) a0) t =
      paging_map_walk b img va pa f (of_nat l) (PHYS_TO_VIRT (hhdm_of b) a) t" by (simp add: e(3))
  moreover have "hw_walk (ram t) (Suc l) a0 va = hw_walk (ram t) l a va"
    using hw_walk_step [of "ram t" a0 "Suc l" va e, OF t eo] e(2,3) by (simp add: is_table_def)
  moreover have "\<forall>k a'. k < d \<longrightarrow> tab m r L va k = Some a' \<longrightarrow> ram t (slot a' (L - 1 - k) va) = m (slot a' (L - 1 - k) va)"
    using Suc.prems(3) by simp
  ultimately show ?case using Suc.IH [OF d a0] unfolding lev l_def [symmetric] by metis
qed simp

text \<open>
  The next \<open>n\<close> pages of the pool are mapped by the boot loader as the image is, lie outside the page
  tables, and the address the code takes for them can be written to an entry.
\<close>

definition pool_avail :: "boot \<Rightarrow> kernel_image \<Rightarrow> nat set \<Rightarrow> nat \<Rightarrow> paging \<Rightarrow> bool" where
  "pool_avail b img X n s \<longleftrightarrow> executable_address_response b \<noteq> None \<and> unat (g_early_pt_pool_used s) + n \<le> 8 \<and>
     (\<forall>i. unat (g_early_pt_pool_used s) \<le> i \<longrightarrow> i < unat (g_early_pt_pool_used s) + n \<longrightarrow>
        pool_page b img (ram s) i \<and> pool_phys b img i \<in> frame_at ` X)"

text \<open>The run at the slot of the missing table.\<close>

lemma pool_link_run:
  assumes dm: "direct_mapped b (ram s)" and L: "levels_of s \<le> 5" and cold: "\<not> pmm_is_ready (allocator s)"
    and l: "levels_of s - 1 - d = Suc l" and e: "ram s q = Some e" "\<not> pte_valid e" and q: "q = slot a (Suc l) va"
    and nq: "\<not> pool_word b img i (i + l) q"
    and i: "i = unat (g_early_pt_pool_used s)" and pool: "pool_avail b img X (Suc l) s"
    and al: "take_bit 12 va = 0" "frame_addr pa" and f: "\<exists>acc. grants f acc"
  obtains s' where
    "paging_map_walk b img va pa f (of_nat (Suc l)) (PHYS_TO_VIRT (hhdm_of b) a) s = Some (True, s')"
    "paging_map_walk b img va pa f (of_nat (Suc l)) (PHYS_TO_VIRT (hhdm_of b) a) s' = Some (True, s')"
    "pool_only b img i (i + l) (pool_linked b img i q s) s'"
    "ram s' q = Some (paging_table_pte (linked_phys b img i))"
proof -
  let ?s = "pool_linked b img i q s" and ?e = "paging_table_pte (linked_phys b img i)"
  have h: "hhdm_response b \<noteq> None" using dm by (simp add: direct_mapped_def)
  have l4: "l < 4" using l L by simp
  have x: "executable_address_response b \<noteq> None" and i8: "i + l < 8"
    and pg: "i \<le> j \<Longrightarrow> j \<le> i + l \<Longrightarrow> pool_page b img (ram s) j" for j
    using pool i by (auto simp: pool_avail_def)
  have pgi: "pool_page b img (ram s) i" using pg by simp
  have fa: "frame_addr (linked_phys b img i)" using pgi by (simp add: pool_page_def)
  note te = table_pte_ok [OF fa]
  have virt: "PHYS_TO_VIRT (hhdm_of b) (push_bit 12 (pte_ppn ?e)) = pool_virt img i"
    unfolding te(3) by (simp add: linked_phys_def PHYS_TO_VIRT_def VIRT_TO_PHYS_def)
  have vw: "view b (PHYS_TO_VIRT (hhdm_of b) a + 8 * vpn (Suc l) va) = Some q"
    using dm e(1) by (simp add: virt_word slot_def direct_mapped_def q)
  have used: "g_early_pt_pool_used s = of_nat i" "i < 8" using i i8 by simp_all
  note ens = pool_ensure [OF pgi used cold h vw e]
  have "\<exists>s'. paging_map_walk b img va pa f (of_nat l) (pool_virt img i) ?s = Some (True, s') \<and>
      pool_only b img i (i + l) ?s s' \<and>
      paging_map_walk b img va pa f (of_nat l) (pool_virt img i) s' = Some (True, s')"
  proof (rule pool_descent [OF h x al(2) f al(1)])
    show "\<forall>j. i \<le> j \<longrightarrow> j \<le> i + l \<longrightarrow> pool_page b img (ram ?s) j"
      using pg pool_page_linked by simp
    show "\<forall>v. unat v < 512 \<longrightarrow> ram ?s (pool_phys b img i + 8 * v) = Some 0"
    proof (intro allI impI)
      fix v :: u64 assume v: "unat v < 512"
      have "pool_phys b img i + 8 * v \<noteq> q" using nq pool_wordI [of i i "i + l", OF _ _ v] by auto
      then show "ram ?s (pool_phys b img i + 8 * v) = Some 0"
        using clear_frame_word [OF v] by (simp add: pool_linked_def)
    qed
  qed (use l4 i8 cold in \<open>simp_all add: pool_linked_def\<close>)
  then obtain s' where s': "paging_map_walk b img va pa f (of_nat l) (pool_virt img i) ?s = Some (True, s')"
    "pool_only b img i (i + l) ?s s'"
    "paging_map_walk b img va pa f (of_nat l) (pool_virt img i) s' = Some (True, s')" by blast
  have "ram s' q = ram ?s q" using s'(2) nq by (simp add: pool_only_def)
  then have q': "ram s' q = Some ?e" by (simp add: pool_linked_def)
  have "pte_valid ?e" using te(2) by (simp add: is_table_def)
  note again = map_walk_table [OF l4 h ensure_valid [OF vw q' this] te(1,2), unfolded virt]
  show thesis
    by (rule that [OF _ _ s'(2) q'])
      (simp_all only: map_walk_table [OF l4 h ens te(1,2), unfolded virt] again s'(1,3))
qed

text \<open>The words that keep their contents, among them the entries on the way to the missing table.\<close>

lemma pool_apart:
  assumes pt: "pt_ok (ram s) (g_root_phys s) (levels_of s) X" and k: "k < levels_of s" "path_tab s va k = Some a"
    and pg: "\<And>j. c \<le> j \<Longrightarrow> j \<le> n \<Longrightarrow> pool_page b img (ram s) j \<and> pool_phys b img j \<in> frame_at ` X"
  shows "\<not> pool_word b img c n (slot a l va)"
proof (rule pool_word_slot [OF pt_ok_table(2) [OF pt k]])
  fix j assume "c \<le> j" "j \<le> n"
  with pg [of j] show "frame_addr (pool_phys b img j) \<and> pool_phys b img j \<noteq> a"
    using pt_ok_table(3) [OF pt k] by (auto simp: pool_page_def table_frame_def)
qed

lemma pool_keep:
  assumes "pool_only b img i (i + l) (pool_linked b img i q s) s'" "\<not> pool_word b img i (i + l) p" "p \<noteq> q"
  shows "ram s' p = ram s p"
proof -
  have "clear_frame (pool_phys b img i) (ram s) p = ram s p"
    by (rule clear_pool_other [OF assms(2)]) simp_all
  with assms show ?thesis by (simp add: pool_only_def pool_linked_def)
qed

text \<open>The processor follows the new entry to an address with no memory behind it.\<close>

lemma linked_faults:
  assumes only: "pool_only b img i (i + l) (pool_linked b img i q s) s'"
    and q: "q = slot a (Suc l) va" "ram s q \<noteq> None" "ram s' q = Some (paging_table_pte (linked_phys b img i))"
    and pg: "\<And>j. i \<le> j \<Longrightarrow> j \<le> i + l \<Longrightarrow> pool_page b img (ram s) j"
    and gap: "\<forall>v. unat v < 512 \<longrightarrow> ram s (linked_phys b img i + 8 * v) = None"
  shows "hw_walk (ram s') (Suc l) a va = None"
proof -
  let ?p = "slot (linked_phys b img i) l va"
  have "frame_addr (linked_phys b img i)" using pg [of i] by (simp add: pool_page_def)
  note te = table_pte_ok [OF this]
  have "hw_walk (ram s') (Suc l) a va = hw_walk (ram s') l (linked_phys b img i) va"
    using hw_walk_step [of "ram s'" a "Suc l" va, OF q(3) [unfolded q(1)] te(1)] te(2,3) by (simp add: is_table_def)
  moreover have none: "ram s ?p = None" using gap vpn_less [of l va] by (simp add: slot_def)
  have "\<not> pool_word b img i (i + l) ?p"
    using none pg unfolding pool_word_def pool_page_def table_frame_def by metis
  moreover have "?p \<noteq> q" using none q(2) by auto
  ultimately show ?thesis using pool_keep [OF only] none by (simp add: hw_walk.simps [of _ l])
qed

lemma early_pool_run:
  assumes pt: "pt_ok (ram s) (g_root_phys s) (levels_of s) X" and dm: "direct_mapped b (ram s)"
    and L: "levels_of s \<le> 5" "g_root_phys s \<noteq> 0" and cold: "\<not> pmm_is_ready (allocator s)"
    and d: "Suc d < levels_of s" and t: "path_tab s va d = Some a"
    and e: "ram s (slot a (levels_of s - 1 - d) va) = Some e" "\<not> pte_valid e"
    and pool: "pool_avail b img X (levels_of s - 1 - d) s"
    and gap: "\<forall>v. unat v < 512 \<longrightarrow> ram s (linked_phys b img (unat (g_early_pt_pool_used s)) + 8 * v) = None"
    and al: "take_bit 12 va = 0" "frame_addr pa" and f: "\<exists>acc. grants f acc"
  shows "\<exists>s'. paging_map_page b img va pa f s = Some (True, s') \<and>
    unat (g_early_pt_pool_used s') = unat (g_early_pt_pool_used s) + (levels_of s - 1 - d) \<and>
    (\<forall>w acc. same_page va w \<longrightarrow> translate s' w acc = None) \<and>
    paging_map_page b img va pa f s' = Some (True, s')"
proof -
  let ?L = "levels_of s" and ?r = "g_root_phys s"
  define i where "i = unat (g_early_pt_pool_used s)"
  define l where "l = ?L - 1 - Suc d"
  have lev: "?L - 1 - d = Suc l" and dL: "d < ?L" using d by (simp_all add: l_def)
  define q where "q = slot a (Suc l) va"
  have pg: "pool_page b img (ram s) j \<and> pool_phys b img j \<in> frame_at ` X" if "i \<le> j" "j \<le> i + l" for j
    using pool [unfolded lev] that by (auto simp: pool_avail_def i_def)
  have apart: "\<not> pool_word b img i (i + l) (slot a' l' va)" if "k < ?L" "path_tab s va k = Some a'" for k a' l'
    using pool_apart [OF pt that pg] .
  from pool_link_run [OF dm L(1) cold lev e [unfolded lev, folded q_def] q_def _ i_def pool [unfolded lev] al f]
    apart [OF dL t] obtain s' where
    run: "paging_map_walk b img va pa f (of_nat (Suc l)) (PHYS_TO_VIRT (hhdm_of b) a) s = Some (True, s')"
      "paging_map_walk b img va pa f (of_nat (Suc l)) (PHYS_TO_VIRT (hhdm_of b) a) s' = Some (True, s')"
    and only: "pool_only b img i (i + l) (pool_linked b img i q s) s'"
    and q': "ram s' q = Some (paging_table_pte (linked_phys b img i))" unfolding q_def by blast
  have same: "\<forall>k a'. k < d \<longrightarrow> path_tab s va k = Some a' \<longrightarrow>
      ram s' (slot a' (?L - 1 - k) va) = ram s (slot a' (?L - 1 - k) va)"
  proof (intro allI impI)
    fix k a' assume k: "k < d" "path_tab s va k = Some a'"
    then have kL: "k < ?L" using dL by simp
    have "slot a' (?L - 1 - k) va \<noteq> q"
      using pt_ok_slot(1) [OF pt dL kL t k(2), unfolded lev] k(1) unfolding q_def by auto
    then show "ram s' (slot a' (?L - 1 - k) va) = ram s (slot a' (?L - 1 - k) va)"
      using pool_keep [OF only] apart [OF kL k(2)] by blast
  qed
  have cfg: "g_levels s' = g_levels s" "g_root_phys s' = ?r" "g_early_pt_pool_used s' = of_nat (i + Suc l)"
    using only by (simp_all add: pool_only_def pool_linked_def)
  have h: "hhdm_response b = Some (hhdm_of b)" using dm by (auto simp: direct_mapped_def hhdm_of_def)
  have top: "of_nat (?L - 1) = g_levels s - 1" using d by (simp add: of_nat_diff)
  have page: "paging_map_page b img va pa f u =
      paging_map_walk b img va pa f (of_nat (?L - 1)) (PHYS_TO_VIRT (hhdm_of b) ?r) u"
    if "g_levels u = g_levels s" "g_root_phys u = ?r" for u
    using al h L(2) that
    by (simp add: paging_map_page_def page_aligned frame_addr_def paging_root_virt_def paging_map_one_def top [symmetric])
  note down = walk_down [OF pt L(1) dm dL t, of s, unfolded lev] walk_down [OF pt L(1) dm dL t same, unfolded lev]
  have walk: "paging_map_page b img va pa f s = Some (True, s')" "paging_map_page b img va pa f s' = Some (True, s')"
    unfolding page [OF refl refl] page [OF cfg(1,2)] using down run by auto
  have "walk s' va = hw_walk (ram s') (Suc l) a va"
    unfolding cfg(1,2) using down(2) by blast
  also have "\<dots> = None"
    by (rule linked_faults [OF only q_def _ q' _ gap [folded i_def]]) (use e [unfolded lev] pg in \<open>simp_all add: q_def\<close>)
  finally have none: "walk s' va = None" .
  have "translate s' w acc = None" if "same_page va w" for w acc
  proof -
    have "walk s' w = walk s' va"
      using hw_walk_agree [OF same_page_agree [OF that, of ?L ?L], of "?L - 1"] d cfg by simp
    then show ?thesis using none by (simp add: hw_translate_def)
  qed
  moreover have "unat (g_early_pt_pool_used s') = i + Suc l"
    using pool [unfolded lev] unfolding cfg(3) by (intro unat_of_nat_small) (simp add: pool_avail_def i_def)
  ultimately show ?thesis using walk unfolding lev i_def by blast
qed

section \<open>A machine without an allocator\<close>

text \<open>
  The machine of \<open>VmDemo\<close> before the allocator is ready: the kernel's image, four pages at the link
  address, lies at the physical base \<open>0x9000\<close> that the boot loader reports and is mapped there, and
  the early pool is its second and third page.
\<close>

definition pool_boot :: boot where
  "pool_boot = vm_boot\<lparr>view := (\<lambda>v. if v - vm_hhdm < 0x10000 then Some (v - vm_hhdm)
     else if v - 0xffffffff80000000 < 0x4000 then Some (0x9000 + (v - 0xffffffff80000000)) else None)\<rparr>"

definition pool_start :: paging where
  "pool_start = vm_ready\<lparr>allocator := demo_cold\<rparr>"

lemma pool_start_fields:
  "ram pool_start = ram vm_cold" "levels_of pool_start = 3" "g_root_phys pool_start = 0xf000"
  "g_early_pt_pool_used pool_start = 0" "\<not> pmm_is_ready (allocator pool_start)"
  by (simp_all add: pool_start_def vm_ready_def vm_cold_def demo_cold_def pmm_is_ready_def)

lemma pool_boot_fields:
  "executable_address_response pool_boot = Some (0x9000, 0xffffffff80000000)" "hhdm_of pool_boot = vm_hhdm"
  by (simp_all add: pool_boot_def vm_boot_def hhdm_of_def)

lemma pool_places:
  "pool_virt vm_image 0 = 0xffffffff80001000" "pool_virt vm_image 1 = 0xffffffff80002000"
  "pool_phys pool_boot vm_image 0 = 0xa000" "pool_phys pool_boot vm_image 1 = 0xb000"
  "linked_phys pool_boot vm_image 0 = 0x3f80001000" "linked_phys pool_boot vm_image 1 = 0x3f80002000"
  "frame_at 10 = 0xa000" "frame_at 11 = 0xb000"
  by (simp_all add: pool_virt_def vm_image_def pool_phys_def pool_boot_fields linked_phys_def vm_hhdm_def
      VIRT_TO_PHYS_def frame_at_def PFN_PHYS_eq)

lemma pool_view:
  assumes p: "p \<in> {0x1000, 0x2000 :: u64}" and v: "unat v < 512"
  shows "view pool_boot (0xffffffff80000000 + p + 8 * v) = Some (0x9000 + p + 8 * v)"
proof -
  have e: "unat (8 * v) = 8 * unat v" using v by (simp add: unat_word_ariths)
  then have "unat (p + 8 * v) < 0x3000" "unat (0x3f80000000 + p + 8 * v) = 0x3f80000000 + unat (p + 8 * v)"
    using p v by (auto simp: unat_word_ariths)
  then have "\<not> 0x3f80000000 + p + 8 * v < 0x10000" "p + 8 * v < 0x4000"
    by (simp_all add: word_less_nat_alt)
  then show ?thesis by (simp add: pool_boot_def vm_hhdm_def algebra_simps)
qed

lemma demo_pool_page:
  "pool_page pool_boot vm_image (ram vm_cold) 0" "pool_page pool_boot vm_image (ram vm_cold) 1"
proof -
  have "frame_addr (0x3f80001000 :: u64)" "frame_addr (0x3f80002000 :: u64)" by code_simp+
  then show "pool_page pool_boot vm_image (ram vm_cold) 0" "pool_page pool_boot vm_image (ram vm_cold) 1"
    using pool_view [of "0x1000"] pool_view [of "0x2000"] vm_frame_word [of 10] vm_frame_word [of 11]
    by (simp_all add: pool_page_def pool_places [unfolded One_nat_def])
qed

lemma demo_pool_avail: "pool_avail pool_boot vm_image {10, 11} 2 pool_start"
  unfolding pool_avail_def pool_start_fields
proof (intro conjI allI impI)
  fix i :: nat assume "i < unat 0 + 2"
  then have "i = 0 \<or> i = 1" by auto
  then show "pool_page pool_boot vm_image (ram vm_cold) i" "pool_phys pool_boot vm_image i \<in> frame_at ` {10, 11}"
    using demo_pool_page pool_places by auto
qed (simp_all add: pool_boot_fields)

lemma demo_gap:
  assumes "unat v < 512" shows "ram vm_cold (0x3f80001000 + 8 * v) = None"
proof -
  have "unat (0x3f80001000 + 8 * v) = 0x3f80001000 + 8 * unat v" using assms by (simp add: unat_word_ariths)
  then show ?thesis by (simp add: vm_cold_def word_less_nat_alt)
qed

section \<open>The property\<close>

text \<open>
  C20: a table taken from the early pool is invisible to the processor.  Let the allocator be not
  ready and the path to an address end in an invalid entry above the last level, with enough pages left in the
  pool and no memory at the physical address the code computes for the first of them (its virtual
  address minus the offset of the direct map; the kernel's image is not in the direct map, and the
  boot loader reports its physical base separately).  Then \<open>paging_map_page\<close> takes one table of the
  pool per missing level and returns true, a repeated call finds the mapping and changes nothing,
  but every access to the page faults.
\<close>

theorem early_pool_unreachable:
  assumes pt: "pt_ok (ram s) (g_root_phys s) (levels_of s) X" and dm: "direct_mapped b (ram s)"
    and L: "levels_of s \<le> 5" "g_root_phys s \<noteq> 0" and cold: "\<not> pmm_is_ready (allocator s)"
    and d: "Suc d < levels_of s" and t: "path_tab s va d = Some a"
    and e: "ram s (slot a (levels_of s - 1 - d) va) = Some e" "\<not> pte_valid e"
    and pool: "pool_avail b img X (levels_of s - 1 - d) s"
    and gap: "\<forall>v. unat v < 512 \<longrightarrow> ram s (linked_phys b img (unat (g_early_pt_pool_used s)) + 8 * v) = None"
    and al: "take_bit 12 va = 0" "frame_addr pa" and f: "\<exists>acc. grants f acc"
  shows "\<exists>s'. paging_map_page b img va pa f s = Some (True, s') \<and>
    unat (g_early_pt_pool_used s') = unat (g_early_pt_pool_used s) + (levels_of s - 1 - d) \<and>
    (\<forall>w acc. same_page va w \<longrightarrow> translate s' w acc = None) \<and>
    paging_map_page b img va pa f s' = Some (True, s')"
  by (rule early_pool_run [OF assms])

theorem early_pool_unreachable_witness:
  "\<exists>s'. paging_map_page pool_boot vm_image 0xffffffc000004000 0x4000 PAGING_PROT_RWG pool_start = Some (True, s') \<and>
    unat (g_early_pt_pool_used s') = 2 \<and> translate s' 0xffffffc000004000 Load = None \<and>
    paging_map_page pool_boot vm_image 0xffffffc000004000 0x4000 PAGING_PROT_RWG s' = Some (True, s')"
proof -
  have pt: "pt_ok (ram pool_start) (g_root_phys pool_start) (levels_of pool_start) {10, 11}"
    using vm_pt_ok [of "{10, 11}"] by (simp add: pool_start_fields)
  have dm: "direct_mapped pool_boot (ram pool_start)"
    unfolding direct_mapped_def pool_boot_fields(2) pool_start_fields
    by (simp add: vm_cold_def PHYS_TO_VIRT_def pool_boot_def vm_boot_def)
  have root: "ram pool_start (slot 0xf000 (levels_of pool_start - 1 - 0) 0xffffffc000004000) = Some 0"
    using vm_root_word by (simp add: pool_start_fields slot_def vpn_less)
  have f: "\<exists>acc. grants PAGING_PROT_RWG acc" using vm_RWG by blast
  have pool: "pool_avail pool_boot vm_image {10, 11} (levels_of pool_start - 1 - 0) pool_start"
    using demo_pool_avail by (simp add: pool_start_fields)
  have gap: "\<forall>v. unat v < 512 \<longrightarrow>
      ram pool_start (linked_phys pool_boot vm_image (unat (g_early_pt_pool_used pool_start)) + 8 * v) = None"
    using demo_gap by (simp add: pool_start_fields pool_places)
  have "\<exists>s'. paging_map_page pool_boot vm_image 0xffffffc000004000 0x4000 PAGING_PROT_RWG pool_start = Some (True, s') \<and>
    unat (g_early_pt_pool_used s') = unat (g_early_pt_pool_used pool_start) + (levels_of pool_start - 1 - 0) \<and>
    (\<forall>w acc. same_page 0xffffffc000004000 w \<longrightarrow> translate s' w acc = None) \<and>
    paging_map_page pool_boot vm_image 0xffffffc000004000 0x4000 PAGING_PROT_RWG s' = Some (True, s')"
    by (rule early_pool_unreachable [OF pt dm _ _ _ _ _ root _ pool gap vm_page(1,3) f])
      (simp_all add: pool_start_fields)
  then show ?thesis by (auto simp: pool_start_fields same_page_def)
qed

end
