(* ===== verification/CString.thy ===== *)
theory CString
  imports Prelude "HOL-Library.List_Lexorder"
begin

text \<open>
  \<open>kernel/src/lib/string.c\<close>: memory and string functions.

  A \<open>memory\<close> maps addresses to bytes; an address without an object is \<open>None\<close>, and so is an
  operation that touches one.  A pointer that is only read is the sequence of bytes found from
  it on, \<open>bytes\<close>, indexed by the \<open>size_t\<close> offset as the code indexes it (\<open>s[i]\<close>): \<open>bytes_at m p\<close>
  for a pointer into memory \<open>m\<close>, \<open>lit\<close> for a string literal.  \<open>char\<close> is unsigned on RISC-V.
  A loop that only ends when it meets a terminator is a \<open>partial_function\<close>, whose \<open>None\<close> is a
  run that leaves the object or never ends.
\<close>

type_synonym memory = "u64 \<Rightarrow> u8 option"
type_synonym bytes = "u64 \<Rightarrow> u8 option"

definition bytes_at :: "memory \<Rightarrow> u64 \<Rightarrow> bytes" where
  "bytes_at m p = (\<lambda>i. m (p + i))"

definition lit :: "string \<Rightarrow> bytes" where
  "lit s = (\<lambda>i. if unat i < length s then Some (of_char (s ! unat i))
               else if unat i = length s then Some 0 else None)"

definition store8 :: "u64 \<Rightarrow> u8 \<Rightarrow> memory \<Rightarrow> memory option" where
  "store8 p x m = (if m p = None then None else Some (m(p \<mapsto> x)))"

section \<open>Copying and filling\<close>

definition copy_byte :: "u64 \<Rightarrow> u64 \<Rightarrow> nat \<Rightarrow> memory \<Rightarrow> memory option" where
  "copy_byte pdest psrc i m = do { x \<leftarrow> m (psrc + of_nat i); store8 (pdest + of_nat i) x m }"

definition memcpy :: "u64 \<Rightarrow> u64 \<Rightarrow> u64 \<Rightarrow> memory \<Rightarrow> (u64 \<times> memory) option" where
  "memcpy dest src n m = do {
     m \<leftarrow> for_each (copy_byte dest src) [0..<unat n] m;
     Some (dest, m) }"

definition memset :: "u64 \<Rightarrow> u32 \<Rightarrow> u64 \<Rightarrow> memory \<Rightarrow> (u64 \<times> memory) option" where
  "memset s c n m = do {
     m \<leftarrow> for_each (\<lambda>i. store8 (s + of_nat i) (ucast c)) [0..<unat n] m;
     Some (s, m) }"

text \<open>The second loop runs \<open>for (i = n; i > 0; i--)\<close> over \<open>pdest[i - 1]\<close>: the indices downwards.\<close>

definition memmove :: "u64 \<Rightarrow> u64 \<Rightarrow> u64 \<Rightarrow> memory \<Rightarrow> (u64 \<times> memory) option" where
  "memmove dest src n m =
     (if src > dest then do {
        m \<leftarrow> for_each (copy_byte dest src) [0..<unat n] m;
        Some (dest, m) }
      else if src < dest then do {
        m \<leftarrow> for_each (copy_byte dest src) (rev [0..<unat n]) m;
        Some (dest, m) }
      else Some (dest, m))"

section \<open>Comparing\<close>

function memcmp_loop :: "bytes \<Rightarrow> bytes \<Rightarrow> u64 \<Rightarrow> u64 \<Rightarrow> int option" where
  "memcmp_loop p1 p2 n i =
     (if i < n then do {
        x \<leftarrow> p1 i;
        y \<leftarrow> p2 i;
        if x \<noteq> y then Some (if x < y then - 1 else 1)
        else memcmp_loop p1 p2 n (i + 1) }
      else Some 0)"
  by pat_completeness auto
termination
proof (relation "measure (\<lambda>(p1, p2, n, i). unat n - unat i)", goal_cases)
  case (2 p1 p2 n i x y)
  then show ?case using unat_index_step [of i n] by (simp add: word_less_nat_alt)
qed simp

declare memcmp_loop.simps [simp del]

definition memcmp :: "bytes \<Rightarrow> bytes \<Rightarrow> u64 \<Rightarrow> int option" where
  "memcmp s1 s2 n = memcmp_loop s1 s2 n 0"

section \<open>Strings\<close>

partial_function (option) strlen_loop :: "bytes \<Rightarrow> u64 \<Rightarrow> u64 option" where
  "strlen_loop s len = do { c \<leftarrow> s len; if c \<noteq> 0 then strlen_loop s (len + 1) else Some len }"

definition strlen :: "bytes \<Rightarrow> u64 option" where
  "strlen s = strlen_loop s 0"

function strnlen_loop :: "bytes \<Rightarrow> u64 \<Rightarrow> u64 \<Rightarrow> u64 option" where
  "strnlen_loop s maxlen len =
     (if len < maxlen then do {
        c \<leftarrow> s len;
        if c \<noteq> 0 then strnlen_loop s maxlen (len + 1) else Some len }
      else Some len)"
  by pat_completeness auto
termination
proof (relation "measure (\<lambda>(s, maxlen, len). unat maxlen - unat len)", goal_cases)
  case (2 s maxlen len c)
  then show ?case using unat_index_step [of len maxlen] by (simp add: word_less_nat_alt)
qed simp

declare strnlen_loop.simps [simp del]

definition strnlen :: "bytes \<Rightarrow> u64 \<Rightarrow> u64 option" where
  "strnlen s maxlen = strnlen_loop s maxlen 0"

partial_function (option) strcmp_loop :: "bytes \<Rightarrow> bytes \<Rightarrow> u64 \<Rightarrow> int option" where
  "strcmp_loop s1 s2 i = do {
     x \<leftarrow> s1 i;
     more \<leftarrow> (if x \<noteq> 0 then do { y \<leftarrow> s2 i; Some (y \<noteq> 0) } else Some False);
     y \<leftarrow> s2 i;
     if more then
       if x \<noteq> y then Some (if x < y then - 1 else 1) else strcmp_loop s1 s2 (i + 1)
     else if x = y then Some 0
     else Some (if x = 0 then - 1 else 1) }"

definition strcmp :: "bytes \<Rightarrow> bytes \<Rightarrow> int option" where
  "strcmp s1 s2 = strcmp_loop s1 s2 0"

text \<open>The result is the offset of the found character, or \<open>None\<close> for NULL.\<close>

partial_function (option) strchr_loop :: "bytes \<Rightarrow> u8 \<Rightarrow> u64 \<Rightarrow> u64 option option" where
  "strchr_loop s needle i = do {
     c \<leftarrow> s i;
     if c = needle then Some (Some i)
     else if c = 0 then Some None
     else strchr_loop s needle (i + 1) }"

definition strchr :: "bytes \<Rightarrow> u32 \<Rightarrow> u64 option option" where
  "strchr s c = strchr_loop s (ucast c) 0"

declare strlen_loop.simps [code] strcmp_loop.simps [code] strchr_loop.simps [code]

section \<open>What the bytes of a string are\<close>

text \<open>\<open>cstr s i xs\<close>: from offset \<open>i\<close> on, \<open>s\<close> holds the nonzero bytes \<open>xs\<close> and a terminator.\<close>

fun cstr :: "bytes \<Rightarrow> u64 \<Rightarrow> u8 list \<Rightarrow> bool" where
  "cstr s i [] \<longleftrightarrow> s i = Some 0"
| "cstr s i (x # xs) \<longleftrightarrow> s i = Some x \<and> x \<noteq> 0 \<and> cstr s (i + 1) xs"

definition text_bytes :: "string \<Rightarrow> u8 list" where
  "text_bytes s = map of_char s"

lemma strlen_loop_cstr: "cstr s i xs \<Longrightarrow> strlen_loop s i = Some (i + of_nat (length xs))"
  by (induction xs arbitrary: i) (simp_all add: strlen_loop.simps algebra_simps)

lemma strlen_cstr: "cstr s 0 xs \<Longrightarrow> strlen s = Some (of_nat (length xs))"
  using strlen_loop_cstr by (fastforce simp: strlen_def)

text \<open>The reference order of strings is the lexicographic order of their bytes.\<close>

definition compare_lists :: "u8 list \<Rightarrow> u8 list \<Rightarrow> int" where
  "compare_lists xs ys = (if xs = ys then 0 else if xs < ys then - 1 else 1)"

lemma compare_lists_simps [simp]:
  "compare_lists [] [] = 0" "compare_lists [] (y # ys) = - 1" "compare_lists (x # xs) [] = 1"
  "compare_lists (x # xs) (y # ys) = (if x = y then compare_lists xs ys else if x < y then - 1 else 1)"
  by (auto simp: compare_lists_def)

lemma strcmp_loop_cstr:
  "cstr s1 i xs \<Longrightarrow> cstr s2 i ys \<Longrightarrow> strcmp_loop s1 s2 i = Some (compare_lists xs ys)"
proof (induction xs arbitrary: ys i)
  case Nil
  then show ?case by (cases ys) (simp_all add: strcmp_loop.simps)
next
  case (Cons x xs)
  then show ?case by (cases ys) (simp_all add: strcmp_loop.simps [of s1 s2 i])
qed

lemma strcmp_cstr: "cstr s1 0 xs \<Longrightarrow> cstr s2 0 ys \<Longrightarrow> strcmp s1 s2 = Some (compare_lists xs ys)"
  by (simp add: strcmp_def strcmp_loop_cstr)

lemma strcmp_eq_0: "cstr s1 0 xs \<Longrightarrow> cstr s2 0 ys \<Longrightarrow> strcmp s1 s2 = Some 0 \<longleftrightarrow> xs = ys"
  by (auto simp: strcmp_cstr compare_lists_def)

lemma strchr_loop_cstr:
  "cstr s i xs \<Longrightarrow> strchr_loop s c i = Some (case List.find (\<lambda>k. (xs @ [0]) ! k = c) [0..<Suc (length xs)] of
     None \<Rightarrow> None | Some k \<Rightarrow> Some (i + of_nat k))"
proof (induction xs arbitrary: i)
  case Nil
  then show ?case by (simp add: strchr_loop.simps)
next
  case (Cons x xs)
  have upt: "[0..<Suc (length (x # xs))] = 0 # map Suc [0..<Suc (length xs)]"
    by (simp add: upt_conv_Cons map_Suc_upt del: upt_Suc)
  have find_map: "List.find P (map Suc ks) = map_option Suc (List.find (\<lambda>k. P (Suc k)) ks)" for P ks
    by (induction ks) auto
  show ?case
  proof (cases "x = c")
    case True
    then show ?thesis using Cons.prems unfolding upt by (simp add: strchr_loop.simps [of s c i])
  next
    case False
    have "strchr_loop s c i = strchr_loop s c (i + 1)"
      using Cons.prems False by (simp add: strchr_loop.simps [of s c i])
    also have "\<dots> = Some (case List.find (\<lambda>k. (xs @ [0]) ! k = c) [0..<Suc (length xs)] of
        None \<Rightarrow> None | Some k \<Rightarrow> Some (i + 1 + of_nat k))"
      using Cons by (simp del: upt_Suc)
    finally show ?thesis unfolding upt using False
      by (simp add: find_map option.case_eq_if option.map_sel algebra_simps del: upt_Suc)
  qed
qed

end
