(* ===== verification/CStringProps.thy ===== *)
theory CStringProps
  imports CString
begin

text \<open>
  The properties of \<open>string.c\<close>: copying (also between overlapping regions), filling, and the
  comparisons against the lexicographic order of byte lists.
\<close>

section \<open>Regions\<close>

definition region :: "memory \<Rightarrow> u64 \<Rightarrow> nat \<Rightarrow> bool" where
  "region m p n \<longleftrightarrow> unat p + n \<le> 2 ^ 64 \<and> (\<forall>i<n. m (p + of_nat i) \<noteq> None)"

lemma unat_region:
  assumes "unat p + n \<le> 2 ^ 64" "i < n"
  shows "unat (p + of_nat i :: u64) = unat p + i"
proof -
  have "unat (of_nat i :: u64) = i" by (rule unat_of_nat_small) (use assms in simp)
  then show ?thesis using assms by (subst unat_add_nowrap) simp_all
qed

lemma region_inj:
  assumes "unat p + n \<le> 2 ^ 64" "i < n" "j < n"
  shows "p + of_nat i = (p + of_nat j :: u64) \<longleftrightarrow> i = j"
  using unat_region [OF assms(1,2)] unat_region [OF assms(1,3)] by (metis add_left_cancel)

section \<open>Copying\<close>

text \<open>\<open>dest\<close> holds what \<open>src\<close> held at the indices \<open>D\<close>, everything else is as in \<open>m\<close>.\<close>

definition copied :: "u64 \<Rightarrow> u64 \<Rightarrow> nat set \<Rightarrow> memory \<Rightarrow> memory \<Rightarrow> bool" where
  "copied dest src D m m' \<longleftrightarrow>
     (\<forall>i\<in>D. m' (dest + of_nat i) = m (src + of_nat i)) \<and>
     (\<forall>q. (\<forall>i\<in>D. q \<noteq> dest + of_nat i) \<longrightarrow> m' q = m q)"

lemma copied_unique: "copied dest src D m m1 \<Longrightarrow> copied dest src D m m2 \<Longrightarrow> m1 = m2"
  unfolding copied_def by (intro ext) metis

lemma copy_loop:
  assumes src: "region m src n" and dest: "region m dest n"
    and idx: "set ix \<subseteq> {..<n}" "distinct ix"
    and order: "\<And>pre i rest j. ix = pre @ i # rest \<Longrightarrow> j \<in> set pre \<Longrightarrow> src + of_nat i \<noteq> dest + of_nat j"
  shows "\<exists>m'. for_each (copy_byte dest src) ix m = Some m' \<and> copied dest src (set ix) m m'"
proof -
  have "\<exists>m'. for_each (copy_byte dest src) ix m = Some m' \<and> copied dest src (set ix) m m'"
  proof (rule for_each_invariant [of "\<lambda>pre m'. copied dest src (set pre) m m'"])
    fix pre i rest m'
    assume ix: "ix = pre @ i # rest" and inv: "copied dest src (set pre) m m'"
    have i: "i < n" "i \<notin> set pre" using ix idx by auto
    have pre: "j \<in> set pre \<Longrightarrow> j < n" for j using ix idx(1) by auto
    have "\<forall>j\<in>set pre. src + of_nat i \<noteq> dest + of_nat j" using order [OF ix] by blast
    then have rd: "m' (src + of_nat i) = m (src + of_nat i)" using inv by (simp add: copied_def)
    have ne: "j \<in> set pre \<Longrightarrow> dest + of_nat j \<noteq> dest + of_nat i" for j
      using region_inj [of dest n j i] dest pre i by (auto simp: region_def)
    then have "\<forall>j\<in>set pre. dest + of_nat i \<noteq> dest + of_nat j" by metis
    then have wr: "m' (dest + of_nat i) = m (dest + of_nat i)" using inv unfolding copied_def by blast
    obtain x where x: "m (src + of_nat i) = Some x" using src i by (auto simp: region_def)
    have "m (dest + of_nat i) \<noteq> None" using dest i by (simp add: region_def)
    then have "copy_byte dest src i m' = Some (m'(dest + of_nat i \<mapsto> x))"
      by (simp add: copy_byte_def rd x store8_def wr)
    moreover have "copied dest src (set (pre @ [i])) m (m'(dest + of_nat i \<mapsto> x))"
      using inv ne x by (auto simp: copied_def)
    ultimately show "\<exists>m2. copy_byte dest src i m' = Some m2 \<and> copied dest src (set (pre @ [i])) m m2"
      by blast
  qed (simp add: copied_def)
  then show ?thesis .
qed

lemma memmove_region:
  assumes src: "region m src (unat n)" and dest: "region m dest (unat n)"
  shows "\<exists>m'. memmove dest src n m = Some (dest, m') \<and> copied dest src {..<unat n} m m'"
proof -
  have sd: "unat src + unat n \<le> 2 ^ 64" "unat dest + unat n \<le> 2 ^ 64"
    using src dest by (auto simp: region_def)
  consider "src > dest" | "src < dest" | "src = dest" by fastforce
  then show ?thesis
  proof cases
    case 1
    have "\<exists>m'. for_each (copy_byte dest src) [0..<unat n] m = Some m' \<and>
        copied dest src (set [0..<unat n]) m m'"
    proof (rule copy_loop [OF src dest])
      fix pre i rest j assume s: "[0..<unat n] = pre @ i # rest" and j: "j \<in> set pre"
      have "sorted_wrt (<) (pre @ i # rest)" using s sorted_wrt_upt by metis
      then have ji: "j < i" using j by (simp add: sorted_wrt_append)
      have "i \<in> set [0..<unat n]" unfolding s by simp
      then have i: "i < unat n" by simp
      then show "src + of_nat i \<noteq> dest + of_nat j"
        using unat_region [OF sd(1) i] unat_region [OF sd(2), of j] ji 1
        unfolding word_less_nat_alt word_unat_eq_iff by simp
    qed auto
    then show ?thesis using 1 by (auto simp: memmove_def atLeast0LessThan)
  next
    case 2
    have "\<exists>m'. for_each (copy_byte dest src) (rev [0..<unat n]) m = Some m' \<and>
        copied dest src (set (rev [0..<unat n])) m m'"
    proof (rule copy_loop [OF src dest])
      fix pre i rest j assume s: "rev [0..<unat n] = pre @ i # rest" and j: "j \<in> set pre"
      have "sorted_wrt (\<lambda>x y. y < x) (rev [0..<unat n])" by (simp add: sorted_wrt_rev)
      then have ji: "i < j" using j unfolding s by (simp add: sorted_wrt_append)
      have "i \<in> set (rev [0..<unat n])" "j \<in> set (rev [0..<unat n])" unfolding s using j by simp_all
      then have i: "i < unat n" "j < unat n" by simp_all
      then show "src + of_nat i \<noteq> dest + of_nat j"
        using unat_region [OF sd(1) i(1)] unat_region [OF sd(2) i(2)] ji 2
        unfolding word_less_nat_alt word_unat_eq_iff by simp
    qed auto
    then show ?thesis using 2 by (auto simp: memmove_def atLeast0LessThan)
  next
    case 3
    then show ?thesis by (auto simp: memmove_def copied_def)
  qed
qed

text \<open>
  C21: \<open>memmove\<close> is correct for every pair of accessible regions, overlapping or not: it returns the
  destination, the destination holds the bytes the source held before the call, and no other
  byte of memory changes.
\<close>

theorem memmove_correct:
  assumes "region m src (unat n)" and "region m dest (unat n)"
  shows "\<exists>m'. memmove dest src n m = Some (dest, m') \<and> copied dest src {..<unat n} m m'"
  by (rule memmove_region [OF assms])

definition demo_memory :: memory where
  "demo_memory = (\<lambda>p. if p < 16 then Some (ucast p) else None)"

lemma demo_region:
  assumes "unat p + n \<le> 16" shows "region demo_memory p n"
proof -
  have le: "unat p + n \<le> 2 ^ 64" using assms by simp
  show ?thesis
    unfolding region_def
  proof (intro conjI allI impI le)
    fix i assume i: "i < n"
    then have "p + of_nat i < 16" using unat_region [OF le i] assms by (simp add: word_less_nat_alt)
    then show "demo_memory (p + of_nat i) \<noteq> None" by (simp add: demo_memory_def)
  qed
qed

theorem memmove_correct_witness:
  "\<exists>m'. memmove 2 0 8 demo_memory = Some (2, m') \<and> m' 9 = Some 7"
proof -
  have r: "region demo_memory 0 (unat (8::u64))" "region demo_memory 2 (unat (8::u64))"
    by (rule demo_region, simp)+
  from memmove_correct [OF r] obtain m' where m': "memmove 2 0 8 demo_memory = Some (2, m')"
    "copied 2 0 {..<unat (8::u64)} demo_memory m'" by blast
  have "(7::nat) \<in> {..<unat (8::u64)}" by simp
  with m'(2) have "m' (2 + of_nat 7) = demo_memory (0 + of_nat 7)" unfolding copied_def by blast
  then show ?thesis using m'(1) by (simp add: demo_memory_def)
qed

text \<open>
  C22: on regions that do not overlap (the contract of its \<open>restrict\<close> arguments) \<open>memcpy\<close> is
  \<open>memmove\<close>, memory for memory.
\<close>

theorem memcpy_eq_memmove:
  assumes src: "region m src (unat n)" and dest: "region m dest (unat n)"
    and apart: "unat src + unat n \<le> unat dest \<or> unat dest + unat n \<le> unat src"
  shows "memcpy dest src n m = memmove dest src n m"
proof -
  have sd: "unat src + unat n \<le> 2 ^ 64" "unat dest + unat n \<le> 2 ^ 64"
    using src dest by (auto simp: region_def)
  have "\<exists>m'. for_each (copy_byte dest src) [0..<unat n] m = Some m' \<and>
      copied dest src (set [0..<unat n]) m m'"
  proof (rule copy_loop [OF src dest])
    fix pre i rest j assume s: "[0..<unat n] = pre @ i # rest" and j: "j \<in> set pre"
    have "i \<in> set [0..<unat n]" "j \<in> set [0..<unat n]" unfolding s using j by simp_all
    then have i: "i < unat n" "j < unat n" by simp_all
    then show "src + of_nat i \<noteq> dest + of_nat j"
      using unat_region [OF sd(1) i(1)] unat_region [OF sd(2) i(2)] apart
      unfolding word_unat_eq_iff by auto
  qed auto
  then obtain m1 where m1: "for_each (copy_byte dest src) [0..<unat n] m = Some m1"
    "copied dest src {..<unat n} m m1" by (auto simp: atLeast0LessThan)
  from memmove_region [OF src dest] obtain m2 where m2: "memmove dest src n m = Some (dest, m2)"
    "copied dest src {..<unat n} m m2" by blast
  show ?thesis using m1(1) m2(1) copied_unique [OF m1(2) m2(2)] by (simp add: memcpy_def)
qed

theorem memcpy_eq_memmove_witness:
  "memcpy 8 0 8 demo_memory = memmove 8 0 8 demo_memory"
  using memcpy_eq_memmove [of demo_memory 0 8 8] demo_region [of 0 8] demo_region [of 8 8] by simp

section \<open>Filling\<close>

lemma memset_correct:
  assumes dest: "region m s (unat n)"
  shows "\<exists>m'. memset s c n m = Some (s, m') \<and> (\<forall>i<unat n. m' (s + of_nat i) = Some (ucast c)) \<and>
    (\<forall>q. (\<forall>i<unat n. q \<noteq> s + of_nat i) \<longrightarrow> m' q = m q)"
proof -
  let ?body = "\<lambda>i. store8 (s + of_nat i) (ucast c :: u8)"
  have "\<exists>m'. for_each ?body [0..<unat n] m = Some m' \<and>
      (\<forall>i\<in>set [0..<unat n]. m' (s + of_nat i) = Some (ucast c)) \<and>
      (\<forall>q. (\<forall>i\<in>set [0..<unat n]. q \<noteq> s + of_nat i) \<longrightarrow> m' q = m q)"
  proof (rule for_each_invariant [of "\<lambda>pre m'. (\<forall>i\<in>set pre. m' (s + of_nat i) = Some (ucast c)) \<and>
      (\<forall>q. (\<forall>i\<in>set pre. q \<noteq> s + of_nat i) \<longrightarrow> m' q = m q)"])
    fix pre i rest m'
    assume ix: "[0..<unat n] = pre @ i # rest"
      and inv: "(\<forall>i\<in>set pre. m' (s + of_nat i) = Some (ucast c)) \<and>
        (\<forall>q. (\<forall>i\<in>set pre. q \<noteq> s + of_nat i) \<longrightarrow> m' q = m q)"
    have "i \<in> set [0..<unat n]" unfolding ix by simp
    then have "m (s + of_nat i) \<noteq> None" using dest by (simp add: region_def)
    then have "m' (s + of_nat i) \<noteq> None"
      using inv by (cases "\<exists>j\<in>set pre. s + of_nat i = s + of_nat j") (fastforce simp del: add_left_cancel)+
    then have "?body i m' = Some (m'(s + of_nat i \<mapsto> ucast c))" by (simp add: store8_def)
    moreover have "\<forall>j\<in>set (pre @ [i]). (m'(s + of_nat i \<mapsto> ucast c)) (s + of_nat j) = Some (ucast c)"
      using inv by auto
    moreover have "\<forall>q. (\<forall>j\<in>set (pre @ [i]). q \<noteq> s + of_nat j) \<longrightarrow> (m'(s + of_nat i \<mapsto> ucast c)) q = m q"
      using inv by auto
    ultimately show "\<exists>m2. ?body i m' = Some m2 \<and> (\<forall>i\<in>set (pre @ [i]). m2 (s + of_nat i) = Some (ucast c)) \<and>
        (\<forall>q. (\<forall>i\<in>set (pre @ [i]). q \<noteq> s + of_nat i) \<longrightarrow> m2 q = m q)"
      by blast
  qed simp
  then show ?thesis by (fastforce simp: memset_def)
qed

section \<open>Comparing\<close>

definition byte_list :: "bytes \<Rightarrow> u64 \<Rightarrow> nat \<Rightarrow> u8 list" where
  "byte_list p i n = map (\<lambda>k. the (p (i + of_nat k))) [0..<n]"

lemma byte_list_Suc: "byte_list p i (Suc n) = the (p i) # byte_list p (i + 1) n"
proof -
  have "[0..<Suc n] = 0 # map Suc [0..<n]" by (simp add: upt_conv_Cons map_Suc_upt del: upt_Suc)
  then show ?thesis by (simp add: byte_list_def algebra_simps del: upt_Suc)
qed

lemma memcmp_loop_lists:
  assumes "\<forall>k<unat n. p1 (of_nat k) \<noteq> None \<and> p2 (of_nat k) \<noteq> None" "i \<le> n"
  shows "memcmp_loop p1 p2 n i =
    Some (compare_lists (byte_list p1 i (unat n - unat i)) (byte_list p2 i (unat n - unat i)))"
  using assms(2)
proof (induction "unat n - unat i" arbitrary: i)
  case 0
  then have "\<not> i < n" by (simp add: word_less_nat_alt word_le_nat_alt)
  then show ?case using 0(1) by (simp add: memcmp_loop.simps [of p1 p2 n i] byte_list_def)
next
  case (Suc d)
  then have lt: "i < n" by (simp add: word_less_nat_alt)
  note st = unat_index_step [OF lt]
  have d: "unat n - unat (i + 1) = d" using Suc.hyps(2) st by simp
  have le: "i + 1 \<le> n" using lt st by (simp add: word_less_nat_alt word_le_nat_alt)
  have "unat i < unat n" using lt by (simp add: word_less_nat_alt)
  then have "p1 (of_nat (unat i)) \<noteq> None \<and> p2 (of_nat (unat i)) \<noteq> None" using assms(1) by blast
  then obtain x y where xy: "p1 i = Some x" "p2 i = Some y" by auto
  have IH: "memcmp_loop p1 p2 n (i + 1) =
      Some (compare_lists (byte_list p1 (i + 1) d) (byte_list p2 (i + 1) d))"
    using Suc.hyps(1) [OF d [symmetric] le] d by simp
  show ?case
    unfolding Suc.hyps(2) [symmetric] byte_list_Suc
    using lt xy IH by (simp add: memcmp_loop.simps [of p1 p2 n i])
qed

text \<open>
  C23: the comparisons agree with the lexicographic order of the bytes they are given: \<open>strcmp\<close> of two
  terminated strings is 0, -1 or 1 as the first is equal to, before or after the second (a proper
  prefix is before), \<open>memcmp\<close> is the same for two regions of equal size, and neither touches a byte
  beyond the strings or regions.
\<close>

theorem comparisons_correct:
  "(cstr s1 0 xs \<longrightarrow> cstr s2 0 ys \<longrightarrow> strcmp s1 s2 = Some (compare_lists xs ys)) \<and>
   ((\<forall>k<unat n. p1 (of_nat k) \<noteq> None \<and> p2 (of_nat k) \<noteq> None) \<longrightarrow>
     memcmp p1 p2 n = Some (compare_lists (byte_list p1 0 (unat n)) (byte_list p2 0 (unat n))))"
  using strcmp_cstr [of s1 xs s2 ys] memcmp_loop_lists [of n p1 p2 0] by (simp add: memcmp_def)

theorem comparisons_correct_witness:
  "strcmp (lit ''uart'') (lit ''uart8250'') = Some (- 1) \<and>
   memcmp (lit ''abd'') (lit ''abc'') 3 = Some 1"
proof -
  have s: "cstr (lit ''uart'') 0 (text_bytes ''uart'')" "cstr (lit ''uart8250'') 0 (text_bytes ''uart8250'')"
    by code_simp+
  have r: "\<forall>k<unat (3::u64). lit ''abd'' (of_nat k) \<noteq> None \<and> lit ''abc'' (of_nat k) \<noteq> None"
    by (auto simp: lit_def unat_of_nat_small)
  have c: "compare_lists (text_bytes ''uart'') (text_bytes ''uart8250'') = - 1"
    "compare_lists (byte_list (lit ''abd'') 0 (unat (3::u64))) (byte_list (lit ''abc'') 0 (unat (3::u64))) = 1"
    by code_simp+
  show ?thesis
    using comparisons_correct [of "lit ''uart''" "text_bytes ''uart''" "lit ''uart8250''" "text_bytes ''uart8250''"
        3 "lit ''abd''" "lit ''abc''"] s r unfolding c by simp
qed

lemma strnlen_loop_cstr:
  "cstr s i xs \<Longrightarrow> unat i + length xs < 2 ^ 64 \<Longrightarrow> i \<le> n \<Longrightarrow>
   strnlen_loop s n i = Some (if unat i + length xs \<le> unat n then i + of_nat (length xs) else n)"
proof (induction xs arbitrary: i)
  case Nil
  then show ?case by (auto simp: strnlen_loop.simps [of s n i] word_le_nat_alt)
next
  case (Cons x xs)
  show ?case
  proof (cases "i < n")
    case True
    note st = unat_index_step [OF True]
    have le: "i + 1 \<le> n" using True st by (simp add: word_less_nat_alt word_le_nat_alt)
    have "strnlen_loop s n i = strnlen_loop s n (i + 1)"
      using Cons.prems(1) True by (simp add: strnlen_loop.simps [of s n i])
    also have "\<dots> = Some (if unat (i + 1) + length xs \<le> unat n then i + 1 + of_nat (length xs) else n)"
      by (rule Cons.IH) (use Cons.prems st le in simp_all)
    finally show ?thesis using st by (simp add: algebra_simps)
  next
    case False
    then have "i = n" using Cons.prems(3) by simp
    then show ?thesis by (simp add: strnlen_loop.simps [of s n n])
  qed
qed

text \<open>
  C24: the searches and lengths are those of the string: for a terminated string \<open>strlen\<close> is its
  length, \<open>strnlen\<close> the smaller of it and the bound, and \<open>strchr\<close> the first occurrence of the
  character (the terminator included), or NULL.
\<close>

theorem string_searches_correct:
  assumes s: "cstr s 0 xs" and small: "length xs < 2 ^ 64"
  shows "strlen s = Some (of_nat (length xs)) \<and> unat (of_nat (length xs) :: u64) = length xs \<and>
    strnlen s n = Some (if length xs \<le> unat n then of_nat (length xs) else n) \<and>
    strchr s c = Some (map_option of_nat
      (List.find (\<lambda>k. (xs @ [0]) ! k = ucast c) [0..<Suc (length xs)]))"
proof (intro conjI)
  show "strlen s = Some (of_nat (length xs))" by (rule strlen_cstr [OF s])
  show "unat (of_nat (length xs) :: u64) = length xs" by (rule unat_of_nat_small) (use small in simp)
  show "strnlen s n = Some (if length xs \<le> unat n then of_nat (length xs) else n)"
    using strnlen_loop_cstr [OF s, of n] small by (simp add: strnlen_def)
  show "strchr s c = Some (map_option of_nat
      (List.find (\<lambda>k. (xs @ [0]) ! k = ucast c) [0..<Suc (length xs)]))"
    by (cases "List.find (\<lambda>k. (xs @ [0]) ! k = ucast c) [0..<Suc (length xs)]")
      (simp_all add: strchr_def strchr_loop_cstr [OF s] del: upt_Suc)
qed

theorem string_searches_correct_witness:
  "strlen (lit ''uart0:115200'') = Some 12 \<and> strchr (lit ''uart0:115200'') (of_char (CHR '':'')) = Some (Some 5)"
proof -
  have s: "cstr (lit ''uart0:115200'') 0 (text_bytes ''uart0:115200'')" by code_simp
  have "strlen (lit ''uart0:115200'') = Some (of_nat 12)" "strchr (lit ''uart0:115200'') (of_char (CHR '':'')) =
    Some (map_option of_nat (List.find (\<lambda>k. (text_bytes ''uart0:115200'' @ [0]) ! k = ucast (of_char (CHR '':'') :: u32))
      [0..<Suc (length (text_bytes ''uart0:115200''))]))"
    using string_searches_correct [OF s, of 0 "of_char (CHR '':'')"] by (simp_all add: text_bytes_def)
  moreover have "List.find (\<lambda>k. (text_bytes ''uart0:115200'' @ [0]) ! k = ucast (of_char (CHR '':'') :: u32))
      [0..<Suc (length (text_bytes ''uart0:115200''))] = Some 5" by code_simp
  ultimately show ?thesis by simp
qed

end
