(* ===== verification/Fdt.thy ===== *)
theory Fdt
  imports CString
begin

text \<open>
  \<open>kernel/src/dev/fdt.c\<close> and \<open>fdt.h\<close>: the reader of the flattened device tree blob.

  The blob lies in \<open>memory\<close> at absolute addresses, and every read of it goes through the memory,
  so that a read outside every object is \<open>None\<close>.  A pointer difference such as
  \<open>(size_t)(end - cursor)\<close> is the wrapping subtraction of addresses.

  A function that returns \<open>bool\<close> and fills an object only when it returns true gives
  \<open>Some (Some x)\<close> for true with the object set to \<open>x\<close>, and \<open>Some None\<close> for false.  A pointer that
  the code compares with NULL is an \<open>option\<close>; for an object that is only filled it is \<open>out\<close>, which
  says whether there is one.
\<close>

type_synonym out = "unit option"

section \<open>Constants and data\<close>

definition FDT_MAGIC :: u32 where "FDT_MAGIC = 0xd00dfeed"
definition FDT_BEGIN_NODE :: u32 where "FDT_BEGIN_NODE = 1"
definition FDT_END_NODE :: u32 where "FDT_END_NODE = 2"
definition FDT_PROP :: u32 where "FDT_PROP = 3"
definition FDT_NOP :: u32 where "FDT_NOP = 4"
definition FDT_END :: u32 where "FDT_END = 9"
definition FDT_DEFAULT_ADDRESS_CELLS :: u32 where "FDT_DEFAULT_ADDRESS_CELLS = 2"
definition FDT_DEFAULT_SIZE_CELLS :: u32 where "FDT_DEFAULT_SIZE_CELLS = 1"
definition FDT_MAX_DEPTH :: u32 where "FDT_MAX_DEPTH = 32"
definition FDT_MAX_PATH :: u64 where "FDT_MAX_PATH = 256"

text \<open>The fields of \<open>struct fdt_header\<close>, all of type \<open>uint32_t\<close>, in their order.\<close>

datatype fdt_header = magic | totalsize | off_dt_struct | off_dt_strings | off_mem_rsvmap
  | version | last_comp_version | boot_cpuid_phys | size_dt_strings | size_dt_struct

fun header_offset :: "fdt_header \<Rightarrow> u64" where
  "header_offset magic = 0" | "header_offset totalsize = 4"
| "header_offset off_dt_struct = 8" | "header_offset off_dt_strings = 12"
| "header_offset off_mem_rsvmap = 16" | "header_offset version = 20"
| "header_offset last_comp_version = 24" | "header_offset boot_cpuid_phys = 28"
| "header_offset size_dt_strings = 32" | "header_offset size_dt_struct = 36"

record fdt =
  blob :: u64
  struct_block :: u64
  struct_block_end :: u64
  strings_block :: u64
  strings_size :: u64

record fdt_node =
  struct_offset :: u32
  parent_address_cells :: u32
  parent_size_cells :: u32

record fdt_prop =
  prop_data :: u64
  prop_len :: u32

record fdt_walk_frame =
  frame_path_len :: u64
  child_address_cells :: u32
  child_size_cells :: u32

record fdt_walk_state =
  walk_fdt :: fdt
  walk_cursor :: u64
  walk_path :: bytes
  walk_frames :: "fdt_walk_frame list"
  walk_depth :: u32
  walk_path_len :: u64

section \<open>Reading the blob\<close>

definition fdt_read_be32 :: "memory \<Rightarrow> u64 \<Rightarrow> u32 option" where
  "fdt_read_be32 m p = do {
     b0 \<leftarrow> m p; b1 \<leftarrow> m (p + 1); b2 \<leftarrow> m (p + 2); b3 \<leftarrow> m (p + 3);
     Some (push_bit 24 (ucast b0) OR push_bit 16 (ucast b1) OR push_bit 8 (ucast b2) OR ucast b3) }"

definition fdt_copy_string :: "u64 \<Rightarrow> u64 \<Rightarrow> u64 \<Rightarrow> u64 \<Rightarrow> memory \<Rightarrow> (bool \<times> memory) option" where
  "fdt_copy_string buffer buffer_size s n m =
     (if buffer_size = 0 \<or> n + 1 > buffer_size then Some (False, m)
      else do {
        (_, m) \<leftarrow> memcpy buffer s n m;
        m \<leftarrow> store8 (buffer + n) 0 m;
        Some (True, m) })"

definition fdt_align4 :: "u64 \<Rightarrow> u64" where
  "fdt_align4 p = (p + 3) AND NOT 3"

definition fdt_bounded_strlen :: "memory \<Rightarrow> u64 \<Rightarrow> u64 \<Rightarrow> (bool \<times> u64) option" where
  "fdt_bounded_strlen m s limit = do {
     n \<leftarrow> strnlen (bytes_at m s) (limit - s);
     Some (s + n < limit, n) }"

definition fdt_range_valid :: "u64 \<Rightarrow> u32 \<Rightarrow> u32 \<Rightarrow> bool" where
  "fdt_range_valid total_size offset sz \<longleftrightarrow>
     ucast offset \<le> total_size \<and> ucast sz \<le> total_size - ucast offset"

function prop_name_loop :: "memory \<Rightarrow> fdt \<Rightarrow> u64 \<Rightarrow> bool option" where
  "prop_name_loop m fdt idx =
     (if idx < strings_size fdt then do {
        c \<leftarrow> m (strings_block fdt + idx);
        if c = 0 then Some True else prop_name_loop m fdt (idx + 1) }
      else Some False)"
  by pat_completeness auto
termination
proof (relation "measure (\<lambda>(m, fdt, idx). unat (strings_size fdt) - unat idx)", goal_cases)
  case (2 m fdt idx c)
  then show ?case using unat_index_step [of idx "strings_size fdt"] by (simp add: word_less_nat_alt)
qed simp

declare prop_name_loop.simps [simp del]

definition fdt_prop_name_valid :: "memory \<Rightarrow> fdt \<Rightarrow> u32 \<Rightarrow> bool option" where
  "fdt_prop_name_valid m fdt nameoff =
     (if ucast nameoff \<ge> strings_size fdt then Some False
      else prop_name_loop m fdt (ucast nameoff))"

definition fdt_prop_is_string :: "memory \<Rightarrow> fdt_prop \<Rightarrow> bool option" where
  "fdt_prop_is_string m prop =
     (if prop_len prop > 0 then do { c \<leftarrow> m (prop_data prop + ucast (prop_len prop - 1)); Some (c = 0) }
      else Some False)"

definition fdt_prop_get_u32 :: "memory \<Rightarrow> fdt_prop \<Rightarrow> u32 option option" where
  "fdt_prop_get_u32 m prop =
     (if prop_len prop \<noteq> 4 then Some None
      else do { v \<leftarrow> fdt_read_be32 m (prop_data prop); Some (Some v) })"

section \<open>The walk over the nodes\<close>

text \<open>\<open>memset\<close> leaves a zero path, zero frames and a zero depth.\<close>

definition zero_frame :: fdt_walk_frame where
  "zero_frame = \<lparr>frame_path_len = 0, child_address_cells = 0, child_size_cells = 0\<rparr>"

definition fdt_walk_init :: "fdt \<Rightarrow> fdt_walk_state" where
  "fdt_walk_init fdt = \<lparr>walk_fdt = fdt, walk_cursor = struct_block fdt,
     walk_path = (\<lambda>i. if i < FDT_MAX_PATH then Some 0 else None),
     walk_frames = replicate (unat FDT_MAX_DEPTH) zero_frame, walk_depth = 0, walk_path_len = 0\<rparr>"

definition frame_at :: "fdt_walk_state \<Rightarrow> u32 \<Rightarrow> fdt_walk_frame option" where
  "frame_at st i = (if unat i < length (walk_frames st) then Some (walk_frames st ! unat i) else None)"

definition set_frame :: "u32 \<Rightarrow> fdt_walk_frame \<Rightarrow> fdt_walk_state \<Rightarrow> fdt_walk_state option" where
  "set_frame i f st =
     (if unat i < length (walk_frames st) then Some (st\<lparr>walk_frames := (walk_frames st)[unat i := f]\<rparr>)
      else None)"

definition set_path :: "u64 \<Rightarrow> u8 \<Rightarrow> fdt_walk_state \<Rightarrow> fdt_walk_state option" where
  "set_path i c st = do { p \<leftarrow> store8 i c (walk_path st); Some (st\<lparr>walk_path := p\<rparr>) }"

text \<open>
  A turn of the loop of \<open>fdt_walk_next_node\<close> either goes on or returns; \<open>Return st None\<close> is
  \<open>return false\<close>, and \<open>Return st (Some node)\<close> is \<open>return true\<close> with the three out parameters.
\<close>

datatype walk_step = Continue fdt_walk_state | Return fdt_walk_state "fdt_node option"

text \<open>The part of \<open>FDT_BEGIN_NODE\<close> that extends the path: false where the path does not fit.\<close>

definition walk_push_slash :: "fdt_walk_state \<Rightarrow> (bool \<times> u64 \<times> fdt_walk_state) option" where
  "walk_push_slash st = (let new_len = walk_path_len st in do {
     slash \<leftarrow> (if new_len = 0 then Some True
               else do { c \<leftarrow> walk_path st (new_len - 1); Some (c \<noteq> of_char (CHR ''/'')) });
     if \<not> slash then Some (True, new_len, st)
     else if new_len + 1 \<ge> FDT_MAX_PATH then Some (False, new_len, st)
     else do { st \<leftarrow> set_path new_len (of_char (CHR ''/'')) st; Some (True, new_len + 1, st) } })"

definition walk_push_path :: "memory \<Rightarrow> u64 \<Rightarrow> u64 \<Rightarrow> fdt_walk_state \<Rightarrow> (bool \<times> fdt_walk_state) option" where
  "walk_push_path m name name_len st =
     (if walk_depth st = 0 then do {
        st \<leftarrow> set_path 0 (of_char (CHR ''/'')) st;
        st \<leftarrow> set_path 1 0 st;
        Some (True, st\<lparr>walk_path_len := 1\<rparr>) }
      else do {
        (fits, new_len, st) \<leftarrow> walk_push_slash st;
        if \<not> fits then Some (False, st)
        else if new_len + name_len \<ge> FDT_MAX_PATH then Some (False, st)
        else do {
          st \<leftarrow> for_each (\<lambda>i st. do { c \<leftarrow> m (name + of_nat i); set_path (new_len + of_nat i) c st })
            [0..<unat name_len] st;
          st \<leftarrow> set_path (new_len + name_len) 0 st;
          Some (True, st\<lparr>walk_path_len := new_len + name_len\<rparr>) } })"

text \<open>The two parent cell counts that the call returns.\<close>

definition walk_parent_cells :: "fdt_walk_state \<Rightarrow> (u32 \<times> u32) option" where
  "walk_parent_cells st = (if walk_depth st > 0 then do {
       f \<leftarrow> frame_at st (walk_depth st - 1); Some (child_address_cells f, child_size_cells f) }
     else Some (FDT_DEFAULT_ADDRESS_CELLS, FDT_DEFAULT_SIZE_CELLS))"

definition walk_begin_node :: "memory \<Rightarrow> u64 \<Rightarrow> fdt_walk_state \<Rightarrow> walk_step option" where
  "walk_begin_node m token_ptr st = (let fdt = walk_fdt st; name = walk_cursor st in
     if walk_depth st \<ge> FDT_MAX_DEPTH then Some (Return st None)
     else do {
       (ends, name_len) \<leftarrow> fdt_bounded_strlen m name (struct_block_end fdt);
       if \<not> ends then Some (Return st None)
       else do {
         (ac, sc) \<leftarrow> walk_parent_cells st;
         st \<leftarrow> set_frame (walk_depth st) \<lparr>frame_path_len = walk_path_len st,
           child_address_cells = FDT_DEFAULT_ADDRESS_CELLS, child_size_cells = FDT_DEFAULT_SIZE_CELLS\<rparr> st;
         (fits, st) \<leftarrow> walk_push_path m name name_len st;
         if \<not> fits then Some (Return st None)
         else
           let st = st\<lparr>walk_depth := walk_depth st + 1, walk_cursor := fdt_align4 (name + name_len + 1)\<rparr> in
           if walk_cursor st > struct_block_end fdt then Some (Return st None)
           else Some (Return st (Some \<lparr>struct_offset = ucast (token_ptr - struct_block fdt),
             parent_address_cells = ac, parent_size_cells = sc\<rparr>)) } })"

definition walk_end_node :: "fdt_walk_state \<Rightarrow> walk_step option" where
  "walk_end_node st =
     (if walk_depth st = 0 then Some (Return st None)
      else do {
        let st = st\<lparr>walk_depth := walk_depth st - 1\<rparr>;
        f \<leftarrow> frame_at st (walk_depth st);
        let st = st\<lparr>walk_path_len := frame_path_len f\<rparr>;
        st \<leftarrow> set_path (walk_path_len st) 0 st;
        Some (Continue st) })"

text \<open>The cell counts of the children are those of the node whose property this is.\<close>

definition walk_set_cells :: "memory \<Rightarrow> fdt_prop \<Rightarrow> (u32 \<Rightarrow> fdt_walk_frame \<Rightarrow> fdt_walk_frame) \<Rightarrow>
    fdt_walk_state \<Rightarrow> walk_step option" where
  "walk_set_cells m prop upd st = do {
     v \<leftarrow> fdt_prop_get_u32 m prop;
     case v of
       None \<Rightarrow> Some (Return st None)
     | Some v \<Rightarrow> do {
         f \<leftarrow> frame_at st (walk_depth st - 1);
         st \<leftarrow> set_frame (walk_depth st - 1) (upd v f) st;
         Some (Continue st) } }"

definition walk_prop :: "memory \<Rightarrow> fdt_walk_state \<Rightarrow> walk_step option" where
  "walk_prop m st = (let fdt = walk_fdt st in
     if struct_block_end fdt - walk_cursor st < 8 then Some (Return st None)
     else do {
       n \<leftarrow> fdt_read_be32 m (walk_cursor st);
       nameoff \<leftarrow> fdt_read_be32 m (walk_cursor st + 4);
       let st = st\<lparr>walk_cursor := walk_cursor st + 8\<rparr>;
       valid \<leftarrow> (if struct_block_end fdt - walk_cursor st < ucast n then Some False
                 else fdt_prop_name_valid m fdt nameoff);
       if \<not> valid \<or> walk_depth st = 0 then Some (Return st None)
       else do {
         let prop = \<lparr>prop_data = walk_cursor st, prop_len = n\<rparr>;
         let prop_name = bytes_at m (strings_block fdt + ucast nameoff);
         let st = st\<lparr>walk_cursor := fdt_align4 (walk_cursor st + ucast n)\<rparr>;
         c \<leftarrow> strcmp prop_name (lit ''#address-cells'');
         if c = 0 then walk_set_cells m prop (\<lambda>v f. f\<lparr>child_address_cells := v\<rparr>) st
         else do {
           c \<leftarrow> strcmp prop_name (lit ''#size-cells'');
           if c = 0 then walk_set_cells m prop (\<lambda>v f. f\<lparr>child_size_cells := v\<rparr>) st
           else Some (Continue st) } } })"

text \<open>One turn of the loop, entered with \<open>cursor < struct_block_end\<close>.\<close>

definition walk_turn :: "memory \<Rightarrow> fdt_walk_state \<Rightarrow> walk_step option" where
  "walk_turn m st = (let token_ptr = walk_cursor st in
     if struct_block_end (walk_fdt st) - walk_cursor st < 4 then Some (Return st None)
     else do {
       token \<leftarrow> fdt_read_be32 m (walk_cursor st);
       let st = st\<lparr>walk_cursor := walk_cursor st + 4\<rparr>;
       if token = FDT_BEGIN_NODE then walk_begin_node m token_ptr st
       else if token = FDT_END_NODE then walk_end_node st
       else if token = FDT_PROP then walk_prop m st
       else if token = FDT_NOP then Some (Continue st)
       else if token = FDT_END then Some (Return st None)
       else Some (Return st None) })"

partial_function (option) fdt_walk_next_node ::
    "memory \<Rightarrow> fdt_walk_state \<Rightarrow> (fdt_walk_state \<times> fdt_node option) option" where
  "fdt_walk_next_node m st =
     (if walk_cursor st < struct_block_end (walk_fdt st) then do {
        r \<leftarrow> walk_turn m st;
        case r of
          Continue st \<Rightarrow> fdt_walk_next_node m st
        | Return st node \<Rightarrow> Some (st, node) }
      else Some (st, None))"

section \<open>Opening a blob\<close>

definition read_header :: "memory \<Rightarrow> u64 \<Rightarrow> fdt_header \<Rightarrow> u32 option" where
  "read_header m header field = fdt_read_be32 m (header + header_offset field)"

definition fdt_init :: "memory \<Rightarrow> out \<Rightarrow> u64 \<Rightarrow> fdt option option" where
  "fdt_init m fdt dtb =
     (if fdt = None \<or> dtb = 0 then Some None
      else do {
        mg \<leftarrow> read_header m dtb magic;
        if mg \<noteq> FDT_MAGIC then Some None
        else do {
          total \<leftarrow> read_header m dtb totalsize;
          ostruct \<leftarrow> read_header m dtb off_dt_struct;
          ostrings \<leftarrow> read_header m dtb off_dt_strings;
          sstruct \<leftarrow> read_header m dtb size_dt_struct;
          sstrings \<leftarrow> read_header m dtb size_dt_strings;
          let total_size = ucast total;
          if \<not> fdt_range_valid total_size ostruct sstruct \<or> \<not> fdt_range_valid total_size ostrings sstrings
          then Some None
          else Some (Some \<lparr>blob = dtb, struct_block = dtb + ucast ostruct,
            struct_block_end = dtb + ucast ostruct + ucast sstruct,
            strings_block = dtb + ucast ostrings, strings_size = ucast sstrings\<rparr>) } })"

section \<open>The properties of a node\<close>

definition fdt_node_payload :: "memory \<Rightarrow> fdt \<Rightarrow> fdt_node \<Rightarrow> u64 option option" where
  "fdt_node_payload m fdt node = (let cursor = struct_block fdt + ucast (struct_offset node) in do {
     begins \<leftarrow> (if cursor + 4 > struct_block_end fdt then Some False
       else do { token \<leftarrow> fdt_read_be32 m cursor; Some (token = FDT_BEGIN_NODE) });
     if \<not> begins then Some None
     else do {
       (ends, name_len) \<leftarrow> fdt_bounded_strlen m (cursor + 4) (struct_block_end fdt);
       if \<not> ends then Some None
       else
         let cursor = fdt_align4 (cursor + 4 + name_len + 1) in
         Some (if cursor > struct_block_end fdt then None else Some cursor) } })"

text \<open>A turn of the loop goes on at a cursor and a depth, or returns.\<close>

datatype prop_step = Go u64 u32 | Give "fdt_prop option"

definition property_turn :: "memory \<Rightarrow> fdt \<Rightarrow> bytes \<Rightarrow> u64 \<Rightarrow> u32 \<Rightarrow> prop_step option" where
  "property_turn m fdt name cursor depth = do {
     token \<leftarrow> fdt_read_be32 m cursor;
     let cursor = cursor + 4;
     if token = FDT_BEGIN_NODE then do {
       (ends, n) \<leftarrow> fdt_bounded_strlen m cursor (struct_block_end fdt);
       Some (if \<not> ends then Give None else Go (fdt_align4 (cursor + n + 1)) (depth + 1)) }
     else if token = FDT_END_NODE then
       Some (if depth = 0 then Give None else Go cursor (depth - 1))
     else if token = FDT_PROP then
       if struct_block_end fdt - cursor < 8 then Some (Give None)
       else do {
         n \<leftarrow> fdt_read_be32 m cursor;
         nameoff \<leftarrow> fdt_read_be32 m (cursor + 4);
         let cursor = cursor + 8;
         valid \<leftarrow> (if struct_block_end fdt - cursor < ucast n then Some False
                   else fdt_prop_name_valid m fdt nameoff);
         if \<not> valid then Some (Give None)
         else do {
           same \<leftarrow> (if depth = 0 then do {
               c \<leftarrow> strcmp (bytes_at m (strings_block fdt + ucast nameoff)) name; Some (c = 0) }
             else Some False);
           Some (if same then Give (Some \<lparr>prop_data = cursor, prop_len = n\<rparr>)
                 else Go (fdt_align4 (cursor + ucast n)) depth) } }
     else if token = FDT_NOP then Some (Go cursor depth)
     else if token = FDT_END then Some (Give None)
     else Some (Give None) }"

partial_function (option) property_loop ::
    "memory \<Rightarrow> fdt \<Rightarrow> bytes \<Rightarrow> u64 \<Rightarrow> u32 \<Rightarrow> fdt_prop option option" where
  "property_loop m fdt name cursor depth =
     (if cursor < struct_block_end fdt then do {
        r \<leftarrow> property_turn m fdt name cursor depth;
        case r of Go cursor depth \<Rightarrow> property_loop m fdt name cursor depth | Give p \<Rightarrow> Some p }
      else Some None)"

definition fdt_get_property ::
    "memory \<Rightarrow> fdt option \<Rightarrow> fdt_node option \<Rightarrow> bytes option \<Rightarrow> out \<Rightarrow> fdt_prop option option" where
  "fdt_get_property m fdt node name out_prop =
     (case (fdt, node, name, out_prop) of
        (Some fdt, Some node, Some name, Some _) \<Rightarrow> do {
          payload \<leftarrow> fdt_node_payload m fdt node;
          case payload of None \<Rightarrow> Some None | Some cursor \<Rightarrow> property_loop m fdt name cursor 0 }
      | _ \<Rightarrow> Some None)"

text \<open>\<open>offset\<close> counts through the strings of the property; \<open>compatible\<close> is used without a check.\<close>

partial_function (option) compatible_loop :: "memory \<Rightarrow> fdt_prop \<Rightarrow> bytes option \<Rightarrow> u64 \<Rightarrow> bool option" where
  "compatible_loop m prop compatible offset =
     (if offset < ucast (prop_len prop) then do {
        let entry = bytes_at m (prop_data prop + offset);
        n \<leftarrow> strlen entry;
        if offset + n \<ge> ucast (prop_len prop) then Some False
        else do {
          c \<leftarrow> compatible;
          r \<leftarrow> strcmp entry c;
          if r = 0 then Some True else compatible_loop m prop compatible (offset + (n + 1)) } }
      else Some False)"

definition fdt_node_has_compatible ::
    "memory \<Rightarrow> fdt option \<Rightarrow> fdt_node option \<Rightarrow> bytes option \<Rightarrow> bool option" where
  "fdt_node_has_compatible m fdt node compatible = do {
     prop \<leftarrow> fdt_get_property m fdt node (Some (lit ''compatible'')) (Some ());
     case prop of None \<Rightarrow> Some False | Some prop \<Rightarrow> compatible_loop m prop compatible 0 }"

section \<open>Finding a node\<close>

partial_function (option) find_path_loop :: "memory \<Rightarrow> bytes \<Rightarrow> fdt_walk_state \<Rightarrow> fdt_node option option" where
  "find_path_loop m path st = do {
     (st, node) \<leftarrow> fdt_walk_next_node m st;
     case node of
       None \<Rightarrow> Some None
     | Some node \<Rightarrow> do {
         c \<leftarrow> strcmp (walk_path st) path;
         if c = 0 then Some (Some node) else find_path_loop m path st } }"

definition fdt_find_node_by_path :: "memory \<Rightarrow> fdt option \<Rightarrow> bytes option \<Rightarrow> out \<Rightarrow> fdt_node option option" where
  "fdt_find_node_by_path m fdt path out_node =
     (case (fdt, path, out_node) of
        (Some fdt, Some path, Some _) \<Rightarrow> find_path_loop m path (fdt_walk_init fdt)
      | _ \<Rightarrow> Some None)"

partial_function (option) find_compatible_loop ::
    "memory \<Rightarrow> fdt \<Rightarrow> bytes \<Rightarrow> fdt_walk_state \<Rightarrow> fdt_node option option" where
  "find_compatible_loop m fdt compatible st = do {
     (st, node) \<leftarrow> fdt_walk_next_node m st;
     case node of
       None \<Rightarrow> Some None
     | Some node \<Rightarrow> do {
         has \<leftarrow> fdt_node_has_compatible m (Some fdt) (Some node) (Some compatible);
         if has then Some (Some node) else find_compatible_loop m fdt compatible st } }"

definition fdt_find_compatible :: "memory \<Rightarrow> fdt option \<Rightarrow> bytes option \<Rightarrow> out \<Rightarrow> fdt_node option option" where
  "fdt_find_compatible m fdt compatible out_node =
     (case (fdt, compatible, out_node) of
        (Some fdt, Some compatible, Some _) \<Rightarrow> find_compatible_loop m fdt compatible (fdt_walk_init fdt)
      | _ \<Rightarrow> Some None)"

section \<open>Decoding\<close>

text \<open>\<open>(addr << 32) | fdt_read_be32(cells)\<close> over \<open>n\<close> cells; the result holds the advanced pointer.\<close>

definition read_cells :: "memory \<Rightarrow> u32 \<Rightarrow> u64 \<Rightarrow> (u64 \<times> u64) option" where
  "read_cells m n cells =
     for_each (\<lambda>_ (v, cells). do {
         c \<leftarrow> fdt_read_be32 m cells;
         Some (push_bit 32 v OR ucast c, cells + 4) }) [0..<unat n] (0, cells)"

definition fdt_get_reg :: "memory \<Rightarrow> fdt option \<Rightarrow> fdt_node option \<Rightarrow> u32 \<Rightarrow> out \<Rightarrow> out \<Rightarrow>
    (u64 \<times> u64) option option" where
  "fdt_get_reg m fdt node index out_addr out_size =
     (case (fdt, node, out_addr, out_size) of
        (Some fdt, Some node, Some _, Some _) \<Rightarrow> do {
          prop \<leftarrow> fdt_get_property m (Some fdt) (Some node) (Some (lit ''reg'')) (Some ());
          case prop of
            None \<Rightarrow> Some None
          | Some prop \<Rightarrow>
              if parent_address_cells node > 2 \<or> parent_size_cells node > 2 then Some None
              else let entry_cells = parent_address_cells node + parent_size_cells node in
                if entry_cells = 0 \<or> prop_len prop mod 4 \<noteq> 0 then Some None
                else let cell_count = prop_len prop div 4 in
                  if (index + 1) * entry_cells > cell_count then Some None
                  else do {
                    let cells = prop_data prop + ucast (index * entry_cells) * 4;
                    (addr, cells) \<leftarrow> read_cells m (parent_address_cells node) cells;
                    (sz, cells) \<leftarrow> read_cells m (parent_size_cells node) cells;
                    Some (Some (addr, sz)) } }
      | _ \<Rightarrow> Some None)"

text \<open>The second name is tried where the first is missing; the length is that of the part before a colon.\<close>

definition stdout_property :: "memory \<Rightarrow> fdt option \<Rightarrow> fdt_node option \<Rightarrow> fdt_prop option option" where
  "stdout_property m fdt chosen = do {
     prop \<leftarrow> fdt_get_property m fdt chosen (Some (lit ''stdout-path'')) (Some ());
     if prop \<noteq> None then Some prop
     else fdt_get_property m fdt chosen (Some (lit ''linux,stdout-path'')) (Some ()) }"

definition length_before_colon :: "bytes \<Rightarrow> u64 option" where
  "length_before_colon stdout_path = do {
     colon \<leftarrow> strchr stdout_path (of_char (CHR '':''));
     case colon of Some k \<Rightarrow> Some k | None \<Rightarrow> strlen stdout_path }"

definition fdt_get_stdout_path :: "memory \<Rightarrow> fdt option \<Rightarrow> u64 \<Rightarrow> u64 \<Rightarrow> (bool \<times> memory) option" where
  "fdt_get_stdout_path m fdt buffer buffer_size =
     (if fdt = None \<or> buffer = 0 then Some (False, m)
      else do {
        chosen \<leftarrow> fdt_find_node_by_path m fdt (Some (lit ''/chosen'')) (Some ());
        if chosen = None then Some (False, m)
        else do {
          prop \<leftarrow> stdout_property m fdt chosen;
          case prop of
            None \<Rightarrow> Some (False, m)
          | Some prop \<Rightarrow> do {
              is_string \<leftarrow> fdt_prop_is_string m prop;
              if \<not> is_string then Some (False, m)
              else do {
                n \<leftarrow> length_before_colon (bytes_at m (prop_data prop));
                fdt_copy_string buffer buffer_size (prop_data prop) n m } } } })"

definition fdt_resolve_alias ::
    "memory \<Rightarrow> fdt option \<Rightarrow> bytes option \<Rightarrow> u64 \<Rightarrow> u64 \<Rightarrow> (bool \<times> memory) option" where
  "fdt_resolve_alias m fdt alias buffer buffer_size =
     (if fdt = None \<or> alias = None \<or> buffer = 0 then Some (False, m)
      else do {
        aliases \<leftarrow> fdt_find_node_by_path m fdt (Some (lit ''/aliases'')) (Some ());
        if aliases = None then Some (False, m)
        else do {
          prop \<leftarrow> fdt_get_property m fdt aliases alias (Some ());
          case prop of
            None \<Rightarrow> Some (False, m)
          | Some prop \<Rightarrow> do {
              is_string \<leftarrow> fdt_prop_is_string m prop;
              if \<not> is_string then Some (False, m)
              else do {
                n \<leftarrow> strlen (bytes_at m (prop_data prop));
                fdt_copy_string buffer buffer_size (prop_data prop) n m } } } })"

definition fdt_get_u32 ::
    "memory \<Rightarrow> fdt option \<Rightarrow> fdt_node option \<Rightarrow> bytes option \<Rightarrow> out \<Rightarrow> u32 option option" where
  "fdt_get_u32 m fdt node name out_value =
     (if fdt = None \<or> node = None \<or> name = None \<or> out_value = None then Some None
      else do {
        prop \<leftarrow> fdt_get_property m fdt node name (Some ());
        case prop of None \<Rightarrow> Some None | Some prop \<Rightarrow> fdt_prop_get_u32 m prop })"

declare fdt_walk_next_node.simps [code] property_loop.simps [code] compatible_loop.simps [code]
  find_path_loop.simps [code] find_compatible_loop.simps [code]

end
