(* ===== verification/FdtBytes.thy ===== *)
theory FdtBytes
  imports Fdt CStringProps
begin

text \<open>
  Facts on the reading functions of the device tree code: byte lists in memory (\<open>holds\<close>),
  alignment, 32-bit big-endian words and bounded strings.  A blob is \<open>fdt_placed\<close> where its two
  blocks are accessible and end below the top 8 GiB of the address space, so that no cursor wraps.
\<close>

section \<open>Byte lists\<close>

definition holds :: "bytes \<Rightarrow> u64 \<Rightarrow> u8 list \<Rightarrow> bool" where
  "holds s i xs \<longleftrightarrow> (\<forall>k<length xs. s (i + of_nat k) = Some (xs ! k))"

lemma holds_Nil [simp]: "holds s i []"
  by (simp add: holds_def)

lemma holds_Cons [simp]: "holds s i (x # xs) \<longleftrightarrow> s i = Some x \<and> holds s (i + 1) xs"
proof -
  have "(\<forall>k<Suc (length xs). s (i + of_nat k) = Some ((x # xs) ! k)) \<longleftrightarrow>
      s i = Some x \<and> (\<forall>k<length xs. s (i + of_nat (Suc k)) = Some (xs ! k))"
    by (subst All_less_Suc2) simp
  then show ?thesis by (simp add: holds_def algebra_simps)
qed

lemma holds_append [simp]: "holds s i (xs @ ys) \<longleftrightarrow> holds s i xs \<and> holds s (i + of_nat (length xs)) ys"
  by (induction xs arbitrary: i) (auto simp: algebra_simps)

lemma holds_shift: "holds (bytes_at m p) i xs \<longleftrightarrow> holds m (p + i) xs"
  by (simp add: holds_def bytes_at_def algebra_simps)

lemma cstr_holds: "cstr s i xs \<longleftrightarrow> holds s i (xs @ [0]) \<and> 0 \<notin> set xs"
  by (induction xs arbitrary: i) auto

lemma cstr_inj: "cstr s i xs \<Longrightarrow> cstr s i ys \<Longrightarrow> xs = ys"
proof (induction xs arbitrary: i ys)
  case Nil
  then show ?case by (cases ys) auto
next
  case (Cons x xs)
  then show ?case by (cases ys) auto
qed

lemma cstr_bytes_at: "cstr (bytes_at m p) i xs \<longleftrightarrow> cstr m (p + i) xs"
  by (induction xs arbitrary: i) (auto simp: bytes_at_def algebra_simps)

lemma holds_exists:
  assumes "\<forall>k<n. s (i + of_nat k) \<noteq> None"
  obtains xs where "length xs = n" "holds s i xs"
  using that [of "map (\<lambda>k. the (s (i + of_nat k))) [0..<n]"] assms by (simp add: holds_def)

text \<open>Bytes of which one is zero hold a string that ends there at the latest.\<close>

lemma holds_cstr:
  assumes "holds s i xs" "k < length xs" "xs ! k = 0"
  obtains ys where "cstr s i ys" "length ys \<le> k"
  using assms
proof (induction xs arbitrary: i k thesis)
  case Nil
  then show ?case by simp
next
  case (Cons x xs)
  show ?case
  proof (cases "x = 0")
    case True
    then show ?thesis using Cons.prems by (intro Cons.prems(1) [of "[]"]) auto
  next
    case False
    then obtain k' where k: "k = Suc k'" using Cons.prems(4) by (cases k) auto
    from Cons.IH [of "i + 1" k'] Cons.prems k obtain ys where "cstr s (i + 1) ys" "length ys \<le> k'" by auto
    then show ?thesis using False Cons.prems(2) k by (intro Cons.prems(1) [of "x # ys"]) auto
  qed
qed

section \<open>Alignment\<close>

lemma unat_align4:
  assumes "unat p + 3 < 2 ^ 64"
  shows "unat (fdt_align4 p) = (unat p + 3) div 4 * 4"
proof -
  have "(3::u64) = mask 2" by (simp add: mask_numeral)
  then have "unat (fdt_align4 p) = unat (p + 3) div 4 * 4"
    using unat_align [of "p + 3" 2] by (simp add: fdt_align4_def)
  then show ?thesis using unat_add_nowrap [of p 3] assms by simp
qed

lemma align4_bounds:
  assumes "unat p + 3 < 2 ^ 64"
  shows "unat p \<le> unat (fdt_align4 p)" "unat (fdt_align4 p) \<le> unat p + 3" "unat (fdt_align4 p) mod 4 = 0"
  using unat_align4 [OF assms] by presburger+

section \<open>Accessible bytes\<close>

lemma region_sub:
  assumes "region m p n" "unat p \<le> unat q" "unat q + k \<le> unat p + n"
  shows "region m q k"
proof -
  have "m (q + of_nat i) \<noteq> None" if "i < k" for i
  proof -
    let ?j = "unat q - unat p + i"
    have j: "?j < n" using assms(2,3) that by linarith
    have "p + of_nat ?j = p + (of_nat (unat q) - of_nat (unat p)) + of_nat i"
      using assms(2) by (simp add: of_nat_diff)
    then have "p + of_nat ?j = q + of_nat i" by simp
    then show ?thesis using assms(1) j unfolding region_def by metis
  qed
  moreover have "unat q + k \<le> 2 ^ 64" using assms(1,3) by (simp add: region_def)
  ultimately show ?thesis by (simp add: region_def)
qed

lemma region_holds:
  assumes "region m p n" obtains xs where "length xs = n" "holds m p xs"
  using holds_exists [of n m p] assms by (auto simp: region_def)

lemma read_be32_region: "region m p 4 \<Longrightarrow> \<exists>v. fdt_read_be32 m p = Some v"
proof -
  assume "region m p 4"
  then have r: "m (p + of_nat i) \<noteq> None" if "i < 4" for i using that by (simp add: region_def)
  have "m p \<noteq> None \<and> m (p + 1) \<noteq> None \<and> m (p + 2) \<noteq> None \<and> m (p + 3) \<noteq> None"
    using r [of 0] r [of 1] r [of 2] r [of 3] by simp
  then show ?thesis by (auto simp: fdt_read_be32_def)
qed

section \<open>Bounded strings\<close>

lemma bounded_strlen_cstr:
  assumes "cstr m s xs" "unat s + length xs < unat limit"
  shows "fdt_bounded_strlen m s limit = Some (True, of_nat (length xs))"
proof -
  have "unat limit < 2 ^ LENGTH(64)" by (rule unsigned_less)
  then have lt: "unat s + length xs < 2 ^ 64" using assms(2) by simp
  have lim: "unat (limit - s) = unat limit - unat s"
    using assms(2) by (intro unat_sub) (simp add: word_le_nat_alt)
  have "strnlen (bytes_at m s) (limit - s) = Some (of_nat (length xs))"
    unfolding strnlen_def
    by (subst strnlen_loop_cstr [where xs = xs]) (use assms lt lim in \<open>auto simp: cstr_bytes_at\<close>)
  moreover have "unat (s + of_nat (length xs)) = unat s + length xs"
    using lt by (simp add: unat_add_nowrap unat_of_nat_small)
  ultimately show ?thesis using assms(2) by (simp add: fdt_bounded_strlen_def word_less_nat_alt)
qed

lemma strnlen_loop_no_nul:
  assumes "\<forall>k<unat n. s (of_nat k) \<noteq> None \<and> s (of_nat k) \<noteq> Some 0" "i \<le> n"
  shows "strnlen_loop s n i = Some n"
  using assms(2)
proof (induction "unat n - unat i" arbitrary: i)
  case 0
  then have "i = n" by (simp add: word_le_nat_alt word_unat_eq_iff)
  then show ?case by (simp add: strnlen_loop.simps [of s n n])
next
  case (Suc d)
  then have lt: "i < n" by (simp add: word_less_nat_alt)
  note st = unat_index_step [OF lt]
  have "s i \<noteq> None \<and> s i \<noteq> Some 0"
    using assms(1) [rule_format, of "unat i"] lt by (simp add: word_less_nat_alt)
  moreover have "strnlen_loop s n (i + 1) = Some n"
    using Suc.hyps(2) st lt by (intro Suc.hyps(1)) (simp_all add: word_less_nat_alt word_le_nat_alt)
  ultimately show ?case using lt by (auto simp: strnlen_loop.simps [of s n i])
qed

text \<open>Whatever the bytes up to the limit are, the bounded length finds the string or says there is none.\<close>

lemma bounded_strlen_total:
  assumes "region m s (unat limit - unat s)" "unat s \<le> unat limit"
  shows "(\<exists>n. fdt_bounded_strlen m s limit = Some (False, n)) \<or>
    (\<exists>xs. cstr m s xs \<and> unat s + length xs < unat limit \<and>
       fdt_bounded_strlen m s limit = Some (True, of_nat (length xs)))"
proof -
  obtain bs where bs: "length bs = unat limit - unat s" "holds m s bs"
    using region_holds [OF assms(1)] by blast
  show ?thesis
  proof (cases "\<exists>k<length bs. bs ! k = 0")
    case True
    then obtain k where "k < length bs" "bs ! k = 0" by blast
    then obtain xs where xs: "cstr m s xs" "length xs < unat limit - unat s"
      using holds_cstr [OF bs(2)] bs(1) by (metis le_less_trans)
    then have "unat s + length xs < unat limit" by simp
    then show ?thesis using bounded_strlen_cstr xs(1) by blast
  next
    case False
    have lim: "unat (limit - s) = length bs"
      using assms(2) bs(1) by (simp add: unat_sub word_le_nat_alt)
    then have "\<forall>k<unat (limit - s). bytes_at m s (of_nat k) \<noteq> None \<and> bytes_at m s (of_nat k) \<noteq> Some 0"
      using bs(2) False by (simp add: holds_def bytes_at_def)
    then have "strnlen (bytes_at m s) (limit - s) = Some (limit - s)"
      unfolding strnlen_def by (rule strnlen_loop_no_nul) simp
    then show ?thesis by (simp add: fdt_bounded_strlen_def)
  qed
qed

section \<open>Placed blobs\<close>

definition fdt_placed :: "memory \<Rightarrow> fdt \<Rightarrow> bool" where
  "fdt_placed m fdt \<longleftrightarrow>
     unat (struct_block fdt) \<le> unat (struct_block_end fdt) \<and>
     unat (struct_block_end fdt) + 2 ^ 33 \<le> 2 ^ 64 \<and>
     region m (struct_block fdt) (unat (struct_block_end fdt) - unat (struct_block fdt)) \<and>
     region m (strings_block fdt) (unat (strings_size fdt))"

lemma placed_region:
  assumes "fdt_placed m fdt" "unat (struct_block fdt) \<le> unat p" "unat p + n \<le> unat (struct_block_end fdt)"
  shows "region m p n"
  by (rule region_sub [of m "struct_block fdt" "unat (struct_block_end fdt) - unat (struct_block fdt)"])
    (use assms in \<open>auto simp: fdt_placed_def\<close>)

lemma bounded_strlen_cases:
  assumes placed: "fdt_placed m fdt" and s: "unat (struct_block fdt) \<le> unat s" "unat s \<le> unat (struct_block_end fdt)"
  obtains (no_end) n where "fdt_bounded_strlen m s (struct_block_end fdt) = Some (False, n)"
    | (ends) xs where "cstr m s xs" "unat s + length xs < unat (struct_block_end fdt)"
      "fdt_bounded_strlen m s (struct_block_end fdt) = Some (True, of_nat (length xs))"
      "unat (s + of_nat (length xs) + 1) = unat s + length xs + 1"
proof -
  have adv: "unat (s + of_nat (length xs) + 1) = unat s + length xs + 1"
    if "unat s + length xs < unat (struct_block_end fdt)" for xs :: "u8 list"
  proof -
    have top: "unat (struct_block_end fdt) + 2 ^ 33 \<le> 2 ^ 64" using placed by (simp add: fdt_placed_def)
    have "unat (s + of_nat (length xs)) = unat s + length xs"
      using that top by (simp add: unat_add_nowrap unat_of_nat_small)
    then show ?thesis using that top by (subst unat_plus1_less [of _ "2 ^ 64 - 1"]) simp_all
  qed
  have "region m s (unat (struct_block_end fdt) - unat s)"
    by (rule placed_region [OF placed s(1)]) (use s(2) in simp)
  from bounded_strlen_total [OF this s(2)] show thesis using no_end ends adv by (elim disjE exE conjE) simp_all
qed

lemma prop_name_loop_total:
  assumes "\<forall>k<unat (strings_size fdt). m (strings_block fdt + of_nat k) \<noteq> None"
  shows "\<exists>b. prop_name_loop m fdt i = Some b \<and>
    (b \<longrightarrow> (\<exists>k. unat i + k < unat (strings_size fdt) \<and> m (strings_block fdt + (i + of_nat k)) = Some 0))"
proof (induction "unat (strings_size fdt) - unat i" arbitrary: i)
  case 0
  then show ?case by (simp add: prop_name_loop.simps [of m fdt i] word_less_nat_alt exI [of _ False])
next
  case (Suc d)
  then have lt: "i < strings_size fdt" by (simp add: word_less_nat_alt)
  note st = unat_index_step [OF lt]
  obtain c where c: "m (strings_block fdt + i) = Some c"
    using assms [rule_format, of "unat i"] lt by (auto simp: word_less_nat_alt)
  show ?case
  proof (cases "c = 0")
    case True
    have "prop_name_loop m fdt i = Some True" using lt c True by (simp add: prop_name_loop.simps [of m fdt i])
    moreover have "unat i + 0 < unat (strings_size fdt) \<and> m (strings_block fdt + (i + of_nat 0)) = Some 0"
      using lt c True by (simp add: word_less_nat_alt)
    ultimately show ?thesis by blast
  next
    case False
    have "d = unat (strings_size fdt) - unat (i + 1)" using Suc.hyps(2) st by simp
    from Suc.hyps(1) [OF this] obtain b where b: "prop_name_loop m fdt (i + 1) = Some b"
      "b \<longrightarrow> (\<exists>k. unat (i + 1) + k < unat (strings_size fdt) \<and> m (strings_block fdt + (i + 1 + of_nat k)) = Some 0)"
      by blast
    have "\<exists>k. unat i + k < unat (strings_size fdt) \<and> m (strings_block fdt + (i + of_nat k)) = Some 0" if b
    proof -
      obtain k where "unat (i + 1) + k < unat (strings_size fdt)" "m (strings_block fdt + (i + 1 + of_nat k)) = Some 0"
        using b(2) \<open>b\<close> by blast
      then show ?thesis using st by (intro exI [of _ "Suc k"]) (simp add: algebra_simps)
    qed
    then show ?thesis using b(1) False lt c by (auto simp: prop_name_loop.simps [of m fdt i])
  qed
qed

lemma prop_name_valid_total:
  assumes "fdt_placed m fdt"
  shows "fdt_prop_name_valid m fdt nameoff = Some False \<or>
    (fdt_prop_name_valid m fdt nameoff = Some True \<and> (\<exists>xs. cstr (bytes_at m (strings_block fdt + ucast nameoff)) 0 xs))"
proof -
  let ?i = "ucast nameoff :: u64"
  have r: "region m (strings_block fdt) (unat (strings_size fdt))" using assms by (simp add: fdt_placed_def)
  then have "\<forall>k<unat (strings_size fdt). m (strings_block fdt + of_nat k) \<noteq> None" by (simp add: region_def)
  then obtain b where b: "prop_name_loop m fdt ?i = Some b"
    "b \<longrightarrow> (\<exists>k. unat ?i + k < unat (strings_size fdt) \<and> m (strings_block fdt + (?i + of_nat k)) = Some 0)"
    using prop_name_loop_total by blast
  show ?thesis
  proof (cases "strings_size fdt \<le> ?i \<or> \<not> b")
    case True
    then show ?thesis using b(1) by (auto simp: fdt_prop_name_valid_def)
  next
    case False
    then obtain k where k: "unat ?i + k < unat (strings_size fdt)" "m (strings_block fdt + (?i + of_nat k)) = Some 0"
      using b(2) by blast
    have lt: "unat (strings_block fdt) + unat ?i < 2 ^ 64" using k(1) r by (simp add: region_def)
    have "region m (strings_block fdt + ?i) (Suc k)"
      by (rule region_sub [OF r]) (use k lt in \<open>simp_all add: unat_add_nowrap\<close>)
    then obtain bs where bs: "length bs = Suc k" "holds m (strings_block fdt + ?i) bs"
      by (rule region_holds)
    then have "bs ! k = 0" using k(2) by (auto simp: holds_def algebra_simps)
    then obtain xs where "cstr m (strings_block fdt + ?i) xs" using holds_cstr [OF bs(2), of k] bs(1) by auto
    then show ?thesis using False b(1) by (auto simp: fdt_prop_name_valid_def cstr_bytes_at)
  qed
qed

lemma prop_name_loop_cstr:
  "cstr m (strings_block fdt + i) nm \<Longrightarrow> unat i + length nm < unat (strings_size fdt) \<Longrightarrow>
   prop_name_loop m fdt i = Some True"
proof (induction nm arbitrary: i)
  case Nil
  then show ?case by (simp add: prop_name_loop.simps [of m fdt i] word_less_nat_alt)
next
  case (Cons x nm)
  then have lt: "i < strings_size fdt" by (simp add: word_less_nat_alt)
  have "prop_name_loop m fdt (i + 1) = Some True"
    by (rule Cons.IH) (use Cons.prems unat_index_step [OF lt] in \<open>simp_all add: add.assoc\<close>)
  then show ?case using Cons.prems(1) lt by (simp add: prop_name_loop.simps [of m fdt i])
qed

lemma strcmp_total: "cstr s1 0 xs \<Longrightarrow> cstr s2 0 ys \<Longrightarrow> \<exists>c. strcmp s1 s2 = Some c \<and> (c = 0 \<longleftrightarrow> xs = ys)"
  by (auto simp: strcmp_cstr compare_lists_def)

lemma cstr_lit: "\<forall>c\<in>set t. (of_char c :: u8) \<noteq> 0 \<Longrightarrow> length t < 2 ^ 64 \<Longrightarrow> cstr (lit t) 0 (text_bytes t)"
  by (auto simp: cstr_holds holds_def lit_def text_bytes_def unat_of_nat_small nth_append)

lemma cstr_cells [simp]:
  "cstr (lit ''#address-cells'') 0 (text_bytes ''#address-cells'')"
  "cstr (lit ''#size-cells'') 0 (text_bytes ''#size-cells'')"
  by (rule cstr_lit; simp)+

text \<open>The two words of a property and its data, as both loops over a structure block read them.\<close>

lemma prop_header:
  assumes placed: "fdt_placed m fdt" and lo: "unat (struct_block fdt) \<le> unat c"
    and le: "unat c \<le> unat (struct_block_end fdt)" and room: "\<not> struct_block_end fdt - c < 8"
  obtains n nameoff where "fdt_read_be32 m c = Some n" "fdt_read_be32 m (c + 4) = Some nameoff"
    "unat (c + 8) = unat c + 8" "unat c + 8 \<le> unat (struct_block_end fdt)"
proof -
  have top: "unat (struct_block_end fdt) + 2 ^ 33 \<le> 2 ^ 64" using placed by (simp add: fdt_placed_def)
  have "unat (struct_block_end fdt - c) = unat (struct_block_end fdt) - unat c"
    using le by (intro unat_sub) (simp add: word_le_nat_alt)
  then have r: "unat c + 8 \<le> unat (struct_block_end fdt)" using room le by (simp add: word_less_nat_alt)
  have c: "unat (c + 4) = unat c + 4" "unat (c + 8) = unat c + 8" using r top by (subst unat_add_nowrap; simp)+
  obtain n nameoff where "fdt_read_be32 m c = Some n" "fdt_read_be32 m (c + 4) = Some nameoff"
    using read_be32_region [OF placed_region [OF placed, of c 4]]
      read_be32_region [OF placed_region [OF placed, of "c + 4" 4]] lo r c(1) by auto
  then show thesis using that c(2) r by blast
qed

lemma prop_data_fits:
  fixes n :: u32
  assumes placed: "fdt_placed m fdt" and c: "unat (c + 8) = unat c + 8" "unat c + 8 \<le> unat (struct_block_end fdt)"
    and n: "\<not> struct_block_end fdt - (c + 8) < ucast n"
  shows "unat c + 8 + unat n \<le> unat (struct_block_end fdt)" "unat (c + 8 + ucast n) = unat c + 8 + unat n"
proof -
  have top: "unat (struct_block_end fdt) + 2 ^ 33 \<le> 2 ^ 64" using placed by (simp add: fdt_placed_def)
  have "unat (struct_block_end fdt - (c + 8)) = unat (struct_block_end fdt) - (unat c + 8)"
    using c by (simp add: unat_sub word_le_nat_alt)
  then show fits: "unat c + 8 + unat n \<le> unat (struct_block_end fdt)" using n c(2) by (auto simp: word_less_nat_alt not_less)
  then show "unat (c + 8 + ucast n) = unat c + 8 + unat n" using top c(1) by (subst unat_add_nowrap) simp_all
qed

end
