(* ===== verification/FdtPath.thy ===== *)
theory FdtPath
  imports FdtBytes
begin

text \<open>
  The path buffer of the device tree walk: \<open>path_is st ps\<close> says that its 256 bytes hold the string
  \<open>ps\<close>, whose length the state knows.  Entering a node extends it by the name with one slash between
  (\<open>join_path\<close>), and leaving cuts it back to a prefix.
\<close>

definition path_buffer :: "bytes \<Rightarrow> bool" where
  "path_buffer p \<longleftrightarrow> (\<forall>i. unat i < 256 \<longrightarrow> p i \<noteq> None)"

definition path_is :: "fdt_walk_state \<Rightarrow> u8 list \<Rightarrow> bool" where
  "path_is st ps \<longleftrightarrow> cstr (walk_path st) 0 ps \<and> walk_path_len st = of_nat (length ps) \<and>
     length ps < 256 \<and> path_buffer (walk_path st)"

definition slash :: u8 where "slash = of_char (CHR ''/'')"

definition path_dir :: "u8 list \<Rightarrow> u8 list" where
  "path_dir ps = (if ps = [] \<or> last ps \<noteq> slash then ps @ [slash] else ps)"

definition join_path :: "u8 list \<Rightarrow> u8 list \<Rightarrow> u8 list" where
  "join_path ps name = path_dir ps @ name"

lemma slash_nonzero [simp]: "slash \<noteq> 0"
  by (simp add: slash_def)

lemma path_buffer_upd [simp]: "path_buffer p \<Longrightarrow> path_buffer (p(i \<mapsto> c))"
  by (simp add: path_buffer_def)

lemma set_path_buffer:
  "path_buffer (walk_path st) \<Longrightarrow> unat i < 256 \<Longrightarrow> set_path i c st = Some (st\<lparr>walk_path := (walk_path st)(i \<mapsto> c)\<rparr>)"
  by (auto simp: set_path_def store8_def path_buffer_def)

lemma set_path_iff: "set_path i c st = Some (st\<lparr>walk_path := p\<rparr>) \<longleftrightarrow> store8 i c (walk_path st) = Some p"
  by (cases "store8 i c (walk_path st)") (auto simp: set_path_def dest: arg_cong [of _ _ walk_path])

lemma holds_upd_beyond:
  assumes "length xs \<le> unat i" shows "holds (s(i \<mapsto> c)) 0 xs = holds s 0 xs"
proof -
  have "of_nat k \<noteq> i" if "k < length xs" for k
  proof -
    have "k < unat i" using that assms by simp
    moreover have "unat i < 2 ^ LENGTH(64)" by (rule unsigned_less)
    ultimately have "unat (of_nat k :: u64) = k" by (intro unat_of_nat_small) simp
    then show ?thesis using \<open>k < unat i\<close> by auto
  qed
  then show ?thesis by (simp add: holds_def)
qed

lemma cstr_last:
  assumes "cstr s 0 ps" "length ps = Suc k" shows "s (of_nat k) = Some (last ps)"
proof -
  have "s (0 + of_nat k) = Some (ps ! k)"
    using assms by (auto simp: cstr_holds holds_def nth_append)
  moreover have "ps \<noteq> []" "k = length ps - 1" using assms(2) by auto
  ultimately show ?thesis by (simp add: last_conv_nth)
qed

lemma unat_path_len: "length ps < 256 \<Longrightarrow> unat (of_nat (length ps) :: u64) = length ps"
  by (rule unat_of_nat_small) simp

lemma path_is_set:
  assumes "path_buffer (walk_path st)" "length xs < 256" "holds (walk_path st) 0 xs" "0 \<notin> set xs"
  shows "\<exists>p. set_path (of_nat (length xs)) 0 st = Some (st\<lparr>walk_path := p\<rparr>) \<and>
    path_is (st\<lparr>walk_path := p, walk_path_len := of_nat (length xs)\<rparr>) xs"
proof -
  let ?p = "(walk_path st)(of_nat (length xs) \<mapsto> 0)"
  have "set_path (of_nat (length xs)) 0 st = Some (st\<lparr>walk_path := ?p\<rparr>)"
    by (rule set_path_buffer) (use assms in \<open>simp_all add: unat_path_len\<close>)
  moreover have "path_is (st\<lparr>walk_path := ?p, walk_path_len := of_nat (length xs)\<rparr>) xs"
    using assms by (simp add: path_is_def cstr_holds holds_upd_beyond unat_path_len)
  ultimately show ?thesis by blast
qed

section \<open>Entering a node\<close>

lemma push_path_root:
  assumes "path_buffer (walk_path st)" "walk_depth st = 0"
  shows "\<exists>p. walk_push_path m name n st = Some (True, st\<lparr>walk_path := p, walk_path_len := 1\<rparr>) \<and>
    path_is (st\<lparr>walk_path := p, walk_path_len := 1\<rparr>) [slash]"
proof -
  let ?st = "st\<lparr>walk_path := (walk_path st)(0 \<mapsto> slash)\<rparr>"
  have "set_path 0 slash st = Some ?st" by (rule set_path_buffer) (use assms in simp_all)
  moreover from path_is_set [of ?st "[slash]"] assms(1) obtain p where
    "set_path 1 0 ?st = Some (?st\<lparr>walk_path := p\<rparr>)" "path_is (?st\<lparr>walk_path := p, walk_path_len := 1\<rparr>) [slash]"
    by auto
  ultimately show ?thesis using assms(2) by (auto simp: walk_push_path_def slash_def)
qed

lemma push_slash:
  assumes ps: "path_is st ps" and small: "length (path_dir ps) < 256"
  shows "\<exists>p. walk_push_slash st = Some (True, of_nat (length (path_dir ps)), st\<lparr>walk_path := p\<rparr>) \<and>
    path_buffer p \<and> holds p 0 (path_dir ps) \<and> 0 \<notin> set (path_dir ps)"
proof (cases "ps = [] \<or> last ps \<noteq> slash")
  case True
  let ?p = "(walk_path st)(of_nat (length ps) \<mapsto> slash)"
  have len: "walk_path_len st = of_nat (length ps)" "length ps < 256" using ps by (auto simp: path_is_def)
  have buf: "path_buffer (walk_path st)" and cs: "cstr (walk_path st) 0 ps" using ps by (auto simp: path_is_def)
  have room: "length ps + 1 < 256" using small True by (simp add: path_dir_def)
  have need: "(if walk_path_len st = 0 then Some True
      else do { c \<leftarrow> walk_path st (walk_path_len st - 1); Some (c \<noteq> slash) }) = Some True"
  proof (cases "ps = []")
    case False
    then obtain k where k: "length ps = Suc k" by (cases ps) auto
    then have "walk_path st (of_nat k) = Some (last ps)"
      by (rule cstr_last [OF cs])
    moreover have "walk_path_len st - 1 = of_nat k" "walk_path_len st \<noteq> 0"
      using len k unat_path_len [OF len(2)] by auto
    ultimately show ?thesis using True False by simp
  qed (simp add: len)
  have "unat (of_nat (length ps) + 1 :: u64) < 256"
    using room unat_path_len [OF len(2)] by (subst unat_plus1_less [of _ 256]) simp_all
  then have "\<not> walk_path_len st + 1 \<ge> FDT_MAX_PATH"
    by (simp add: FDT_MAX_PATH_def len(1) word_le_nat_alt)
  moreover have "set_path (walk_path_len st) slash st = Some (st\<lparr>walk_path := ?p\<rparr>)"
    unfolding len(1) by (rule set_path_buffer) (use buf len in \<open>simp_all add: unat_path_len\<close>)
  ultimately have "walk_push_slash st = Some (True, of_nat (length (path_dir ps)), st\<lparr>walk_path := ?p\<rparr>)"
    using need True unfolding walk_push_slash_def slash_def [symmetric] Let_def
    by (simp add: path_dir_def len(1) add.commute)
  moreover have "holds ?p 0 (path_dir ps)"
    using True cs len(2) by (simp add: path_dir_def cstr_holds holds_upd_beyond unat_path_len)
  ultimately show ?thesis using True cs buf by (auto simp: path_dir_def cstr_holds)
next
  case False
  then obtain k where k: "length ps = Suc k" by (cases ps) auto
  have len: "walk_path_len st = of_nat (length ps)" "length ps < 256" using ps by (auto simp: path_is_def)
  have "walk_path st (of_nat k) = Some slash"
    using cstr_last [of "walk_path st" ps k] ps k False by (simp add: path_is_def)
  moreover have "walk_path_len st - 1 = of_nat k" "walk_path_len st \<noteq> 0"
    using len k unat_path_len [OF len(2)] by auto
  ultimately have "walk_push_slash st = Some (True, of_nat (length (path_dir ps)), st\<lparr>walk_path := walk_path st\<rparr>)"
    using False len(1) by (simp add: walk_push_slash_def path_dir_def slash_def)
  moreover have "path_buffer (walk_path st)" "holds (walk_path st) 0 ps" "0 \<notin> set ps"
    using ps by (auto simp: path_is_def cstr_holds)
  ultimately show ?thesis using False
    by (intro exI [of _ "walk_path st"]) (simp add: path_dir_def)
qed

lemma push_slash_overflow:
  assumes ps: "path_is st ps" and big: "\<not> length (path_dir ps) < 256"
  shows "walk_push_slash st = Some (False, walk_path_len st, st)"
proof -
  have len: "walk_path_len st = of_nat (length ps)" "length ps < 256" using ps by (auto simp: path_is_def)
  then have nd: "ps = [] \<or> last ps \<noteq> slash" and k: "length ps = 255" using big by (auto simp: path_dir_def split: if_splits)
  have "walk_path st 254 = Some (last ps)"
    using cstr_last [of "walk_path st" ps 254] ps k by (simp add: path_is_def)
  then show ?thesis using len k nd by (auto simp: walk_push_slash_def FDT_MAX_PATH_def slash_def)
qed

lemma copy_path:
  assumes buf: "path_buffer (walk_path st)" and room: "k + length nm < 256" and src: "holds m name nm"
    and old: "holds (walk_path st) 0 base" "length base = k"
  shows "\<exists>p. for_each (\<lambda>i st. do { c \<leftarrow> m (name + of_nat i); set_path (of_nat k + of_nat i) c st })
      [0..<length nm] st = Some (st\<lparr>walk_path := p\<rparr>) \<and> path_buffer p \<and> holds p 0 (base @ nm)"
proof -
  let ?body = "\<lambda>i st. do { c \<leftarrow> m (name + of_nat i); set_path (of_nat k + of_nat i) c st }"
  let ?P = "\<lambda>ix s. \<exists>p. s = st\<lparr>walk_path := p\<rparr> \<and> path_buffer p \<and> holds p 0 (base @ take (length ix) nm)"
  have "\<exists>s. for_each ?body [0..<length nm] st = Some s \<and> ?P [0..<length nm] s"
  proof (rule for_each_invariant)
    show "?P [] st" using buf old by (intro exI [of _ "walk_path st"]) simp
  next
    fix pre i rest s
    assume ix: "[0..<length nm] = pre @ i # rest" and "?P pre s"
    then obtain p where p: "s = st\<lparr>walk_path := p\<rparr>" "path_buffer p" "holds p 0 (base @ take (length pre) nm)" by blast
    have i: "i = length pre" "i < length nm"
    proof -
      have "length pre < length [0..<length nm]" unfolding ix by simp
      moreover have "[0..<length nm] ! length pre = i" unfolding ix by simp
      ultimately show "i = length pre" "i < length nm" by auto
    qed
    have a: "unat (of_nat (k + i) :: u64) = k + i" by (rule unat_of_nat_small) (use i room in simp)
    then have "set_path (of_nat (k + i)) (nm ! i) s = Some (st\<lparr>walk_path := p(of_nat (k + i) \<mapsto> nm ! i)\<rparr>)"
      using p i room by (subst set_path_buffer) simp_all
    moreover have "m (name + of_nat i) = Some (nm ! i)" using src i by (simp add: holds_def)
    moreover have "holds (p(of_nat (k + i) \<mapsto> nm ! i)) 0 (base @ take i nm)"
      using holds_upd_beyond [of "base @ take i nm" "of_nat (k + i)" p "nm ! i"] p(3) i old(2) a by simp
    then have "holds (p(of_nat (k + i) \<mapsto> nm ! i)) 0 ((base @ take i nm) @ [nm ! i])"
      by (subst holds_append) (use i old(2) in simp)
    ultimately show "\<exists>s'. ?body i s = Some s' \<and> ?P (pre @ [i]) s'"
      using p(2) i by (intro exI [of _ "st\<lparr>walk_path := p(of_nat (k + i) \<mapsto> nm ! i)\<rparr>"])
        (auto simp: take_Suc_conv_app_nth)
  qed
  then show ?thesis by auto
qed

lemma push_path_child:
  assumes ps: "path_is st ps" and depth: "walk_depth st \<noteq> 0" and nm: "cstr m name nm"
    and room: "length (join_path ps nm) < 256"
  shows "\<exists>p. walk_push_path m name (of_nat (length nm)) st =
      Some (True, st\<lparr>walk_path := p, walk_path_len := of_nat (length (join_path ps nm))\<rparr>) \<and>
    path_is (st\<lparr>walk_path := p, walk_path_len := of_nat (length (join_path ps nm))\<rparr>) (join_path ps nm)"
proof -
  let ?d = "path_dir ps"
  have l: "length ?d < 256" "length ?d + length nm < 256" using room by (simp_all add: join_path_def)
  from push_slash [OF ps l(1)] obtain p where
    p: "walk_push_slash st = Some (True, of_nat (length ?d), st\<lparr>walk_path := p\<rparr>)"
      "path_buffer p" "holds p 0 ?d" "0 \<notin> set ?d" by blast
  have "holds m name nm" using nm by (simp add: cstr_holds)
  from copy_path [of "st\<lparr>walk_path := p\<rparr>" "length ?d" nm m name ?d] p l this obtain p2 where
    p2: "for_each (\<lambda>i st. do { c \<leftarrow> m (name + of_nat i); set_path (of_nat (length ?d) + of_nat i) c st })
        [0..<length nm] (st\<lparr>walk_path := p\<rparr>) = Some (st\<lparr>walk_path := p2\<rparr>)"
      "path_buffer p2" "holds p2 0 (join_path ps nm)" by (auto simp: join_path_def)
  have nz: "0 \<notin> set (join_path ps nm)" using p(4) nm by (simp add: cstr_holds join_path_def)
  from path_is_set [of "st\<lparr>walk_path := p2\<rparr>" "join_path ps nm"] p2 room nz obtain p3 where
    p3: "set_path (of_nat (length (join_path ps nm))) 0 (st\<lparr>walk_path := p2\<rparr>) = Some (st\<lparr>walk_path := p3\<rparr>)"
      "path_is (st\<lparr>walk_path := p3, walk_path_len := of_nat (length (join_path ps nm))\<rparr>) (join_path ps nm)"
    by auto
  have w: "unat (of_nat (length nm) :: u64) = length nm" by (rule unat_of_nat_small) (use l in simp)
  have e: "of_nat (length ?d) + of_nat (length nm) = (of_nat (length (join_path ps nm)) :: u64)"
    by (simp add: join_path_def)
  have "\<not> of_nat (length (join_path ps nm)) \<ge> FDT_MAX_PATH"
    using unat_path_len [OF room] room by (simp add: FDT_MAX_PATH_def word_le_nat_alt)
  then have "walk_push_path m name (of_nat (length nm)) st =
      Some (True, st\<lparr>walk_path := p3, walk_path_len := of_nat (length (join_path ps nm))\<rparr>)"
    using depth p(1) p2(1) p3(1) by (simp add: walk_push_path_def w e)
  then show ?thesis using p3(2) by blast
qed

lemma push_path_overflow:
  assumes ps: "path_is st ps" and depth: "walk_depth st \<noteq> 0" and nm: "length nm + 256 < 2 ^ 64"
    and room: "\<not> length (join_path ps nm) < 256"
  shows "\<exists>st'. walk_push_path m name (of_nat (length nm)) st = Some (False, st')"
proof (cases "length (path_dir ps) < 256")
  case True
  from push_slash [OF ps True] obtain p where
    p: "walk_push_slash st = Some (True, of_nat (length (path_dir ps)), st\<lparr>walk_path := p\<rparr>)" by blast
  have "unat (of_nat (length (path_dir ps) + length nm) :: u64) = length (path_dir ps) + length nm"
    by (rule unat_of_nat_small) (use nm True in simp)
  then have "of_nat (length (path_dir ps)) + of_nat (length nm) \<ge> FDT_MAX_PATH"
    using room by (simp add: FDT_MAX_PATH_def word_le_nat_alt join_path_def)
  then show ?thesis using depth p by (simp add: walk_push_path_def)
next
  case False
  then show ?thesis using depth push_slash_overflow [OF ps False] by (simp add: walk_push_path_def)
qed

section \<open>Leaving a node\<close>

lemma pop_path:
  assumes "path_is st ps" "n \<le> length ps"
  shows "\<exists>p. set_path (of_nat n) 0 st = Some (st\<lparr>walk_path := p\<rparr>) \<and>
    path_is (st\<lparr>walk_path := p, walk_path_len := of_nat n\<rparr>) (take n ps)"
proof -
  have "holds (walk_path st) 0 (take n ps @ drop n ps)" "0 \<notin> set (take n ps)"
    using assms(1) by (auto simp: path_is_def cstr_holds dest: in_set_takeD)
  moreover have "length (take n ps) = n" using assms(2) by simp
  ultimately show ?thesis
    using path_is_set [of st "take n ps"] assms by (auto simp del: append_take_drop_id simp: path_is_def)
qed

text \<open>In any case the name is pushed, onto a path that is not shorter, or refused.\<close>

lemma push_path_cases:
  assumes ps: "path_is st ps" and root: "walk_depth st = 0 \<longrightarrow> ps = []" and nm: "cstr m name nm" "length nm + 256 < 2 ^ 64"
  obtains (pushed) p l ps' where
      "walk_push_path m name (of_nat (length nm)) st = Some (True, st\<lparr>walk_path := p, walk_path_len := l\<rparr>)"
      "path_is (st\<lparr>walk_path := p, walk_path_len := l\<rparr>) ps'" "length ps \<le> length ps'" "0 < length ps'"
    | (refused) st' where "walk_push_path m name (of_nat (length nm)) st = Some (False, st')"
proof (cases "walk_depth st = 0")
  case True
  have "path_buffer (walk_path st)" using ps by (simp add: path_is_def)
  from push_path_root [OF this True] obtain p where
    "walk_push_path m name (of_nat (length nm)) st = Some (True, st\<lparr>walk_path := p, walk_path_len := 1\<rparr>)"
    "path_is (st\<lparr>walk_path := p, walk_path_len := 1\<rparr>) [slash]" by blast
  then show ?thesis using root True by (intro that(1) [where p = p and l = 1 and ps' = "[slash]"]) simp_all
next
  case False
  show ?thesis
  proof (cases "length (join_path ps nm) < 256")
    case True
    have "length ps \<le> length (join_path ps nm)" "0 < length (join_path ps nm)"
      by (simp_all add: join_path_def path_dir_def)
    with push_path_child [OF ps False nm(1) True] show ?thesis using that(1) by blast
  next
    case no: False
    from push_path_overflow [OF ps False nm(2) no] show ?thesis using that(2) by blast
  qed
qed

end
