(* ===== verification/FdtWalk.thy ===== *)
theory FdtWalk
  imports FdtPath
begin

text \<open>
  The walk over the nodes of an arbitrary blob: \<open>walk_inv\<close> is kept by every turn, every turn moves the
  cursor forward, so that \<open>fdt_walk_next_node\<close> always returns and never leaves the blob.
  \<open>visits m st ns\<close> is the sequence of the nodes (each with its path) that repeated calls return.
\<close>

section \<open>The invariant\<close>

definition frames_ok :: "fdt_walk_frame list \<Rightarrow> u32 \<Rightarrow> nat \<Rightarrow> bool" where
  "frames_ok fs d n \<longleftrightarrow> length fs = 32 \<and> unat d \<le> 32 \<and>
     (d = 0 \<longrightarrow> n = 0) \<and> (d \<noteq> 0 \<longrightarrow> frame_path_len (fs ! 0) = 0) \<and>
     (\<forall>i<unat d. unat (frame_path_len (fs ! i)) \<le> n \<and>
       (\<forall>j<i. unat (frame_path_len (fs ! j)) \<le> unat (frame_path_len (fs ! i))))"

definition walk_inv :: "fdt \<Rightarrow> fdt_walk_state \<Rightarrow> u8 list \<Rightarrow> bool" where
  "walk_inv fdt st ps \<longleftrightarrow> walk_fdt st = fdt \<and> unat (struct_block fdt) \<le> unat (walk_cursor st) \<and>
     unat (walk_cursor st) \<le> unat (struct_block_end fdt) + 3 \<and> path_is st ps \<and>
     frames_ok (walk_frames st) (walk_depth st) (length ps)"

text \<open>What a turn may do: it goes on, or returns, at an advanced cursor and with the invariant.\<close>

fun step_ok :: "fdt \<Rightarrow> u64 \<Rightarrow> walk_step \<Rightarrow> bool" where
  "step_ok fdt c (Continue st) \<longleftrightarrow> (\<exists>ps. walk_inv fdt st ps) \<and> c < walk_cursor st"
| "step_ok fdt c (Return st None) \<longleftrightarrow> True"
| "step_ok fdt c (Return st (Some nd)) \<longleftrightarrow> (\<exists>ps. walk_inv fdt st ps) \<and> c < walk_cursor st \<and>
     walk_cursor st \<le> struct_block_end fdt \<and>
     (\<exists>q. struct_offset nd = ucast (q - struct_block fdt) \<and> struct_block fdt \<le> q \<and> q < walk_cursor st)"

lemma walk_init_inv: "fdt_placed m fdt \<Longrightarrow> walk_inv fdt (fdt_walk_init fdt) []"
  by (auto simp: walk_inv_def fdt_walk_init_def path_is_def frames_ok_def path_buffer_def FDT_MAX_PATH_def
      FDT_MAX_DEPTH_def word_less_nat_alt fdt_placed_def)

lemma frame_at_ok: "frames_ok (walk_frames st) d n \<Longrightarrow> unat i < 32 \<Longrightarrow> frame_at st i = Some (walk_frames st ! unat i)"
  by (simp add: frame_at_def frames_ok_def)

lemma set_frame_ok:
  "frames_ok (walk_frames st) d n \<Longrightarrow> unat i < 32 \<Longrightarrow> set_frame i f st = Some (st\<lparr>walk_frames := (walk_frames st)[unat i := f]\<rparr>)"
  by (simp add: set_frame_def frames_ok_def)

lemma unat_depth_1: "walk_depth st \<noteq> 0 \<Longrightarrow> unat (walk_depth st - 1) = unat (walk_depth st) - 1"
  by (rule unat_minus_1)

lemma parent_cells_total:
  assumes "frames_ok (walk_frames st) (walk_depth st) n" "unat (walk_depth st) < 32"
  shows "\<exists>cells. walk_parent_cells st = Some cells"
proof (cases "walk_depth st = 0")
  case False
  then have "unat (walk_depth st - 1) < 32" using assms(2) unat_depth_1 [of st] by simp
  then show ?thesis using False by (simp add: walk_parent_cells_def frame_at_ok [OF assms(1)])
qed (simp add: walk_parent_cells_def)

lemma frames_push:
  assumes fr: "frames_ok fs d n" and d: "unat d < 32" and f: "unat (frame_path_len f) = n" and n: "n \<le> n'" "0 < n'"
  shows "frames_ok (fs[unat d := f]) (d + 1) n'"
proof -
  have dep: "unat (d + 1) = Suc (unat d)" by (rule unat_plus1_less [OF d]) simp
  then have nz: "d + 1 \<noteq> 0" by (metis nat.distinct(1) unat_eq_zero)
  have at: "fs[unat d := f] ! i = (if i = unat d then f else fs ! i)" if "i < 32" for i
    using fr that by (simp add: frames_ok_def nth_list_update)
  have old: "unat (frame_path_len (fs ! i)) \<le> n" if "i < unat d" for i
    using fr that by (simp add: frames_ok_def)
  have "frame_path_len (fs[unat d := f] ! 0) = 0"
    unfolding at [of 0, simplified] using fr f by (cases "d = 0") (auto simp: frames_ok_def unat_eq_zero)
  moreover have "unat (frame_path_len (fs[unat d := f] ! i)) \<le> n' \<and>
      (\<forall>j<i. unat (frame_path_len (fs[unat d := f] ! j)) \<le> unat (frame_path_len (fs[unat d := f] ! i)))"
    if "i < unat (d + 1)" for i
  proof (cases "i = unat d")
    case True
    then show ?thesis using at old f n d by auto
  next
    case False
    then have i: "i < unat d" "i < 32" using that dep d by auto
    then show ?thesis using at old [OF i(1)] n fr False by (auto simp: frames_ok_def)
  qed
  ultimately show ?thesis using fr d dep nz by (simp add: frames_ok_def)
qed

lemma frames_pop:
  assumes "frames_ok fs d n" "d \<noteq> 0"
  shows "unat (frame_path_len (fs ! unat (d - 1))) \<le> n"
    "frames_ok fs (d - 1) (unat (frame_path_len (fs ! unat (d - 1))))"
proof -
  have d: "unat (d - 1) = unat d - 1" "0 < unat d" using assms(2) by (auto simp: unat_minus_1 unat_gt_0)
  then have "d - 1 = 0 \<Longrightarrow> unat d = 1" by auto
  then show "unat (frame_path_len (fs ! unat (d - 1))) \<le> n"
    "frames_ok fs (d - 1) (unat (frame_path_len (fs ! unat (d - 1))))"
    using assms d by (auto simp: frames_ok_def)
qed

section \<open>The turns\<close>

text \<open>A node whose name ends inside the block and whose path fits.\<close>

lemma begin_node_pushed:
  assumes placed: "fdt_placed m fdt" and inv: "walk_inv fdt st ps" and d: "\<not> walk_depth st \<ge> FDT_MAX_DEPTH"
    and q: "struct_block fdt \<le> q" "q < walk_cursor st"
    and nm: "fdt_bounded_strlen m (walk_cursor st) (struct_block_end fdt) = Some (True, of_nat (length nm))"
      "unat (walk_cursor st) + length nm < unat (struct_block_end fdt)"
      "unat (walk_cursor st + of_nat (length nm) + 1) = unat (walk_cursor st) + length nm + 1"
    and cells: "walk_parent_cells st = Some cells" and frame: "set_frame (walk_depth st) f st = Some st1"
      "st1 = st\<lparr>walk_frames := (walk_frames st)[unat (walk_depth st) := f]\<rparr>"
      "f = \<lparr>frame_path_len = walk_path_len st, child_address_cells = FDT_DEFAULT_ADDRESS_CELLS, child_size_cells = FDT_DEFAULT_SIZE_CELLS\<rparr>"
    and push: "walk_push_path m (walk_cursor st) (of_nat (length nm)) st1 = Some (True, st1\<lparr>walk_path := p, walk_path_len := l\<rparr>)"
    and path: "path_is (st1\<lparr>walk_path := p, walk_path_len := l\<rparr>) ps'" "length ps \<le> length ps'" "0 < length ps'"
  shows "\<exists>r. walk_begin_node m q st = Some r \<and> step_ok fdt q r"
proof -
  let ?e = "struct_block_end fdt" and ?c = "fdt_align4 (walk_cursor st + of_nat (length nm) + 1)"
  have fdt: "walk_fdt st = fdt" and pis: "path_is st ps" and fr: "frames_ok (walk_frames st) (walk_depth st) (length ps)"
    and lo: "unat (struct_block fdt) \<le> unat (walk_cursor st)" using inv by (auto simp: walk_inv_def)
  have top: "unat ?e + 2 ^ 33 \<le> 2 ^ 64" using placed by (simp add: fdt_placed_def)
  have c: "unat (walk_cursor st) < unat ?c" "unat ?c \<le> unat ?e + 3"
    using align4_bounds [of "walk_cursor st + of_nat (length nm) + 1"] nm(2,3) top by simp_all
  have du: "unat (walk_depth st) < 32" using d by (simp add: FDT_MAX_DEPTH_def word_le_nat_alt)
  let ?st2 = "st1\<lparr>walk_path := p, walk_path_len := l, walk_depth := walk_depth st + 1, walk_cursor := ?c\<rparr>"
  have "unat (walk_path_len st) = length ps" using pis unat_path_len by (auto simp: path_is_def)
  then have "frames_ok ((walk_frames st)[unat (walk_depth st) := f]) (walk_depth st + 1) (length ps')"
    unfolding frame(3) using path(2,3) by (intro frames_push [OF fr du]) simp_all
  then have "walk_inv fdt ?st2 ps'"
    using path(1) c lo fdt by (simp add: walk_inv_def path_is_def frame(2))
  moreover have "q < ?c" using q(2) c(1) by (simp add: word_less_nat_alt)
  ultimately show ?thesis
    using d fdt nm(1) cells frame push q(1)
    by (cases cells; cases "?c > ?e") (auto simp: walk_begin_node_def Let_def not_less)
qed

lemma begin_node_ok:
  assumes placed: "fdt_placed m fdt" and inv: "walk_inv fdt st ps"
    and le: "walk_cursor st \<le> struct_block_end fdt" and q: "struct_block fdt \<le> q" "q < walk_cursor st"
  shows "\<exists>r. walk_begin_node m q st = Some r \<and> step_ok fdt q r"
proof (cases "walk_depth st \<ge> FDT_MAX_DEPTH")
  case True
  then show ?thesis by (simp add: walk_begin_node_def)
next
  case d: False
  have fdt: "walk_fdt st = fdt" and pis: "path_is st ps" and fr: "frames_ok (walk_frames st) (walk_depth st) (length ps)"
    and lo: "unat (struct_block fdt) \<le> unat (walk_cursor st)" using inv by (auto simp: walk_inv_def)
  have "unat (walk_cursor st) \<le> unat (struct_block_end fdt)" using le by (simp add: word_le_nat_alt)
  with placed lo show ?thesis
  proof (cases rule: bounded_strlen_cases)
    case no_end
    then show ?thesis using d fdt by (simp add: walk_begin_node_def)
  next
    case nm: (ends nm)
    have du: "unat (walk_depth st) < 32" using d by (simp add: FDT_MAX_DEPTH_def word_le_nat_alt)
    obtain cells where cells: "walk_parent_cells st = Some cells" using parent_cells_total [OF fr] du by blast
    let ?f = "\<lparr>frame_path_len = walk_path_len st, child_address_cells = FDT_DEFAULT_ADDRESS_CELLS,
        child_size_cells = FDT_DEFAULT_SIZE_CELLS\<rparr>"
    let ?st1 = "st\<lparr>walk_frames := (walk_frames st)[unat (walk_depth st) := ?f]\<rparr>"
    have sf: "set_frame (walk_depth st) ?f st = Some ?st1" by (rule set_frame_ok [OF fr du])
    have st1: "path_is ?st1 ps" "walk_depth ?st1 = 0 \<longrightarrow> ps = []" "length nm + 256 < 2 ^ 64"
      using pis fr nm(2) placed by (auto simp: path_is_def frames_ok_def fdt_placed_def)
    from st1(1,2) nm(1) st1(3) show ?thesis
    proof (cases rule: push_path_cases)
      case (pushed p l ps')
      then show ?thesis using begin_node_pushed [OF placed inv d q nm(3,2,4) cells sf refl refl] by blast
    next
      case (refused st')
      then show ?thesis using d fdt nm(3) cells sf by (cases cells) (auto simp: walk_begin_node_def not_less)
    qed
  qed
qed

lemma end_node_ok:
  assumes inv: "walk_inv fdt st ps" and c: "q < walk_cursor st"
  shows "\<exists>r. walk_end_node st = Some r \<and> step_ok fdt q r"
proof (cases "walk_depth st = 0")
  case True
  then show ?thesis by (simp add: walk_end_node_def)
next
  case False
  let ?d = "walk_depth st - 1"
  let ?f = "walk_frames st ! unat ?d"
  have fr: "frames_ok (walk_frames st) (walk_depth st) (length ps)" and pis: "path_is st ps"
    using inv by (auto simp: walk_inv_def)
  note pop = frames_pop [OF fr False]
  have "unat ?d < 32" using fr False by (auto simp: frames_ok_def unat_minus_1 unat_gt_0)
  then have fa: "frame_at (st\<lparr>walk_depth := ?d\<rparr>) ?d = Some ?f"
    using frame_at_ok [of "st\<lparr>walk_depth := ?d\<rparr>"] fr by simp
  have len: "length ps < 256" using pis by (simp add: path_is_def)
  have e: "of_nat (unat (frame_path_len ?f)) = frame_path_len ?f" by simp
  let ?st = "st\<lparr>walk_depth := ?d, walk_path_len := frame_path_len ?f\<rparr>"
  obtain p where p: "set_path (frame_path_len ?f) 0 ?st = Some (?st\<lparr>walk_path := p\<rparr>)"
    "path_is (st\<lparr>walk_path := p, walk_path_len := frame_path_len ?f\<rparr>) (take (unat (frame_path_len ?f)) ps)"
    using pop_path [OF pis pop(1)] unfolding e set_path_iff by auto
  have "walk_inv fdt (?st\<lparr>walk_path := p\<rparr>) (take (unat (frame_path_len ?f)) ps)"
    using inv p(2) pop by (simp add: walk_inv_def path_is_def min_absorb2)
  then show ?thesis using False fa p(1) c by (auto simp: walk_end_node_def)
qed

lemma walk_inv_cursor:
  "walk_inv fdt st ps \<Longrightarrow> unat (walk_cursor st) \<le> unat c \<Longrightarrow> unat c \<le> unat (struct_block_end fdt) + 3 \<Longrightarrow>
   walk_inv fdt (st\<lparr>walk_cursor := c\<rparr>) ps"
  by (simp add: walk_inv_def path_is_def)

lemma set_cells_ok:
  assumes inv: "walk_inv fdt st ps" and c: "q < walk_cursor st" and d: "walk_depth st \<noteq> 0"
    and r: "prop_len prop = 4 \<Longrightarrow> region m (prop_data prop) 4"
    and upd: "\<And>v f. frame_path_len (upd v f) = frame_path_len f"
  shows "\<exists>r. walk_set_cells m prop upd st = Some r \<and> step_ok fdt q r"
proof (cases "prop_len prop = 4")
  case True
  let ?i = "walk_depth st - 1"
  from read_be32_region [OF r [OF True]] obtain v where v: "fdt_read_be32 m (prop_data prop) = Some v" by blast
  have fr: "frames_ok (walk_frames st) (walk_depth st) (length ps)" using inv by (simp add: walk_inv_def)
  have i: "unat ?i < 32" using fr d by (auto simp: frames_ok_def unat_minus_1 unat_gt_0)
  let ?st = "st\<lparr>walk_frames := (walk_frames st)[unat ?i := upd v (walk_frames st ! unat ?i)]\<rparr>"
  have same: "frame_path_len (walk_frames ?st ! j) = frame_path_len (walk_frames st ! j)" for j
    using fr i by (simp add: frames_ok_def nth_list_update upd)
  have "walk_inv fdt ?st ps"
    using inv same by (simp add: walk_inv_def path_is_def frames_ok_def)
  then show ?thesis
    using True v c by (auto simp: walk_set_cells_def fdt_prop_get_u32_def frame_at_ok [OF fr i] set_frame_ok [OF fr i])
qed (simp add: walk_set_cells_def fdt_prop_get_u32_def)

lemma walk_prop_ok:
  assumes placed: "fdt_placed m fdt" and inv: "walk_inv fdt st ps"
    and le: "walk_cursor st \<le> struct_block_end fdt" and q: "q < walk_cursor st"
  shows "\<exists>r. walk_prop m st = Some r \<and> step_ok fdt q r"
proof (cases "struct_block_end fdt - walk_cursor st < 8")
  case True
  then show ?thesis using inv by (simp add: walk_prop_def walk_inv_def)
next
  case False
  let ?e = "struct_block_end fdt" and ?c = "walk_cursor st"
  have fdt: "walk_fdt st = fdt" and lo: "unat (struct_block fdt) \<le> unat ?c" using inv by (auto simp: walk_inv_def)
  have le': "unat ?c \<le> unat ?e" using le by (simp add: word_le_nat_alt)
  have top: "unat ?e + 2 ^ 33 \<le> 2 ^ 64" using placed by (simp add: fdt_placed_def)
  from prop_header [OF placed lo le' False] obtain n nameoff where
    n: "fdt_read_be32 m ?c = Some n" "fdt_read_be32 m (?c + 4) = Some nameoff" and c8: "unat (?c + 8) = unat ?c + 8"
    and room: "unat ?c + 8 \<le> unat ?e" .
  show ?thesis
  proof (cases "?e - (?c + 8) < ucast n \<or> fdt_prop_name_valid m fdt nameoff = Some False \<or> walk_depth st = 0")
    case True
    then show ?thesis using False fdt n prop_name_valid_total [OF placed, of nameoff]
      by (auto simp: walk_prop_def Let_def)
  next
    case ok: False
    then obtain xs where valid: "fdt_prop_name_valid m fdt nameoff = Some True"
      and xs: "cstr (bytes_at m (strings_block fdt + ucast nameoff)) 0 xs"
      using prop_name_valid_total [OF placed, of nameoff] by auto
    have fits: "unat ?c + 8 + unat n \<le> unat ?e" "unat (?c + 8 + ucast n) = unat ?c + 8 + unat n"
      using prop_data_fits [OF placed c8 room] ok by blast+
    let ?c' = "fdt_align4 (?c + 8 + ucast n)"
    have c': "unat ?c \<le> unat ?c'" "unat ?c' \<le> unat ?e + 3" "unat ?c < unat ?c'"
      using align4_bounds [of "?c + 8 + ucast n"] fits top by simp_all
    let ?st = "st\<lparr>walk_cursor := ?c'\<rparr>"
    have inv': "walk_inv fdt ?st ps" by (rule walk_inv_cursor [OF inv c'(1,2)])
    have q': "q < walk_cursor ?st" using q c'(3) by (simp add: word_less_nat_alt)
    have sc: "\<exists>r. walk_set_cells m \<lparr>prop_data = ?c + 8, prop_len = n\<rparr> upd ?st = Some r \<and> step_ok fdt q r"
      if "\<And>v f. frame_path_len (upd v f) = frame_path_len f" for upd
    proof (rule set_cells_ok [OF inv' q'])
      assume "prop_len \<lparr>prop_data = ?c + 8, prop_len = n\<rparr> = 4"
      then show "region m (prop_data \<lparr>prop_data = ?c + 8, prop_len = n\<rparr>) 4"
        using placed_region [OF placed, of "?c + 8" 4] lo fits c8 by simp
    qed (use ok that in simp_all)
    obtain a b where ab: "strcmp (bytes_at m (strings_block fdt + ucast nameoff)) (lit ''#address-cells'') = Some a"
      "strcmp (bytes_at m (strings_block fdt + ucast nameoff)) (lit ''#size-cells'') = Some b"
      using strcmp_total [OF xs] cstr_cells by metis
    have "step_ok fdt q (Continue ?st)" using inv' q' by auto
    then show ?thesis
      using False ok fdt n valid ab sc by (simp add: walk_prop_def Let_def)
  qed
qed

lemma walk_turn_ok:
  assumes placed: "fdt_placed m fdt" and inv: "walk_inv fdt st ps" and lt: "walk_cursor st < struct_block_end fdt"
  shows "\<exists>r. walk_turn m st = Some r \<and> step_ok fdt (walk_cursor st) r"
proof (cases "struct_block_end fdt - walk_cursor st < 4")
  case True
  then show ?thesis using inv by (simp add: walk_turn_def walk_inv_def Let_def)
next
  case False
  let ?e = "struct_block_end fdt" and ?c = "walk_cursor st"
  have fdt: "walk_fdt st = fdt" and lo: "unat (struct_block fdt) \<le> unat ?c" using inv by (auto simp: walk_inv_def)
  have top: "unat ?e + 2 ^ 33 \<le> 2 ^ 64" using placed by (simp add: fdt_placed_def)
  have "unat (?e - ?c) = unat ?e - unat ?c" using lt by (intro unat_sub) simp
  then have room: "unat ?c + 4 \<le> unat ?e" using False lt by (simp add: word_less_nat_alt)
  have c4: "unat (?c + 4) = unat ?c + 4" using room top by (subst unat_add_nowrap) simp_all
  obtain token where token: "fdt_read_be32 m ?c = Some token"
    using read_be32_region [OF placed_region [OF placed lo room]] by blast
  let ?st = "st\<lparr>walk_cursor := ?c + 4\<rparr>"
  have inv': "walk_inv fdt ?st ps" by (rule walk_inv_cursor [OF inv]) (use c4 room in simp_all)
  have le: "walk_cursor ?st \<le> ?e" and q: "?c < walk_cursor ?st" "struct_block fdt \<le> ?c"
    using c4 room lo by (simp_all add: word_le_nat_alt word_less_nat_alt)
  have "step_ok fdt ?c (Continue ?st)" using inv' q by auto
  moreover note begin_node_ok [OF placed inv' le q(2,1)] end_node_ok [OF inv' q(1)] walk_prop_ok [OF placed inv' le q(1)]
  ultimately show ?thesis using False fdt token by (simp add: walk_turn_def Let_def)
qed

section \<open>The walk\<close>

text \<open>
  A call of \<open>fdt_walk_next_node\<close> returns, for every placed blob: the number of turns is bounded by the
  bytes that are left.
\<close>

lemma next_node_ok:
  assumes placed: "fdt_placed m fdt" and inv: "walk_inv fdt st ps"
  shows "\<exists>st' r. fdt_walk_next_node m st = Some (st', r) \<and> (r = None \<or> step_ok fdt (walk_cursor st) (Return st' r))"
  using inv
proof (induction "unat (struct_block_end fdt) + 3 - unat (walk_cursor st)" arbitrary: st ps rule: less_induct)
  case less
  show ?case
  proof (cases "walk_cursor st < struct_block_end fdt")
    case False
    then show ?thesis using less.prems by (simp add: fdt_walk_next_node.simps [of m st] walk_inv_def)
  next
    case True
    have fdt: "walk_fdt st = fdt" using less.prems by (simp add: walk_inv_def)
    from walk_turn_ok [OF placed less.prems True] obtain r where
      r: "walk_turn m st = Some r" "step_ok fdt (walk_cursor st) r" by blast
    show ?thesis
    proof (cases r)
      case (Continue st1)
      then obtain ps1 where inv1: "walk_inv fdt st1 ps1" and c: "unat (walk_cursor st) < unat (walk_cursor st1)"
        using r(2) by (auto simp: word_less_nat_alt)
      moreover have "unat (walk_cursor st1) \<le> unat (struct_block_end fdt) + 3" using inv1 by (simp add: walk_inv_def)
      ultimately obtain st' r' where s: "fdt_walk_next_node m st1 = Some (st', r')"
        "r' = None \<or> step_ok fdt (walk_cursor st1) (Return st' r')"
        using less.hyps [OF _ inv1] by fastforce
      have "r' = None \<or> step_ok fdt (walk_cursor st) (Return st' r')"
        using s(2) c by (cases r') (auto simp: word_less_nat_alt)
      then show ?thesis using True fdt r(1) Continue s(1) by (simp add: fdt_walk_next_node.simps [of m st])
    next
      case (Return st1 nd)
      then show ?thesis using True fdt r by (simp add: fdt_walk_next_node.simps [of m st])
    qed
  qed
qed

end
