(* ===== verification/FdtSearch.thy ===== *)
theory FdtSearch
  imports FdtWalk
begin

text \<open>
  The searches built on the walk.  \<open>visits m st ns\<close> lists the nodes that repeated calls of
  \<open>fdt_walk_next_node\<close> return, each with the path the state then holds.  The two search loops of
  \<open>fdt.c\<close> differ only in their test; the locale \<open>node_search\<close> is what they share.
\<close>

section \<open>The visited nodes\<close>

inductive visits :: "memory \<Rightarrow> fdt_walk_state \<Rightarrow> (u8 list \<times> fdt_node) list \<Rightarrow> bool" for m where
  visits_end: "fdt_walk_next_node m st = Some (st', None) \<Longrightarrow> visits m st []"
| visits_node: "fdt_walk_next_node m st = Some (st', Some nd) \<Longrightarrow> cstr (walk_path st') 0 ps \<Longrightarrow>
    visits m st' ns \<Longrightarrow> visits m st ((ps, nd) # ns)"

inductive_cases visits_NilE: "visits m st []"
inductive_cases visits_ConsE: "visits m st (x # ns)"

lemma visits_unique: "visits m st ns \<Longrightarrow> visits m st ns' \<Longrightarrow> ns = ns'"
proof (induction ns arbitrary: st ns')
  case Nil
  from Nil.prems(2) show ?case
    by cases (use Nil.prems(1) in \<open>auto elim: visits_NilE\<close>)
next
  case (Cons x ns)
  from Cons.prems(1) obtain st' nd ps where x: "x = (ps, nd)" "fdt_walk_next_node m st = Some (st', Some nd)"
    "cstr (walk_path st') 0 ps" "visits m st' ns" by (rule visits_ConsE)
  from Cons.prems(2) show ?case
    by cases (use x Cons.IH cstr_inj in \<open>auto\<close>)
qed

definition node_in_blob :: "fdt \<Rightarrow> fdt_node \<Rightarrow> bool" where
  "node_in_blob fdt nd \<longleftrightarrow> (\<exists>q. struct_offset nd = ucast (q - struct_block fdt) \<and>
     struct_block fdt \<le> q \<and> q < struct_block_end fdt)"

lemma visits_total:
  assumes placed: "fdt_placed m fdt" and inv: "walk_inv fdt st ps"
  shows "\<exists>ns. visits m st ns \<and> (\<forall>(p, nd) \<in> set ns. length p < 256 \<and> node_in_blob fdt nd)"
  using inv
proof (induction "unat (struct_block_end fdt) + 3 - unat (walk_cursor st)" arbitrary: st ps rule: less_induct)
  case less
  from next_node_ok [OF placed less.prems] obtain st' r where
    r: "fdt_walk_next_node m st = Some (st', r)" "r = None \<or> step_ok fdt (walk_cursor st) (Return st' r)" by blast
  show ?case
  proof (cases r)
    case None
    then have "visits m st []" using r(1) by (auto intro: visits_end)
    then show ?thesis by (intro exI [of _ "[]"]) simp
  next
    case (Some nd)
    then obtain ps' where inv': "walk_inv fdt st' ps'" and c: "walk_cursor st < walk_cursor st'"
      and nd: "node_in_blob fdt nd" using r(2) by (fastforce simp: node_in_blob_def)
    have p: "cstr (walk_path st') 0 ps'" "length ps' < 256" using inv' by (auto simp: walk_inv_def path_is_def)
    have "unat (walk_cursor st') \<le> unat (struct_block_end fdt) + 3" using inv' by (simp add: walk_inv_def)
    with c obtain ns where ns: "visits m st' ns" "\<forall>(p, nd) \<in> set ns. length p < 256 \<and> node_in_blob fdt nd"
      using less.hyps [OF _ inv'] by (fastforce simp: word_less_nat_alt)
    have "visits m st ((ps', nd) # ns)" using r(1) Some p(1) ns(1) by (auto intro: visits_node)
    then show ?thesis using ns(2) p(2) nd by (intro exI [of _ "(ps', nd) # ns"]) simp
  qed
qed

section \<open>Search loops\<close>

locale node_search =
  fixes m :: memory
    and accept :: "fdt_walk_state \<Rightarrow> fdt_node \<Rightarrow> bool option"
    and search :: "fdt_walk_state \<Rightarrow> fdt_node option option"
  assumes search_unfold: "search st = do {
      (st, node) \<leftarrow> fdt_walk_next_node m st;
      case node of
        None \<Rightarrow> Some None
      | Some node \<Rightarrow> do { ok \<leftarrow> accept st node; if ok then Some (Some node) else search st } }"
begin

text \<open>A search returns the first visited node that its test accepts.\<close>

lemma search_visits:
  assumes "visits m st ns"
    and "\<And>st' ps nd. cstr (walk_path st') 0 ps \<Longrightarrow> (ps, nd) \<in> set ns \<Longrightarrow> accept st' nd = Some (P (ps, nd))"
  shows "search st = Some (map_option snd (List.find P ns))"
  using assms
proof (induction rule: visits.induct)
  case (visits_end st st')
  then show ?case by (simp add: search_unfold [of st])
next
  case (visits_node st st' nd ps ns)
  have "accept st' nd = Some (P (ps, nd))" using visits_node.hyps visits_node.prems by simp
  moreover have "search st' = Some (map_option snd (List.find P ns))"
    using visits_node.IH visits_node.prems by simp
  ultimately show ?case using visits_node.hyps by (simp add: search_unfold [of st])
qed

end

interpretation by_path: node_search m
    "\<lambda>st _. do { c \<leftarrow> strcmp (walk_path st) path; Some (c = 0) }" "find_path_loop m path" for m path
  by unfold_locales (subst find_path_loop.simps, rule arg_cong2 [where f = Option.bind, OF refl],
      auto split: option.splits bind_split intro!: ext)

interpretation by_compatible: node_search m
    "\<lambda>_ nd. fdt_node_has_compatible m (Some fdt) (Some nd) (Some c)" "find_compatible_loop m fdt c" for m fdt c
  by unfold_locales (subst find_compatible_loop.simps, rule refl)

lemma find_path_visits:
  assumes "visits m st ns" "cstr path 0 xs"
  shows "find_path_loop m path st = Some (map_option snd (List.find (\<lambda>x. fst x = xs) ns))"
  using assms(1)
proof (rule by_path.search_visits)
  fix st' ps nd assume "cstr (walk_path st') 0 ps"
  then show "do { c \<leftarrow> strcmp (walk_path st') path; Some (c = 0) } = Some (fst (ps, nd) = xs)"
    using strcmp_total [OF _ assms(2)] by fastforce
qed

lemma find_compatible_visits:
  assumes "visits m st ns"
    and "\<And>nd. nd \<in> snd ` set ns \<Longrightarrow> fdt_node_has_compatible m (Some fdt) (Some nd) (Some c) = Some (P nd)"
  shows "find_compatible_loop m fdt c st = Some (map_option snd (List.find (\<lambda>x. P (snd x)) ns))"
  using assms(1)
  by (rule by_compatible.search_visits) (use assms(2) in force)

end
