(* ===== verification/FdtLookup.thy ===== *)
theory FdtLookup
  imports FdtSearch
begin

text \<open>
  Looking up properties in an arbitrary blob whose structure block is aligned to 4 bytes at both ends
  (\<open>fdt_get_property\<close> reads a token without checking that 4 bytes are left), and the decoding of
  what is found: the strings of a property, and its cells.
\<close>

definition fdt_aligned :: "fdt \<Rightarrow> bool" where
  "fdt_aligned fdt \<longleftrightarrow> unat (struct_block fdt) mod 4 = 0 \<and> unat (struct_block_end fdt) mod 4 = 0"

definition prop_in_blob :: "fdt \<Rightarrow> fdt_prop \<Rightarrow> bool" where
  "prop_in_blob fdt p \<longleftrightarrow> unat (struct_block fdt) \<le> unat (prop_data p) \<and>
     unat (prop_data p) + unat (prop_len p) \<le> unat (struct_block_end fdt)"

section \<open>Properties of a node\<close>

fun prop_step_ok :: "fdt \<Rightarrow> u64 \<Rightarrow> prop_step \<Rightarrow> bool" where
  "prop_step_ok fdt c (Go c' d) \<longleftrightarrow> c < c' \<and> unat c' \<le> unat (struct_block_end fdt) \<and> unat c' mod 4 = 0"
| "prop_step_ok fdt c (Give p) \<longleftrightarrow> (\<forall>q. p = Some q \<longrightarrow> prop_in_blob fdt q)"

lemma align4_inside:
  assumes "unat x \<le> unat e" "unat e mod 4 = 0" "unat e + 2 ^ 33 \<le> 2 ^ 64"
  shows "unat x \<le> unat (fdt_align4 x) \<and> unat (fdt_align4 x) \<le> unat e \<and> unat (fdt_align4 x) mod 4 = 0"
proof -
  have "unat x + 3 < 2 ^ 64" using assms by simp
  then show ?thesis using unat_align4 [of x] assms(1,2) by presburger
qed

text \<open>A turn at the token of a property.\<close>

lemma property_turn_prop:
  assumes placed: "fdt_placed m fdt" and al: "fdt_aligned fdt" and name: "cstr name 0 nm"
    and token: "fdt_read_be32 m c = Some FDT_PROP" and c4: "unat (c + 4) = unat c + 4"
    and lo: "unat (struct_block fdt) \<le> unat c" and le: "unat (c + 4) \<le> unat (struct_block_end fdt)"
  shows "\<exists>r. property_turn m fdt name c d = Some r \<and> prop_step_ok fdt c r"
proof (cases "struct_block_end fdt - (c + 4) < 8")
  case True
  then show ?thesis using token by (simp add: property_turn_def Let_def FDT_BEGIN_NODE_def FDT_PROP_def FDT_END_NODE_def)
next
  case False
  let ?e = "struct_block_end fdt" and ?c = "c + 4"
  have top: "unat ?e + 2 ^ 33 \<le> 2 ^ 64" using placed by (simp add: fdt_placed_def)
  have e4: "unat ?e mod 4 = 0" using al by (simp add: fdt_aligned_def)
  have lo': "unat (struct_block fdt) \<le> unat ?c" using lo c4 by simp
  from prop_header [OF placed lo' le False] obtain n nameoff where
    n: "fdt_read_be32 m ?c = Some n" "fdt_read_be32 m (?c + 4) = Some nameoff" and c8: "unat (?c + 8) = unat ?c + 8"
    and room: "unat ?c + 8 \<le> unat ?e" .
  let ?s = "bytes_at m (strings_block fdt + ucast nameoff)"
  show ?thesis
  proof (cases "?e - (?c + 8) < ucast n \<or> fdt_prop_name_valid m fdt nameoff = Some False")
    case True
    then show ?thesis using token False n prop_name_valid_total [OF placed, of nameoff]
      by (auto simp: property_turn_def Let_def FDT_BEGIN_NODE_def FDT_PROP_def FDT_END_NODE_def)
  next
    case ok: False
    then obtain xs where valid: "fdt_prop_name_valid m fdt nameoff = Some True" and xs: "cstr ?s 0 xs"
      using prop_name_valid_total [OF placed, of nameoff] by auto
    have fits: "unat ?c + 8 + unat n \<le> unat ?e" "unat (?c + 8 + ucast n) = unat ?c + 8 + unat n"
      using prop_data_fits [OF placed c8 room] ok by blast+
    have "prop_step_ok fdt c (Go (fdt_align4 (?c + 8 + ucast n)) d)"
      using align4_inside [of "?c + 8 + ucast n" ?e] fits e4 top c4 by (simp add: word_less_nat_alt)
    moreover have "prop_step_ok fdt c (Give (Some \<lparr>prop_data = ?c + 8, prop_len = n\<rparr>))"
      using fits c4 c8 lo by (simp add: prop_in_blob_def)
    moreover obtain k where "strcmp ?s name = Some k" using strcmp_total [OF xs name] by blast
    ultimately show ?thesis using token False n ok valid
      by (cases "k = 0"; cases "d = 0")
        (simp_all add: property_turn_def Let_def FDT_BEGIN_NODE_def FDT_PROP_def FDT_END_NODE_def)
  qed
qed

lemma property_turn_ok:
  assumes placed: "fdt_placed m fdt" and al: "fdt_aligned fdt" and name: "cstr name 0 nm"
    and lo: "unat (struct_block fdt) \<le> unat c" and lt: "unat c < unat (struct_block_end fdt)" and c: "unat c mod 4 = 0"
  shows "\<exists>r. property_turn m fdt name c d = Some r \<and> prop_step_ok fdt c r"
proof -
  let ?e = "struct_block_end fdt" and ?c = "c + 4"
  have top: "unat ?e + 2 ^ 33 \<le> 2 ^ 64" using placed by (simp add: fdt_placed_def)
  have e4: "unat ?e mod 4 = 0" using al by (simp add: fdt_aligned_def)
  have room: "unat c + 4 \<le> unat ?e" using lt c e4 by presburger
  have c4: "unat ?c = unat c + 4" using room top by (subst unat_add_nowrap) simp_all
  have c44: "unat ?c mod 4 = 0" using c c4 by presburger
  obtain token where token: "fdt_read_be32 m c = Some token"
    using read_be32_region [OF placed_region [OF placed lo room]] by blast
  have go: "prop_step_ok fdt c (Go ?c d')" for d' using c4 room c44 by (simp add: word_less_nat_alt)
  consider "token = FDT_BEGIN_NODE" | "token = FDT_PROP" | "token \<noteq> FDT_BEGIN_NODE" "token \<noteq> FDT_PROP" by blast
  then show ?thesis
  proof cases
    case 1
    have "unat (struct_block fdt) \<le> unat ?c" "unat ?c \<le> unat ?e" using lo c4 room by simp_all
    with placed show ?thesis
    proof (cases rule: bounded_strlen_cases)
      case no_end
      then show ?thesis using token \<open>token = _\<close> by (simp add: property_turn_def Let_def)
    next
      case (ends xs)
      have "prop_step_ok fdt c (Go (fdt_align4 (?c + of_nat (length xs) + 1)) (d + 1))"
        using align4_inside [of "?c + of_nat (length xs) + 1" ?e] ends e4 top c4 by (simp add: word_less_nat_alt)
      then show ?thesis using token \<open>token = _\<close> ends by (simp add: property_turn_def Let_def)
    qed
  next
    case 2
    then show ?thesis using property_turn_prop [OF placed al name _ c4 lo] token c4 room by simp
  next
    case 3
    then show ?thesis using token go by (auto simp: property_turn_def Let_def)
  qed
qed

lemma property_loop_total:
  assumes placed: "fdt_placed m fdt" and al: "fdt_aligned fdt" and name: "cstr name 0 nm"
    and "unat (struct_block fdt) \<le> unat c" "unat c \<le> unat (struct_block_end fdt)" "unat c mod 4 = 0"
  shows "\<exists>r. property_loop m fdt name c d = Some r \<and> (\<forall>p. r = Some p \<longrightarrow> prop_in_blob fdt p)"
  using assms(4-)
proof (induction "unat (struct_block_end fdt) - unat c" arbitrary: c d rule: less_induct)
  case less
  show ?case
  proof (cases "unat c < unat (struct_block_end fdt)")
    case False
    then show ?thesis by (simp add: property_loop.simps [of m fdt name c] word_less_nat_alt)
  next
    case True
    from property_turn_ok [OF placed al name less.prems(1) True less.prems(3)] obtain r where
      r: "property_turn m fdt name c d = Some r" "prop_step_ok fdt c r" by blast
    have lt: "c < struct_block_end fdt" using True by (simp add: word_less_nat_alt)
    show ?thesis
    proof (cases r)
      case (Go c' d')
      have c': "unat c < unat c'" "unat c' \<le> unat (struct_block_end fdt)" "unat c' mod 4 = 0"
        using r(2) Go by (auto simp: word_less_nat_alt)
      have dec: "unat (struct_block_end fdt) - unat c' < unat (struct_block_end fdt) - unat c"
        using c'(1) True by simp
      have lo': "unat (struct_block fdt) \<le> unat c'" using c'(1) less.prems(1) by simp
      from less.hyps [OF dec lo' c'(2,3)] obtain r' where "property_loop m fdt name c' d' = Some r'"
        "\<forall>p. r' = Some p \<longrightarrow> prop_in_blob fdt p" by blast
      then show ?thesis using r(1) Go lt by (simp add: property_loop.simps [of m fdt name c])
    next
      case (Give p)
      then show ?thesis using r lt by (auto simp: property_loop.simps [of m fdt name c])
    qed
  qed
qed

lemma node_payload_total:
  assumes placed: "fdt_placed m fdt" and al: "fdt_aligned fdt"
  shows "\<exists>r. fdt_node_payload m fdt node = Some r \<and> (\<forall>c. r = Some c \<longrightarrow>
    unat (struct_block fdt) \<le> unat c \<and> unat c \<le> unat (struct_block_end fdt) \<and> unat c mod 4 = 0)"
proof -
  let ?e = "struct_block_end fdt" and ?c = "struct_block fdt + ucast (struct_offset node)"
  have top: "unat ?e + 2 ^ 33 \<le> 2 ^ 64" "unat (struct_block fdt) \<le> unat ?e"
    using placed by (auto simp: fdt_placed_def)
  have "unat (struct_offset node) < 2 ^ LENGTH(32)" by (rule unsigned_less)
  then have off: "unat (struct_offset node) < 2 ^ 32" by simp
  have c: "unat ?c = unat (struct_block fdt) + unat (struct_offset node)"
    using top off by (subst unat_add_nowrap) simp_all
  have c4: "unat (?c + 4) = unat ?c + 4" using c top off by (subst unat_add_nowrap) simp_all
  show ?thesis
  proof (cases "?c + 4 > ?e")
    case True
    then show ?thesis by (simp add: fdt_node_payload_def Let_def)
  next
    case False
    then have room: "unat ?c + 4 \<le> unat ?e" using c4 by (simp add: word_less_nat_alt)
    obtain token where token: "fdt_read_be32 m ?c = Some token"
      using read_be32_region [OF placed_region [OF placed _ room]] c by auto
    have "unat (struct_block fdt) \<le> unat (?c + 4)" "unat (?c + 4) \<le> unat ?e" using c c4 room by simp_all
    with placed show ?thesis
    proof (cases rule: bounded_strlen_cases)
      case no_end
      then show ?thesis using False token by (auto simp: fdt_node_payload_def Let_def)
    next
      case (ends xs)
      then show ?thesis
        using False token ends align4_inside [of "?c + 4 + of_nat (length xs) + 1" ?e] top al c c4
        by (auto simp: fdt_node_payload_def Let_def fdt_aligned_def)
    qed
  qed
qed

text \<open>For every node whatever, the lookup of a property returns, and what it finds lies in the blob.\<close>

lemma get_property_total:
  assumes placed: "fdt_placed m fdt" and al: "fdt_aligned fdt" and name: "cstr name 0 nm"
  shows "\<exists>r. fdt_get_property m (Some fdt) (Some node) (Some name) (Some ()) = Some r \<and>
    (\<forall>p. r = Some p \<longrightarrow> prop_in_blob fdt p)"
proof -
  obtain r where r: "fdt_node_payload m fdt node = Some r" "\<forall>c. r = Some c \<longrightarrow>
      unat (struct_block fdt) \<le> unat c \<and> unat c \<le> unat (struct_block_end fdt) \<and> unat c mod 4 = 0"
    using node_payload_total [OF placed al] by blast
  show ?thesis
  proof (cases r)
    case None
    then show ?thesis using r by (simp add: fdt_get_property_def)
  next
    case (Some c)
    then show ?thesis using r property_loop_total [OF placed al name, of c 0] by (simp add: fdt_get_property_def)
  qed
qed

end
