(* ===== verification/FdtDecode.thy ===== *)
theory FdtDecode
  imports FdtLookup
begin

text \<open>
  What the bytes of a property mean: big-endian cells, lists of strings, and the bounded copy of a
  string into a buffer.
\<close>

section \<open>Cells\<close>

definition be32 :: "u32 \<Rightarrow> u8 list" where
  "be32 w = [ucast (drop_bit 24 w), ucast (drop_bit 16 w), ucast (drop_bit 8 w), ucast w]"

lemma length_be32 [simp]: "length (be32 w) = 4"
  by (simp add: be32_def)

lemma be32_join: "push_bit 24 (ucast (ucast (drop_bit 24 w) :: u8)) OR push_bit 16 (ucast (ucast (drop_bit 16 w) :: u8)) OR
    push_bit 8 (ucast (ucast (drop_bit 8 w) :: u8)) OR ucast (ucast w :: u8) = (w :: u32)"
proof (rule bit_word_eqI)
  fix n assume "n < LENGTH(32)"
  moreover have "n < 8 \<or> 8 \<le> n \<and> n < 16 \<or> 16 \<le> n \<and> n < 24 \<or> 24 \<le> n" by linarith
  ultimately show "bit (push_bit 24 (ucast (ucast (drop_bit 24 w) :: u8)) OR push_bit 16 (ucast (ucast (drop_bit 16 w) :: u8)) OR
      push_bit 8 (ucast (ucast (drop_bit 8 w) :: u8)) OR ucast (ucast w :: u8) :: u32) n = bit w n"
    by (auto simp: bit_simps)
qed

lemma read_be32: "holds m p (be32 w) \<Longrightarrow> fdt_read_be32 m p = Some w"
  using be32_join [of w] by (simp add: fdt_read_be32_def be32_def add.assoc)

definition be32_of :: "u8 list \<Rightarrow> u32" where
  "be32_of d = push_bit 24 (ucast (d ! 0)) OR push_bit 16 (ucast (d ! 1)) OR push_bit 8 (ucast (d ! 2)) OR ucast (d ! 3)"

lemma be32_of_be32 [simp]: "be32_of (be32 w) = w"
  using be32_join [of w] by (simp add: be32_of_def be32_def numeral_3_eq_3 numeral_2_eq_2)

lemma read_be32_of: "holds m p d \<Longrightarrow> length d = 4 \<Longrightarrow> fdt_read_be32 m p = Some (be32_of d)"
proof -
  assume h: "holds m p d" and l: "length d = 4"
  have "m (p + of_nat k) = Some (d ! k)" if "k < 4" for k using h l that by (simp add: holds_def)
  from this [of 0] this [of 1] this [of 2] this [of 3] show ?thesis by (simp add: fdt_read_be32_def be32_of_def)
qed

definition cell_bytes :: "u32 list \<Rightarrow> u8 list" where
  "cell_bytes cs = concat (map be32 cs)"

lemma cell_bytes_simps [simp]:
  "cell_bytes [] = []" "cell_bytes (c # cs) = be32 c @ cell_bytes cs" "cell_bytes (cs @ ds) = cell_bytes cs @ cell_bytes ds"
  by (simp_all add: cell_bytes_def)

lemma length_cell_bytes [simp]: "length (cell_bytes cs) = 4 * length cs"
  by (induction cs) simp_all

fun cells_value :: "u32 list \<Rightarrow> nat" where
  "cells_value [] = 0"
| "cells_value (c # cs) = unat c * 2 ^ (32 * length cs) + cells_value cs"

lemma holds_cell:
  assumes "holds m p (cell_bytes cs)" "i < length cs"
  shows "fdt_read_be32 m (p + of_nat (4 * i)) = Some (cs ! i)"
proof -
  have "take i cs @ cs ! i # drop (Suc i) cs = cs" by (rule id_take_nth_drop [OF assms(2), symmetric])
  then have "holds m p (cell_bytes (take i cs @ cs ! i # drop (Suc i) cs))" using assms(1) by (rule ssubst)
  moreover have "length (cell_bytes (take i cs)) = 4 * i" using assms(2) by simp
  ultimately have "holds m (p + of_nat (4 * i)) (be32 (cs ! i))" by (simp add: min_absorb2 del: length_be32)
  then show ?thesis by (rule read_be32)
qed

lemma join_cells: "unat (push_bit 32 (ucast (a :: u32)) OR ucast (b :: u32) :: u64) = unat a * 2 ^ 32 + unat b"
proof -
  have "push_bit 32 (ucast a) AND ucast b = (0 :: u64)"
    by (rule bit_word_eqI) (auto simp: bit_simps dest: bit_imp_le_length)
  then have "push_bit 32 (ucast a) OR ucast b = push_bit 32 (ucast a :: u64) + ucast b"
    by (rule disjunctive_add_eq_or [symmetric])
  moreover have u: "unat (push_bit 32 (ucast a :: u64)) = unat a * 2 ^ 32"
  proof -
    have "unat a < 2 ^ LENGTH(32)" by (rule unsigned_less)
    then have "unat a * 2 ^ 32 < 2 ^ 64" by simp
    then show ?thesis by (simp add: push_bit_eq_mult unat_word_ariths mult.commute)
  qed
  moreover have "unat a * 2 ^ 32 + unat b < 2 ^ 64"
  proof -
    have "unat a < 2 ^ LENGTH(32)" "unat b < 2 ^ LENGTH(32)" by (rule unsigned_less)+
    then show ?thesis by simp
  qed
  ultimately show ?thesis by (simp add: unat_add_nowrap)
qed

text \<open>Up to two cells are read as one number, most significant cell first.\<close>

lemma read_cells_value:
  assumes "holds m p (cell_bytes cs)" "i + unat n \<le> length cs" "unat n \<le> 2"
  shows "\<exists>v. read_cells m n (p + of_nat (4 * i)) = Some (v, p + of_nat (4 * (i + unat n))) \<and>
    unat v = cells_value (take (unat n) (drop i cs))"
proof -
  consider "unat n = 0" | "unat n = 1" | "unat n = 2" using assms(3) by linarith
  then show ?thesis
  proof cases
    case 1
    then show ?thesis by (simp add: read_cells_def)
  next
    case 2
    then have "i < length cs" using assms(2) by simp
    then show ?thesis using 2 holds_cell [OF assms(1), of i]
      by (simp add: read_cells_def algebra_simps flip: Cons_nth_drop_Suc)
  next
    case 3
    then have i: "i < length cs" "Suc i < length cs" using assms(2) by simp_all
    have upt: "[0..<2] = [0, 1 :: nat]" by (simp add: numeral_2_eq_2)
    have "fdt_read_be32 m (p + of_nat (4 * i)) = Some (cs ! i)"
      "fdt_read_be32 m (p + of_nat (4 * i) + 4) = Some (cs ! Suc i)"
      using holds_cell [OF assms(1) i(1)] holds_cell [OF assms(1) i(2)] by (simp_all add: algebra_simps)
    then have "read_cells m n (p + of_nat (4 * i)) =
        Some (push_bit 32 (ucast (cs ! i)) OR ucast (cs ! Suc i), p + of_nat (4 * (i + unat n)))"
      using 3 by (simp add: read_cells_def upt algebra_simps)
    moreover have "take (unat n) (drop i cs) = [cs ! i, cs ! Suc i]"
      using 3 i by (simp add: numeral_2_eq_2 flip: Cons_nth_drop_Suc)
    ultimately show ?thesis using join_cells by simp
  qed
qed

section \<open>Lists of strings\<close>

text \<open>The strings of a property: what stands before each terminator; an unterminated rest is none.\<close>

function nul_strings :: "u8 list \<Rightarrow> u8 list list" where
  "nul_strings d = (case dropWhile (\<lambda>c. c \<noteq> 0) d of [] \<Rightarrow> []
     | _ # r \<Rightarrow> takeWhile (\<lambda>c. c \<noteq> 0) d # nul_strings r)"
  by pat_completeness auto
termination
proof (relation "measure length", goal_cases)
  case (2 d x r)
  then show ?case using length_dropWhile_le [of "\<lambda>c. c \<noteq> 0" d] by (metis in_measure length_Cons less_eq_Suc_le)
qed simp

declare nul_strings.simps [simp del]

lemma nul_strings_none: "0 \<notin> set d \<Longrightarrow> nul_strings d = []"
proof -
  assume "0 \<notin> set d"
  then have "dropWhile (\<lambda>c. c \<noteq> 0) d = []" by (auto simp: dropWhile_eq_Nil_conv)
  then show ?thesis by (subst nul_strings.simps) (simp only: list.case)
qed

lemma nul_strings_one: "0 \<notin> set w \<Longrightarrow> nul_strings (w @ 0 # r) = w # nul_strings r"
proof -
  assume "0 \<notin> set w"
  then have "dropWhile (\<lambda>c. c \<noteq> 0) (w @ 0 # r) = 0 # r" "takeWhile (\<lambda>c. c \<noteq> 0) (w @ 0 # r) = w"
    by (auto simp: dropWhile_append takeWhile_append)
  then show ?thesis by (subst nul_strings.simps) simp
qed

lemma compatible_loop_strings:
  assumes "holds m (prop_data prop + of_nat off) (d @ tail @ [0])" "off + length d = unat (prop_len prop)"
    "0 \<notin> set tail" "length tail < 2 ^ 62" and c: "cstr c 0 cs"
  shows "compatible_loop m prop (Some c) (of_nat off) = Some (cs \<in> set (nul_strings d))"
  using assms(1,2)
proof (induction "length d" arbitrary: d off rule: less_induct)
  case less
  let ?n = "unat (prop_len prop)" and ?entry = "bytes_at m (prop_data prop + of_nat off)"
  have "?n < 2 ^ LENGTH(32)" by (rule unsigned_less)
  then have small: "?n < 2 ^ 32" by simp
  then have o: "unat (of_nat off :: u64) = off" by (intro unat_of_nat_small) (use less.prems(2) in simp)
  show ?case
  proof (cases "d = []")
    case True
    then have "\<not> of_nat off < (ucast (prop_len prop) :: u64)" using less.prems(2) o by (simp add: word_less_nat_alt)
    then show ?thesis using True by (simp add: compatible_loop.simps [of m "prop" "Some c" "of_nat off"] nul_strings_none)
  next
    case False
    then have "0 < length d" by simp
    then have "off < ?n" using less.prems(2) by linarith
    then have lt: "of_nat off < (ucast (prop_len prop) :: u64)" using o by (simp add: word_less_nat_alt)
    show ?thesis
    proof (cases "0 \<in> set d")
      case no: False
      have "cstr ?entry 0 (d @ tail)"
        unfolding cstr_bytes_at using less.prems(1) no assms(3) by (simp add: cstr_holds algebra_simps)
      then have "strlen ?entry = Some (of_nat (length (d @ tail)))" by (rule strlen_cstr)
      moreover have "of_nat off + of_nat (length (d @ tail)) \<ge> (ucast (prop_len prop) :: u64)"
      proof -
        have "unat (of_nat (off + length (d @ tail)) :: u64) = off + length (d @ tail)"
          by (rule unat_of_nat_small) (use less.prems(2) small assms(4) in simp)
        then show ?thesis using less.prems(2) by (simp add: word_le_nat_alt)
      qed
      ultimately show ?thesis using lt no
        by (simp add: compatible_loop.simps [of m "prop" "Some c" "of_nat off"] nul_strings_none Let_def)
    next
      case True
      then obtain w r where d: "d = w @ 0 # r" "0 \<notin> set w" by (meson split_list_first)
      have cw: "cstr ?entry 0 w"
        unfolding cstr_bytes_at using less.prems(1) d by (simp add: cstr_holds algebra_simps)
      have e: "of_nat off + of_nat (length w) + 1 = (of_nat (off + length w + 1) :: u64)" by simp
      have "\<not> of_nat off + of_nat (length w) \<ge> (ucast (prop_len prop) :: u64)"
      proof -
        have "unat (of_nat (off + length w) :: u64) = off + length w"
          by (rule unat_of_nat_small) (use less.prems(2) small d in simp)
        then show ?thesis using less.prems(2) d by (simp add: word_le_nat_alt)
      qed
      moreover have "compatible_loop m prop (Some c) (of_nat (off + length w + 1)) = Some (cs \<in> set (nul_strings r))"
        by (rule less.hyps) (use less.prems d in \<open>simp_all add: algebra_simps\<close>)
      moreover obtain k where "strcmp ?entry c = Some k" "k = 0 \<longleftrightarrow> w = cs" using strcmp_total [OF cw c] by blast
      ultimately show ?thesis using lt strlen_cstr [OF cw] d
        by (simp add: compatible_loop.simps [of m "prop" "Some c" "of_nat off"] nul_strings_one Let_def algebra_simps)
    qed
  qed
qed

end
