(* ===== verification/FdtTree.thy ===== *)
theory FdtTree
  imports FdtDecode
begin

text \<open>
  The reference: device trees, their flattened form, and the nodes in document order with their
  paths and the cell counts that apply to them.  \<open>walk_at\<close> ties a state of the walk to a position in
  a flattened tree; each token of the flattened form is one exact step.
\<close>

section \<open>Trees and their flattened form\<close>

datatype dt = Dt (dt_name: "u8 list") (dt_props: "(u8 list \<times> u8 list) list") (dt_children: "dt list")

definition pad4 :: "u8 list \<Rightarrow> u8 list" where
  "pad4 xs = xs @ replicate ((4 - length xs mod 4) mod 4) 0"

definition flat_begin :: "u8 list \<Rightarrow> u8 list" where
  "flat_begin name = be32 FDT_BEGIN_NODE @ pad4 (name @ [0])"

definition flat_prop :: "(u8 list \<Rightarrow> u32) \<Rightarrow> u8 list \<times> u8 list \<Rightarrow> u8 list" where
  "flat_prop off p = be32 FDT_PROP @ be32 (of_nat (length (snd p))) @ be32 (off (fst p)) @ pad4 (snd p)"

definition flat_props :: "(u8 list \<Rightarrow> u32) \<Rightarrow> (u8 list \<times> u8 list) list \<Rightarrow> u8 list" where
  "flat_props off ps = concat (map (flat_prop off) ps)"

fun flatten :: "(u8 list \<Rightarrow> u32) \<Rightarrow> dt \<Rightarrow> u8 list" where
  "flatten off (Dt name ps ts) =
     flat_begin name @ flat_props off ps @ concat (map (flatten off) ts) @ be32 FDT_END_NODE"

lemma round_up4: "n + (4 - n mod 4) mod 4 = (n + 3) div 4 * (4::nat)"
proof -
  obtain q r where n: "n = r + 4 * q" "r < 4" using that [of "n mod 4" "n div 4"] by simp
  then have "r = 0 \<or> r = 1 \<or> r = 2 \<or> r = 3" by linarith
  moreover have "n mod 4 = r" "(n + 3) div 4 = q + (r + 3) div 4" using n by simp_all
  ultimately show ?thesis using n(1) by (elim disjE) simp_all
qed

lemma length_pad4: "length (pad4 xs) = (length xs + 3) div 4 * 4"
  by (simp add: pad4_def round_up4)

lemma flat_lengths:
  "length (flat_begin name) = 4 + (length name + 4) div 4 * 4"
  "length (flat_prop off p) = 12 + (length (snd p) + 3) div 4 * 4"
  by (simp_all add: flat_begin_def flat_prop_def length_pad4)

lemma flat_props_simps [simp]:
  "flat_props off [] = []" "flat_props off (p # ps) = flat_prop off p @ flat_props off ps"
  by (simp_all add: flat_props_def)

lemma flat_mod4: "length (flat_begin name) mod 4 = 0" "length (flat_prop off p) mod 4 = 0"
  "length (flat_props off ps) mod 4 = 0"
proof -
  show p: "length (flat_prop off p) mod 4 = 0" for p unfolding flat_lengths by presburger
  show "length (flat_begin name) mod 4 = 0" unfolding flat_lengths by presburger
  show "length (flat_props off ps) mod 4 = 0"
    by (induction ps) (use p in \<open>simp_all add: mod_add_eq [symmetric]\<close>)
qed

lemma flatten_mod4: "length (flatten off t) mod 4 = 0"
proof (induction t)
  case (Dt name ps ts)
  have "length (concat (map (flatten off) ts)) mod 4 = 0"
    using Dt by (induction ts) (simp_all add: mod_add_eq [symmetric])
  then show ?case using flat_mod4 by (simp add: mod_add_eq [symmetric])
qed

section \<open>The nodes in document order\<close>

text \<open>The cell counts a node gives its children: the defaults, replaced by its two properties.\<close>

definition set_cell :: "u8 list \<times> u8 list \<Rightarrow> u32 \<times> u32 \<Rightarrow> u32 \<times> u32" where
  "set_cell p cells =
     (if fst p = text_bytes ''#address-cells'' then (be32_of (snd p), snd cells)
      else if fst p = text_bytes ''#size-cells'' then (fst cells, be32_of (snd p))
      else cells)"

definition default_cells :: "u32 \<times> u32" where
  "default_cells = (FDT_DEFAULT_ADDRESS_CELLS, FDT_DEFAULT_SIZE_CELLS)"

definition node_of :: "nat \<Rightarrow> u32 \<times> u32 \<Rightarrow> fdt_node" where
  "node_of n cells = \<lparr>struct_offset = of_nat n, parent_address_cells = fst cells, parent_size_cells = snd cells\<rparr>"

text \<open>Each node with its path, its description (the offset counts from the structure block) and its subtree.\<close>

fun tree_nodes :: "(u8 list \<Rightarrow> u32) \<Rightarrow> u8 list \<Rightarrow> u32 \<times> u32 \<Rightarrow> nat \<Rightarrow> dt \<Rightarrow> (u8 list \<times> fdt_node \<times> dt) list"
and forest_nodes :: "(u8 list \<Rightarrow> u32) \<Rightarrow> u8 list \<Rightarrow> u32 \<times> u32 \<Rightarrow> nat \<Rightarrow> dt list \<Rightarrow> (u8 list \<times> fdt_node \<times> dt) list" where
  "tree_nodes off p cells n (Dt name ps ts) = (p, node_of n cells, Dt name ps ts) #
     forest_nodes off p (fold set_cell ps default_cells) (n + length (flat_begin name) + length (flat_props off ps)) ts"
| "forest_nodes off p cells n [] = []"
| "forest_nodes off p cells n (t # ts) =
     tree_nodes off (join_path p (dt_name t)) cells n t @ forest_nodes off p cells (n + length (flatten off t)) ts"

text \<open>What the code can represent: terminated names, paths below 256 bytes, at most 32 levels.\<close>

definition prop_ok :: "memory \<Rightarrow> fdt \<Rightarrow> (u8 list \<Rightarrow> u32) \<Rightarrow> u8 list \<times> u8 list \<Rightarrow> bool" where
  "prop_ok m fdt off p \<longleftrightarrow> length (snd p) < 2 ^ 32 \<and>
     cstr m (strings_block fdt + ucast (off (fst p))) (fst p) \<and>
     unat (off (fst p)) + length (fst p) < unat (strings_size fdt) \<and>
     (fst p \<in> {text_bytes ''#address-cells'', text_bytes ''#size-cells''} \<longrightarrow> length (snd p) = 4)"

fun wf_dt :: "(u8 list \<times> u8 list \<Rightarrow> bool) \<Rightarrow> u8 list \<Rightarrow> nat \<Rightarrow> dt \<Rightarrow> bool" where
  "wf_dt ok p d (Dt name ps ts) \<longleftrightarrow> length p < 256 \<and> d < 32 \<and> 0 \<notin> set name \<and> list_all ok ps \<and>
     list_all (\<lambda>t. wf_dt ok (join_path p (dt_name t)) (Suc d) t) ts"

section \<open>Positions\<close>

definition pos :: "fdt \<Rightarrow> nat \<Rightarrow> u64" where
  "pos fdt n = struct_block fdt + of_nat n"

definition block_size :: "fdt \<Rightarrow> nat" where
  "block_size fdt = unat (struct_block_end fdt) - unat (struct_block fdt)"

lemma pos_add: "pos fdt n + of_nat k = pos fdt (n + k)"
  by (simp add: pos_def add.assoc)

lemma pos_numeral: "pos fdt (n + numeral k) = pos fdt n + numeral k"
  using pos_add [of fdt n "numeral k"] by simp

lemma unat_pos:
  assumes "fdt_placed m fdt" "n \<le> block_size fdt"
  shows "unat (pos fdt n) = unat (struct_block fdt) + n"
proof -
  have "unat (struct_block fdt) + n < 2 ^ 64" using assms by (auto simp: fdt_placed_def block_size_def)
  then show ?thesis by (simp add: pos_def unat_add_nowrap unat_of_nat_small)
qed

lemma pos_less_end:
  assumes "fdt_placed m fdt" "n < block_size fdt"
  shows "pos fdt n < struct_block_end fdt" "unat (struct_block_end fdt - pos fdt n) = block_size fdt - n"
proof -
  have u: "unat (pos fdt n) = unat (struct_block fdt) + n" using unat_pos assms by simp
  moreover have "unat (struct_block fdt) + block_size fdt = unat (struct_block_end fdt)"
    using assms by (simp add: fdt_placed_def block_size_def)
  ultimately show "pos fdt n < struct_block_end fdt" "unat (struct_block_end fdt - pos fdt n) = block_size fdt - n"
    using assms(2) by (auto simp: word_less_nat_alt word_le_nat_alt unat_sub)
qed

lemma align_pos:
  assumes "fdt_placed m fdt" "unat (struct_block fdt) mod 4 = 0" "n \<le> block_size fdt"
  shows "fdt_align4 (pos fdt n) = pos fdt ((n + 3) div 4 * 4)"
proof -
  have u: "unat (pos fdt n) = unat (struct_block fdt) + n" using unat_pos assms by simp
  have top: "unat (struct_block fdt) + n + 6 < 2 ^ 64"
    using assms(1,3) by (auto simp: fdt_placed_def block_size_def)
  then have "unat (fdt_align4 (pos fdt n)) = (unat (struct_block fdt) + n + 3) div 4 * 4"
    using unat_align4 [of "pos fdt n"] u by simp
  also have "\<dots> = unat (struct_block fdt) + (n + 3) div 4 * 4" using assms(2) by presburger
  also have "\<dots> = unat (pos fdt ((n + 3) div 4 * 4))"
  proof -
    have "(n + 3) div 4 * 4 \<le> n + 3" by presburger
    then have "unat (struct_block fdt) + (n + 3) div 4 * 4 < 2 ^ 64" using top by linarith
    then show ?thesis by (simp add: pos_def unat_add_nowrap unat_of_nat_small del: of_nat_mult)
  qed
  finally show ?thesis by (simp only: word_unat_eq_iff)
qed

end
