(* ===== verification/FdtTrace.thy ===== *)
theory FdtTrace
  imports FdtTree
begin

text \<open>
  The walk over a flattened tree.  \<open>walk_trace m st xs st'\<close>: turns of the loop lead from \<open>st\<close> to
  \<open>st'\<close> and return the nodes \<open>xs\<close> on the way.  Each token is one exact turn, and the trace of a tree
  is, by induction, its nodes in document order.
\<close>

section \<open>Traces\<close>

inductive walk_trace :: "memory \<Rightarrow> fdt_walk_state \<Rightarrow> (u8 list \<times> fdt_node) list \<Rightarrow> fdt_walk_state \<Rightarrow> bool" for m where
  trace_refl: "walk_trace m st [] st"
| trace_continue: "walk_cursor st < struct_block_end (walk_fdt st) \<Longrightarrow> walk_turn m st = Some (Continue st1) \<Longrightarrow>
    walk_trace m st1 xs st' \<Longrightarrow> walk_trace m st xs st'"
| trace_node: "walk_cursor st < struct_block_end (walk_fdt st) \<Longrightarrow> walk_turn m st = Some (Return st1 (Some nd)) \<Longrightarrow>
    cstr (walk_path st1) 0 ps \<Longrightarrow> walk_trace m st1 xs st' \<Longrightarrow> walk_trace m st ((ps, nd) # xs) st'"

lemma trace_append: "walk_trace m st xs st1 \<Longrightarrow> walk_trace m st1 ys st2 \<Longrightarrow> walk_trace m st (xs @ ys) st2"
  by (induction rule: walk_trace.induct) (auto intro: walk_trace.intros)

lemma next_node_continue:
  "walk_cursor st < struct_block_end (walk_fdt st) \<Longrightarrow> walk_turn m st = Some (Continue st1) \<Longrightarrow>
   fdt_walk_next_node m st = fdt_walk_next_node m st1"
  by (simp add: fdt_walk_next_node.simps [of m st])

lemma visits_continue:
  assumes "walk_cursor st < struct_block_end (walk_fdt st)" "walk_turn m st = Some (Continue st1)" "visits m st1 ns"
  shows "visits m st ns"
  using assms(3) by cases (auto intro: visits.intros simp: next_node_continue [OF assms(1,2)])

lemma trace_visits: "walk_trace m st xs st1 \<Longrightarrow> visits m st1 ns \<Longrightarrow> visits m st (xs @ ns)"
proof (induction rule: walk_trace.induct)
  case (trace_continue st st1 xs st')
  then show ?case using visits_continue by simp
next
  case (trace_node st st1 nd ps xs st')
  then show ?case by (auto intro!: visits_node simp: fdt_walk_next_node.simps [of m st])
qed simp

section \<open>States at a position\<close>

definition walk_at :: "fdt \<Rightarrow> fdt_walk_state \<Rightarrow> nat \<Rightarrow> u8 list \<Rightarrow> fdt_walk_frame list \<Rightarrow> bool" where
  "walk_at fdt st n ps frs \<longleftrightarrow> walk_fdt st = fdt \<and> walk_cursor st = pos fdt n \<and> path_is st ps \<and>
     length (walk_frames st) = 32 \<and> unat (walk_depth st) = length frs \<and> length frs \<le> 32 \<and>
     take (length frs) (walk_frames st) = frs \<and> (frs = [] \<longrightarrow> ps = [])"

definition frame :: "nat \<Rightarrow> u32 \<times> u32 \<Rightarrow> fdt_walk_frame" where
  "frame n cells = \<lparr>frame_path_len = of_nat n, child_address_cells = fst cells, child_size_cells = snd cells\<rparr>"

definition parent_cells :: "fdt_walk_frame list \<Rightarrow> u32 \<times> u32" where
  "parent_cells frs = (if frs = [] then default_cells else (child_address_cells (last frs), child_size_cells (last frs)))"

definition enter_path :: "fdt_walk_frame list \<Rightarrow> u8 list \<Rightarrow> u8 list \<Rightarrow> u8 list" where
  "enter_path frs ps name = (if frs = [] then [slash] else join_path ps name)"

lemma walk_at_frame:
  assumes "walk_at fdt st n ps (frs @ [f])"
  shows "frame_at st (walk_depth st - 1) = Some f" "walk_depth st \<noteq> 0" "unat (walk_depth st - 1) = length frs"
proof -
  have d: "unat (walk_depth st) = Suc (length frs)" using assms by (simp add: walk_at_def)
  then show nz: "walk_depth st \<noteq> 0" by auto
  then show u: "unat (walk_depth st - 1) = length frs" using d by (simp add: unat_minus_1)
  have "walk_frames st ! length frs = (frs @ [f]) ! length frs"
    using assms by (metis length_append_singleton lessI nth_take walk_at_def)
  then show "frame_at st (walk_depth st - 1) = Some f" using assms u by (simp add: frame_at_def walk_at_def)
qed

lemma frame_at_simps [simp]:
  "frame_at (st\<lparr>walk_cursor := c\<rparr>) i = frame_at st i" "frame_at (st\<lparr>walk_depth := d\<rparr>) i = frame_at st i"
  by (simp_all add: frame_at_def)

lemma walk_at_parent:
  assumes "walk_at fdt st n ps frs"
  shows "walk_parent_cells st = Some (parent_cells frs)"
proof (cases frs rule: rev_cases)
  case Nil
  then show ?thesis using assms by (simp add: walk_parent_cells_def walk_at_def parent_cells_def default_cells_def unat_eq_0)
next
  case (snoc frs' f)
  then show ?thesis using walk_at_frame [of fdt st n ps frs' f] assms
    by (simp add: walk_parent_cells_def parent_cells_def word_neq_0_conv)
qed

lemma begin_cursor:
  assumes "fdt_placed m fdt" "unat (struct_block fdt) mod 4 = 0" "n mod 4 = 0"
    "n + 4 + length nm < block_size fdt"
  shows "fdt_align4 (pos fdt (n + 4) + of_nat (length nm) + 1) = pos fdt (n + length (flat_begin nm))"
proof -
  have "pos fdt (n + 4) + of_nat (length nm) + 1 = pos fdt (n + 4 + length nm + 1)"
    using pos_add [of fdt "n + 4 + length nm" 1] by (simp add: pos_add)
  moreover have "(n + 4 + length nm + 1 + 3) div 4 * 4 = n + length (flat_begin nm)"
    unfolding flat_lengths using assms(3) by presburger
  ultimately show ?thesis using align_pos [OF assms(1,2), of "n + 4 + length nm + 1"] assms(4) by simp
qed

text \<open>The step of a token whose turn leaves the loop to \<open>rest\<close>, with the cursor behind the token.\<close>

lemma turn_token:
  assumes "fdt_placed m fdt" "walk_at fdt st n ps frs" "holds m (pos fdt n) (be32 t)" "n + 4 \<le> block_size fdt"
  shows "walk_cursor st < struct_block_end (walk_fdt st)"
    "walk_turn m st = (let st1 = st\<lparr>walk_cursor := pos fdt (n + 4)\<rparr> in
       if t = FDT_BEGIN_NODE then walk_begin_node m (pos fdt n) st1
       else if t = FDT_END_NODE then walk_end_node st1
       else if t = FDT_PROP then walk_prop m st1
       else if t = FDT_NOP then Some (Continue st1)
       else Some (Return st1 None))"
proof -
  have st: "walk_fdt st = fdt" "walk_cursor st = pos fdt n" using assms(2) by (auto simp: walk_at_def)
  note lt = pos_less_end [OF assms(1), of n]
  show "walk_cursor st < struct_block_end (walk_fdt st)" using lt assms(4) st by simp
  have "\<not> struct_block_end fdt - pos fdt n < 4" using lt(2) assms(4) by (simp add: word_less_nat_alt)
  then show "walk_turn m st = (let st1 = st\<lparr>walk_cursor := pos fdt (n + 4)\<rparr> in
       if t = FDT_BEGIN_NODE then walk_begin_node m (pos fdt n) st1
       else if t = FDT_END_NODE then walk_end_node st1
       else if t = FDT_PROP then walk_prop m st1
       else if t = FDT_NOP then Some (Continue st1)
       else Some (Return st1 None))"
    using read_be32 [OF assms(3)] pos_add [of fdt n 4] by (simp add: walk_turn_def st Let_def)
qed

section \<open>Entering a node\<close>

lemma enter_push:
  assumes at: "walk_at fdt st n ps frs" and nm: "cstr m (walk_cursor st) nm"
    and room: "length (enter_path frs ps nm) < 256"
  shows "\<exists>p. walk_push_path m (walk_cursor st) (of_nat (length nm)) st =
      Some (True, st\<lparr>walk_path := p, walk_path_len := of_nat (length (enter_path frs ps nm))\<rparr>) \<and>
    path_is (st\<lparr>walk_path := p, walk_path_len := of_nat (length (enter_path frs ps nm))\<rparr>) (enter_path frs ps nm)"
proof (cases "frs = []")
  case True
  then have "walk_depth st = 0" "path_buffer (walk_path st)" using at by (auto simp: walk_at_def path_is_def unat_eq_0)
  then show ?thesis using push_path_root [of st m "walk_cursor st"] True by (simp add: enter_path_def)
next
  case False
  then have "walk_depth st \<noteq> 0" "path_is st ps" using at by (auto simp: walk_at_def)
  then show ?thesis using push_path_child [of st ps m "walk_cursor st" nm] nm room False by (simp add: enter_path_def)
qed

lemma step_begin:
  assumes placed: "fdt_placed m fdt" and al: "unat (struct_block fdt) mod 4 = 0" and at: "walk_at fdt st n ps frs"
    and bytes: "holds m (pos fdt n) (flat_begin nm)" and nm: "0 \<notin> set nm" and n4: "n mod 4 = 0"
    and fits: "n + length (flat_begin nm) \<le> block_size fdt" and deep: "length frs < 32"
    and room: "length (enter_path frs ps nm) < 256"
  shows "\<exists>st1. walk_turn m st = Some (Return st1 (Some (node_of n (parent_cells frs)))) \<and>
    walk_at fdt st1 (n + length (flat_begin nm)) (enter_path frs ps nm) (frs @ [frame (length ps) default_cells])"
proof -
  let ?st = "st\<lparr>walk_cursor := pos fdt (n + 4)\<rparr>" and ?len = "length (flat_begin nm)"
  let ?p' = "enter_path frs ps nm"
  have at': "walk_at fdt ?st (n + 4) ps frs" using at by (simp add: walk_at_def path_is_def)
  have fdt: "walk_fdt st = fdt" and dep: "unat (walk_depth st) = length frs"
    and fr: "length (walk_frames st) = 32" "take (length frs) (walk_frames st) = frs" and pis: "path_is st ps"
    using at by (auto simp: walk_at_def)
  have len: "?len = 4 + (length nm + 4) div 4 * 4" by (rule flat_lengths)
  have "(length nm + 4) div 4 * 4 > length nm" by presburger
  then have l: "n + 4 + length nm < block_size fdt" "n + 4 \<le> block_size fdt" using fits len by linarith+
  have cs: "cstr m (pos fdt (n + 4)) nm"
    using bytes nm pos_add [of fdt n 4] by (simp add: flat_begin_def pad4_def cstr_holds)
  have ul: "unat (pos fdt (n + 4)) = unat (struct_block fdt) + (n + 4)" by (rule unat_pos [OF placed l(2)])
  have "unat (pos fdt (n + 4)) + length nm < unat (struct_block_end fdt)"
    using ul l placed by (auto simp: block_size_def)
  from bounded_strlen_cstr [OF cs this]
  have strlen: "fdt_bounded_strlen m (pos fdt (n + 4)) (struct_block_end fdt) = Some (True, of_nat (length nm))" .
  note align = begin_cursor [OF placed al n4 l(1)]
  note cells = walk_at_parent [OF at']
  let ?f = "frame (length ps) default_cells"
  have plen: "walk_path_len st = of_nat (length ps)" using pis by (simp add: path_is_def)
  let ?st1 = "?st\<lparr>walk_frames := (walk_frames st)[length frs := ?f]\<rparr>"
  have sf: "set_frame (walk_depth st) \<lparr>frame_path_len = walk_path_len st,
      child_address_cells = FDT_DEFAULT_ADDRESS_CELLS, child_size_cells = FDT_DEFAULT_SIZE_CELLS\<rparr> ?st = Some ?st1"
    using dep deep fr plen by (simp add: set_frame_def frame_def default_cells_def)
  have at1: "walk_at fdt ?st1 (n + 4) ps frs"
    using at' deep by (simp add: walk_at_def path_is_def)
  obtain p where push: "walk_push_path m (pos fdt (n + 4)) (of_nat (length nm)) ?st1 =
      Some (True, ?st1\<lparr>walk_path := p, walk_path_len := of_nat (length ?p')\<rparr>)"
    "path_is (?st1\<lparr>walk_path := p, walk_path_len := of_nat (length ?p')\<rparr>) ?p'"
    using enter_push [OF at1 _ room] cs by auto
  let ?st2 = "?st1\<lparr>walk_path := p, walk_path_len := of_nat (length ?p'), walk_depth := walk_depth st + 1,
      walk_cursor := pos fdt (n + ?len)\<rparr>"
  have dep1: "unat (walk_depth st + 1) = Suc (length frs)"
    using dep deep by (subst unat_plus1_less [of _ 32]) simp_all
  have "take (Suc (length frs)) ((walk_frames st)[length frs := ?f]) = frs @ [?f]"
    using fr deep by (simp add: take_Suc_conv_app_nth)
  then have "walk_at fdt ?st2 (n + ?len) ?p' (frs @ [?f])"
    using push(2) dep1 fdt fr deep by (simp add: walk_at_def path_is_def)
  moreover have "\<not> pos fdt (n + ?len) > struct_block_end fdt"
    using unat_pos [OF placed fits] fits placed by (auto simp: word_less_nat_alt block_size_def fdt_placed_def)
  moreover have "\<not> walk_depth st \<ge> FDT_MAX_DEPTH" using dep deep by (simp add: FDT_MAX_DEPTH_def word_le_nat_alt)
  moreover have "ucast (pos fdt n - struct_block fdt) = (of_nat n :: u32)" by (simp add: pos_def)
  ultimately have "walk_begin_node m (pos fdt n) ?st = Some (Return ?st2 (Some (node_of n (parent_cells frs))))"
    using fdt strlen cells sf push(1) align
    by (cases "parent_cells frs") (simp add: walk_begin_node_def Let_def node_of_def)
  moreover have "walk_turn m st = walk_begin_node m (pos fdt n) ?st"
    using turn_token(2) [OF placed at _ l(2), of FDT_BEGIN_NODE] bytes by (simp add: flat_begin_def Let_def)
  ultimately show ?thesis using \<open>walk_at fdt ?st2 _ _ _\<close> by auto
qed

section \<open>The other tokens\<close>

lemma take_enter_path: "frs = [] \<Longrightarrow> ps = [] \<Longrightarrow> take (length ps) (enter_path frs ps nm) = ps"
  "take (length ps) (join_path ps nm) = ps"
  by (simp_all add: enter_path_def join_path_def path_dir_def)

lemma step_end:
  assumes placed: "fdt_placed m fdt" and at: "walk_at fdt st n ps (frs @ [f])"
    and bytes: "holds m (pos fdt n) (be32 FDT_END_NODE)" and fits: "n + 4 \<le> block_size fdt"
    and f: "frame_path_len f = of_nat k" "k \<le> length ps" "frs = [] \<Longrightarrow> k = 0"
  shows "\<exists>st1. walk_turn m st = Some (Continue st1) \<and> walk_at fdt st1 (n + 4) (take k ps) frs"
proof -
  let ?st = "st\<lparr>walk_cursor := pos fdt (n + 4)\<rparr>"
  let ?st2 = "?st\<lparr>walk_depth := walk_depth st - 1, walk_path_len := frame_path_len f\<rparr>"
  note fr = walk_at_frame [OF at]
  have pis: "path_is st ps" using at by (simp add: walk_at_def)
  from pop_path [OF pis f(2)] obtain p where p: "store8 (frame_path_len f) 0 (walk_path st) = Some p"
    "path_is (st\<lparr>walk_path := p, walk_path_len := of_nat k\<rparr>) (take k ps)" by (auto simp: set_path_iff f(1))
  have "frame_at (?st\<lparr>walk_depth := walk_depth st - 1\<rparr>) (walk_depth st - 1) = Some f"
    using fr(1) by simp
  then have "walk_end_node ?st = Some (Continue (?st2\<lparr>walk_path := p\<rparr>))"
    using fr(2) p(1) by (simp add: walk_end_node_def Let_def set_path_def)
  moreover have "walk_turn m st = walk_end_node ?st"
    using turn_token(2) [OF placed at bytes fits] by (simp add: Let_def FDT_BEGIN_NODE_def FDT_END_NODE_def)
  moreover have "take (length frs) (walk_frames st) = frs"
    using at by (metis append_eq_conv_conj length_append_singleton lessI less_imp_le_nat min.absorb1 take_take walk_at_def)
  then have "walk_at fdt (?st2\<lparr>walk_path := p\<rparr>) (n + 4) (take k ps) frs"
    using at p(2) fr(3) f by (simp add: walk_at_def path_is_def)
  ultimately show ?thesis by auto
qed

lemma walk_at_set_frame:
  assumes "walk_at fdt st n ps (frs @ [f])"
  shows "walk_at fdt (st\<lparr>walk_frames := (walk_frames st)[length frs := g]\<rparr>) n ps (frs @ [g])"
proof -
  have "take (Suc (length frs)) (walk_frames st) = frs @ [f]" "Suc (length frs) \<le> 32" "length (walk_frames st) = 32"
    using assms by (simp_all add: walk_at_def)
  then have "take (Suc (length frs)) ((walk_frames st)[length frs := g]) = frs @ [g]"
    by (metis list_update_length take_update_swap)
  then show ?thesis using assms by (simp add: walk_at_def path_is_def)
qed

definition set_frame_cell :: "u8 list \<times> u8 list \<Rightarrow> fdt_walk_frame \<Rightarrow> fdt_walk_frame" where
  "set_frame_cell p f = f\<lparr>child_address_cells := fst (set_cell p (child_address_cells f, child_size_cells f)),
     child_size_cells := snd (set_cell p (child_address_cells f, child_size_cells f))\<rparr>"

lemma set_frame_cell_frame: "set_frame_cell p (frame n cells) = frame n (set_cell p cells)"
  by (simp add: set_frame_cell_def frame_def)

lemma set_cells_at:
  assumes at: "walk_at fdt st n ps (frs @ [f])" and d: "holds m (prop_data p) d" "length d = 4" "prop_len p = 4"
  shows "\<exists>st1. walk_set_cells m p upd st = Some (Continue st1) \<and> walk_at fdt st1 n ps (frs @ [upd (be32_of d) f])"
proof -
  note fr = walk_at_frame [OF at]
  have "set_frame (walk_depth st - 1) (upd (be32_of d) f) st =
      Some (st\<lparr>walk_frames := (walk_frames st)[length frs := upd (be32_of d) f]\<rparr>)"
    using fr(3) at by (simp add: set_frame_def walk_at_def)
  then show ?thesis using fr(1) read_be32_of [OF d(1,2)] d(3) walk_at_set_frame [OF at]
    by (auto simp: walk_set_cells_def fdt_prop_get_u32_def)
qed

text \<open>What both loops read of a property.\<close>

lemma prop_name_ok: "prop_ok m fdt off p \<Longrightarrow> fdt_prop_name_valid m fdt (off (fst p)) = Some True"
  using prop_name_loop_cstr [of m fdt "ucast (off (fst p))" "fst p"]
  by (auto simp: prop_ok_def fdt_prop_name_valid_def word_le_nat_alt)

lemma prop_fields:
  assumes "fdt_placed m fdt" "unat (struct_block fdt) mod 4 = 0" "n mod 4 = 0"
    "holds m (pos fdt n) (flat_prop off p)" "n + length (flat_prop off p) \<le> block_size fdt"
    "length (snd p) < 2 ^ 32"
  shows "holds m (pos fdt n) (be32 FDT_PROP)"
    "fdt_read_be32 m (pos fdt (n + 4)) = Some (of_nat (length (snd p)))"
    "fdt_read_be32 m (pos fdt (n + 8)) = Some (off (fst p))"
    "holds m (pos fdt (n + 12)) (snd p)"
    "\<not> struct_block_end fdt - pos fdt (n + 4) < 8"
    "\<not> struct_block_end fdt - pos fdt (n + 12) < of_nat (length (snd p))"
    "fdt_align4 (pos fdt (n + 12) + of_nat (length (snd p))) = pos fdt (n + length (flat_prop off p))"
    "unat (of_nat (length (snd p)) :: u32) = length (snd p)"
    "n + 12 + length (snd p) \<le> block_size fdt"
proof -
  have len: "length (flat_prop off p) = 12 + (length (snd p) + 3) div 4 * 4" by (rule flat_lengths)
  moreover have "length (snd p) \<le> (length (snd p) + 3) div 4 * 4" by presburger
  ultimately show fits: "n + 12 + length (snd p) \<le> block_size fdt" using assms(5) by linarith
  show "holds m (pos fdt n) (be32 FDT_PROP)" "holds m (pos fdt (n + 12)) (snd p)"
    using assms(4) by (simp_all add: flat_prop_def pad4_def add.assoc pos_numeral)
  show "fdt_read_be32 m (pos fdt (n + 4)) = Some (of_nat (length (snd p)))"
    "fdt_read_be32 m (pos fdt (n + 8)) = Some (off (fst p))"
    using assms(4) by (intro read_be32; simp add: flat_prop_def add.assoc pos_numeral)+
  show "unat (of_nat (length (snd p)) :: u32) = length (snd p)"
    using assms(6) by (intro unat_of_nat_small) simp
  have l64: "unat (of_nat (length (snd p)) :: u64) = length (snd p)"
    using assms(6) by (intro unat_of_nat_small) simp
  show "\<not> struct_block_end fdt - pos fdt (n + 4) < 8"
    using pos_less_end(2) [OF assms(1), of "n + 4"] fits by (simp add: word_less_nat_alt)
  show "\<not> struct_block_end fdt - pos fdt (n + 12) < of_nat (length (snd p))"
  proof (cases "snd p = []")
    case False
    then have "n + 12 < block_size fdt" using fits by (cases "snd p") auto
    then show ?thesis using pos_less_end(2) [OF assms(1), of "n + 12"] fits l64 by (simp add: word_less_nat_alt)
  qed simp
  have "(n + 12 + length (snd p) + 3) div 4 * 4 = n + length (flat_prop off p)" unfolding len using assms(3) by presburger
  then show "fdt_align4 (pos fdt (n + 12) + of_nat (length (snd p))) = pos fdt (n + length (flat_prop off p))"
    using align_pos [OF assms(1,2) fits] by (simp add: pos_add)
qed

lemma step_prop:
  assumes placed: "fdt_placed m fdt" and al: "unat (struct_block fdt) mod 4 = 0" and at: "walk_at fdt st n ps (frs @ [f])"
    and bytes: "holds m (pos fdt n) (flat_prop off p)" and ok: "prop_ok m fdt off p" and n4: "n mod 4 = 0"
    and fits: "n + length (flat_prop off p) \<le> block_size fdt"
  shows "\<exists>st1. walk_turn m st = Some (Continue st1) \<and>
    walk_at fdt st1 (n + length (flat_prop off p)) ps (frs @ [set_frame_cell p f])"
proof -
  let ?st = "st\<lparr>walk_cursor := pos fdt (n + 4)\<rparr>" and ?len = "length (flat_prop off p)"
  let ?st2 = "st\<lparr>walk_cursor := pos fdt (n + ?len)\<rparr>"
  let ?pr = "\<lparr>prop_data = pos fdt (n + 12), prop_len = of_nat (length (snd p))\<rparr>"
  let ?s = "bytes_at m (strings_block fdt + ucast (off (fst p)))"
  have small: "length (snd p) < 2 ^ 32" using ok by (simp add: prop_ok_def)
  note fields = prop_fields [OF placed al n4 bytes fits small]
  have fdt: "walk_fdt st = fdt" and dep: "walk_depth st \<noteq> 0" using at walk_at_frame(2) [OF at] by (auto simp: walk_at_def)
  have at2: "walk_at fdt ?st2 (n + ?len) ps (frs @ [f])" using at by (simp add: walk_at_def path_is_def)
  have cs: "cstr ?s 0 (fst p)" using ok by (simp add: prop_ok_def cstr_bytes_at)
  obtain a b where ab: "strcmp ?s (lit ''#address-cells'') = Some a" "a = 0 \<longleftrightarrow> fst p = text_bytes ''#address-cells''"
    "strcmp ?s (lit ''#size-cells'') = Some b" "b = 0 \<longleftrightarrow> fst p = text_bytes ''#size-cells''"
    using strcmp_total [OF cs cstr_cells(1)] strcmp_total [OF cs cstr_cells(2)] by blast
  have c12: "pos fdt (n + 4) + 4 = pos fdt (n + 8)" "pos fdt (n + 4) + 8 = pos fdt (n + 12)"
    by (simp_all only: pos_numeral add.assoc) simp_all
  have u: "ucast (of_nat (length (snd p)) :: u32) = (of_nat (length (snd p)) :: u64)"
    unfolding word_unat_eq_iff unat_ucast_32_64 fields(8) using small by (simp add: unat_of_nat_small)
  have "walk_turn m st = walk_prop m ?st"
    using turn_token(2) [OF placed at fields(1)] fields(9) by (simp add: Let_def FDT_BEGIN_NODE_def FDT_END_NODE_def FDT_PROP_def)
  also have "\<dots> = (if a = 0 then walk_set_cells m ?pr (\<lambda>v f. f\<lparr>child_address_cells := v\<rparr>) ?st2
      else if b = 0 then walk_set_cells m ?pr (\<lambda>v f. f\<lparr>child_size_cells := v\<rparr>) ?st2 else Some (Continue ?st2))"
    using fields dep ab prop_name_ok [OF ok] by (simp add: walk_prop_def fdt c12 u Let_def)
  finally have turn: "walk_turn m st = \<dots>" .
  have cell: "a = 0 \<or> b = 0 \<Longrightarrow> length (snd p) = 4" using ok ab by (auto simp: prop_ok_def)
  have "a \<noteq> 0 \<or> b \<noteq> 0" using ab by (auto simp: text_bytes_def)
  then show ?thesis
    using turn ab at2 set_cells_at [OF at2, where p = ?pr and d = "snd p"] fields(4) cell
    by (cases "a = 0"; cases "b = 0") (auto simp: set_frame_cell_def set_cell_def)
qed

section \<open>Whole trees\<close>

lemma trace_props:
  assumes placed: "fdt_placed m fdt" and al: "unat (struct_block fdt) mod 4 = 0"
  shows "walk_at fdt st n ps (frs @ [frame k cells]) \<Longrightarrow> holds m (pos fdt n) (flat_props off qs) \<Longrightarrow>
    list_all (prop_ok m fdt off) qs \<Longrightarrow> n mod 4 = 0 \<Longrightarrow> n + length (flat_props off qs) \<le> block_size fdt \<Longrightarrow>
    \<exists>st1. walk_trace m st [] st1 \<and>
      walk_at fdt st1 (n + length (flat_props off qs)) ps (frs @ [frame k (fold set_cell qs cells)])"
proof (induction qs arbitrary: st n cells)
  case Nil
  then show ?case by (auto intro: trace_refl)
next
  case (Cons q qs)
  let ?n = "n + length (flat_prop off q)"
  have h: "holds m (pos fdt n) (flat_prop off q)" "holds m (pos fdt ?n) (flat_props off qs)"
    using Cons.prems(2) by (simp_all add: pos_add)
  have fits: "?n \<le> block_size fdt" "?n mod 4 = 0" "n + 4 \<le> block_size fdt"
    using Cons.prems(4,5) flat_mod4(2) [of off q] flat_lengths(2) [of off q] by (auto simp: mod_add_eq [symmetric])
  from step_prop [OF placed al Cons.prems(1) h(1) _ Cons.prems(4) fits(1)] Cons.prems(3)
  obtain st1 where st1: "walk_turn m st = Some (Continue st1)"
    "walk_at fdt st1 ?n ps (frs @ [frame k (set_cell q cells)])" by (auto simp: set_frame_cell_frame)
  from Cons.IH [OF st1(2) h(2)] Cons.prems(3,5) fits(2) obtain st2 where
    st2: "walk_trace m st1 [] st2"
      "walk_at fdt st2 (?n + length (flat_props off qs)) ps (frs @ [frame k (fold set_cell qs (set_cell q cells))])"
    by (auto simp: add.assoc)
  have "holds m (pos fdt n) (be32 FDT_PROP)" using h(1) by (simp add: flat_prop_def)
  from turn_token(1) [OF placed Cons.prems(1) this fits(3)] have "walk_trace m st [] st2"
    using st1(1) st2(1) by (rule trace_continue)
  then show ?case using st2(2) by (auto simp: add.assoc)
qed

definition plain :: "(u8 list \<times> fdt_node \<times> dt) list \<Rightarrow> (u8 list \<times> fdt_node) list" where
  "plain xs = map (\<lambda>(p, nd, t). (p, nd)) xs"

lemma plain_simps [simp]: "plain [] = []" "plain ((p, nd, t) # xs) = (p, nd) # plain xs" "plain (xs @ ys) = plain xs @ plain ys"
  by (simp_all add: plain_def)

lemma parent_cells_frame [simp]: "parent_cells (frs @ [frame k cells]) = cells"
  by (simp add: parent_cells_def frame_def)

lemma dt_name_Dt: "flatten off t = flat_begin (dt_name t) @ flat_props off (dt_props t) @
    concat (map (flatten off) (dt_children t)) @ be32 FDT_END_NODE"
  by (cases t) simp

lemma tree_trace:
  assumes placed: "fdt_placed m fdt" and al: "unat (struct_block fdt) mod 4 = 0"
  shows "walk_at fdt st n ps frs \<Longrightarrow> holds m (pos fdt n) (flatten off t) \<Longrightarrow> p = enter_path frs ps (dt_name t) \<Longrightarrow>
      cells = parent_cells frs \<Longrightarrow> wf_dt (prop_ok m fdt off) p (length frs) t \<Longrightarrow> n mod 4 = 0 \<Longrightarrow>
      n + length (flatten off t) \<le> block_size fdt \<Longrightarrow>
      \<exists>st1. walk_trace m st (plain (tree_nodes off p cells n t)) st1 \<and> walk_at fdt st1 (n + length (flatten off t)) ps frs"
    and "walk_at fdt st n p (frs @ [frame k cells]) \<Longrightarrow> holds m (pos fdt n) (concat (map (flatten off) ts)) \<Longrightarrow>
      list_all (\<lambda>t. wf_dt (prop_ok m fdt off) (join_path p (dt_name t)) (Suc (length frs)) t) ts \<Longrightarrow> n mod 4 = 0 \<Longrightarrow>
      n + length (concat (map (flatten off) ts)) \<le> block_size fdt \<Longrightarrow>
      \<exists>st1. walk_trace m st (plain (forest_nodes off p cells n ts)) st1 \<and>
        walk_at fdt st1 (n + length (concat (map (flatten off) ts))) p (frs @ [frame k cells])"
proof (induction off p cells n t and off p cells n ts arbitrary: st ps frs and st frs k
    rule: tree_nodes_forest_nodes.induct)
  case (1 off p cells n name qs ts)
  let ?n1 = "n + length (flat_begin name)" and ?n2 = "n + length (flat_begin name) + length (flat_props off qs)"
  let ?kids = "concat (map (flatten off) ts)"
  let ?cells = "fold set_cell qs default_cells"
  have p: "p = enter_path frs ps name" using 1(4) by simp
  have wf: "length p < 256" "length frs < 32" "0 \<notin> set name" "list_all (prop_ok m fdt off) qs"
    "list_all (\<lambda>t. wf_dt (prop_ok m fdt off) (join_path p (dt_name t)) (Suc (length frs)) t) ts" using 1(6) by auto
  have h: "holds m (pos fdt n) (flat_begin name)" "holds m (pos fdt ?n1) (flat_props off qs)"
    "holds m (pos fdt ?n2) ?kids" "holds m (pos fdt (?n2 + length ?kids)) (be32 FDT_END_NODE)"
    using 1(3) by (simp_all add: pos_add add.assoc)
  have fit: "?n2 + length ?kids + 4 \<le> block_size fdt" using 1(8) by simp
  have m4: "?n1 mod 4 = 0" "?n2 mod 4 = 0"
    using 1(7) flat_mod4(1) [of name] flat_mod4(3) [of off qs] by (simp_all add: mod_add_eq [symmetric])
  have begin4: "n + 4 \<le> block_size fdt" using fit flat_lengths(1) [of name] by linarith
  from step_begin [OF placed al 1(2) h(1) wf(3) 1(7) _ wf(2)] fit wf(1) p obtain st1 where
    st1: "walk_turn m st = Some (Return st1 (Some (node_of n cells)))"
      "walk_at fdt st1 ?n1 p (frs @ [frame (length ps) default_cells])" using 1(5) by auto
  from trace_props [OF placed al st1(2) h(2) wf(4) m4(1)] fit obtain st2 where
    st2: "walk_trace m st1 [] st2" "walk_at fdt st2 ?n2 p (frs @ [frame (length ps) ?cells])" by auto
  from 1(1) [OF st2(2) h(3) wf(5) m4(2)] fit obtain st3 where
    st3: "walk_trace m st2 (plain (forest_nodes off p ?cells ?n2 ts)) st3"
      "walk_at fdt st3 (?n2 + length ?kids) p (frs @ [frame (length ps) ?cells])" by auto
  have sub: "length ps \<le> length p" "take (length ps) p = ps" "frs = [] \<Longrightarrow> length ps = 0"
    using 1(2) p take_enter_path(2) [of ps name]
    by (auto simp: walk_at_def enter_path_def join_path_def path_dir_def)
  from step_end [OF placed st3(2) h(4) fit _ sub(1,3)] obtain st4 where
    st4: "walk_turn m st3 = Some (Continue st4)" "walk_at fdt st4 (?n2 + length ?kids + 4) ps frs"
    by (auto simp: frame_def sub(2))
  have c3: "walk_trace m st3 [] st4"
    using turn_token(1) [OF placed st3(2) h(4) fit] st4(1) trace_refl by (rule trace_continue)
  have path: "cstr (walk_path st1) 0 p" using st1(2) by (simp add: walk_at_def path_is_def)
  have lt: "walk_cursor st < struct_block_end (walk_fdt st)"
    using turn_token(1) [OF placed 1(2) _ begin4, of FDT_BEGIN_NODE] h(1) by (simp add: flat_begin_def)
  have "walk_trace m st1 (plain (forest_nodes off p ?cells ?n2 ts)) st4"
    using trace_append [OF st2(1) trace_append [OF st3(1) c3]] by simp
  then have "walk_trace m st (plain (tree_nodes off p cells n (Dt name qs ts))) st4"
    using trace_node [OF lt st1(1) path] by simp
  then show ?case using st4(2) by (auto simp: add.assoc)
next
  case (2 off p cells n)
  then show ?case by (auto intro: trace_refl)
next
  case (3 off p cells n t ts)
  let ?n1 = "n + length (flatten off t)"
  have h: "holds m (pos fdt n) (flatten off t)" "holds m (pos fdt ?n1) (concat (map (flatten off) ts))"
    using 3(4) by (simp_all add: pos_add)
  have m4: "?n1 mod 4 = 0" using 3(6) flatten_mod4 [of off t] by (simp add: mod_add_eq [symmetric])
  from 3(1) [OF 3(3) h(1)] 3(5,6,7) obtain st1 where
    st1: "walk_trace m st (plain (tree_nodes off (join_path p (dt_name t)) cells n t)) st1"
      "walk_at fdt st1 ?n1 p (frs @ [frame k cells])" by (auto simp: enter_path_def)
  from 3(2) [OF st1(2) h(2) _ m4] 3(5,7) obtain st2 where
    st2: "walk_trace m st1 (plain (forest_nodes off p cells ?n1 ts)) st2"
      "walk_at fdt st2 (?n1 + length (concat (map (flatten off) ts))) p (frs @ [frame k cells])" by auto
  show ?case using trace_append [OF st1(1) st2(1)] st2(2) by (auto simp: add.assoc)
qed

end
