(* ===== verification/FdtRound.thy ===== *)
theory FdtRound
  imports FdtTrace
begin

text \<open>
  Reading properties back from a flattened tree, and \<open>blob_of\<close>: the memory holds a flattened tree
  where the handle says.
\<close>

section \<open>One turn of the property loop\<close>

lemma token_loop:
  assumes "fdt_placed m fdt" "holds m (pos fdt n) (be32 t)" "n + 4 \<le> block_size fdt"
  shows "fdt_read_be32 m (pos fdt n) = Some t" "pos fdt n < struct_block_end fdt" "pos fdt n + 4 = pos fdt (n + 4)"
  using read_be32 [OF assms(2)] pos_less_end(1) [OF assms(1), of n] assms(3) by (simp_all add: pos_numeral)

lemma loop_prop:
  assumes placed: "fdt_placed m fdt" and al: "unat (struct_block fdt) mod 4 = 0" and n4: "n mod 4 = 0"
    and bytes: "holds m (pos fdt n) (flat_prop off p)" and ok: "prop_ok m fdt off p"
    and fits: "n + length (flat_prop off p) \<le> block_size fdt" and name: "cstr name 0 nm"
  shows "property_loop m fdt name (pos fdt n) d =
    (if d = 0 \<and> fst p = nm then Some (Some \<lparr>prop_data = pos fdt (n + 12), prop_len = of_nat (length (snd p))\<rparr>)
     else property_loop m fdt name (pos fdt (n + length (flat_prop off p))) d)"
proof -
  let ?s = "bytes_at m (strings_block fdt + ucast (off (fst p)))"
  have small: "length (snd p) < 2 ^ 32" using ok by (simp add: prop_ok_def)
  note fields = prop_fields [OF placed al n4 bytes fits small]
  have cs: "cstr ?s 0 (fst p)" using ok by (simp add: prop_ok_def cstr_bytes_at)
  define same where "same \<longleftrightarrow> fst p = nm"
  obtain a where a: "strcmp ?s name = Some a" "a = 0 \<longleftrightarrow> same"
    unfolding same_def using strcmp_total [OF cs name] by blast
  have c12: "pos fdt n + 4 = pos fdt (n + 4)" "pos fdt (n + 4) + 4 = pos fdt (n + 8)" "pos fdt (n + 4) + 8 = pos fdt (n + 12)"
    by (simp_all only: pos_numeral add.assoc) simp_all
  have u: "ucast (of_nat (length (snd p)) :: u32) = (of_nat (length (snd p)) :: u64)"
    unfolding word_unat_eq_iff unat_ucast_32_64 fields(8) using small by (simp add: unat_of_nat_small)
  have n4': "n + 4 \<le> block_size fdt" using fields(9) by simp
  note tok = token_loop [OF placed fields(1) n4']
  have "property_turn m fdt name (pos fdt n) d = Some (if d = 0 \<and> same
      then Give (Some \<lparr>prop_data = pos fdt (n + 12), prop_len = of_nat (length (snd p))\<rparr>)
      else Go (pos fdt (n + length (flat_prop off p))) d)"
    using fields tok(1) a prop_name_ok [OF ok]
    by (simp add: property_turn_def c12 u Let_def FDT_BEGIN_NODE_def FDT_END_NODE_def FDT_PROP_def)
  then show ?thesis unfolding same_def using tok(2) by (simp add: property_loop.simps [of m fdt name "pos fdt n"])
qed

lemma begin_strlen:
  assumes placed: "fdt_placed m fdt" and bytes: "holds m (pos fdt n) (flat_begin nm)" and nm: "0 \<notin> set nm"
    and fits: "n + length (flat_begin nm) \<le> block_size fdt"
  shows "fdt_bounded_strlen m (pos fdt (n + 4)) (struct_block_end fdt) = Some (True, of_nat (length nm))"
    "n + 4 + length nm < block_size fdt"
proof -
  have "(length nm + 4) div 4 * 4 > length nm" by presburger
  then show l: "n + 4 + length nm < block_size fdt" using fits flat_lengths(1) [of nm] by linarith
  have cs: "cstr m (pos fdt (n + 4)) nm"
    using bytes nm by (simp add: flat_begin_def pad4_def cstr_holds pos_numeral)
  have "unat (pos fdt (n + 4)) + length nm < unat (struct_block_end fdt)"
    using unat_pos [OF placed, of "n + 4"] l placed by (auto simp: block_size_def)
  then show "fdt_bounded_strlen m (pos fdt (n + 4)) (struct_block_end fdt) = Some (True, of_nat (length nm))"
    by (rule bounded_strlen_cstr [OF cs])
qed

lemma loop_begin:
  assumes placed: "fdt_placed m fdt" and al: "unat (struct_block fdt) mod 4 = 0" and n4: "n mod 4 = 0"
    and bytes: "holds m (pos fdt n) (flat_begin nm)" and nm: "0 \<notin> set nm"
    and fits: "n + length (flat_begin nm) \<le> block_size fdt"
  shows "property_loop m fdt name (pos fdt n) d = property_loop m fdt name (pos fdt (n + length (flat_begin nm))) (d + 1)"
proof -
  note s = begin_strlen [OF placed bytes nm fits]
  have "holds m (pos fdt n) (be32 FDT_BEGIN_NODE)" "n + 4 \<le> block_size fdt"
    using bytes s(2) by (simp_all add: flat_begin_def)
  note tok = token_loop [OF placed this]
  show ?thesis using s(1) tok begin_cursor [OF placed al n4 s(2)]
    by (simp add: property_loop.simps [of m fdt name "pos fdt n"] property_turn_def Let_def)
qed

lemma loop_end:
  assumes placed: "fdt_placed m fdt" and bytes: "holds m (pos fdt n) (be32 FDT_END_NODE)" "n + 4 \<le> block_size fdt"
  shows "property_loop m fdt name (pos fdt n) d =
    (if d = 0 then Some None else property_loop m fdt name (pos fdt (n + 4)) (d - 1))"
  using token_loop [OF assms]
  by (simp add: property_loop.simps [of m fdt name "pos fdt n"] property_turn_def Let_def FDT_BEGIN_NODE_def FDT_END_NODE_def)

section \<open>Subtrees are skipped\<close>

lemma loop_skip_props:
  assumes placed: "fdt_placed m fdt" and al: "unat (struct_block fdt) mod 4 = 0" and name: "cstr name 0 nm" and d: "d \<noteq> 0"
  shows "n mod 4 = 0 \<Longrightarrow> holds m (pos fdt n) (flat_props off qs) \<Longrightarrow> list_all (prop_ok m fdt off) qs \<Longrightarrow>
    n + length (flat_props off qs) \<le> block_size fdt \<Longrightarrow>
    property_loop m fdt name (pos fdt n) d = property_loop m fdt name (pos fdt (n + length (flat_props off qs))) d"
proof (induction qs arbitrary: n)
  case (Cons q qs)
  have h: "holds m (pos fdt n) (flat_prop off q)" "holds m (pos fdt (n + length (flat_prop off q))) (flat_props off qs)"
    using Cons.prems(2) by (simp_all add: pos_add)
  have "(n + length (flat_prop off q)) mod 4 = 0"
    using Cons.prems(1) flat_mod4(2) [of off q] by (simp add: mod_add_eq [symmetric])
  from Cons.IH [OF this h(2)] Cons.prems loop_prop [OF placed al Cons.prems(1) h(1) _ _ name, of d] d
  show ?case by (simp add: add.assoc)
qed simp

lemma loop_skip:
  fixes cells :: "u32 \<times> u32"
  assumes placed: "fdt_placed m fdt" and al: "unat (struct_block fdt) mod 4 = 0" and name: "cstr name 0 nm"
  shows "wf_dt (prop_ok m fdt off) p k t \<Longrightarrow> unat d \<le> k \<Longrightarrow> n mod 4 = 0 \<Longrightarrow> holds m (pos fdt n) (flatten off t) \<Longrightarrow>
      n + length (flatten off t) \<le> block_size fdt \<Longrightarrow>
      property_loop m fdt name (pos fdt n) d = property_loop m fdt name (pos fdt (n + length (flatten off t))) d"
    and "list_all (\<lambda>t. wf_dt (prop_ok m fdt off) (join_path p (dt_name t)) (Suc k) t) ts \<Longrightarrow> unat d \<le> Suc k \<Longrightarrow>
      n mod 4 = 0 \<Longrightarrow> holds m (pos fdt n) (concat (map (flatten off) ts)) \<Longrightarrow>
      n + length (concat (map (flatten off) ts)) \<le> block_size fdt \<Longrightarrow>
      property_loop m fdt name (pos fdt n) d =
      property_loop m fdt name (pos fdt (n + length (concat (map (flatten off) ts)))) d"
proof (induction off p cells n t and off p cells n ts arbitrary: d k and d k rule: tree_nodes_forest_nodes.induct)
  case (1 off p cells n nm' qs ts)
  let ?n1 = "n + length (flat_begin nm')" and ?n2 = "n + length (flat_begin nm') + length (flat_props off qs)"
  let ?kids = "concat (map (flatten off) ts)"
  have wf: "k < 32" "0 \<notin> set nm'" "list_all (prop_ok m fdt off) qs"
    "list_all (\<lambda>t. wf_dt (prop_ok m fdt off) (join_path p (dt_name t)) (Suc k) t) ts" using 1(2) by auto
  have h: "holds m (pos fdt n) (flat_begin nm')" "holds m (pos fdt ?n1) (flat_props off qs)"
    "holds m (pos fdt ?n2) ?kids" "holds m (pos fdt (?n2 + length ?kids)) (be32 FDT_END_NODE)"
    using 1(5) by (simp_all add: pos_add add.assoc)
  have fit: "?n2 + length ?kids + 4 \<le> block_size fdt" using 1(6) by simp
  have m4: "?n1 mod 4 = 0" "?n2 mod 4 = 0"
    using 1(4) flat_mod4(1) [of nm'] flat_mod4(3) [of off qs] by (simp_all add: mod_add_eq [symmetric])
  have d1: "unat (d + 1) = Suc (unat d)" using 1(3) wf(1) by (subst unat_plus1_less [of _ 32]) simp_all
  then have nz: "d + 1 \<noteq> 0" by (metis nat.distinct(1) unat_eq_zero)
  have "property_loop m fdt name (pos fdt n) d = property_loop m fdt name (pos fdt ?n1) (d + 1)"
    by (rule loop_begin [OF placed al 1(4) h(1) wf(2)]) (use fit in simp)
  also have "\<dots> = property_loop m fdt name (pos fdt ?n2) (d + 1)"
    by (rule loop_skip_props [OF placed al name nz m4(1) h(2) wf(3)]) (use fit in simp)
  also have "\<dots> = property_loop m fdt name (pos fdt (?n2 + length ?kids)) (d + 1)"
    by (rule 1(1) [OF wf(4) _ m4(2) h(3)]) (use d1 1(3) fit in simp_all)
  also have "\<dots> = property_loop m fdt name (pos fdt (?n2 + length ?kids + 4)) d"
    using loop_end [OF placed h(4) fit, of name "d + 1"] nz by simp
  finally show ?case by (simp add: add.assoc)
next
  case (3 off p cells n t ts)
  have h: "holds m (pos fdt n) (flatten off t)" "holds m (pos fdt (n + length (flatten off t))) (concat (map (flatten off) ts))"
    using 3(6) by (simp_all add: pos_add)
  have m4: "(n + length (flatten off t)) mod 4 = 0" using 3(5) flatten_mod4 [of off t] by (simp add: mod_add_eq [symmetric])
  have "property_loop m fdt name (pos fdt n) d = property_loop m fdt name (pos fdt (n + length (flatten off t))) d"
    by (rule 3(1) [OF _ 3(4,5) h(1)]) (use 3(3,7) in simp_all)
  also have "\<dots> = property_loop m fdt name (pos fdt (n + length (flatten off t) + length (concat (map (flatten off) ts)))) d"
    by (rule 3(2) [OF _ 3(4) m4 h(2)]) (use 3(3,7) in simp_all)
  finally show ?case by (simp add: add.assoc)
qed simp_all

section \<open>The properties of a node\<close>

text \<open>The first property of that name: its data, in memory and followed by a zero byte; or none.\<close>

definition property_is :: "memory \<Rightarrow> fdt_prop option option \<Rightarrow> u8 list option \<Rightarrow> bool" where
  "property_is m r d \<longleftrightarrow> (case d of
     None \<Rightarrow> r = Some None
   | Some d \<Rightarrow> \<exists>p. r = Some (Some p) \<and> holds m (prop_data p) (d @ [0]) \<and> unat (prop_len p) = length d)"

lemma flat_head:
  "hd (flat_prop off p @ xs) = 0" "flat_prop off p \<noteq> []" "hd (be32 FDT_END_NODE) = 0" "be32 w \<noteq> []"
  "hd (flat_begin name @ xs) = 0" "flat_begin name \<noteq> []"
  by (simp_all add: flat_prop_def be32_def FDT_PROP_def FDT_END_NODE_def flat_begin_def FDT_BEGIN_NODE_def)

lemma flat_rest_head:
  "hd rest = 0 \<Longrightarrow> rest \<noteq> [] \<Longrightarrow> hd (flat_props off qs @ rest) = 0 \<and> flat_props off qs @ rest \<noteq> []"
  "hd (concat (map (flatten off) ts) @ be32 FDT_END_NODE) = 0"
  "concat (map (flatten off) ts) @ be32 FDT_END_NODE \<noteq> []"
proof -
  show "hd rest = 0 \<Longrightarrow> rest \<noteq> [] \<Longrightarrow> hd (flat_props off qs @ rest) = 0 \<and> flat_props off qs @ rest \<noteq> []"
    by (cases qs) (simp_all add: flat_head)
  show "hd (concat (map (flatten off) ts) @ be32 FDT_END_NODE) = 0"
    by (cases ts) (simp_all add: flat_head dt_name_Dt)
qed (simp add: flat_head)

lemma pad4_next:
  assumes "holds m a (pad4 d @ xs)" "hd xs = 0" "xs \<noteq> []" shows "holds m a (d @ [0])"
proof (cases "(4 - length d mod 4) mod 4")
  case 0
  then show ?thesis using assms by (cases xs) (auto simp: pad4_def)
next
  case (Suc k)
  then show ?thesis using assms by (auto simp: pad4_def)
qed

lemma loop_find:
  assumes placed: "fdt_placed m fdt" and al: "unat (struct_block fdt) mod 4 = 0" and name: "cstr name 0 nm"
    and rest: "hd rest = 0" "rest \<noteq> []"
    and after: "property_loop m fdt name (pos fdt e) 0 = Some None"
  shows "n mod 4 = 0 \<Longrightarrow> holds m (pos fdt n) (flat_props off qs @ rest) \<Longrightarrow> list_all (prop_ok m fdt off) qs \<Longrightarrow>
    n + length (flat_props off qs) = e \<Longrightarrow> e \<le> block_size fdt \<Longrightarrow>
    property_is m (property_loop m fdt name (pos fdt n) 0) (map_of qs nm)"
proof (induction qs arbitrary: n)
  case Nil
  then show ?case using after by (simp add: property_is_def)
next
  case (Cons q qs)
  let ?xs = "flat_props off qs @ rest"
  have h: "holds m (pos fdt n) (flat_prop off q)" "holds m (pos fdt (n + length (flat_prop off q))) ?xs"
    using Cons.prems(2) by (simp_all add: pos_add)
  have m4: "(n + length (flat_prop off q)) mod 4 = 0"
    using Cons.prems(1) flat_mod4(2) [of off q] by (simp add: mod_add_eq [symmetric])
  have ok: "prop_ok m fdt off q" "length (snd q) < 2 ^ 32" using Cons.prems(3) by (simp_all add: prop_ok_def)
  have fits: "n + length (flat_prop off q) \<le> block_size fdt" using Cons.prems(4,5) by simp
  note step = loop_prop [OF placed al Cons.prems(1) h(1) ok(1) fits name, of 0]
  show ?case
  proof (cases "fst q = nm")
    case True
    note x = flat_rest_head(1) [OF rest, of off qs]
    have "holds m (pos fdt (n + 12)) (pad4 (snd q) @ ?xs)"
      using Cons.prems(2) by (simp add: flat_prop_def pos_numeral add.assoc)
    then have "holds m (pos fdt (n + 12)) (snd q @ [0])" by (rule pad4_next) (use x in simp_all)
    moreover have "unat (of_nat (length (snd q)) :: u32) = length (snd q)" using ok(2) by (intro unat_of_nat_small) simp
    moreover have "map_of (q # qs) nm = Some (snd q)" using True by (cases q) simp
    ultimately show ?thesis using step True by (simp add: property_is_def)
  next
    case False
    have "property_is m (property_loop m fdt name (pos fdt (n + length (flat_prop off q))) 0) (map_of qs nm)"
      by (rule Cons.IH [OF m4 h(2)]) (use Cons.prems in \<open>simp_all add: add.assoc\<close>)
    then show ?thesis using step False by (cases q) auto
  qed
qed

lemma node_property:
  assumes placed: "fdt_placed m fdt" and al: "unat (struct_block fdt) mod 4 = 0" and name: "cstr name 0 nm"
    and n: "n mod 4 = 0" "n < 2 ^ 32" "holds m (pos fdt n) (flatten off t)" "n + length (flatten off t) \<le> block_size fdt"
    and wf: "wf_dt (prop_ok m fdt off) p k t"
  shows "property_is m (fdt_get_property m (Some fdt) (Some (node_of n cells)) (Some name) (Some ())) (map_of (dt_props t) nm)"
proof (cases t)
  case (Dt nm' qs ts)
  let ?n1 = "n + length (flat_begin nm')" and ?n2 = "n + length (flat_begin nm') + length (flat_props off qs)"
  let ?kids = "concat (map (flatten off) ts)"
  have h: "holds m (pos fdt n) (flat_begin nm')" "holds m (pos fdt ?n1) (flat_props off qs @ ?kids @ be32 FDT_END_NODE)"
    "holds m (pos fdt ?n2) ?kids" "holds m (pos fdt (?n2 + length ?kids)) (be32 FDT_END_NODE)"
    using n(3) Dt by (simp_all add: pos_add add.assoc)
  have fit: "?n2 + length ?kids + 4 \<le> block_size fdt" using n(4) Dt by simp
  have m4: "?n1 mod 4 = 0" "?n2 mod 4 = 0"
    using n(1) flat_mod4(1) [of nm'] flat_mod4(3) [of off qs] by (simp_all add: mod_add_eq [symmetric])
  have w: "0 \<notin> set nm'" "list_all (prop_ok m fdt off) qs"
    "list_all (\<lambda>t. wf_dt (prop_ok m fdt off) (join_path p (dt_name t)) (Suc k) t) ts" using wf Dt by auto
  have fb: "n + length (flat_begin nm') \<le> block_size fdt" using fit by simp
  note s = begin_strlen [OF placed h(1) w(1) fb]
  have "holds m (pos fdt n) (be32 FDT_BEGIN_NODE)" "n + 4 \<le> block_size fdt"
    using h(1) s(2) by (simp_all add: flat_begin_def)
  note tok = token_loop [OF placed this]
  have "unat (of_nat n :: u32) = n" using n(2) by (intro unat_of_nat_small) simp
  then have start: "struct_block fdt + ucast (of_nat n :: u32) = pos fdt n"
    by (metis of_nat_unat pos_def unat_ucast_32_64)
  have "\<not> pos fdt (n + 4) > struct_block_end fdt" "\<not> pos fdt ?n1 > struct_block_end fdt"
    using unat_pos [OF placed, of "n + 4"] unat_pos [OF placed fb] s(2) fb placed
    by (auto simp: word_less_nat_alt block_size_def fdt_placed_def)
  then have payload: "fdt_node_payload m fdt (node_of n cells) = Some (Some (pos fdt ?n1))"
    using s(1) tok begin_cursor [OF placed al n(1) s(2)] start
    by (simp add: fdt_node_payload_def node_of_def Let_def)
  have skip: "property_loop m fdt name (pos fdt ?n2) 0 = property_loop m fdt name (pos fdt (?n2 + length ?kids)) 0"
    by (rule loop_skip(2) [OF placed al name w(3) _ m4(2) h(3)]) (use fit in simp_all)
  also have "\<dots> = Some None" using loop_end [OF placed h(4) fit] by simp
  finally have after: "property_loop m fdt name (pos fdt ?n2) 0 = Some None" .
  have "property_is m (property_loop m fdt name (pos fdt ?n1) 0) (map_of qs nm)"
    by (rule loop_find [OF placed al name flat_rest_head(2,3) after m4(1) h(2) w(2)]) (use fit in simp_all)
  then show ?thesis using payload Dt by (simp add: fdt_get_property_def)
qed

section \<open>Blobs that hold a tree\<close>

definition blob_of :: "memory \<Rightarrow> fdt \<Rightarrow> (u8 list \<Rightarrow> u32) \<Rightarrow> dt \<Rightarrow> bool" where
  "blob_of m fdt off t \<longleftrightarrow> fdt_placed m fdt \<and> unat (struct_block fdt) mod 4 = 0 \<and> block_size fdt < 2 ^ 32 \<and>
     holds m (struct_block fdt) (flatten off t @ be32 FDT_END) \<and> length (flatten off t) + 4 \<le> block_size fdt \<and>
     wf_dt (prop_ok m fdt off) [slash] 0 t"

definition dt_nodes :: "(u8 list \<Rightarrow> u32) \<Rightarrow> dt \<Rightarrow> (u8 list \<times> fdt_node \<times> dt) list" where
  "dt_nodes off t = tree_nodes off [slash] default_cells 0 t"

lemma tree_nodes_at:
  fixes fdt :: fdt
  shows "holds m (pos fdt n) (flatten off t) \<Longrightarrow> n mod 4 = 0 \<Longrightarrow> n + length (flatten off t) \<le> B \<Longrightarrow> wf_dt ok p k t \<Longrightarrow>
      (q, nd, u) \<in> set (tree_nodes off p cells n t) \<Longrightarrow> \<exists>n' cells' k'. nd = node_of n' cells' \<and> n' mod 4 = 0 \<and>
        holds m (pos fdt n') (flatten off u) \<and> n' + length (flatten off u) \<le> B \<and> wf_dt ok q k' u"
    and "holds m (pos fdt n) (concat (map (flatten off) ts)) \<Longrightarrow> n mod 4 = 0 \<Longrightarrow>
      n + length (concat (map (flatten off) ts)) \<le> B \<Longrightarrow>
      list_all (\<lambda>t. wf_dt ok (join_path p (dt_name t)) (Suc k) t) ts \<Longrightarrow>
      (q, nd, u) \<in> set (forest_nodes off p cells n ts) \<Longrightarrow> \<exists>n' cells' k'. nd = node_of n' cells' \<and> n' mod 4 = 0 \<and>
        holds m (pos fdt n') (flatten off u) \<and> n' + length (flatten off u) \<le> B \<and> wf_dt ok q k' u"
proof (induction off p cells n t and off p cells n ts arbitrary: k and k rule: tree_nodes_forest_nodes.induct)
  case (1 off p cells n name qs ts)
  let ?n2 = "n + length (flat_begin name) + length (flat_props off qs)"
  have "holds m (pos fdt ?n2) (concat (map (flatten off) ts))" using 1(2) by (simp add: pos_add add.assoc)
  moreover have "?n2 mod 4 = 0"
    using 1(3) flat_mod4(1) [of name] flat_mod4(3) [of off qs] by (simp add: mod_add_eq [symmetric])
  ultimately have kids: "(q, nd, u) \<in> set (forest_nodes off p (fold set_cell qs default_cells) ?n2 ts) \<Longrightarrow> ?case"
    using "1.IH" [of k] "1.prems" by auto
  have "(q, nd, u) = (p, node_of n cells, Dt name qs ts) \<or>
      (q, nd, u) \<in> set (forest_nodes off p (fold set_cell qs default_cells) ?n2 ts)" using "1.prems" by auto
  then show ?case
  proof
    assume "(q, nd, u) = (p, node_of n cells, Dt name qs ts)"
    then show ?case using "1.prems" by (intro exI [of _ n] exI [of _ cells] exI [of _ k]) simp
  qed (rule kids)
next
  case (3 off p cells n t ts)
  have "holds m (pos fdt n) (flatten off t)" "holds m (pos fdt (n + length (flatten off t))) (concat (map (flatten off) ts))"
    using 3(3) by (simp_all add: pos_add)
  moreover have "(n + length (flatten off t)) mod 4 = 0" using 3(4) flatten_mod4 [of off t] by (simp add: mod_add_eq [symmetric])
  ultimately show ?case using "3.IH"(1) [of "Suc k"] "3.IH"(2) [of k] 3(4-) by (auto simp: add.assoc)
qed simp

lemma blob_visits:
  assumes "blob_of m fdt off t"
  shows "visits m (fdt_walk_init fdt) (plain (dt_nodes off t))"
proof -
  let ?n = "length (flatten off t)"
  have b: "fdt_placed m fdt" "unat (struct_block fdt) mod 4 = 0" "holds m (pos fdt 0) (flatten off t)"
    "holds m (pos fdt ?n) (be32 FDT_END)" "?n + 4 \<le> block_size fdt" "wf_dt (prop_ok m fdt off) [slash] 0 t"
    using assms by (auto simp: blob_of_def pos_def)
  have "walk_at fdt (fdt_walk_init fdt) 0 [] []"
    using walk_init_inv [OF b(1)] by (simp add: walk_inv_def walk_at_def fdt_walk_init_def pos_def FDT_MAX_DEPTH_def)
  from tree_trace(1) [OF b(1,2) this b(3), of "[slash]" default_cells] b(5,6) obtain st1 where
    st1: "walk_trace m (fdt_walk_init fdt) (plain (dt_nodes off t)) st1" "walk_at fdt st1 ?n [] []"
    by (auto simp: enter_path_def parent_cells_def dt_nodes_def)
  have "fdt_walk_next_node m st1 = Some (st1\<lparr>walk_cursor := pos fdt (?n + 4)\<rparr>, None)"
    using turn_token [OF b(1) st1(2) b(4,5)]
    by (simp add: fdt_walk_next_node.simps [of m st1] Let_def FDT_BEGIN_NODE_def FDT_END_NODE_def FDT_PROP_def FDT_NOP_def FDT_END_def)
  then have "visits m st1 []" by (rule visits_end)
  from trace_visits [OF st1(1) this] show ?thesis by simp
qed

lemma blob_property:
  assumes blob: "blob_of m fdt off t" and nd: "(p, nd, u) \<in> set (dt_nodes off t)" and name: "cstr name 0 nm"
  shows "property_is m (fdt_get_property m (Some fdt) (Some nd) (Some name) (Some ())) (map_of (dt_props u) nm)"
proof -
  have b: "fdt_placed m fdt" "unat (struct_block fdt) mod 4 = 0" "holds m (pos fdt 0) (flatten off t)"
    "0 + length (flatten off t) \<le> block_size fdt" "wf_dt (prop_ok m fdt off) [slash] 0 t" "block_size fdt < 2 ^ 32"
    using blob by (auto simp: blob_of_def pos_def)
  from tree_nodes_at(1) [OF b(3) _ b(4,5)] nd obtain n cells k where n: "nd = node_of n cells" "n mod 4 = 0"
    "holds m (pos fdt n) (flatten off u)" "n + length (flatten off u) \<le> block_size fdt" "wf_dt (prop_ok m fdt off) p k u"
    unfolding dt_nodes_def by (metis mod_0)
  show ?thesis unfolding n(1) by (rule node_property [OF b(1,2) name n(2) _ n(3,4,5)]) (use n(4) b(6) in simp)
qed

end
