(* ===== verification/FdtDemo.thy ===== *)
theory FdtDemo
  imports FdtRound
begin

text \<open>
  A concrete blob in memory: a root with cell counts, a serial port, \<open>/chosen\<close> and \<open>/aliases\<close>, flattened
  at address \<open>0x80000000\<close>, with its strings behind the structure block and a buffer behind both.  The witnesses are stated on it.
\<close>

definition memory_of :: "u64 \<Rightarrow> u8 list \<Rightarrow> memory" where
  "memory_of b xs = (\<lambda>p. if unat (p - b) < length xs then Some (xs ! unat (p - b)) else None)"

lemma holds_memory_of: "length xs < 2 ^ 64 \<Longrightarrow> holds (memory_of b xs) b xs"
  by (simp add: holds_def memory_of_def unat_of_nat_small)

lemma holds_region: "holds m p xs \<Longrightarrow> unat p + length xs \<le> 2 ^ 64 \<Longrightarrow> region m p (length xs)"
  by (simp add: holds_def region_def)

definition demo_names :: "u8 list" where
  "demo_names = text_bytes ''#address-cells'' @ [0] @ text_bytes ''#size-cells'' @ [0] @
     text_bytes ''compatible'' @ [0] @ text_bytes ''reg'' @ [0] @ text_bytes ''stdout-path'' @ [0] @
     text_bytes ''serial0'' @ [0]"

definition demo_off :: "u8 list \<Rightarrow> u32" where
  "demo_off nm = (if nm = text_bytes ''#address-cells'' then 0 else if nm = text_bytes ''#size-cells'' then 15
     else if nm = text_bytes ''compatible'' then 27 else if nm = text_bytes ''reg'' then 38
     else if nm = text_bytes ''stdout-path'' then 42 else 54)"

definition demo_uart :: dt where
  "demo_uart = Dt (text_bytes ''uart@10'')
     [(text_bytes ''compatible'', text_bytes ''snps,dw-apb-uart'' @ [0] @ text_bytes ''ns16550a'' @ [0]),
      (text_bytes ''reg'', cell_bytes [0x10, 0x20000000, 0x100])] []"

definition demo_chosen :: dt where
  "demo_chosen = Dt (text_bytes ''chosen'') [(text_bytes ''stdout-path'', text_bytes ''serial0:115200'' @ [0])] []"

definition demo_aliases :: dt where
  "demo_aliases = Dt (text_bytes ''aliases'') [(text_bytes ''serial0'', text_bytes ''/uart@10'' @ [0])] []"

definition demo_tree :: dt where
  "demo_tree = Dt []
     [(text_bytes ''#address-cells'', be32 2), (text_bytes ''#size-cells'', be32 1)]
     [demo_uart, demo_chosen, demo_aliases]"

definition demo_struct :: "u8 list" where
  "demo_struct = flatten demo_off demo_tree @ be32 FDT_END"

definition demo_blob :: memory where
  "demo_blob = memory_of 0x80000000 (demo_struct @ demo_names @ replicate 64 0)"

definition demo_fdt :: fdt where
  "demo_fdt = \<lparr>blob = 0x80000000, struct_block = 0x80000000, struct_block_end = 0x80000000 + of_nat (length demo_struct),
     strings_block = 0x80000000 + of_nat (length demo_struct), strings_size = of_nat (length demo_names)\<rparr>"

lemma demo_lengths: "length demo_struct = 212" "length demo_names = 62"
  by code_simp+

lemma demo_holds: "holds demo_blob 0x80000000 demo_struct" "holds demo_blob 0x800000D4 demo_names"
  using holds_memory_of [of "demo_struct @ demo_names @ replicate 64 0" "0x80000000"] demo_lengths
  by (simp_all add: demo_blob_def)

lemma demo_buffer: "region demo_blob 0x80000112 64"
proof -
  have "holds demo_blob 0x80000112 (replicate 64 0)"
    using holds_memory_of [of "demo_struct @ demo_names @ replicate 64 0" "0x80000000"] demo_lengths
    by (simp add: demo_blob_def)
  from holds_region [OF this] show ?thesis by simp
qed

lemma demo_placed: "fdt_placed demo_blob demo_fdt"
  using holds_region [OF demo_holds(1)] holds_region [OF demo_holds(2)]
  by (simp add: fdt_placed_def demo_fdt_def demo_lengths)

lemma demo_names_at:
  "cstr demo_blob 0x800000D4 (text_bytes ''#address-cells'')" "cstr demo_blob 0x800000E3 (text_bytes ''#size-cells'')"
  "cstr demo_blob 0x800000EF (text_bytes ''compatible'')" "cstr demo_blob 0x800000FA (text_bytes ''reg'')"
  "cstr demo_blob 0x800000FE (text_bytes ''stdout-path'')" "cstr demo_blob 0x8000010A (text_bytes ''serial0'')"
  using demo_holds(2) by (simp_all add: demo_names_def cstr_holds text_bytes_def)

lemma demo_blob_of: "blob_of demo_blob demo_fdt demo_off demo_tree"
proof -
  have "wf_dt (prop_ok demo_blob demo_fdt demo_off) [slash] 0 demo_tree"
    using demo_names_at
    by (simp add: demo_tree_def demo_uart_def demo_chosen_def demo_aliases_def prop_ok_def demo_off_def text_bytes_def join_path_def path_dir_def slash_def
        demo_fdt_def demo_lengths)
  then show ?thesis
    using demo_placed demo_holds(1) demo_lengths
    by (simp add: blob_of_def demo_fdt_def block_size_def demo_struct_def)
qed

end
