(* ===== verification/FdtProps.thy ===== *)
theory FdtProps
  imports FdtDemo
begin

text \<open>
  The properties of the device tree reader: it returns on every blob that \<open>fdt_init\<close> accepts, and on
  a flattened tree it finds the nodes, properties, cells and strings that are in the tree.
\<close>

section \<open>Arbitrary blobs\<close>

lemma read_header_region: "region m p 40 \<Longrightarrow> \<exists>v. read_header m p f = Some v"
proof -
  assume r: "region m p 40"
  have "unat p + 40 \<le> 2 ^ 64" using r by (simp add: region_def)
  then have o: "unat (p + header_offset f) = unat p + unat (header_offset f)"
    by (cases f; subst unat_add_nowrap; simp)
  have "region m (p + header_offset f) 4" by (rule region_sub [OF r]) (use o in \<open>cases f; simp\<close>)+
  then show ?thesis unfolding read_header_def by (rule read_be32_region)
qed

lemma range_valid_nat: "fdt_range_valid (ucast (tot :: u32)) ofs sz \<longleftrightarrow> unat ofs + unat sz \<le> unat tot"
  by (auto simp: fdt_range_valid_def word_le_nat_alt unat_sub)

text \<open>
  C28: \<open>fdt_init\<close> never reads outside the header, and a handle it returns describes two blocks that lie
  inside the \<open>totalsize\<close> bytes of the blob.
\<close>

theorem init_bounds:
  assumes header: "region m dtb 40" and tsz: "read_header m dtb totalsize = Some tot"
    and all: "region m dtb (unat tot)" and top: "unat dtb + unat tot + 2 ^ 33 \<le> 2 ^ 64"
  shows "\<exists>r. fdt_init m (Some ()) dtb = Some r \<and> (\<forall>fdt. r = Some fdt \<longrightarrow> fdt_placed m fdt \<and>
    unat dtb \<le> unat (struct_block fdt) \<and> unat (struct_block_end fdt) \<le> unat dtb + unat tot \<and>
    unat dtb \<le> unat (strings_block fdt) \<and> unat (strings_block fdt) + unat (strings_size fdt) \<le> unat dtb + unat tot)"
proof -
  obtain mg so ss zo zs where h: "read_header m dtb magic = Some mg" "read_header m dtb off_dt_struct = Some so"
    "read_header m dtb size_dt_struct = Some ss" "read_header m dtb off_dt_strings = Some zo"
    "read_header m dtb size_dt_strings = Some zs"
    using read_header_region [OF header] by metis
  show ?thesis
  proof (cases "dtb = 0 \<or> mg \<noteq> FDT_MAGIC \<or> \<not> (unat so + unat ss \<le> unat tot) \<or> \<not> (unat zo + unat zs \<le> unat tot)")
    case True
    then show ?thesis using h tsz by (auto simp: fdt_init_def range_valid_nat Let_def)
  next
    case False
    let ?f = "\<lparr>blob = dtb, struct_block = dtb + ucast so, struct_block_end = dtb + ucast so + ucast ss,
        strings_block = dtb + ucast zo, strings_size = ucast zs\<rparr>"
    have u: "unat (dtb + ucast so) = unat dtb + unat so" "unat (dtb + ucast zo) = unat dtb + unat zo"
      using False top by (subst unat_add_nowrap; simp)+
    then have e: "unat (dtb + ucast so + ucast ss) = unat dtb + unat so + unat ss"
      using False top by (subst unat_add_nowrap) simp_all
    have "region m (dtb + ucast so) (unat ss)" "region m (dtb + ucast zo) (unat zs)"
      by (rule region_sub [OF all]; use False u in simp)+
    then have "fdt_placed m ?f" using u e False top by (simp add: fdt_placed_def)
    moreover have "fdt_init m (Some ()) dtb = Some (Some ?f)"
      using False h tsz by (simp add: fdt_init_def range_valid_nat Let_def)
    ultimately show ?thesis using u e False by simp
  qed
qed

definition short_blob :: memory where
  "short_blob = memory_of 0x80000000 
    [0xd0, 0x0d, 0xfe, 0xed, 0, 0, 0, 50, 0, 0, 0, 40, 0, 0, 0, 50, 0, 0, 0, 50,
     0, 0, 0, 17, 0, 0, 0, 16, 0, 0, 0, 0, 0, 0, 0, 0, 0, 0, 0, 10, 0, 0, 0, 1, 0, 0, 0, 0, 0, 0]"

lemma short_region: "region short_blob 0x80000000 50"
  unfolding short_blob_def by (rule holds_region [OF holds_memory_of, THEN region_sub]) simp_all

theorem init_bounds_witness:
  "fdt_init short_blob (Some ()) 0x80000000 = Some (Some \<lparr>blob = 0x80000000, struct_block = 0x80000028,
     struct_block_end = 0x80000032, strings_block = 0x80000032, strings_size = 0\<rparr>) \<and>
   fdt_placed short_blob \<lparr>blob = 0x80000000, struct_block = 0x80000028,
     struct_block_end = 0x80000032, strings_block = 0x80000032, strings_size = 0\<rparr>"
proof -
  have r: "region short_blob 0x80000000 40" by (rule region_sub [OF short_region]) simp_all
  have t: "read_header short_blob 0x80000000 totalsize = Some 50" by code_simp
  have i: "fdt_init short_blob (Some ()) 0x80000000 = Some (Some \<lparr>blob = 0x80000000, struct_block = 0x80000028,
     struct_block_end = 0x80000032, strings_block = 0x80000032, strings_size = 0\<rparr>)" by code_simp
  show ?thesis using init_bounds [OF r t] short_region i by simp
qed

text \<open>
  C26: on every placed blob, whatever its bytes, \<open>fdt_find_node_by_path\<close> and the walk behind it return;
  no read or write leaves the blob, the 256 bytes of the path or the 32 frames, and a node that is
  found lies in the structure block.
\<close>

theorem find_by_path_total:
  assumes placed: "fdt_placed m fdt" and path: "cstr path 0 xs"
  shows "\<exists>r. fdt_find_node_by_path m (Some fdt) (Some path) (Some ()) = Some r \<and>
    (\<forall>nd. r = Some nd \<longrightarrow> node_in_blob fdt nd \<and> length xs < 256)"
proof -
  from visits_total [OF placed walk_init_inv [OF placed]] obtain ns where
    ns: "visits m (fdt_walk_init fdt) ns" "\<forall>(p, nd) \<in> set ns. length p < 256 \<and> node_in_blob fdt nd" by blast
  let ?r = "List.find (\<lambda>x. fst x = xs) ns"
  have "node_in_blob fdt (snd x) \<and> length xs < 256" if "?r = Some x" for x
  proof -
    have "x \<in> set ns" "fst x = xs" using that by (auto simp: find_Some_iff)
    then show ?thesis using ns(2) by (cases x) auto
  qed
  then show ?thesis using find_path_visits [OF ns(1) path] by (auto simp: fdt_find_node_by_path_def)
qed

theorem find_by_path_total_witness:
  "\<exists>r. fdt_find_node_by_path short_blob (Some \<lparr>blob = 0x80000000, struct_block = 0x80000028,
     struct_block_end = 0x80000032, strings_block = 0x80000032, strings_size = 0\<rparr>) (Some (lit ''/chosen'')) (Some ()) = Some r"
proof -
  have p: "fdt_placed short_blob \<lparr>blob = 0x80000000, struct_block = 0x80000028,
     struct_block_end = 0x80000032, strings_block = 0x80000032, strings_size = 0\<rparr>"
    using region_sub [OF short_region, of "0x80000028" 10] region_sub [OF short_region, of "0x80000032" 0]
    by (simp add: fdt_placed_def)
  have "cstr (lit ''/chosen'') 0 (text_bytes ''/chosen'')" by (rule cstr_lit) simp_all
  from find_by_path_total [OF p this] show ?thesis by blast
qed

text \<open>
  C29: where the structure block is aligned at both ends, \<open>fdt_get_property\<close> returns for every node
  description and every name, and the property it gives lies inside the structure block.
\<close>

theorem get_property_safe:
  assumes "fdt_placed m fdt" and "fdt_aligned fdt" and "cstr name 0 nm"
  shows "\<exists>r. fdt_get_property m (Some fdt) (Some node) (Some name) (Some ()) = Some r \<and>
    (\<forall>p. r = Some p \<longrightarrow> prop_in_blob fdt p)"
  by (rule get_property_total [OF assms])

theorem get_property_safe_witness:
  "\<exists>r. fdt_get_property demo_blob (Some demo_fdt) (Some (node_of 71 (2, 1))) (Some (lit ''reg'')) (Some ()) = Some r"
proof -
  have "fdt_aligned demo_fdt" by (simp add: fdt_aligned_def demo_fdt_def demo_lengths)
  moreover have "cstr (lit ''reg'') 0 (text_bytes ''reg'')" by (rule cstr_lit) simp_all
  ultimately show ?thesis using get_property_safe [OF demo_placed] by blast
qed

text \<open>
  C32: without that alignment the lookup can leave the blob: \<open>fdt_init\<close> accepts this one, whose 50 bytes
  are all accessible, its root is found, and reading a property of the root is an access behind the end.
\<close>

theorem get_property_overread:
  "\<exists>fdt nd. region short_blob 0x80000000 50 \<and> fdt_init short_blob (Some ()) 0x80000000 = Some (Some fdt) \<and>
     fdt_find_node_by_path short_blob (Some fdt) (Some (lit ''/'')) (Some ()) = Some (Some nd) \<and>
     fdt_get_property short_blob (Some fdt) (Some nd) (Some (lit ''reg'')) (Some ()) = None"
proof -
  let ?f = "\<lparr>blob = 0x80000000, struct_block = 0x80000028,
     struct_block_end = 0x80000032, strings_block = 0x80000032, strings_size = 0\<rparr>"
  have "fdt_init short_blob (Some ()) 0x80000000 = Some (Some ?f)" by code_simp
  moreover have "fdt_find_node_by_path short_blob (Some ?f) (Some (lit ''/'')) (Some ()) = Some (Some (node_of 0 (2, 1)))"
    by code_simp
  moreover have "fdt_get_property short_blob (Some ?f) (Some (node_of 0 (2, 1))) (Some (lit ''reg'')) (Some ()) = None"
    by code_simp
  ultimately show ?thesis using short_region by blast
qed

end
