(* ===== verification/FdtTreeProps.thy ===== *)
theory FdtTreeProps
  imports FdtDemo
begin

text \<open>
  The properties of the device tree reader on a blob that holds a flattened tree: what the code
  returns is what is in the tree.
\<close>

section \<open>Nodes and properties\<close>

lemma find_path_blob:
  assumes blob: "blob_of m fdt off t" and path: "cstr path 0 xs"
  shows "fdt_find_node_by_path m (Some fdt) (Some path) (Some ()) =
    Some (map_option (fst \<circ> snd) (List.find (\<lambda>x. fst x = xs) (dt_nodes off t)))"
proof -
  have "map_option snd (List.find (\<lambda>x. fst x = xs) (plain ys)) =
      map_option (fst \<circ> snd) (List.find (\<lambda>x. fst x = xs) ys)" for ys
    by (induction ys) auto
  then show ?thesis using find_path_visits [OF blob_visits [OF blob] path]
    by (simp add: fdt_find_node_by_path_def)
qed

text \<open>
  C25: on a flattened tree a search by path returns the first node, in document order, with that path,
  described by its offset and the cell counts of its parent; and for every node of the tree
  \<open>fdt_get_property\<close> returns exactly the data of the node's own property of that name, or false where it
  has none.
\<close>

theorem device_tree_lookup:
  assumes blob: "blob_of m fdt off t"
  shows "(cstr path 0 xs \<longrightarrow> fdt_find_node_by_path m (Some fdt) (Some path) (Some ()) =
      Some (map_option (fst \<circ> snd) (List.find (\<lambda>x. fst x = xs) (dt_nodes off t)))) \<and>
    ((p, nd, u) \<in> set (dt_nodes off t) \<longrightarrow> cstr name 0 nm \<longrightarrow>
      property_is m (fdt_get_property m (Some fdt) (Some nd) (Some name) (Some ())) (map_of (dt_props u) nm))"
  using find_path_blob [OF blob] blob_property [OF blob] by blast

definition demo_uart_node :: fdt_node where
  "demo_uart_node = \<lparr>struct_offset = 40, parent_address_cells = 2, parent_size_cells = 1\<rparr>"

lemma demo_nodes: "dt_nodes demo_off demo_tree =
  [(text_bytes ''/'', node_of 0 (2, 1), demo_tree), (text_bytes ''/uart@10'', demo_uart_node, demo_uart),
   (text_bytes ''/chosen'', node_of 120 (2, 1), demo_chosen), (text_bytes ''/aliases'', node_of 164 (2, 1), demo_aliases)]"
  by code_simp

theorem device_tree_lookup_witness:
  "fdt_find_node_by_path demo_blob (Some demo_fdt) (Some (lit ''/uart@10'')) (Some ()) = Some (Some demo_uart_node) \<and>
   property_is demo_blob (fdt_get_property demo_blob (Some demo_fdt) (Some demo_uart_node) (Some (lit ''reg'')) (Some ()))
     (Some (cell_bytes [0x10, 0x20000000, 0x100]))"
proof -
  have p: "cstr (lit ''/uart@10'') 0 (text_bytes ''/uart@10'')" "cstr (lit ''reg'') 0 (text_bytes ''reg'')"
    by (rule cstr_lit; simp)+
  have "List.find (\<lambda>x. fst x = text_bytes ''/uart@10'') (dt_nodes demo_off demo_tree) =
      Some (text_bytes ''/uart@10'', demo_uart_node, demo_uart)"
    unfolding demo_nodes by (simp add: text_bytes_def)
  moreover have "map_of (dt_props demo_uart) (text_bytes ''reg'') = Some (cell_bytes [0x10, 0x20000000, 0x100])"
    by (simp add: demo_uart_def text_bytes_def)
  moreover have "(text_bytes ''/uart@10'', demo_uart_node, demo_uart) \<in> set (dt_nodes demo_off demo_tree)"
    unfolding demo_nodes by simp
  ultimately show ?thesis
    using device_tree_lookup [OF demo_blob_of, of "lit ''/uart@10''" "text_bytes ''/uart@10''"
        "text_bytes ''/uart@10''" demo_uart_node demo_uart "lit ''reg''" "text_bytes ''reg''"] p by simp
qed

section \<open>Compatible strings\<close>

definition lists_compatible :: "u8 list \<Rightarrow> dt \<Rightarrow> bool" where
  "lists_compatible cs u \<longleftrightarrow> (case map_of (dt_props u) (text_bytes ''compatible'') of
     None \<Rightarrow> False | Some d \<Rightarrow> cs \<in> set (nul_strings d))"

lemma has_compatible_tree:
  assumes "blob_of m fdt off t" "(p, nd, u) \<in> set (dt_nodes off t)" "cstr c 0 cs"
  shows "fdt_node_has_compatible m (Some fdt) (Some nd) (Some c) = Some (lists_compatible cs u)"
proof -
  have "cstr (lit ''compatible'') 0 (text_bytes ''compatible'')" by (rule cstr_lit) simp_all
  from blob_property [OF assms(1,2) this] show ?thesis
  proof (cases "map_of (dt_props u) (text_bytes ''compatible'')")
    case None
    then show ?thesis using blob_property [OF assms(1,2) \<open>cstr (lit _) _ _\<close>]
      by (simp add: property_is_def fdt_node_has_compatible_def lists_compatible_def)
  next
    case (Some d)
    then obtain q where q: "fdt_get_property m (Some fdt) (Some nd) (Some (lit ''compatible'')) (Some ()) = Some (Some q)"
      "holds m (prop_data q) (d @ [0])" "unat (prop_len q) = length d"
      using blob_property [OF assms(1,2) \<open>cstr (lit _) _ _\<close>] by (auto simp: property_is_def)
    have "compatible_loop m q (Some c) (of_nat 0) = Some (cs \<in> set (nul_strings d))"
      by (rule compatible_loop_strings [where tail = "[]"]) (use q assms(3) in simp_all)
    then show ?thesis using q(1) Some by (simp add: fdt_node_has_compatible_def lists_compatible_def)
  qed
qed

lemma find_compatible_blob:
  assumes blob: "blob_of m fdt off t" and c: "cstr c 0 cs"
  shows "fdt_find_compatible m (Some fdt) (Some c) (Some ()) =
    Some (map_option (fst \<circ> snd) (List.find (\<lambda>x. lists_compatible cs (snd (snd x))) (dt_nodes off t)))"
proof -
  define P where "P nd \<longleftrightarrow> fdt_node_has_compatible m (Some fdt) (Some nd) (Some c) = Some True" for nd
  have P: "P nd \<longleftrightarrow> lists_compatible cs u" "fdt_node_has_compatible m (Some fdt) (Some nd) (Some c) = Some (P nd)"
    if "(p, nd, u) \<in> set (dt_nodes off t)" for p nd u
    using has_compatible_tree [OF blob that c] by (simp_all add: P_def)
  have find_plain: "map_option snd (List.find (\<lambda>x. P (snd x)) (plain ys)) =
      map_option (fst \<circ> snd) (List.find (\<lambda>x. lists_compatible cs (snd (snd x))) ys)"
    if "set ys \<subseteq> set (dt_nodes off t)" for ys
    using that
  proof (induction ys)
    case (Cons y ys)
    then show ?case using P(1) by (cases y) auto
  qed simp
  have "find_compatible_loop m fdt c (fdt_walk_init fdt) =
      Some (map_option snd (List.find (\<lambda>x. P (snd x)) (plain (dt_nodes off t))))"
  proof (rule find_compatible_visits [OF blob_visits [OF blob]])
    fix nd assume "nd \<in> snd ` set (plain (dt_nodes off t))"
    then obtain p u where "(p, nd, u) \<in> set (dt_nodes off t)" by (auto simp: plain_def)
    then show "fdt_node_has_compatible m (Some fdt) (Some nd) (Some c) = Some (P nd)" by (rule P(2))
  qed
  then show ?thesis by (simp add: fdt_find_compatible_def find_plain)
qed

text \<open>
  C27: on a flattened tree \<open>fdt_find_compatible\<close> returns the first node whose \<open>compatible\<close> property,
  read as a list of terminated strings, contains the string that is asked for.
\<close>

theorem find_compatible_tree:
  assumes "blob_of m fdt off t" and "cstr c 0 cs"
  shows "fdt_find_compatible m (Some fdt) (Some c) (Some ()) =
    Some (map_option (fst \<circ> snd) (List.find (\<lambda>x. lists_compatible cs (snd (snd x))) (dt_nodes off t)))"
  by (rule find_compatible_blob [OF assms])

theorem find_compatible_tree_witness:
  "fdt_find_compatible demo_blob (Some demo_fdt) (Some (lit ''ns16550a'')) (Some ()) = Some (Some demo_uart_node)"
proof -
  have c: "cstr (lit ''ns16550a'') 0 (text_bytes ''ns16550a'')" by (rule cstr_lit) simp_all
  have "\<not> lists_compatible (text_bytes ''ns16550a'') demo_tree" "lists_compatible (text_bytes ''ns16550a'') demo_uart"
    by code_simp+
  then show ?thesis using find_compatible_tree [OF demo_blob_of c] by (simp add: demo_nodes)
qed

section \<open>Registers\<close>

text \<open>The cells of a property, and the entry of a \<open>reg\<close> property with \<open>a\<close> address and \<open>s\<close> size cells.\<close>

fun cells_of :: "u8 list \<Rightarrow> u32 list" where
  "cells_of (a # b # c # d # r) = be32_of [a, b, c, d] # cells_of r"
| "cells_of _ = []"

lemma be32_be32_of: "be32 (be32_of [a, b, c, d]) = [a, b, c, d]"
proof -
  let ?w = "push_bit 24 (ucast a) OR push_bit 16 (ucast b) OR push_bit 8 (ucast c) OR ucast d :: u32"
  have w: "bit ?w n \<longleftrightarrow> (if n < 8 then bit d n else if n < 16 then bit c (n - 8) else if n < 24 then bit b (n - 16)
      else n < 32 \<and> bit a (n - 24))" for n
    using bit_imp_le_length [of a "n - 24"] bit_imp_le_length [of b "n - 16"] bit_imp_le_length [of c "n - 8"]
      bit_imp_le_length [of d n] by (auto simp: bit_simps not_less)
  have "(ucast (drop_bit 24 ?w) :: u8) = a" "(ucast (drop_bit 16 ?w) :: u8) = b" "(ucast (drop_bit 8 ?w) :: u8) = c"
    "(ucast ?w :: u8) = d"
    by (rule bit_word_eqI; simp only: bit_ucast_iff bit_drop_bit_eq comp_def w; auto)+
  then show ?thesis by (simp add: be32_def be32_of_def numeral_2_eq_2 numeral_3_eq_3)
qed

lemma cell_bytes_cells_of: "length d mod 4 = 0 \<Longrightarrow> cell_bytes (cells_of d) = d"
  by (induction d rule: cells_of.induct) (simp_all add: be32_be32_of)

definition reg_entry :: "nat \<Rightarrow> nat \<Rightarrow> nat \<Rightarrow> u8 list \<Rightarrow> (u64 \<times> u64) option" where
  "reg_entry a s i d = (let cs = cells_of d; k = i * (a + s) in
     if a \<le> 2 \<and> s \<le> 2 \<and> 0 < a + s \<and> length d mod 4 = 0 \<and> k + a + s \<le> length cs
     then Some (of_nat (cells_value (take a (drop k cs))), of_nat (cells_value (take s (drop (k + a) cs))))
     else None)"

text \<open>The two runs of reads of an entry that starts at cell \<open>k\<close>.\<close>

lemma read_entry:
  assumes cells: "holds m q (cell_bytes cs)" and k: "k + unat a + unat s \<le> length cs" "unat a \<le> 2" "unat s \<le> 2"
  obtains q' where "read_cells m a (q + of_nat (4 * k)) =
      Some (of_nat (cells_value (take (unat a) (drop k cs))), q + of_nat (4 * (k + unat a)))"
    "read_cells m s (q + of_nat (4 * (k + unat a))) = Some (of_nat (cells_value (take (unat s) (drop (k + unat a) cs))), q')"
proof -
  obtain av where av: "read_cells m a (q + of_nat (4 * k)) = Some (av, q + of_nat (4 * (k + unat a)))"
    "unat av = cells_value (take (unat a) (drop k cs))"
    using read_cells_value [OF cells, of k a] k by auto
  obtain sv where sv: "read_cells m s (q + of_nat (4 * (k + unat a))) = Some (sv, q + of_nat (4 * (k + unat a + unat s)))"
    "unat sv = cells_value (take (unat s) (drop (k + unat a) cs))"
    using read_cells_value [OF cells, of "k + unat a" s] k by auto
  have "of_nat (cells_value (take (unat a) (drop k cs))) = av" "of_nat (cells_value (take (unat s) (drop (k + unat a) cs))) = sv"
    using av(2) sv(2) by (metis of_nat_unat ucast_id)+
  then show thesis using that av(1) sv(1) by blast
qed

text \<open>
  The 32-bit index computations do not wrap when the first cell behind the entry has a 32-bit index;
  an entry of three or more cells of one kind is refused before they are made.
\<close>

definition reg_index_fits :: "fdt_node \<Rightarrow> u32 \<Rightarrow> bool" where
  "reg_index_fits nd i \<longleftrightarrow> parent_address_cells nd > 2 \<or> parent_size_cells nd > 2 \<or>
     (unat i + 1) * (unat (parent_address_cells nd) + unat (parent_size_cells nd)) < 2 ^ 32"

lemma reg_index_small:
  assumes "unat i + 1 < 2 ^ 30" shows "reg_index_fits nd i"
proof (cases "unat (parent_address_cells nd) \<le> 2 \<and> unat (parent_size_cells nd) \<le> 2")
  case True
  then have "(unat i + 1) * (unat (parent_address_cells nd) + unat (parent_size_cells nd)) \<le> (unat i + 1) * 4"
    by (intro mult_le_mono2) simp
  with assms show ?thesis by (simp add: reg_index_fits_def)
next
  case False
  then show ?thesis by (auto simp: reg_index_fits_def word_less_nat_alt)
qed

lemma reg_index_first [simp]: "reg_index_fits nd 0"
  by (rule reg_index_small) simp

lemma reg_index:
  fixes i a s :: u32
  assumes "unat a \<le> 2" "unat s \<le> 2" and b: "(unat i + 1) * (unat a + unat s) < 2 ^ 32"
  shows "unat (a + s) = unat a + unat s" "unat (i * (a + s)) = unat i * (unat a + unat s)"
    "unat ((i + 1) * (a + s)) = unat i * (unat a + unat s) + unat a + unat s"
proof -
  show e: "unat (a + s) = unat a + unat s" using assms(1,2) by (subst unat_add_nowrap) simp_all
  have "unat ((i + 1) * (a + s)) = (unat i + 1) * (unat a + unat s) mod 2 ^ 32"
    unfolding unat_word_ariths(2) e by (simp add: unat_word_ariths(1) mod_mult_left_eq)
  then show "unat ((i + 1) * (a + s)) = unat i * (unat a + unat s) + unat a + unat s" using b by simp
  have "unat i * (unat a + unat s) < 2 ^ 32" using b by simp
  then show "unat (i * (a + s)) = unat i * (unat a + unat s)" unfolding unat_word_ariths(2) e by simp
qed

lemma get_reg_entry:
  assumes q: "fdt_get_property m (Some fdt) (Some nd) (Some (lit ''reg'')) (Some ()) = Some (Some p)"
    and d: "holds m (prop_data p) d" "unat (prop_len p) = length d" and i: "reg_index_fits nd i"
  shows "fdt_get_reg m (Some fdt) (Some nd) i (Some ()) (Some ()) =
    Some (reg_entry (unat (parent_address_cells nd)) (unat (parent_size_cells nd)) (unat i) d)"
proof -
  let ?A = "parent_address_cells nd" and ?S = "parent_size_cells nd"
  let ?a = "unat ?A" and ?s = "unat ?S" and ?cs = "cells_of d"
  have le: "?A > 2 \<longleftrightarrow> 2 < ?a" "?S > 2 \<longleftrightarrow> 2 < ?s" by (simp_all add: word_less_nat_alt)
  have mod4: "prop_len p mod 4 = 0 \<longleftrightarrow> length d mod 4 = 0" by (simp add: d(2) unat_mod word_unat_eq_iff)
  note code = fdt_get_reg_def reg_entry_def q le mod4 Let_def
  show ?thesis
  proof (cases "?a \<le> 2 \<and> ?s \<le> 2 \<and> length d mod 4 = 0")
    case False
    then show ?thesis by (auto simp: code not_le not_less)
  next
    case True
    then have "(unat i + 1) * (?a + ?s) < 2 ^ 32" using i by (auto simp: reg_index_fits_def le)
    note idx = reg_index [of ?A ?S i, OF _ _ this]
    have nz: "?A + ?S = 0 \<longleftrightarrow> ?a + ?s = 0" using idx(1) True by (metis unat_eq_zero)
    have cells: "holds m (prop_data p) (cell_bytes ?cs)" using d(1) True by (simp add: cell_bytes_cells_of)
    have "4 * length ?cs = length d" using length_cell_bytes [of ?cs] True by (simp add: cell_bytes_cells_of)
    then have "unat (prop_len p div 4) = length ?cs" by (simp add: unat_div d(2))
    then have cond: "(i + 1) * (?A + ?S) > prop_len p div 4 \<longleftrightarrow> \<not> unat i * (?a + ?s) + ?a + ?s \<le> length ?cs"
      using idx(3) True by (simp add: word_less_nat_alt not_le)
    have "ucast (i * (?A + ?S)) = (of_nat (unat (i * (?A + ?S))) :: u64)" by (metis of_nat_unat unat_ucast_32_64)
    then have start: "prop_data p + ucast (i * (?A + ?S)) * 4 = prop_data p + of_nat (4 * (unat i * (?a + ?s)))"
      using idx(2) True by (simp add: mult.commute)
    show ?thesis
    proof (cases "0 < ?a + ?s \<and> unat i * (?a + ?s) + ?a + ?s \<le> length ?cs")
      case False
      then show ?thesis using True nz by (auto simp: code cond not_less)
    next
      case ok: True
      then obtain q where "read_cells m ?A (prop_data p + of_nat (4 * (unat i * (?a + ?s)))) =
          Some (of_nat (cells_value (take ?a (drop (unat i * (?a + ?s)) ?cs))), prop_data p + of_nat (4 * (unat i * (?a + ?s) + ?a)))"
        "read_cells m ?S (prop_data p + of_nat (4 * (unat i * (?a + ?s) + ?a))) =
          Some (of_nat (cells_value (take ?s (drop (unat i * (?a + ?s) + ?a) ?cs))), q)"
        using True by (elim conjE read_entry [OF cells])
      then show ?thesis using True ok nz by (simp add: code cond start)
    qed
  qed
qed

definition node_reg :: "fdt_node \<Rightarrow> dt \<Rightarrow> nat \<Rightarrow> (u64 \<times> u64) option" where
  "node_reg nd u i = Option.bind (map_of (dt_props u) (text_bytes ''reg''))
     (reg_entry (unat (parent_address_cells nd)) (unat (parent_size_cells nd)) i)"

lemma node_reg_tree:
  assumes "blob_of m fdt off t" "(p, nd, u) \<in> set (dt_nodes off t)" "reg_index_fits nd i"
  shows "fdt_get_reg m (Some fdt) (Some nd) i (Some ()) (Some ()) = Some (node_reg nd u (unat i))"
proof -
  have name: "cstr (lit ''reg'') 0 (text_bytes ''reg'')" by (rule cstr_lit) simp_all
  show ?thesis
  proof (cases "map_of (dt_props u) (text_bytes ''reg'')")
    case None
    with blob_property [OF assms(1,2) name] show ?thesis by (simp add: property_is_def fdt_get_reg_def node_reg_def)
  next
    case (Some d)
    with blob_property [OF assms(1,2) name] obtain q where
      "fdt_get_property m (Some fdt) (Some nd) (Some (lit ''reg'')) (Some ()) = Some (Some q)"
      "holds m (prop_data q) d" "unat (prop_len q) = length d" by (auto simp: property_is_def)
    from get_reg_entry [OF this assms(3)] Some show ?thesis by (simp add: node_reg_def)
  qed
qed

text \<open>
  C30: On a flattened tree \<open>fdt_get_reg\<close> returns what \<open>reg\<close> of the node says: the property is a sequence of
  big-endian cells, entry \<open>index\<close> consists of the address and size cells that the parent announces,
  each number with its most significant cell first; the result is false where the node has no \<open>reg\<close>, where
  the property is not a whole number of cells or ends before the entry, and where an address or a
  size has more than two cells.  It holds for every index for which the code's 32-bit product of
  \<open>index + 1\<close> and the cells of an entry does not wrap, hence for every index below \<open>2 ^ 30 - 1\<close>.
\<close>

theorem reg_decoded:
  assumes "blob_of m fdt off t" "(p, nd, u) \<in> set (dt_nodes off t)" "reg_index_fits nd i"
  shows "fdt_get_reg m (Some fdt) (Some nd) i (Some ()) (Some ()) = Some (node_reg nd u (unat i))"
  by (rule node_reg_tree [OF assms])

theorem reg_decoded_witness:
  "fdt_get_reg demo_blob (Some demo_fdt) (Some demo_uart_node) 0 (Some ()) (Some ()) = Some (Some (0x1020000000, 0x100))"
proof -
  have nd: "(text_bytes ''/uart@10'', demo_uart_node, demo_uart) \<in> set (dt_nodes demo_off demo_tree)"
    unfolding demo_nodes by simp
  have "cells_of (cell_bytes [0x10, 0x20000000, 0x100]) = [0x10, 0x20000000, 0x100]" by code_simp
  then have "node_reg demo_uart_node demo_uart 0 = Some (0x1020000000, 0x100)"
    by (simp add: node_reg_def demo_uart_def text_bytes_def reg_entry_def demo_uart_node_def del: cell_bytes_simps)
  then show ?thesis using reg_decoded [OF demo_blob_of nd, of 0] by simp
qed

text \<open>
  The condition on \<open>index\<close> above is needed: beyond it \<open>(index + 1U) * entry_cells\<close> wraps; the last index
  passes the check and the address is read far behind the property.
\<close>

lemma reg_index_wraps:
  "fdt_get_reg demo_blob (Some demo_fdt) (Some demo_uart_node) 0xFFFFFFFF (Some ()) (Some ()) = None"
proof -
  have "fdt_get_property demo_blob (Some demo_fdt) (Some demo_uart_node) (Some (lit ''reg'')) (Some ()) =
      Some (Some \<lparr>prop_data = 0x80000068, prop_len = 12\<rparr>)"
    by code_simp
  moreover have "[0..<2] = [0, 1 :: nat]" by (simp add: numeral_2_eq_2)
  ultimately show ?thesis
    by (simp add: fdt_get_reg_def demo_uart_node_def Let_def read_cells_def fdt_read_be32_def demo_blob_def memory_of_def
        demo_lengths)
qed

end
