(* ===== verification/FdtOut.thy ===== *)
theory FdtOut
  imports FdtTreeProps
begin

text \<open>
  The two functions that copy a string out of the tree: the console path of \<open>/chosen\<close>, cut at the
  first colon, and the target of an alias.
\<close>

section \<open>The bounded copy\<close>

definition outside :: "u64 \<Rightarrow> nat \<Rightarrow> memory \<Rightarrow> memory \<Rightarrow> bool" where
  "outside p n m m' \<longleftrightarrow> (\<forall>q. (\<forall>i<n. q \<noteq> p + of_nat i) \<longrightarrow> m' q = m q)"

text \<open>The bytes copied, and the terminator behind them.\<close>

lemma terminated_copy:
  assumes buf: "region m buffer n" and len: "length xs < n"
    and bytes: "\<And>i. i < length xs \<Longrightarrow> m1 (buffer + of_nat i) = Some (xs ! i)"
    and frame: "\<And>q. (\<And>i. i < length xs \<Longrightarrow> q \<noteq> buffer + of_nat i) \<Longrightarrow> m1 q = m q"
  defines "m' \<equiv> m1(buffer + of_nat (length xs) \<mapsto> 0)"
  shows "store8 (buffer + of_nat (length xs)) 0 m1 = Some m'" "holds m' buffer xs" "m' (buffer + of_nat (length xs)) = Some 0"
    "outside buffer n m m'" "dom m' = dom m"
proof -
  have sd: "unat buffer + n \<le> 2 ^ 64" using buf by (simp add: region_def)
  have inj: "buffer + of_nat (length xs) \<noteq> buffer + of_nat i" if "i < length xs" for i
    using region_inj [OF sd, of "length xs" i] that len by simp
  then have "m1 (buffer + of_nat (length xs)) = m (buffer + of_nat (length xs))" by (intro frame) metis
  also have "\<dots> \<noteq> None" using buf len by (simp add: region_def)
  finally show "store8 (buffer + of_nat (length xs)) 0 m1 = Some m'" by (simp add: store8_def m'_def)
  show "holds m' buffer xs"
    unfolding holds_def
  proof (intro allI impI)
    fix k assume k: "k < length xs"
    then show "m' (buffer + of_nat k) = Some (xs ! k)" using inj [OF k] bytes [OF k] by (auto simp: m'_def)
  qed
  show "m' (buffer + of_nat (length xs)) = Some 0" by (simp add: m'_def)
  show "outside buffer n m m'" using len frame by (auto simp: outside_def m'_def)
  have "q \<in> dom m' \<longleftrightarrow> q \<in> dom m" for q
  proof (cases "\<exists>i<Suc (length xs). q = buffer + of_nat i")
    case True
    then obtain i where i: "i < Suc (length xs)" "q = buffer + of_nat i" by blast
    then have "m q \<noteq> None" using buf len by (simp add: region_def)
    moreover have "m' q \<noteq> None" using i bytes [of i] by (cases "i = length xs") (auto simp: m'_def)
    ultimately show ?thesis by (auto simp: dom_def)
  next
    case False
    then have "m' q = m q" using frame [of q] by (auto simp: m'_def)
    then show ?thesis unfolding domIff by (rule arg_cong)
  qed
  then show "dom m' = dom m" by blast
qed

lemma copy_string:
  assumes src: "holds m s xs" "unat n = length xs" "unat s + length xs \<le> 2 ^ 64" and nz: "0 \<notin> set xs"
    and buf: "region m buffer (unat sz)"
    and apart: "unat s + length xs \<le> unat buffer \<or> unat buffer + unat sz \<le> unat s"
    and wrap: "length xs + 1 < 2 ^ 64"
  shows "\<exists>m'. fdt_copy_string buffer sz s n m = Some (length xs < unat sz, m') \<and> outside buffer (unat sz) m m' \<and>
    dom m' = dom m \<and> (if length xs < unat sz then cstr m' buffer xs else m' = m)"
proof (cases "length xs < unat sz")
  case False
  have "unat (n + 1) = length xs + 1" using wrap src(2) by (subst unat_plus1_less [of _ "2 ^ 64 - 1"]) simp_all
  then have "sz = 0 \<or> n + 1 > sz" using False by (simp add: word_less_nat_alt)
  then show ?thesis using False by (auto simp: fdt_copy_string_def outside_def)
next
  case True
  have sd: "unat buffer + unat sz \<le> 2 ^ 64" using buf by (simp add: region_def)
  have "unat (n + 1) = length xs + 1" using wrap src(2) by (subst unat_plus1_less [of _ "2 ^ 64 - 1"]) simp_all
  then have go: "\<not> (sz = 0 \<or> n + 1 > sz)" using True by (auto simp: word_less_nat_alt)
  have dest: "region m buffer (length xs)" using buf True by (auto simp: region_def)
  have srcr: "region m s (length xs)" using src by (auto simp: region_def holds_def)
  have "\<exists>m'. for_each (copy_byte buffer s) [0..<length xs] m = Some m' \<and> copied buffer s (set [0..<length xs]) m m'"
  proof (rule copy_loop [OF srcr dest])
    fix pre i rest j assume e: "[0..<length xs] = pre @ i # rest" and j: "j \<in> set pre"
    have "i \<in> set [0..<length xs]" "j \<in> set [0..<length xs]" unfolding e using j by simp_all
    then have ij: "i < length xs" "j < length xs" by simp_all
    then show "s + of_nat i \<noteq> buffer + of_nat j"
      using unat_region [OF src(3) ij(1)] unat_region [of buffer "length xs" j] sd True apart
      unfolding word_unat_eq_iff by auto
  qed auto
  then obtain m1 where m1: "for_each (copy_byte buffer s) [0..<length xs] m = Some m1"
    "\<And>i. i < length xs \<Longrightarrow> m1 (buffer + of_nat i) = Some (xs ! i)"
    "\<And>q. (\<And>i. i < length xs \<Longrightarrow> q \<noteq> buffer + of_nat i) \<Longrightarrow> m1 q = m q"
    using src(1) by (auto simp: copied_def holds_def)
  note tc = terminated_copy [OF buf True m1(2,3)]
  have n: "n = of_nat (length xs)" using src(2) by (metis of_nat_unat ucast_id)
  have "fdt_copy_string buffer sz s n m = Some (True, m1(buffer + of_nat (length xs) \<mapsto> 0))"
    using go m1(1) tc(1) src(2) n by (simp add: fdt_copy_string_def memcpy_def)
  moreover have "cstr (m1(buffer + of_nat (length xs) \<mapsto> 0)) buffer xs" using nz tc(2,3) by (simp add: cstr_holds)
  ultimately show ?thesis using True tc(4,5) by auto
qed

lemma strchr_loop_takeWhile:
  "cstr s i w \<Longrightarrow> c \<noteq> 0 \<Longrightarrow> strchr_loop s c i =
   Some (if c \<in> set w then Some (i + of_nat (length (takeWhile (\<lambda>x. x \<noteq> c) w))) else None)"
  by (induction w arbitrary: i) (auto simp: strchr_loop.simps add.assoc)

section \<open>Strings of a property\<close>

definition is_text :: "u8 list \<Rightarrow> bool" where
  "is_text d \<longleftrightarrow> d \<noteq> [] \<and> last d = 0"

definition text_of :: "u8 list \<Rightarrow> u8 list" where
  "text_of d = takeWhile (\<lambda>c. c \<noteq> 0) d"

definition colon :: u8 where "colon = of_char (CHR '':'')"

lemma text_of_cstr:
  assumes "holds m a d" "is_text d"
  shows "cstr m a (text_of d)" "length (text_of d) < length d"
proof -
  have "0 \<in> set d" using assms(2) by (metis is_text_def last_in_set)
  then obtain w r where d: "d = w @ 0 # r" "0 \<notin> set w" by (meson split_list_first)
  then have "text_of d = w" by (auto simp: text_of_def takeWhile_append)
  then show "cstr m a (text_of d)" "length (text_of d) < length d"
    using assms(1) d by (simp_all add: cstr_holds)
qed

lemma prop_text:
  assumes "holds m (prop_data p) d" "unat (prop_len p) = length d"
  shows "fdt_prop_is_string m p = Some (is_text d)"
proof (cases "d = []")
  case True
  then show ?thesis using assms(2) by (simp add: fdt_prop_is_string_def is_text_def unat_eq_0)
next
  case False
  then have nz: "prop_len p \<noteq> 0" using assms(2) by auto
  have k: "length d - 1 < length d" using False by simp
  have "ucast (prop_len p - 1) = (of_nat (length d - 1) :: u64)"
    unfolding assms(2) [symmetric] unat_minus_1 [OF nz, symmetric] by (metis of_nat_unat unat_ucast_32_64)
  moreover have "m (prop_data p + of_nat (length d - 1)) = Some (last d)"
    using assms(1) k False unfolding holds_def by (metis last_conv_nth)
  ultimately show ?thesis using False nz by (simp add: fdt_prop_is_string_def is_text_def word_neq_0_conv)
qed

text \<open>A property of a node of a flattened tree, with its place in the structure block.\<close>

lemma blob_property_at:
  assumes "blob_of m fdt off t" "fdt_aligned fdt" "(p, nd, u) \<in> set (dt_nodes off t)" "cstr name 0 nm"
    "map_of (dt_props u) nm = Some d"
  obtains q where "fdt_get_property m (Some fdt) (Some nd) (Some name) (Some ()) = Some (Some q)"
    "holds m (prop_data q) d" "unat (prop_len q) = length d"
    "unat (struct_block fdt) \<le> unat (prop_data q)" "unat (prop_data q) + length d \<le> unat (struct_block_end fdt)"
proof -
  obtain q where q: "fdt_get_property m (Some fdt) (Some nd) (Some name) (Some ()) = Some (Some q)"
    "holds m (prop_data q) (d @ [0])" "unat (prop_len q) = length d"
    using blob_property [OF assms(1,3,4)] assms(5) by (auto simp: property_is_def)
  moreover have "fdt_placed m fdt" using assms(1) by (simp add: blob_of_def)
  from get_property_total [OF this assms(2,4), of nd] q have "prop_in_blob fdt q" by auto
  ultimately show thesis using that by (simp add: prop_in_blob_def)
qed

definition copied_out :: "memory \<Rightarrow> u64 \<Rightarrow> u64 \<Rightarrow> u8 list option \<Rightarrow> (bool \<times> memory) option \<Rightarrow> bool" where
  "copied_out m buffer sz w r \<longleftrightarrow> (\<exists>m'. r = Some (w \<noteq> None \<and> length (the w) < unat sz, m') \<and>
     outside buffer (unat sz) m m' \<and> dom m' = dom m \<and>
     (if w \<noteq> None \<and> length (the w) < unat sz then cstr m' buffer (the w) else m' = m))"

lemma copied_out_none: "copied_out m buffer sz None (Some (False, m))"
  by (simp add: copied_out_def outside_def)

text \<open>What both functions do once they have the property: copy a prefix \<open>w\<close> of its text.\<close>

lemma copy_property:
  assumes d: "holds m (prop_data q) d" "is_text d" and w: "w = takeWhile P (text_of d)"
    and at: "unat (prop_data q) + length d \<le> unat (struct_block_end fdt)" "unat (struct_block fdt) \<le> unat (prop_data q)"
    and buf: "region m buffer (unat sz)"
    and apart: "unat buffer + unat sz \<le> unat (struct_block fdt) \<or> unat (struct_block_end fdt) \<le> unat buffer"
  shows "copied_out m buffer sz (Some w) (fdt_copy_string buffer sz (prop_data q) (of_nat (length w)) m)"
proof -
  note t = text_of_cstr [OF d]
  have pre: "text_of d = w @ dropWhile P (text_of d)" by (simp add: w)
  then have len: "length w \<le> length (text_of d)" by (metis le_add1 length_append)
  have hw: "holds m (prop_data q) w" "0 \<notin> set w"
    using t(1) pre by (auto simp: cstr_holds dest: set_takeWhileD simp: w) (metis holds_append pre w)
  have "unat (struct_block_end fdt) < 2 ^ LENGTH(64)" by (rule unsigned_less)
  then have small: "unat (prop_data q) + length w + 1 \<le> unat (struct_block_end fdt)" "length w + 1 < 2 ^ 64"
    using at len t(2) by simp_all
  have "unat (of_nat (length w) :: u64) = length w" by (rule unat_of_nat_small) (use small in simp)
  moreover have "unat (prop_data q) + length w \<le> unat buffer \<or> unat buffer + unat sz \<le> unat (prop_data q)"
    using apart small(1) at(2) by linarith
  ultimately have "\<exists>m'. fdt_copy_string buffer sz (prop_data q) (of_nat (length w)) m = Some (length w < unat sz, m') \<and>
      outside buffer (unat sz) m m' \<and> dom m' = dom m \<and> (if length w < unat sz then cstr m' buffer w else m' = m)"
    using small \<open>unat (struct_block_end fdt) < _\<close> by (intro copy_string hw buf) simp_all
  then show ?thesis unfolding copied_out_def by (cases "length w < unat sz") auto
qed

section \<open>The console path\<close>

definition find_by_path :: "(u8 list \<Rightarrow> u32) \<Rightarrow> dt \<Rightarrow> string \<Rightarrow> (u8 list \<times> fdt_node \<times> dt) option" where
  "find_by_path off t path = List.find (\<lambda>x. fst x = text_bytes path) (dt_nodes off t)"

lemma find_node_blob:
  assumes "blob_of m fdt off t" "cstr (lit path) 0 (text_bytes path)"
  shows "fdt_find_node_by_path m (Some fdt) (Some (lit path)) (Some ()) =
    Some (map_option (fst \<circ> snd) (find_by_path off t path))"
  using find_path_blob [OF assms] by (simp add: find_by_path_def)

lemma find_by_path_in: "find_by_path off t path = Some x \<Longrightarrow> x \<in> set (dt_nodes off t)"
  by (auto simp: find_by_path_def find_Some_iff)

text \<open>Where the code takes the path from, and the part of it that it copies.\<close>

definition stdout_source :: "(u8 list \<Rightarrow> u32) \<Rightarrow> dt \<Rightarrow> u8 list option" where
  "stdout_source off t = (case find_by_path off t ''/chosen'' of
     None \<Rightarrow> None
   | Some (_, _, u) \<Rightarrow> (case map_of (dt_props u) (text_bytes ''stdout-path'') of
       Some d \<Rightarrow> Some d
     | None \<Rightarrow> map_of (dt_props u) (text_bytes ''linux,stdout-path'')))"

lemma stdout_property_found:
  assumes "blob_of m fdt off t" "fdt_aligned fdt" "find_by_path off t ''/chosen'' = Some (p, nd, u)"
  shows "\<exists>r. stdout_property m (Some fdt) (Some nd) = Some r \<and>
    (case stdout_source off t of None \<Rightarrow> r = None
     | Some d \<Rightarrow> \<exists>q. r = Some q \<and> holds m (prop_data q) d \<and> unat (prop_len q) = length d \<and>
         unat (struct_block fdt) \<le> unat (prop_data q) \<and> unat (prop_data q) + length d \<le> unat (struct_block_end fdt))"
proof -
  let ?get = "\<lambda>name. fdt_get_property m (Some fdt) (Some nd) (Some name) (Some ())"
  have nd: "(p, nd, u) \<in> set (dt_nodes off t)" by (rule find_by_path_in [OF assms(3)])
  have n: "cstr (lit ''stdout-path'') 0 (text_bytes ''stdout-path'')"
    "cstr (lit ''linux,stdout-path'') 0 (text_bytes ''linux,stdout-path'')" by (rule cstr_lit; simp)+
  have none: "map_of (dt_props u) nm = None \<Longrightarrow> cstr name 0 nm \<Longrightarrow> ?get name = Some None" for name nm
    using blob_property [OF assms(1) nd] by (fastforce simp: property_is_def)
  note at = blob_property_at [OF assms(1,2) nd]
  show ?thesis
  proof (cases "map_of (dt_props u) (text_bytes ''stdout-path'')")
    case (Some d)
    with at [OF n(1)] show ?thesis by (fastforce simp: stdout_property_def stdout_source_def assms(3))
  next
    case first: None
    show ?thesis
    proof (cases "map_of (dt_props u) (text_bytes ''linux,stdout-path'')")
      case (Some d)
      with at [OF n(2)] show ?thesis by (fastforce simp: stdout_property_def stdout_source_def assms(3) first none [OF first n(1)])
    next
      case None
      then show ?thesis by (simp add: stdout_property_def stdout_source_def assms(3) first none [OF first n(1)] none [OF None n(2)])
    qed
  qed
qed

text \<open>The length of the text up to the colon.\<close>

lemma length_before_colon_text:
  assumes "holds m a d" "is_text d"
  shows "length_before_colon (bytes_at m a) = Some (of_nat (length (takeWhile (\<lambda>c. c \<noteq> colon) (text_of d))))"
proof -
  have cs: "cstr (bytes_at m a) 0 (text_of d)" using text_of_cstr(1) [OF assms] by (simp add: cstr_bytes_at)
  have "colon \<noteq> 0" by (simp add: colon_def)
  moreover have "colon \<notin> set (text_of d) \<Longrightarrow> length (takeWhile (\<lambda>c. c \<noteq> colon) (text_of d)) = length (text_of d)"
    by (subst takeWhile_eq_all_conv [THEN iffD2]) auto
  moreover have "strchr (bytes_at m a) (of_char (CHR '':'')) = strchr_loop (bytes_at m a) colon 0"
    by (simp add: strchr_def colon_def)
  ultimately show ?thesis
    using strchr_loop_takeWhile [OF cs, of colon] strlen_cstr [OF cs]
    by (cases "colon \<in> set (text_of d)") (simp_all add: length_before_colon_def)
qed

lemma stdout_path_copy:
  assumes blob: "blob_of m fdt off t" and al: "fdt_aligned fdt"
    and buf: "buffer \<noteq> 0" "region m buffer (unat sz)"
    and apart: "unat buffer + unat sz \<le> unat (struct_block fdt) \<or> unat (struct_block_end fdt) \<le> unat buffer"
  shows "copied_out m buffer sz (case stdout_source off t of None \<Rightarrow> None
      | Some d \<Rightarrow> if is_text d then Some (takeWhile (\<lambda>c. c \<noteq> colon) (text_of d)) else None)
    (fdt_get_stdout_path m (Some fdt) buffer sz)"
proof -
  have "cstr (lit ''/chosen'') 0 (text_bytes ''/chosen'')" by (rule cstr_lit) simp_all
  note node = find_node_blob [OF blob this]
  show ?thesis
  proof (cases "find_by_path off t ''/chosen''")
    case None
    with node buf copied_out_none show ?thesis by (simp add: fdt_get_stdout_path_def stdout_source_def)
  next
    case (Some x)
    then obtain p nd u where x: "find_by_path off t ''/chosen'' = Some (p, nd, u)" by (cases x) auto
    from stdout_property_found [OF blob al x] obtain r where
      r: "stdout_property m (Some fdt) (Some nd) = Some r"
        "case stdout_source off t of None \<Rightarrow> r = None
       | Some d \<Rightarrow> \<exists>q. r = Some q \<and> holds m (prop_data q) d \<and> unat (prop_len q) = length d \<and>
           unat (struct_block fdt) \<le> unat (prop_data q) \<and> unat (prop_data q) + length d \<le> unat (struct_block_end fdt)" by blast
    note code = fdt_get_stdout_path_def node x r(1) buf(1)
    show ?thesis
    proof (cases "stdout_source off t")
      case None
      then show ?thesis using r(2) copied_out_none by (simp add: code)
    next
      case (Some d)
      then obtain q where q: "r = Some q" "holds m (prop_data q) d" "unat (prop_len q) = length d"
        "unat (struct_block fdt) \<le> unat (prop_data q)" "unat (prop_data q) + length d \<le> unat (struct_block_end fdt)"
        using r(2) by auto
      show ?thesis
        using copy_property [OF q(2) _ refl q(5,4) buf(2) apart] Some copied_out_none
        by (cases "is_text d") (simp_all add: code q(1) prop_text [OF q(2,3)] length_before_colon_text [OF q(2)])
    qed
  qed
qed

lemma demo_aligned: "fdt_aligned demo_fdt"
  by (simp add: fdt_aligned_def demo_fdt_def demo_lengths)

lemma demo_sources: "stdout_source demo_off demo_tree = Some (text_bytes ''serial0:115200'' @ [0])"
  "find_by_path demo_off demo_tree ''/aliases'' = Some (text_bytes ''/aliases'', node_of 164 (2, 1), demo_aliases)"
  by (simp_all add: stdout_source_def find_by_path_def demo_nodes text_bytes_def demo_chosen_def demo_aliases_def)

section \<open>Aliases\<close>

lemma alias_copy:
  assumes blob: "blob_of m fdt off t" and al: "fdt_aligned fdt" and name: "cstr name 0 nm"
    and buf: "buffer \<noteq> 0" "region m buffer (unat sz)"
    and apart: "unat buffer + unat sz \<le> unat (struct_block fdt) \<or> unat (struct_block_end fdt) \<le> unat buffer"
  shows "copied_out m buffer sz (case find_by_path off t ''/aliases'' of None \<Rightarrow> None
      | Some (_, _, u) \<Rightarrow> (case map_of (dt_props u) nm of None \<Rightarrow> None
          | Some d \<Rightarrow> if is_text d then Some (text_of d) else None))
    (fdt_resolve_alias m (Some fdt) (Some name) buffer sz)"
proof -
  have "cstr (lit ''/aliases'') 0 (text_bytes ''/aliases'')" by (rule cstr_lit) simp_all
  note node = find_node_blob [OF blob this]
  show ?thesis
  proof (cases "find_by_path off t ''/aliases''")
    case None
    then show ?thesis using node buf(1) copied_out_none by (simp add: fdt_resolve_alias_def)
  next
    case (Some x)
    then obtain p nd u where x: "find_by_path off t ''/aliases'' = Some (p, nd, u)" by (cases x) auto
    note nd = find_by_path_in [OF x]
    show ?thesis
    proof (cases "map_of (dt_props u) nm")
      case None
      then have "fdt_get_property m (Some fdt) (Some nd) (Some name) (Some ()) = Some None"
        using blob_property [OF blob nd name] by (simp add: property_is_def)
      then show ?thesis using node x None buf(1) copied_out_none by (simp add: fdt_resolve_alias_def)
    next
      case d: (Some d)
      from blob_property_at [OF blob al nd name d] obtain q where
        q: "fdt_get_property m (Some fdt) (Some nd) (Some name) (Some ()) = Some (Some q)"
          "holds m (prop_data q) d" "unat (prop_len q) = length d"
          "unat (struct_block fdt) \<le> unat (prop_data q)" "unat (prop_data q) + length d \<le> unat (struct_block_end fdt)" .
      show ?thesis
      proof (cases "is_text d")
        case False
        then show ?thesis using node x d q(1) prop_text [OF q(2,3)] buf(1) copied_out_none
          by (simp add: fdt_resolve_alias_def)
      next
        case True
        have "cstr (bytes_at m (prop_data q)) 0 (text_of d)"
          using text_of_cstr(1) [OF q(2) True] by (simp add: cstr_bytes_at)
        from strlen_cstr [OF this] have "fdt_resolve_alias m (Some fdt) (Some name) buffer sz =
            fdt_copy_string buffer sz (prop_data q) (of_nat (length (text_of d))) m"
          using node x q(1) prop_text [OF q(2,3)] buf(1) True by (simp add: fdt_resolve_alias_def)
        moreover have "takeWhile (\<lambda>_. True) (text_of d) = text_of d" by (simp add: takeWhile_eq_all_conv)
        from this [symmetric] have "text_of d = takeWhile (\<lambda>_. True) (text_of d)" .
        ultimately show ?thesis using copy_property [OF q(2) True _ q(5,4) buf(2) apart, of "text_of d"] x d True by simp
      qed
    qed
  qed
qed

text \<open>
  C31: \<open>fdt_get_stdout_path\<close> and \<open>fdt_resolve_alias\<close> on a flattened tree.  The first copies the text of
  \<open>stdout-path\<close> of \<open>/chosen\<close> (of \<open>linux,stdout-path\<close> where the first is missing) up to the first colon,
  the second the text of the property of \<open>/aliases\<close> with the given name, terminated, into the buffer,
  and returns true; where there is no such text, or the buffer is too small, they return false and
  change nothing.  No byte outside the buffer changes in any case.
\<close>

theorem console_strings_copied:
  assumes blob: "blob_of m fdt off t" and al: "fdt_aligned fdt" and name: "cstr name 0 nm"
    and buf: "buffer \<noteq> 0" "region m buffer (unat sz)"
    and apart: "unat buffer + unat sz \<le> unat (struct_block fdt) \<or> unat (struct_block_end fdt) \<le> unat buffer"
  shows "copied_out m buffer sz (case stdout_source off t of None \<Rightarrow> None
      | Some d \<Rightarrow> if is_text d then Some (takeWhile (\<lambda>c. c \<noteq> colon) (text_of d)) else None)
    (fdt_get_stdout_path m (Some fdt) buffer sz) \<and>
   copied_out m buffer sz (case find_by_path off t ''/aliases'' of None \<Rightarrow> None
      | Some (_, _, u) \<Rightarrow> (case map_of (dt_props u) nm of None \<Rightarrow> None
          | Some d \<Rightarrow> if is_text d then Some (text_of d) else None))
    (fdt_resolve_alias m (Some fdt) (Some name) buffer sz)"
  by (intro conjI stdout_path_copy [OF blob al buf apart] alias_copy [OF blob al name buf apart])

theorem console_strings_copied_witness:
  "\<exists>m' m''. fdt_get_stdout_path demo_blob (Some demo_fdt) 0x80000112 64 = Some (True, m') \<and>
     cstr m' 0x80000112 (text_bytes ''serial0'') \<and>
     fdt_resolve_alias demo_blob (Some demo_fdt) (Some (lit ''serial0'')) 0x80000112 64 = Some (True, m'') \<and>
     cstr m'' 0x80000112 (text_bytes ''/uart@10'')"
proof -
  have w: "is_text (text_bytes ''serial0:115200'' @ [0])"
    "takeWhile (\<lambda>c. c \<noteq> colon) (text_of (text_bytes ''serial0:115200'' @ [0])) = text_bytes ''serial0''"
    "is_text (text_bytes ''/uart@10'' @ [0])" "text_of (text_bytes ''/uart@10'' @ [0]) = text_bytes ''/uart@10''"
    by code_simp+
  have n: "cstr (lit ''serial0'') 0 (text_bytes ''serial0'')" by (rule cstr_lit) simp_all
  have l: "length (text_bytes ''serial0'') < 64" "length (text_bytes ''/uart@10'') < 64" by (simp_all add: text_bytes_def)
  have "map_of (dt_props demo_aliases) (text_bytes ''serial0'') = Some (text_bytes ''/uart@10'' @ [0])"
    by (simp add: demo_aliases_def)
  then have "copied_out demo_blob 0x80000112 64 (Some (text_bytes ''serial0''))
      (fdt_get_stdout_path demo_blob (Some demo_fdt) 0x80000112 64)"
    "copied_out demo_blob 0x80000112 64 (Some (text_bytes ''/uart@10''))
      (fdt_resolve_alias demo_blob (Some demo_fdt) (Some (lit ''serial0'')) 0x80000112 64)"
    using console_strings_copied [OF demo_blob_of demo_aligned n, of "0x80000112" 64] demo_buffer w
    unfolding demo_sources by (simp_all add: demo_fdt_def demo_lengths)
  then show ?thesis using l by (auto simp: copied_out_def)
qed

end
