(* ===== verification/Dtb.thy ===== *)
theory Dtb
  imports FdtOut
begin

text \<open>
  \<open>kernel/src/dev/dtb.c\<close>: the kernel's one device tree.  The two static objects are the record \<open>dtb\<close>.
  The boot loader's response is \<open>None\<close> for NULL, else its \<open>dtb_ptr\<close>.  Every operation refuses NULL
  arguments and an object that is not ready, and otherwise hands over to \<open>fdt.c\<close>.

  The locale \<open>device_tree\<close> is what the drivers rely on: lookups in a fixed list of nodes.
\<close>

section \<open>The operations\<close>

record dtb_node =
  dtb_struct_offset :: u32
  dtb_parent_address_cells :: u32
  dtb_parent_size_cells :: u32

record dtb =
  dtb_fdt :: fdt
  dtb_ready :: bool

definition dtb_node_to_fdt :: "dtb_node \<Rightarrow> fdt_node" where
  "dtb_node_to_fdt src = \<lparr>struct_offset = dtb_struct_offset src,
     parent_address_cells = dtb_parent_address_cells src, parent_size_cells = dtb_parent_size_cells src\<rparr>"

definition fdt_node_to_dtb :: "fdt_node \<Rightarrow> dtb_node" where
  "fdt_node_to_dtb src = \<lparr>dtb_struct_offset = struct_offset src,
     dtb_parent_address_cells = parent_address_cells src, dtb_parent_size_cells = parent_size_cells src\<rparr>"

definition zero_fdt :: fdt where
  "zero_fdt = \<lparr>blob = 0, struct_block = 0, struct_block_end = 0, strings_block = 0, strings_size = 0\<rparr>"

definition dtb_init :: "memory \<Rightarrow> u64 option \<Rightarrow> (bool \<times> dtb) option" where
  "dtb_init m response = (let d = \<lparr>dtb_fdt = zero_fdt, dtb_ready = False\<rparr> in
     case response of
       None \<Rightarrow> Some (False, d)
     | Some dtb_ptr \<Rightarrow>
         if dtb_ptr = 0 then Some (False, d)
         else do {
           r \<leftarrow> fdt_init m (Some ()) dtb_ptr;
           let d = (case r of None \<Rightarrow> d\<lparr>dtb_ready := False\<rparr> | Some fdt \<Rightarrow> d\<lparr>dtb_fdt := fdt, dtb_ready := True\<rparr>);
           Some (dtb_ready d, d) })"

definition dtb_find_node_by_path :: "memory \<Rightarrow> dtb \<Rightarrow> bytes option \<Rightarrow> out \<Rightarrow> dtb_node option option" where
  "dtb_find_node_by_path m d path out_node =
     (if path = None \<or> out_node = None \<or> \<not> dtb_ready d then Some None
      else do {
        node \<leftarrow> fdt_find_node_by_path m (Some (dtb_fdt d)) path (Some ());
        Some (map_option fdt_node_to_dtb node) })"

definition dtb_find_compatible :: "memory \<Rightarrow> dtb \<Rightarrow> bytes option \<Rightarrow> out \<Rightarrow> dtb_node option option" where
  "dtb_find_compatible m d compatible out_node =
     (if compatible = None \<or> out_node = None \<or> \<not> dtb_ready d then Some None
      else do {
        node \<leftarrow> fdt_find_compatible m (Some (dtb_fdt d)) compatible (Some ());
        Some (map_option fdt_node_to_dtb node) })"

definition dtb_node_has_compatible :: "memory \<Rightarrow> dtb \<Rightarrow> dtb_node option \<Rightarrow> bytes option \<Rightarrow> bool option" where
  "dtb_node_has_compatible m d node compatible =
     (if node = None \<or> compatible = None \<or> \<not> dtb_ready d then Some False
      else fdt_node_has_compatible m (Some (dtb_fdt d)) (map_option dtb_node_to_fdt node) compatible)"

definition dtb_get_reg ::
    "memory \<Rightarrow> dtb \<Rightarrow> dtb_node option \<Rightarrow> u32 \<Rightarrow> out \<Rightarrow> out \<Rightarrow> (u64 \<times> u64) option option" where
  "dtb_get_reg m d node index out_addr out_size =
     (if node = None \<or> out_addr = None \<or> out_size = None \<or> \<not> dtb_ready d then Some None
      else fdt_get_reg m (Some (dtb_fdt d)) (map_option dtb_node_to_fdt node) index out_addr out_size)"

definition dtb_get_stdout_path :: "memory \<Rightarrow> dtb \<Rightarrow> u64 \<Rightarrow> u64 \<Rightarrow> (bool \<times> memory) option" where
  "dtb_get_stdout_path m d buffer buffer_size =
     (if buffer = 0 \<or> \<not> dtb_ready d then Some (False, m)
      else fdt_get_stdout_path m (Some (dtb_fdt d)) buffer buffer_size)"

definition dtb_resolve_alias :: "memory \<Rightarrow> dtb \<Rightarrow> bytes option \<Rightarrow> u64 \<Rightarrow> u64 \<Rightarrow> (bool \<times> memory) option" where
  "dtb_resolve_alias m d alias buffer buffer_size =
     (if alias = None \<or> buffer = 0 \<or> \<not> dtb_ready d then Some (False, m)
      else fdt_resolve_alias m (Some (dtb_fdt d)) alias buffer buffer_size)"

definition dtb_get_u32 :: "memory \<Rightarrow> dtb \<Rightarrow> dtb_node option \<Rightarrow> bytes option \<Rightarrow> out \<Rightarrow> u32 option option" where
  "dtb_get_u32 m d node name out_value =
     (if node = None \<or> name = None \<or> out_value = None \<or> \<not> dtb_ready d then Some None
      else fdt_get_u32 m (Some (dtb_fdt d)) (map_option dtb_node_to_fdt node) name out_value)"

lemma dtb_node_conversions [simp]:
  "dtb_node_to_fdt (fdt_node_to_dtb nd) = nd" "fdt_node_to_dtb (dtb_node_to_fdt n) = n"
  by (simp_all add: dtb_node_to_fdt_def fdt_node_to_dtb_def)

section \<open>What the drivers rely on\<close>

text \<open>
  \<open>presents s ns\<close>: the device tree in state \<open>s\<close> has the nodes \<open>ns\<close>, in document order, each with its
  path and its subtree.
\<close>

definition cell_property :: "dt \<Rightarrow> u8 list \<Rightarrow> u32 option" where
  "cell_property u nm = (case map_of (dt_props u) nm of
     None \<Rightarrow> None | Some d \<Rightarrow> if length d = 4 then Some (be32_of d) else None)"

locale device_tree =
  fixes presents :: "'s \<Rightarrow> (u8 list \<times> 'n \<times> dt) list \<Rightarrow> bool"
    and by_path :: "'s \<Rightarrow> bytes \<Rightarrow> 'n option option"
    and by_compatible :: "'s \<Rightarrow> bytes \<Rightarrow> 'n option option"
    and has_compatible :: "'s \<Rightarrow> 'n \<Rightarrow> bytes \<Rightarrow> bool option"
    and get_u32 :: "'s \<Rightarrow> 'n \<Rightarrow> bytes \<Rightarrow> u32 option option"
  assumes by_path: "presents s ns \<Longrightarrow> cstr path 0 xs \<Longrightarrow>
      by_path s path = Some (map_option (fst \<circ> snd) (List.find (\<lambda>x. fst x = xs) ns))"
    and by_compatible: "presents s ns \<Longrightarrow> cstr c 0 cs \<Longrightarrow>
      by_compatible s c = Some (map_option (fst \<circ> snd) (List.find (\<lambda>x. lists_compatible cs (snd (snd x))) ns))"
    and has_compatible: "presents s ns \<Longrightarrow> (p, nd, u) \<in> set ns \<Longrightarrow> cstr c 0 cs \<Longrightarrow>
      has_compatible s nd c = Some (lists_compatible cs u)"
    and get_u32: "presents s ns \<Longrightarrow> (p, nd, u) \<in> set ns \<Longrightarrow> cstr name 0 nm \<Longrightarrow>
      get_u32 s nd name = Some (cell_property u nm)"
begin

text \<open>A search by path followed by a number: what \<open>/node\<close> and \<open>property\<close> denote.\<close>

lemma path_number:
  assumes "presents s ns" "cstr path 0 xs" "cstr name 0 nm"
  shows "do { nd \<leftarrow> by_path s path; case nd of None \<Rightarrow> Some None | Some nd \<Rightarrow> get_u32 s nd name } =
    Some (case List.find (\<lambda>x. fst x = xs) ns of None \<Rightarrow> None | Some (_, _, u) \<Rightarrow> cell_property u nm)"
proof (cases "List.find (\<lambda>x. fst x = xs) ns")
  case None
  then show ?thesis using by_path [OF assms(1,2)] by simp
next
  case (Some x)
  obtain p nd u where x: "x = (p, nd, u)" by (cases x)
  have "(p, nd, u) \<in> set ns" using Some x by (auto simp: find_Some_iff)
  from get_u32 [OF assms(1) this assms(3)] show ?thesis using by_path [OF assms(1,2)] Some x by simp
qed

text \<open>A list of compatible strings is tried in order, each over the whole tree.\<close>

lemma first_compatible_list:
  assumes "presents s ns" "List.list_all2 (\<lambda>c xs. cstr c 0 xs) cs css"
  shows "foldr (\<lambda>c rest. do { nd \<leftarrow> by_compatible s c; if nd \<noteq> None then Some nd else rest }) cs (Some None) =
    Some (case List.find (\<lambda>xs. \<exists>x\<in>set ns. lists_compatible xs (snd (snd x))) css of
      None \<Rightarrow> None
    | Some xs \<Rightarrow> map_option (fst \<circ> snd) (List.find (\<lambda>x. lists_compatible xs (snd (snd x))) ns))"
  using assms(2)
proof (induction cs css rule: list_all2_induct)
  case (Cons c cs xs css)
  show ?case
  proof (cases "List.find (\<lambda>x. lists_compatible xs (snd (snd x))) ns")
    case None
    then have "\<not> (\<exists>x\<in>set ns. lists_compatible xs (snd (snd x)))" by (auto simp: find_None_iff)
    then show ?thesis using by_compatible [OF assms(1) Cons.hyps(1)] None Cons.IH by simp
  next
    case (Some x)
    then have "\<exists>x\<in>set ns. lists_compatible xs (snd (snd x))" by (auto simp: find_Some_iff)
    then show ?thesis using by_compatible [OF assms(1) Cons.hyps(1)] Some by simp
  qed
qed simp

end

section \<open>The device tree in memory\<close>

definition dtb_presents :: "memory \<times> dtb \<Rightarrow> (u8 list \<times> dtb_node \<times> dt) list \<Rightarrow> bool" where
  "dtb_presents s ns \<longleftrightarrow> (\<exists>off t. dtb_ready (snd s) \<and> blob_of (fst s) (dtb_fdt (snd s)) off t \<and>
     ns = map (\<lambda>x. (fst x, fdt_node_to_dtb (fst (snd x)), snd (snd x))) (dt_nodes off t))"

lemma dtb_presentsE:
  assumes "dtb_presents s ns"
  obtains m d off t where "s = (m, d)" "dtb_ready d" "blob_of m (dtb_fdt d) off t"
    "ns = map (\<lambda>x. (fst x, fdt_node_to_dtb (fst (snd x)), snd (snd x))) (dt_nodes off t)"
  using assms by (cases s) (auto simp: dtb_presents_def)

lemma find_map: "List.find P (map f xs) = map_option f (List.find (P \<circ> f) xs)"
  by (induction xs) auto

lemma blob_number:
  assumes "blob_of m fdt off t" "(p, nd, u) \<in> set (dt_nodes off t)" "cstr name 0 nm"
  shows "fdt_get_u32 m (Some fdt) (Some nd) (Some name) (Some ()) = Some (cell_property u nm)"
proof (cases "map_of (dt_props u) nm")
  case None
  then show ?thesis using blob_property [OF assms] by (simp add: property_is_def fdt_get_u32_def cell_property_def)
next
  case (Some d)
  then obtain q where q: "fdt_get_property m (Some fdt) (Some nd) (Some name) (Some ()) = Some (Some q)"
    "holds m (prop_data q) d" "unat (prop_len q) = length d"
    using blob_property [OF assms] by (auto simp: property_is_def)
  have "prop_len q = 4 \<longleftrightarrow> length d = 4" using q(3) by (simp add: word_unat_eq_iff)
  then show ?thesis using q read_be32_of [OF q(2)] Some
    by (simp add: fdt_get_u32_def fdt_prop_get_u32_def cell_property_def)
qed

interpretation tree: device_tree dtb_presents
    "\<lambda>(m, d) path. dtb_find_node_by_path m d (Some path) (Some ())"
    "\<lambda>(m, d) c. dtb_find_compatible m d (Some c) (Some ())"
    "\<lambda>(m, d) nd c. dtb_node_has_compatible m d (Some nd) (Some c)"
    "\<lambda>(m, d) nd name. dtb_get_u32 m d (Some nd) (Some name) (Some ())"
proof unfold_locales
  fix s ns path xs assume "dtb_presents s ns" and path: "cstr path 0 xs"
  then show "(case s of (m, d) \<Rightarrow> \<lambda>path. dtb_find_node_by_path m d (Some path) (Some ())) path =
      Some (map_option (fst \<circ> snd) (List.find (\<lambda>x. fst x = xs) ns))"
    using find_path_blob [OF _ path]
    by (elim dtb_presentsE) (simp add: dtb_find_node_by_path_def find_map comp_def option.map_comp)
next
  fix s ns c cs assume "dtb_presents s ns" and c: "cstr c 0 cs"
  then show "(case s of (m, d) \<Rightarrow> \<lambda>c. dtb_find_compatible m d (Some c) (Some ())) c =
      Some (map_option (fst \<circ> snd) (List.find (\<lambda>x. lists_compatible cs (snd (snd x))) ns))"
    using find_compatible_blob [OF _ c]
    by (elim dtb_presentsE) (simp add: dtb_find_compatible_def find_map comp_def option.map_comp)
next
  fix s ns p nd u c cs assume "dtb_presents s ns" "(p, nd, u) \<in> set ns" and c: "cstr c 0 cs"
  then show "(case s of (m, d) \<Rightarrow> \<lambda>nd c. dtb_node_has_compatible m d (Some nd) (Some c)) nd c = Some (lists_compatible cs u)"
    using has_compatible_tree [OF _ _ c]
    by (elim dtb_presentsE) (fastforce simp: dtb_node_has_compatible_def)
next
  fix s ns p nd u name nm assume "dtb_presents s ns" "(p, nd, u) \<in> set ns" and name: "cstr name 0 nm"
  then show "(case s of (m, d) \<Rightarrow> \<lambda>nd name. dtb_get_u32 m d (Some nd) (Some name) (Some ())) nd name = Some (cell_property u nm)"
    using blob_number [OF _ _ name]
    by (elim dtb_presentsE) (fastforce simp: dtb_get_u32_def)
qed

end
