(* ===== verification/Ktime.thy ===== *)
theory Ktime
  imports Dtb
begin

text \<open>
  \<open>kernel/src/lib/time.c\<close>: the kernel clock.  The three static objects are the record \<open>ktime\<close>; the
  value of the time register at a call is an argument, \<open>now\<close>.
\<close>

definition KTIME_FALLBACK_FREQ :: u32 where "KTIME_FALLBACK_FREQ = 10000000"

record ktime =
  ktime_boot_ticks :: u64
  ktime_tick_freq :: u32
  ktime_ready :: bool

definition ktime_reset :: ktime where
  "ktime_reset = \<lparr>ktime_boot_ticks = 0, ktime_tick_freq = 0, ktime_ready = False\<rparr>"

definition ktime_init :: "memory \<Rightarrow> dtb \<Rightarrow> u64 \<Rightarrow> ktime \<Rightarrow> (bool \<times> ktime) option" where
  "ktime_init m d now k = do {
     let k = k\<lparr>ktime_tick_freq := KTIME_FALLBACK_FREQ\<rparr>;
     cpus \<leftarrow> dtb_find_node_by_path m d (Some (lit ''/cpus'')) (Some ());
     dtb_freq \<leftarrow> (case cpus of None \<Rightarrow> Some None
       | Some cpus \<Rightarrow> dtb_get_u32 m d (Some cpus) (Some (lit ''timebase-frequency'')) (Some ()));
     let k = (case dtb_freq of None \<Rightarrow> k | Some f \<Rightarrow> if f \<noteq> 0 then k\<lparr>ktime_tick_freq := f\<rparr> else k);
     let k = k\<lparr>ktime_boot_ticks := now, ktime_ready := True\<rparr>;
     Some (True, k) }"

definition ktime_get_ticks :: "u64 \<Rightarrow> ktime \<Rightarrow> u64" where
  "ktime_get_ticks now k = (if \<not> ktime_ready k then 0 else now - ktime_boot_ticks k)"

definition ktime_get_freq :: "ktime \<Rightarrow> u32" where
  "ktime_get_freq k = ktime_tick_freq k"

definition ktime_get_ms :: "u64 \<Rightarrow> ktime \<Rightarrow> u64" where
  "ktime_get_ms now k = (let freq = ktime_get_freq k; ticks = ktime_get_ticks now k in
     if freq = 0 then 0 else (ticks * 1000) div ucast freq)"

section \<open>Properties\<close>

text \<open>The frequency that a device tree calls for.\<close>

definition tree_freq :: "(u8 list \<times> 'n \<times> dt) list \<Rightarrow> u32" where
  "tree_freq ns = (case List.find (\<lambda>x. fst x = text_bytes ''/cpus'') ns of
     None \<Rightarrow> KTIME_FALLBACK_FREQ
   | Some (_, _, u) \<Rightarrow> (case cell_property u (text_bytes ''timebase-frequency'') of
       Some f \<Rightarrow> if f \<noteq> 0 then f else KTIME_FALLBACK_FREQ | None \<Rightarrow> KTIME_FALLBACK_FREQ))"

lemma ktime_init_tree:
  assumes "dtb_presents (m, d) ns"
  shows "ktime_init m d now k = Some (True, \<lparr>ktime_boot_ticks = now, ktime_tick_freq = tree_freq ns, ktime_ready = True\<rparr>)"
proof -
  have n: "cstr (lit ''/cpus'') 0 (text_bytes ''/cpus'')"
    "cstr (lit ''timebase-frequency'') 0 (text_bytes ''timebase-frequency'')" by (rule cstr_lit; simp)+
  from tree.path_number [OF assms n, unfolded prod.case]
  have p: "do { cpus \<leftarrow> dtb_find_node_by_path m d (Some (lit ''/cpus'')) (Some ());
      case cpus of None \<Rightarrow> Some None
      | Some cpus \<Rightarrow> dtb_get_u32 m d (Some cpus) (Some (lit ''timebase-frequency'')) (Some ()) } =
    Some (case List.find (\<lambda>x. fst x = text_bytes ''/cpus'') ns of None \<Rightarrow> None
      | Some (_, _, u) \<Rightarrow> cell_property u (text_bytes ''timebase-frequency''))" .
  then obtain cpus where c: "dtb_find_node_by_path m d (Some (lit ''/cpus'')) (Some ()) = Some cpus"
    "(case cpus of None \<Rightarrow> Some None
      | Some cpus \<Rightarrow> dtb_get_u32 m d (Some cpus) (Some (lit ''timebase-frequency'')) (Some ())) =
    Some (case List.find (\<lambda>x. fst x = text_bytes ''/cpus'') ns of None \<Rightarrow> None
      | Some (_, _, u) \<Rightarrow> cell_property u (text_bytes ''timebase-frequency''))"
    by (auto simp: bind_eq_Some_conv)
  show ?thesis unfolding ktime_init_def Let_def c bind.bind_lunit
    by (cases k) (auto simp: tree_freq_def split: option.splits)
qed

lemma ktime_init_no_tree:
  "\<not> dtb_ready d \<Longrightarrow> ktime_init m d now k =
   Some (True, \<lparr>ktime_boot_ticks = now, ktime_tick_freq = KTIME_FALLBACK_FREQ, ktime_ready = True\<rparr>)"
  by (cases k) (simp add: ktime_init_def dtb_find_node_by_path_def)

text \<open>
  C34: \<open>ktime_init\<close> takes the frequency of \<open>/cpus\<close> (10 MHz where there is none or it is zero), and from
  then on \<open>ktime_get_ms\<close> is the elapsed time rounded down to milliseconds, as long as the elapsed ticks
  times 1000 fit in 64 bits: it starts at 0, never runs backwards and is never ahead of the clock.
\<close>

theorem ktime_ms_correct:
  assumes tree: "dtb_presents (m, d) ns" and order: "unat t0 \<le> unat t1" "unat t1 \<le> unat t2"
    and fits: "(unat t2 - unat t0) * 1000 < 2 ^ 64"
  shows "\<exists>k'. ktime_init m d t0 k = Some (True, k') \<and> ktime_get_freq k' = tree_freq ns \<and> ktime_get_ms t0 k' = 0 \<and>
    unat (ktime_get_ms t2 k') = (unat t2 - unat t0) * 1000 div unat (tree_freq ns) \<and>
    ktime_get_ms t1 k' \<le> ktime_get_ms t2 k'"
proof -
  let ?k = "\<lparr>ktime_boot_ticks = t0, ktime_tick_freq = tree_freq ns, ktime_ready = True\<rparr>"
  have nz: "tree_freq ns \<noteq> 0" by (auto simp: tree_freq_def KTIME_FALLBACK_FREQ_def split: option.splits)
  have ms: "unat (ktime_get_ms t ?k) = (unat t - unat t0) * 1000 div unat (tree_freq ns)"
    if "unat t0 \<le> unat t" "unat t \<le> unat t2" for t
  proof -
    have d: "unat (t - t0) = unat t - unat t0" using that(1) by (simp add: unat_sub word_le_nat_alt)
    have "(unat t - unat t0) * 1000 \<le> (unat t2 - unat t0) * 1000" using that(2) by simp
    then have "(unat t - unat t0) * 1000 < 2 ^ 64" using fits by linarith
    moreover have "unat x * 1000 < 2 ^ 64 \<Longrightarrow> unat (x * 1000) = unat x * 1000" for x :: u64
      by (simp add: unat_word_ariths)
    ultimately have "unat ((t - t0) * 1000) = (unat t - unat t0) * 1000" using d by metis
    then show ?thesis using nz by (simp add: ktime_get_ms_def ktime_get_freq_def ktime_get_ticks_def unat_div)
  qed
  have "ktime_get_ms t1 ?k \<le> ktime_get_ms t2 ?k"
    using ms [of t1] ms [of t2] order by (simp add: word_le_nat_alt div_le_mono)
  moreover have "ktime_get_ms t0 ?k = 0" using ms [of t0] order by (simp add: unat_eq_0)
  ultimately show ?thesis using ktime_init_tree [OF tree] ms [of t2] order by (simp add: ktime_get_freq_def)
qed

theorem ktime_ms_correct_witness:
  "\<exists>k'. ktime_init demo_blob \<lparr>dtb_fdt = demo_fdt, dtb_ready = True\<rparr> 500 ktime_reset = Some (True, k') \<and>
     ktime_get_freq k' = 10000000 \<and> unat (ktime_get_ms 30000500 k') = 3000"
proof -
  let ?ns = "map (\<lambda>x. (fst x, fdt_node_to_dtb (fst (snd x)), snd (snd x))) (dt_nodes demo_off demo_tree)"
  have p: "dtb_presents (demo_blob, \<lparr>dtb_fdt = demo_fdt, dtb_ready = True\<rparr>) ?ns"
    using demo_blob_of by (auto simp: dtb_presents_def)
  have f: "tree_freq ?ns = 10000000"
    by (simp add: tree_freq_def demo_nodes text_bytes_def KTIME_FALLBACK_FREQ_def)
  from ktime_ms_correct [OF p, of 500 500 30000500 ktime_reset] show ?thesis unfolding f by auto
qed

end
