(* ===== verification/Printk.thy ===== *)
theory Printk
  imports Ktime
begin

text \<open>
  \<open>kernel/src/lib/printk.c\<close>: formatted output.

  \<^item> the characters handed to \<open>printk_putc\<close> are the list \<open>printed\<close> of the \<open>console\<close>, in their order;
  \<^item> \<open>uptime n\<close> is the result of the \<open>n\<close>-th call of \<open>ktime_get_ms\<close>, and the console counts the calls;
  \<^item> a \<open>va_list\<close> is the list of the arguments that are left.  An argument is a register \<open>Val\<close> (an
    \<open>int\<close> is the low half of one) or a string \<open>Str\<close> (\<open>None\<close> for NULL); fetching one that is not there,
    or a string where there is a number, is undefined;
  \<^item> the format is a sequence of bytes and the offset of the next one; \<open>written\<close> is the \<open>int\<close> as a
    32-bit word.
\<close>

section \<open>Data\<close>

record console =
  printed :: "u8 list"
  time_reads :: nat

record printk_state =
  prefix_enabled :: bool
  at_line_start :: bool
  written :: u32
  con :: console

datatype printk_length = PRINTK_LEN_DEFAULT | PRINTK_LEN_CHAR | PRINTK_LEN_SHORT | PRINTK_LEN_LONG
  | PRINTK_LEN_LLONG | PRINTK_LEN_SIZE | PRINTK_LEN_PTRDIFF

datatype printk_arg = Val u64 | Str "bytes option"

abbreviation chr :: "char \<Rightarrow> u8" where
  "chr c \<equiv> of_char c"

section \<open>Characters\<close>

definition printk_putc :: "u8 \<Rightarrow> printk_state \<Rightarrow> printk_state" where
  "printk_putc c st = st\<lparr>con := (con st)\<lparr>printed := printed (con st) @ [c]\<rparr>\<rparr>"

definition emit_raw_char :: "u8 \<Rightarrow> printk_state \<Rightarrow> printk_state" where
  "emit_raw_char c st =
     (if c = 10 then
        let st = printk_putc 10 (printk_putc 13 st) in
        st\<lparr>written := written st + 2, at_line_start := True\<rparr>
      else
        let st = printk_putc c st in
        st\<lparr>written := written st + 1\<rparr>)"

text \<open>The digits of a number, least significant first, in the local buffer of 64 bytes.\<close>

definition digit :: "bool \<Rightarrow> nat \<Rightarrow> u8" where
  "digit uppercase d = chr ((if uppercase then ''0123456789ABCDEF'' else ''0123456789abcdef'') ! d)"

function digit_loop :: "u32 \<Rightarrow> bool \<Rightarrow> u64 \<Rightarrow> u8 list \<Rightarrow> u8 list option" where
  "digit_loop base uppercase v buffer =
     (if length buffer \<ge> 64 then None
      else
        let buffer' = buffer @ [digit uppercase (unat (v mod ucast base))];
            v' = v div ucast base
        in if v' \<noteq> 0 then digit_loop base uppercase v' buffer' else Some buffer')"
  by pat_completeness auto
termination
  by (relation "measure (\<lambda>(base, uppercase, v, buffer). 64 - length buffer)") auto

declare digit_loop.simps [simp del]

definition emit_raw_unsigned :: "u64 \<Rightarrow> u32 \<Rightarrow> bool \<Rightarrow> printk_state \<Rightarrow> printk_state option" where
  "emit_raw_unsigned v base uppercase st =
     (if base < 2 \<or> base > 16 then Some st
      else do {
        buffer \<leftarrow> digit_loop base uppercase v [];
        Some (fold emit_raw_char (rev buffer) st) })"

definition emit_log_prefix :: "(nat \<Rightarrow> u64) \<Rightarrow> printk_state \<Rightarrow> printk_state option" where
  "emit_log_prefix uptime st =
     (if \<not> prefix_enabled st \<or> \<not> at_line_start st then Some st
      else do {
        let uptime_ms = uptime (time_reads (con st));
        let st = st\<lparr>con := (con st)\<lparr>time_reads := time_reads (con st) + 1\<rparr>\<rparr>;
        let seconds = uptime_ms div 1000;
        let millis = uptime_ms mod 1000;
        let st = emit_raw_char (chr (CHR ''['')) st;
        st \<leftarrow> emit_raw_unsigned seconds 10 False st;
        let st = emit_raw_char (chr (CHR ''.'')) st;
        let st = emit_raw_char (ucast (48 + (millis div 100) mod 10)) st;
        let st = emit_raw_char (ucast (48 + (millis div 10) mod 10)) st;
        let st = emit_raw_char (ucast (48 + millis mod 10)) st;
        let st = emit_raw_char (chr (CHR '']'')) st;
        let st = emit_raw_char (chr (CHR '' '')) st;
        Some (st\<lparr>at_line_start := False\<rparr>) })"

definition emit_char :: "(nat \<Rightarrow> u64) \<Rightarrow> u8 \<Rightarrow> printk_state \<Rightarrow> printk_state option" where
  "emit_char uptime c st = do {
     st \<leftarrow> emit_log_prefix uptime st;
     let st = emit_raw_char c st;
     Some (if c \<noteq> 10 then st\<lparr>at_line_start := False\<rparr> else st) }"

section \<open>Strings and numbers\<close>

definition or_null :: "bytes option \<Rightarrow> bytes" where
  "or_null s = (case s of None \<Rightarrow> lit ''(null)'' | Some s \<Rightarrow> s)"

partial_function (option) string_loop ::
    "(nat \<Rightarrow> u64) \<Rightarrow> bytes \<Rightarrow> u64 \<Rightarrow> printk_state \<Rightarrow> printk_state option" where
  "string_loop uptime s i st = do {
     c \<leftarrow> s i;
     if c \<noteq> 0 then do { st \<leftarrow> emit_char uptime c st; string_loop uptime s (i + 1) st } else Some st }"

definition emit_string :: "(nat \<Rightarrow> u64) \<Rightarrow> bytes option \<Rightarrow> printk_state \<Rightarrow> printk_state option" where
  "emit_string uptime s st = string_loop uptime (or_null s) 0 st"

function pad_loop :: "(nat \<Rightarrow> u64) \<Rightarrow> u64 \<Rightarrow> u32 \<Rightarrow> u8 \<Rightarrow> printk_state \<Rightarrow> printk_state option" where
  "pad_loop uptime n width pad st =
     (if n < ucast width then do { st \<leftarrow> emit_char uptime pad st; pad_loop uptime n (width - 1) pad st }
      else Some st)"
  by pat_completeness auto
termination
proof (relation "measure (\<lambda>(uptime, n, width, pad, st). unat width)", goal_cases)
  case (2 uptime n width pad st st')
  then have "width \<noteq> 0" by auto
  then show ?case by (simp add: unat_minus_1 unat_gt_0)
qed simp

declare pad_loop.simps [simp del]

text \<open>The counting loop is the one of \<open>strlen\<close>.\<close>

definition emit_padded_string ::
    "(nat \<Rightarrow> u64) \<Rightarrow> bytes option \<Rightarrow> u32 \<Rightarrow> u8 \<Rightarrow> printk_state \<Rightarrow> printk_state option" where
  "emit_padded_string uptime s width pad st = do {
     n \<leftarrow> strlen_loop (or_null s) 0;
     st \<leftarrow> pad_loop uptime n width pad st;
     string_loop uptime (or_null s) 0 st }"

definition emit_unsigned ::
    "(nat \<Rightarrow> u64) \<Rightarrow> u64 \<Rightarrow> u32 \<Rightarrow> bool \<Rightarrow> u32 \<Rightarrow> u8 \<Rightarrow> printk_state \<Rightarrow> printk_state option" where
  "emit_unsigned uptime v base uppercase width pad st =
     (if base < 2 \<or> base > 16 then Some st
      else do {
        buffer \<leftarrow> digit_loop base uppercase v [];
        st \<leftarrow> pad_loop uptime (of_nat (length buffer)) width pad st;
        for_each (emit_char uptime) (rev buffer) st })"

section \<open>Arguments\<close>

fun get_unsigned_arg :: "printk_length \<Rightarrow> printk_arg list \<Rightarrow> (u64 \<times> printk_arg list) option" where
  "get_unsigned_arg PRINTK_LEN_CHAR (Val a # args) = Some (ucast (ucast a :: u8), args)"
| "get_unsigned_arg PRINTK_LEN_SHORT (Val a # args) = Some (ucast (ucast a :: u16), args)"
| "get_unsigned_arg PRINTK_LEN_LONG (Val a # args) = Some (a, args)"
| "get_unsigned_arg PRINTK_LEN_LLONG (Val a # args) = Some (a, args)"
| "get_unsigned_arg PRINTK_LEN_SIZE (Val a # args) = Some (a, args)"
| "get_unsigned_arg PRINTK_LEN_PTRDIFF (Val a # args) = Some (a, args)"
| "get_unsigned_arg PRINTK_LEN_DEFAULT (Val a # args) = Some (ucast (ucast a :: u32), args)"
| "get_unsigned_arg _ _ = None"

text \<open>The \<open>int64_t\<close> result is the word of its two's complement.\<close>

fun get_signed_arg :: "printk_length \<Rightarrow> printk_arg list \<Rightarrow> (u64 \<times> printk_arg list) option" where
  "get_signed_arg PRINTK_LEN_CHAR (Val a # args) = Some (scast (ucast a :: u8), args)"
| "get_signed_arg PRINTK_LEN_SHORT (Val a # args) = Some (scast (ucast a :: u16), args)"
| "get_signed_arg PRINTK_LEN_LONG (Val a # args) = Some (a, args)"
| "get_signed_arg PRINTK_LEN_LLONG (Val a # args) = Some (a, args)"
| "get_signed_arg PRINTK_LEN_SIZE (Val a # args) = Some (a, args)"
| "get_signed_arg PRINTK_LEN_PTRDIFF (Val a # args) = Some (a, args)"
| "get_signed_arg PRINTK_LEN_DEFAULT (Val a # args) = Some (scast (ucast a :: u32), args)"
| "get_signed_arg _ _ = None"

section \<open>Directives\<close>

partial_function (option) width_loop :: "bytes \<Rightarrow> u64 \<Rightarrow> u32 \<Rightarrow> (u32 \<times> u64) option" where
  "width_loop fmt i width = do {
     c \<leftarrow> fmt i;
     if 48 \<le> c \<and> c \<le> 57 then width_loop fmt (i + 1) (width * 10 + ucast (c - 48)) else Some (width, i) }"

definition parse_length :: "bytes \<Rightarrow> u64 \<Rightarrow> (printk_length \<times> u64) option" where
  "parse_length fmt i = do {
     c \<leftarrow> fmt i;
     if c = chr (CHR ''h'') then do {
       c \<leftarrow> fmt (i + 1);
       Some (if c = chr (CHR ''h'') then (PRINTK_LEN_CHAR, i + 2) else (PRINTK_LEN_SHORT, i + 1)) }
     else if c = chr (CHR ''l'') then do {
       c \<leftarrow> fmt (i + 1);
       Some (if c = chr (CHR ''l'') then (PRINTK_LEN_LLONG, i + 2) else (PRINTK_LEN_LONG, i + 1)) }
     else if c = chr (CHR ''z'') then Some (PRINTK_LEN_SIZE, i + 1)
     else if c = chr (CHR ''t'') then Some (PRINTK_LEN_PTRDIFF, i + 1)
     else Some (PRINTK_LEN_DEFAULT, i) }"

definition emit_signed ::
    "(nat \<Rightarrow> u64) \<Rightarrow> u64 \<Rightarrow> u32 \<Rightarrow> u8 \<Rightarrow> printk_state \<Rightarrow> printk_state option" where
  "emit_signed uptime v width pad st =
     (if sint v < 0 then do {
        let magnitude = - (v + 1) + 1;
        st \<leftarrow> emit_char uptime (chr (CHR ''-'')) st;
        emit_unsigned uptime magnitude 10 False width pad st }
      else emit_unsigned uptime v 10 False width pad st)"

text \<open>The switch over the conversion character.\<close>

definition emit_directive :: "(nat \<Rightarrow> u64) \<Rightarrow> u8 \<Rightarrow> printk_length \<Rightarrow> u32 \<Rightarrow> u8 \<Rightarrow> printk_arg list \<Rightarrow>
    printk_state \<Rightarrow> (printk_arg list \<times> printk_state) option" where
  "emit_directive uptime c len width pad args st =
     (if c = chr (CHR ''%'') then do { st \<leftarrow> emit_char uptime (chr (CHR ''%'')) st; Some (args, st) }
      else if c = chr (CHR ''c'') then
        (case args of Val a # args \<Rightarrow> do { st \<leftarrow> emit_char uptime (ucast a) st; Some (args, st) } | _ \<Rightarrow> None)
      else if c = chr (CHR ''s'') then
        (case args of Str s # args \<Rightarrow> do { st \<leftarrow> emit_padded_string uptime s width pad st; Some (args, st) } | _ \<Rightarrow> None)
      else if c = chr (CHR ''d'') \<or> c = chr (CHR ''i'') then do {
        (v, args) \<leftarrow> get_signed_arg len args; st \<leftarrow> emit_signed uptime v width pad st; Some (args, st) }
      else if c = chr (CHR ''u'') then do {
        (v, args) \<leftarrow> get_unsigned_arg len args; st \<leftarrow> emit_unsigned uptime v 10 False width pad st; Some (args, st) }
      else if c = chr (CHR ''x'') then do {
        (v, args) \<leftarrow> get_unsigned_arg len args; st \<leftarrow> emit_unsigned uptime v 16 False width pad st; Some (args, st) }
      else if c = chr (CHR ''X'') then do {
        (v, args) \<leftarrow> get_unsigned_arg len args; st \<leftarrow> emit_unsigned uptime v 16 True width pad st; Some (args, st) }
      else if c = chr (CHR ''p'') then
        (case args of
           Val a # args \<Rightarrow> do {
             st \<leftarrow> emit_string uptime (Some (lit ''0x'')) st;
             st \<leftarrow> emit_unsigned uptime a 16 False 16 (chr (CHR ''0'')) st;
             Some (args, st) }
         | _ \<Rightarrow> None)
      else do {
        st \<leftarrow> emit_char uptime (chr (CHR ''%'')) st;
        st \<leftarrow> emit_char uptime c st;
        Some (args, st) })"

text \<open>The loop over the format.\<close>

partial_function (option) printk_loop ::
    "(nat \<Rightarrow> u64) \<Rightarrow> bytes \<Rightarrow> u64 \<Rightarrow> printk_arg list \<Rightarrow> printk_state \<Rightarrow> printk_state option" where
  "printk_loop uptime fmt i args st = do {
     c \<leftarrow> fmt i;
     if c = 0 then Some st
     else if c \<noteq> chr (CHR ''%'') then do { st \<leftarrow> emit_char uptime c st; printk_loop uptime fmt (i + 1) args st }
     else do {
       c \<leftarrow> fmt (i + 1);
       if c = 0 then Some st
       else do {
         let (pad, i) = (if c = chr (CHR ''0'') then (chr (CHR ''0''), i + 2) else (chr (CHR '' ''), i + 1));
         (width, i) \<leftarrow> width_loop fmt i 0;
         (len, i) \<leftarrow> parse_length fmt i;
         c \<leftarrow> fmt i;
         (args, st) \<leftarrow> emit_directive uptime c len width pad args st;
         printk_loop uptime fmt (i + 1) args st } } }"

definition vprintk_internal ::
    "(nat \<Rightarrow> u64) \<Rightarrow> bool \<Rightarrow> bytes \<Rightarrow> printk_arg list \<Rightarrow> console \<Rightarrow> (u32 \<times> console) option" where
  "vprintk_internal uptime prefix fmt args cn = do {
     st \<leftarrow> printk_loop uptime fmt 0 args
       \<lparr>prefix_enabled = prefix, at_line_start = True, written = 0, con = cn\<rparr>;
     Some (written st, con st) }"

definition vkprintf :: "(nat \<Rightarrow> u64) \<Rightarrow> bytes \<Rightarrow> printk_arg list \<Rightarrow> console \<Rightarrow> (u32 \<times> console) option" where
  "vkprintf uptime fmt args cn = vprintk_internal uptime False fmt args cn"

definition kprintf :: "(nat \<Rightarrow> u64) \<Rightarrow> bytes \<Rightarrow> printk_arg list \<Rightarrow> console \<Rightarrow> (u32 \<times> console) option" where
  "kprintf uptime fmt args cn = vkprintf uptime fmt args cn"

definition vklog :: "(nat \<Rightarrow> u64) \<Rightarrow> bytes \<Rightarrow> printk_arg list \<Rightarrow> console \<Rightarrow> (u32 \<times> console) option" where
  "vklog uptime fmt args cn = do {
     (n, cn) \<leftarrow> vprintk_internal uptime True fmt args cn;
     (k, cn) \<leftarrow> kprintf uptime (lit [CHR 0x0A]) [] cn;
     Some (n + k, cn) }"

definition klog :: "(nat \<Rightarrow> u64) \<Rightarrow> bytes \<Rightarrow> printk_arg list \<Rightarrow> console \<Rightarrow> (u32 \<times> console) option" where
  "klog uptime fmt args cn = vklog uptime fmt args cn"

declare string_loop.simps [code] width_loop.simps [code] printk_loop.simps [code]

end
