(* ===== verification/PrintkText.thy ===== *)
theory PrintkText
  imports Printk
begin

text \<open>
  The reference for formatted output: numbers as their digits, formats as lists of pieces, and the
  text that a format and its arguments denote.  Every emitting operation of \<open>printk.c\<close> is
  \<open>emit_char\<close> over the characters of such a text.
\<close>

section \<open>Numbers\<close>

function number_text :: "nat \<Rightarrow> bool \<Rightarrow> nat \<Rightarrow> u8 list" where
  "number_text base uppercase n =
     (if n < base \<or> base < 2 then [digit uppercase n]
      else number_text base uppercase (n div base) @ [digit uppercase (n mod base)])"
  by pat_completeness auto
termination
  by (relation "measure (\<lambda>(base, uppercase, n). n)") auto

declare number_text.simps [simp del]

lemma number_text_not_Nil [simp]: "number_text base uppercase n \<noteq> []"
  by (subst number_text.simps) simp

lemma length_number_text: "2 \<le> base \<Longrightarrow> n < 2 ^ k \<Longrightarrow> 0 < k \<Longrightarrow> length (number_text base u n) \<le> k"
proof (induction k arbitrary: n)
  case (Suc k)
  show ?case
  proof (cases "n < base")
    case True
    then show ?thesis by (simp add: number_text.simps [of base u n])
  next
    case False
    have "n div base \<le> n div 2" using Suc.prems(1) by (intro div_le_mono2) simp_all
    moreover have "n div 2 < 2 ^ k" using Suc.prems(2) by simp
    ultimately have d: "n div base < 2 ^ k" by linarith
    have "0 < n div base" using False Suc.prems(1) by (simp add: div_greater_zero_iff)
    then have "0 < k" using d by (cases k) auto
    then show ?thesis using Suc.IH [OF Suc.prems(1) d] False Suc.prems(1) by (simp add: number_text.simps [of base u n])
  qed
qed simp

text \<open>Reading the digits back gives the number.\<close>

definition digit_value :: "u8 \<Rightarrow> nat" where
  "digit_value c = (if c \<le> 57 then unat c - 48 else if c \<le> 70 then unat c - 55 else unat c - 87)"

lemma digit_value [simp]: "d < 16 \<Longrightarrow> digit_value (digit u d) = d"
proof -
  assume "d < 16"
  then have "d \<in> set [0..<16]" by simp
  moreover have "\<forall>u\<in>{False, True}. \<forall>d\<in>set [0..<16]. digit_value (digit u d) = d" by code_simp
  ultimately show ?thesis by (cases u) auto
qed

lemma number_text_value:
  "2 \<le> base \<Longrightarrow> base \<le> 16 \<Longrightarrow> foldl (\<lambda>v c. v * base + digit_value c) 0 (number_text base u n) = n"
proof (induction base u n rule: number_text.induct)
  case (1 base u n)
  show ?case
  proof (cases "n < base")
    case True
    then show ?thesis using 1 by (simp add: number_text.simps [of base u n])
  next
    case False
    have "n mod base < base" using 1(2) by simp
    then have "n mod base < 16" using 1(3) by linarith
    then show ?thesis using 1 False by (subst number_text.simps) simp
  qed
qed

lemma digit_loop_text:
  assumes "2 \<le> base" "base \<le> 16"
  shows "length buffer < 64 \<Longrightarrow> unat v < 2 ^ (64 - length buffer) \<Longrightarrow>
    digit_loop base u v buffer = Some (buffer @ rev (number_text (unat base) u (unat v)))"
proof (induction "unat v" arbitrary: v buffer rule: less_induct)
  case less
  let ?b = "ucast base :: u64"
  have b: "unat ?b = unat base" "2 \<le> unat base" using assms by (simp_all add: word_le_nat_alt)
  have dm: "unat (v div ?b) = unat v div unat base" "unat (v mod ?b) = unat v mod unat base"
    by (simp_all add: unat_div unat_mod)
  show ?case
  proof (cases "unat v < unat base")
    case True
    then have "v div ?b = 0" by (simp add: word_unat_eq_iff dm)
    then show ?thesis using True less.prems dm
      by (simp add: digit_loop.simps [of base u v buffer] number_text.simps [of _ u "unat v"] Let_def)
  next
    case False
    have pos: "0 < unat v div unat base" using False b(2) by (simp add: div_greater_zero_iff)
    then have nz: "v div ?b \<noteq> 0" using dm(1) by auto
    have "unat v div unat base \<le> unat v div 2" using b(2) by (intro div_le_mono2) simp_all
    moreover have "64 - length buffer = Suc (63 - length buffer)" using less.prems(1) by simp
    then have "unat v div 2 < 2 ^ (63 - length buffer)" using less.prems(2) by simp
    ultimately have small: "unat (v div ?b) < 2 ^ (64 - length (buffer @ [digit u (unat v mod unat base)]))"
      using dm(1) by simp
    have "length buffer + 1 < 64"
    proof (rule ccontr)
      assume "\<not> length buffer + 1 < 64"
      then have "length buffer = 63" using less.prems(1) by simp
      then show False using small pos dm(1) by simp
    qed
    then have "digit_loop base u (v div ?b) (buffer @ [digit u (unat v mod unat base)]) =
        Some ((buffer @ [digit u (unat v mod unat base)]) @ rev (number_text (unat base) u (unat (v div ?b))))"
      using pos small b(2) dm(1) False by (intro less.hyps) simp_all
    then show ?thesis using less.prems(1) nz dm False b(2)
      by (simp add: digit_loop.simps [of base u v buffer] number_text.simps [of _ u "unat v"] Let_def)
  qed
qed

lemma digit_loop_number:
  assumes "2 \<le> base" "base \<le> 16"
  shows "digit_loop base u v [] = Some (rev (number_text (unat base) u (unat v)))"
proof -
  have "unat v < 2 ^ LENGTH(64)" by (rule unsigned_less)
  then show ?thesis using digit_loop_text [OF assms, of "[]" v u] by simp
qed

section \<open>Emitting is character by character\<close>

abbreviation each :: "(nat \<Rightarrow> u64) \<Rightarrow> u8 list \<Rightarrow> printk_state \<Rightarrow> printk_state option" where
  "each uptime \<equiv> for_each (emit_char uptime)"

lemma pad_loop_each: "pad_loop uptime n width pad st = each uptime (replicate (unat width - unat n) pad) st"
proof (induction "unat width" arbitrary: width st)
  case 0
  then show ?case by (simp add: pad_loop.simps [of _ n width] word_less_nat_alt)
next
  case (Suc k)
  then have nz: "width \<noteq> 0" by auto
  then have k: "unat (width - 1) = k" using Suc.hyps(2) by (simp add: unat_minus_1)
  show ?case
  proof (cases "unat n < unat width")
    case True
    then have "unat width - unat n = Suc (k - unat n)" using Suc.hyps(2) by simp
    then show ?thesis using True Suc.hyps(1) [of "width - 1"] k
      by (auto simp: pad_loop.simps [of _ n width] word_less_nat_alt intro!: arg_cong2 [where f = Option.bind])
  next
    case False
    then show ?thesis by (simp add: pad_loop.simps [of _ n width] word_less_nat_alt)
  qed
qed

lemma string_loop_each: "cstr s i xs \<Longrightarrow> string_loop uptime s i = each uptime xs"
proof (induction xs arbitrary: i)
  case Nil
  then show ?case by (intro ext) (simp add: string_loop.simps [of _ s i])
next
  case (Cons x xs)
  then show ?case by (intro ext) (simp add: string_loop.simps [of _ s i])
qed

definition padded :: "nat \<Rightarrow> u8 \<Rightarrow> u8 list \<Rightarrow> u8 list" where
  "padded width pad t = replicate (width - length t) pad @ t"

lemma emit_unsigned_each:
  assumes "2 \<le> base" "base \<le> 16"
  shows "emit_unsigned uptime v base u width pad =
    each uptime (padded (unat width) pad (number_text (unat base) u (unat v)))"
proof
  fix st
  have "unat v < 2 ^ LENGTH(64)" by (rule unsigned_less)
  then have "length (number_text (unat base) u (unat v)) \<le> 64"
    using assms by (intro length_number_text) (simp_all add: word_le_nat_alt)
  then have "unat (of_nat (length (number_text (unat base) u (unat v))) :: u64) =
      length (number_text (unat base) u (unat v))" by (intro unat_of_nat_small) simp
  moreover have "\<not> (base < 2 \<or> base > 16)" using assms by auto
  ultimately show "emit_unsigned uptime v base u width pad st =
      each uptime (padded (unat width) pad (number_text (unat base) u (unat v))) st"
    by (simp add: emit_unsigned_def digit_loop_number [OF assms] pad_loop_each padded_def for_each_append)
qed

definition signed_text :: "nat \<Rightarrow> u8 \<Rightarrow> int \<Rightarrow> u8 list" where
  "signed_text width pad n =
     (if n < 0 then chr (CHR ''-'') # padded width pad (number_text 10 False (nat (- n)))
      else padded width pad (number_text 10 False (nat n)))"

lemma unat_sint:
  fixes v :: u64
  shows "sint v < 0 \<Longrightarrow> unat (- v) = nat (- sint v)" "0 \<le> sint v \<Longrightarrow> unat v = nat (sint v)"
proof -
  have r: "- (2 ^ 63) \<le> sint v" "sint v < 2 ^ 63" using sint_ge [of v] sint_lt [of v] by simp_all
  have "uint (word_of_int k :: u64) = k mod 2 ^ 64" for k by (simp add: uint_word_of_int)
  from this [of "- sint v"] have "uint (- v) = (- sint v) mod 2 ^ 64" by simp
  then show "sint v < 0 \<Longrightarrow> unat (- v) = nat (- sint v)" using r by (simp add: unat_eq_nat_uint)
  have "uint v = sint v mod 2 ^ 64" using uint_sint [of v] by (simp add: take_bit_eq_mod)
  then show "0 \<le> sint v \<Longrightarrow> unat v = nat (sint v)" using r by (simp add: unat_eq_nat_uint)
qed

lemma emit_signed_each:
  "emit_signed uptime v width pad = each uptime (signed_text (unat width) pad (sint v))"
proof
  fix st
  have "- (v + 1) + 1 = - v" by simp
  then show "emit_signed uptime v width pad st = each uptime (signed_text (unat width) pad (sint v)) st"
    using unat_sint [of v] by (simp add: emit_signed_def emit_unsigned_each signed_text_def)
qed

lemma emit_padded_string_each:
  assumes "cstr (or_null s) 0 xs" "length xs < 2 ^ 64"
  shows "emit_padded_string uptime s width pad = each uptime (padded (unat width) pad xs)"
  using strlen_loop_cstr [OF assms(1)] string_loop_each [OF assms(1)] assms(2)
  by (intro ext) (simp add: emit_padded_string_def pad_loop_each padded_def for_each_append unat_of_nat_small)

end
