(* ===== verification/PrintkFormat.thy ===== *)
theory PrintkFormat
  imports PrintkText
begin

text \<open>
  Formats as lists of pieces.  \<open>unparse\<close> writes a piece down, \<open>render\<close> is the text that a list of
  pieces and the arguments denote, in terms of the integers; the loop of \<open>vprintk_internal\<close> over a
  format that is written this way is \<open>emit_char\<close> over that text.
\<close>

section \<open>Pieces and arguments\<close>

datatype piece = Plain u8 | Spec bool nat printk_length u8

fun length_text :: "printk_length \<Rightarrow> u8 list" where
  "length_text PRINTK_LEN_DEFAULT = []"
| "length_text PRINTK_LEN_CHAR = [chr (CHR ''h''), chr (CHR ''h'')]"
| "length_text PRINTK_LEN_SHORT = [chr (CHR ''h'')]"
| "length_text PRINTK_LEN_LONG = [chr (CHR ''l'')]"
| "length_text PRINTK_LEN_LLONG = [chr (CHR ''l''), chr (CHR ''l'')]"
| "length_text PRINTK_LEN_SIZE = [chr (CHR ''z'')]"
| "length_text PRINTK_LEN_PTRDIFF = [chr (CHR ''t'')]"

definition width_text :: "nat \<Rightarrow> u8 list" where
  "width_text w = (if w = 0 then [] else number_text 10 False w)"

fun unparse :: "piece \<Rightarrow> u8 list" where
  "unparse (Plain c) = [c]"
| "unparse (Spec zero w len c) =
     chr (CHR ''%'') # (if zero then [chr (CHR ''0'')] else []) @ width_text w @ length_text len @ [c]"

text \<open>A conversion character is one that the parser does not take for a part of the width or the length.\<close>

definition conversion_for :: "printk_length \<Rightarrow> u8 \<Rightarrow> bool" where
  "conversion_for len c \<longleftrightarrow> c \<noteq> 0 \<and> (case len of
     PRINTK_LEN_DEFAULT \<Rightarrow> \<not> (48 \<le> c \<and> c \<le> 57) \<and> c \<notin> chr ` {CHR ''h'', CHR ''l'', CHR ''z'', CHR ''t''}
   | PRINTK_LEN_SHORT \<Rightarrow> c \<noteq> chr (CHR ''h'')
   | PRINTK_LEN_LONG \<Rightarrow> c \<noteq> chr (CHR ''l'')
   | _ \<Rightarrow> True)"

fun wf_piece :: "piece \<Rightarrow> bool" where
  "wf_piece (Plain c) \<longleftrightarrow> c \<noteq> chr (CHR ''%'')"
| "wf_piece (Spec zero w len c) \<longleftrightarrow> w < 2 ^ 32 \<and> conversion_for len c"

datatype text_arg = Number u64 | Text "u8 list option"

fun arg_is :: "printk_arg \<Rightarrow> text_arg \<Rightarrow> bool" where
  "arg_is (Val a) (Number b) \<longleftrightarrow> a = b"
| "arg_is (Str None) (Text None) \<longleftrightarrow> True"
| "arg_is (Str (Some s)) (Text (Some xs)) \<longleftrightarrow> cstr s 0 xs \<and> length xs < 2 ^ 64"
| "arg_is _ _ \<longleftrightarrow> False"

fun length_bits :: "printk_length \<Rightarrow> nat" where
  "length_bits PRINTK_LEN_CHAR = 8"
| "length_bits PRINTK_LEN_SHORT = 16"
| "length_bits PRINTK_LEN_DEFAULT = 32"
| "length_bits _ = 64"

definition unsigned_value :: "printk_length \<Rightarrow> u64 \<Rightarrow> nat" where
  "unsigned_value len a = unat a mod 2 ^ length_bits len"

definition signed_value :: "printk_length \<Rightarrow> u64 \<Rightarrow> int" where
  "signed_value len a = signed_take_bit (length_bits len - 1) (uint a)"

section \<open>Rendering\<close>

definition render_spec :: "bool \<Rightarrow> nat \<Rightarrow> printk_length \<Rightarrow> u8 \<Rightarrow> text_arg list \<Rightarrow> (u8 list \<times> text_arg list) option" where
  "render_spec zero w len c args =
     (let pad = (if zero then chr (CHR ''0'') else chr (CHR '' '')) in
      if c = chr (CHR ''%'') then Some ([chr (CHR ''%'')], args)
      else if c = chr (CHR ''c'') then (case args of Number a # args \<Rightarrow> Some ([ucast a], args) | _ \<Rightarrow> None)
      else if c = chr (CHR ''s'') then
        (case args of Text t # args \<Rightarrow>
           Some (padded w pad (case t of None \<Rightarrow> text_bytes ''(null)'' | Some xs \<Rightarrow> xs), args) | _ \<Rightarrow> None)
      else if c = chr (CHR ''d'') \<or> c = chr (CHR ''i'') then
        (case args of Number a # args \<Rightarrow> Some (signed_text w pad (signed_value len a), args) | _ \<Rightarrow> None)
      else if c = chr (CHR ''u'') then
        (case args of Number a # args \<Rightarrow> Some (padded w pad (number_text 10 False (unsigned_value len a)), args) | _ \<Rightarrow> None)
      else if c = chr (CHR ''x'') \<or> c = chr (CHR ''X'') then
        (case args of Number a # args \<Rightarrow>
           Some (padded w pad (number_text 16 (c = chr (CHR ''X'')) (unsigned_value len a)), args) | _ \<Rightarrow> None)
      else if c = chr (CHR ''p'') then
        (case args of Number a # args \<Rightarrow>
           Some (text_bytes ''0x'' @ padded 16 (chr (CHR ''0'')) (number_text 16 False (unat a)), args) | _ \<Rightarrow> None)
      else Some ([chr (CHR ''%''), c], args))"

fun render :: "piece list \<Rightarrow> text_arg list \<Rightarrow> u8 list option" where
  "render [] args = Some []"
| "render (Plain c # ps) args = do { t \<leftarrow> render ps args; Some (c # t) }"
| "render (Spec zero w len c # ps) args = do {
     (s, args) \<leftarrow> render_spec zero w len c args;
     t \<leftarrow> render ps args;
     Some (s @ t) }"

section \<open>Parsing\<close>

lemma cstr_append: "cstr s i (xs @ ys) \<longleftrightarrow>
    0 \<notin> set xs \<and> (\<forall>k < length xs. s (i + of_nat k) = Some (xs ! k)) \<and> cstr s (i + of_nat (length xs)) ys"
proof (induction xs arbitrary: i)
  case (Cons x xs)
  have "(\<forall>k < length (x # xs). s (i + of_nat k) = Some ((x # xs) ! k)) \<longleftrightarrow>
      s i = Some x \<and> (\<forall>k < length xs. s (i + 1 + of_nat k) = Some (xs ! k))"
    by (simp add: less_Suc_eq_0_disj ac_simps) (auto simp: ac_simps)
  then show ?case using Cons.IH [of "i + 1"] by (auto simp: ac_simps)
qed simp

definition digit_char :: "u8 \<Rightarrow> bool" where
  "digit_char c \<longleftrightarrow> 48 \<le> c \<and> c \<le> 57"

lemma digit_decimal:
  "d < 10 \<Longrightarrow> digit_char (digit u d) \<and> ucast (digit u d - 48) = (of_nat d :: u32) \<and> (d \<noteq> 0 \<longrightarrow> digit u d \<noteq> 48)"
proof -
  assume "d < 10"
  then have "d \<in> set [0..<10]" by simp
  moreover have "\<forall>u\<in>{False, True}. \<forall>d\<in>set [0..<10].
      digit_char (digit u d) \<and> ucast (digit u d - 48) = (of_nat d :: u32) \<and> (d \<noteq> 0 \<longrightarrow> digit u d \<noteq> 48)" by code_simp
  ultimately show ?thesis by (cases u) auto
qed

lemma width_loop_digits:
  "\<forall>c\<in>set ds. digit_char c \<Longrightarrow> cstr fmt i (ds @ c # rest) \<Longrightarrow> \<not> digit_char c \<Longrightarrow>
   width_loop fmt i w = Some (foldl (\<lambda>w c. w * 10 + ucast (c - 48)) w ds, i + of_nat (length ds))"
proof (induction ds arbitrary: i w)
  case Nil
  then show ?case by (auto simp: width_loop.simps [of fmt i] digit_char_def)
next
  case (Cons d ds)
  then show ?case by (subst width_loop.simps) (simp add: digit_char_def ac_simps)
qed

lemma number_text_decimal:
  "(\<forall>c\<in>set (number_text 10 False n). digit_char c) \<and> (n \<noteq> 0 \<longrightarrow> hd (number_text 10 False n) \<noteq> 48) \<and>
   foldl (\<lambda>w c. w * 10 + ucast (c - 48)) 0 (number_text 10 False n) = (of_nat n :: u32)"
proof (induction "10 :: nat" False n rule: number_text.induct)
  case (1 n)
  show ?case
  proof (cases "n < 10")
    case True
    then show ?thesis using digit_decimal [of n False] by (simp add: number_text.simps [of _ _ n])
  next
    case False
    have "of_nat n = (of_nat (n div 10 * 10 + n mod 10) :: u32)" by simp
    then have "of_nat n = (of_nat (n div 10) * 10 + of_nat (n mod 10) :: u32)"
      by (simp only: of_nat_add of_nat_mult of_nat_numeral)
    then show ?thesis using 1 False digit_decimal [of "n mod 10" False]
      by (auto simp: number_text.simps [of _ _ n])
  qed
qed

lemma width_text_parsed:
  assumes "cstr fmt i (width_text w @ c # rest)" "\<not> digit_char c"
  shows "width_loop fmt i 0 = Some (of_nat w, i + of_nat (length (width_text w)))"
proof -
  have "\<forall>c\<in>set (width_text w). digit_char c" "foldl (\<lambda>w c. w * 10 + ucast (c - 48)) 0 (width_text w) = (of_nat w :: u32)"
    using number_text_decimal [of w] by (simp_all add: width_text_def)
  then show ?thesis using width_loop_digits [OF _ assms] by simp
qed

lemma parse_length_text:
  assumes "cstr fmt i (length_text len @ c # rest)" "conversion_for len c"
  shows "parse_length fmt i = Some (len, i + of_nat (length (length_text len)))"
  using assms by (cases len) (simp_all add: parse_length_def conversion_for_def add.assoc)

lemma conversion_not_digit: "conversion_for len c \<Longrightarrow> \<not> digit_char (hd (length_text len @ [c]))"
  by (cases len) (auto simp: conversion_for_def digit_char_def)

text \<open>One directive of the format, up to its switch.\<close>

definition directive_at :: "bytes \<Rightarrow> u64 \<Rightarrow> (u8 \<times> printk_length \<times> u32 \<times> u8 \<times> u64) option" where
  "directive_at fmt i = do {
     c \<leftarrow> fmt (i + 1);
     let (pad, i) = (if c = chr (CHR ''0'') then (chr (CHR ''0''), i + 2) else (chr (CHR '' ''), i + 1));
     (width, i) \<leftarrow> width_loop fmt i 0;
     (len, i) \<leftarrow> parse_length fmt i;
     c \<leftarrow> fmt i;
     Some (c, len, width, pad, i + 1) }"

lemma directive_unparsed:
  assumes s: "cstr fmt i (unparse (Spec zero w len c) @ rest)" and wf: "wf_piece (Spec zero w len c)"
  shows "fmt i = Some (chr (CHR ''%''))" "\<exists>c'. fmt (i + 1) = Some c' \<and> c' \<noteq> 0"
    "directive_at fmt i = Some (c, len, of_nat w, (if zero then chr (CHR ''0'') else chr (CHR '' '')),
       i + of_nat (length (unparse (Spec zero w len c))))"
proof -
  show "fmt i = Some (chr (CHR ''%''))" "\<exists>c'. fmt (i + 1) = Some c' \<and> c' \<noteq> 0"
    using s by (cases zero; cases "width_text w"; cases "length_text len"; auto)+
  let ?i = "i + (if zero then 2 else 1)"
  obtain h t where ht: "length_text len @ [c] = h # t" by (cases "length_text len") auto
  then have nd: "\<not> digit_char h" using conversion_not_digit [of len c] wf by simp
  have s1: "cstr fmt ?i (width_text w @ length_text len @ c # rest)" using s by (auto simp: ac_simps)
  then have "cstr fmt ?i (width_text w @ h # t @ rest)" using ht by (metis append.assoc append_Cons append_Nil)
  then have w: "width_loop fmt ?i 0 = Some (of_nat w, ?i + of_nat (length (width_text w)))"
    using nd by (rule width_text_parsed)
  have s2: "cstr fmt (?i + of_nat (length (width_text w))) (length_text len @ c # rest)"
    using s1 unfolding cstr_append [of fmt ?i "width_text w"] by blast
  then have l: "parse_length fmt (?i + of_nat (length (width_text w))) =
      Some (len, ?i + of_nat (length (width_text w)) + of_nat (length (length_text len)))"
    using wf by (intro parse_length_text) (assumption, simp)
  have c: "fmt (?i + of_nat (length (width_text w)) + of_nat (length (length_text len))) = Some c"
    using s2 unfolding cstr_append by simp
  have z: "fmt (i + 1) = Some (chr (CHR ''0''))" if zero using s that by simp
  have nz: "\<exists>x. fmt (i + 1) = Some x \<and> x \<noteq> chr (CHR ''0'')" if "\<not> zero"
  proof (cases "w = 0")
    case True
    then have "fmt (i + 1) = Some h" "h \<noteq> 48" using s1 that ht nd
      by (cases "length_text len"; auto simp: width_text_def digit_char_def)+
    then show ?thesis by simp
  next
    case False
    then have "fmt (i + 1) = Some (hd (number_text 10 False w))"
      using s1 that by (cases "number_text 10 False w") (auto simp: width_text_def)
    then show ?thesis using number_text_decimal [of w] False by simp
  qed
  show "directive_at fmt i = Some (c, len, of_nat w, (if zero then chr (CHR ''0'') else chr (CHR '' '')),
       i + of_nat (length (unparse (Spec zero w len c))))"
  proof (cases zero)
    case True
    then show ?thesis using w l c z by (simp add: directive_at_def ac_simps)
  next
    case False
    then show ?thesis using w l c nz by (auto simp: directive_at_def ac_simps)
  qed
qed

lemma printk_loop_directive:
  "fmt i = Some (chr (CHR ''%'')) \<Longrightarrow> fmt (i + 1) = Some c' \<Longrightarrow> c' \<noteq> 0 \<Longrightarrow> directive_at fmt i = Some (c, len, width, pad, j) \<Longrightarrow>
   printk_loop uptime fmt i args st =
   do { (args, st) \<leftarrow> emit_directive uptime c len width pad args st; printk_loop uptime fmt j args st }"
  by (subst printk_loop.simps) (auto simp: directive_at_def bind_eq_Some_conv split: prod.splits if_splits)

section \<open>Directives\<close>

lemma get_unsigned_arg_value:
  "\<exists>v. get_unsigned_arg len (Val a # args) = Some (v, args) \<and> unat v = unsigned_value len a"
proof -
  have "unat a < 2 ^ LENGTH(64)" by (rule unsigned_less)
  then show ?thesis by (cases len) (simp_all add: unsigned_value_def unsigned_ucast_eq take_bit_eq_mod unat_mod)
qed

lemma get_signed_arg_value:
  "\<exists>v. get_signed_arg len (Val a # args) = Some (v, args) \<and> sint v = signed_value len a"
proof -
  have "sint a = signed_take_bit 63 (uint a)" by (simp add: sint_uint)
  moreover have "sint (signed_take_bit k a) = signed_take_bit k (uint a)" if "k < 64" for k
    using that by (auto simp: bit_eq_iff bit_simps min_def)
  ultimately show ?thesis by (cases len) (simp_all add: signed_value_def signed_scast_eq signed_ucast_eq)
qed

end
