(* ===== verification/PrintkProps.thy ===== *)
theory PrintkProps
  imports PrintkFormat
begin

text \<open>
  What \<open>printk.c\<close> prints: the rendered text, with the carriage returns that \<open>emit_raw_char\<close> puts before
  line feeds and, for the log functions, the time stamp at the start of every line.
\<close>

section \<open>The loop prints the rendered text\<close>

lemma each_append: "each uptime (xs @ ys) st = do { st \<leftarrow> each uptime xs st; each uptime ys st }"
  by (rule for_each_append)

lemma or_null_text:
  "arg_is (Str s) (Text t) \<Longrightarrow> cstr (or_null s) 0 (case t of None \<Rightarrow> text_bytes ''(null)'' | Some xs \<Rightarrow> xs) \<and>
     length (case t of None \<Rightarrow> text_bytes ''(null)'' | Some xs \<Rightarrow> xs) < 2 ^ 64"
  using cstr_lit [of "''(null)''"] by (cases s; cases t) (simp_all add: or_null_def text_bytes_def)

lemma emit_directive_text:
  assumes r: "render_spec zero w len c targs = Some (t, targs')" and args: "list_all2 arg_is args targs"
    and w: "w < 2 ^ 32"
  shows "\<exists>args'. list_all2 arg_is args' targs' \<and>
    (\<forall>st. emit_directive uptime c len (of_nat w) (if zero then chr (CHR ''0'') else chr (CHR '' '')) args st =
      do { st \<leftarrow> each uptime t st; Some (args', st) })"
proof -
  have w': "unat (of_nat w :: u32) = w" using w by (intro unat_of_nat_small) simp
  have hex: "unat (16 :: u32) = 16" "unat (10 :: u32) = 10" by simp_all
  have x: "emit_string uptime (Some (lit ''0x'')) = each uptime (text_bytes ''0x'')"
    by (intro ext) (simp add: emit_string_def or_null_def string_loop_each [OF cstr_lit])
  note defs = render_spec_def emit_directive_def emit_unsigned_each w' hex x Let_def
  show ?thesis
  proof (cases targs)
    case Nil
    then show ?thesis using r args by (auto simp: defs split: if_splits)
  next
    case (Cons a ts)
    then obtain b as where as: "args = b # as" "arg_is b a" "list_all2 arg_is as ts"
      using args by (auto simp: list_all2_Cons2)
    show ?thesis
    proof (cases a)
      case (Number n)
      then have b: "b = Val n" using as(2) by (cases b) auto
      obtain v v' where v: "get_unsigned_arg len (Val n # as) = Some (v, as)" "unat v = unsigned_value len n"
        "get_signed_arg len (Val n # as) = Some (v', as)" "sint v' = signed_value len n"
        using get_unsigned_arg_value get_signed_arg_value by metis
      show ?thesis using r as(3) unfolding Cons Number as(1) b
        by (auto simp: defs v emit_signed_each for_each_append split: if_splits
            intro: exI [of _ "Val n # as"])
    next
      case (Text t')
      then obtain s where b: "b = Str s" using as(2) by (cases b) auto
      from or_null_text [of s t'] as(2) have s: "emit_padded_string uptime s width pad =
          each uptime (padded (unat width) pad (case t' of None \<Rightarrow> text_bytes ''(null)'' | Some xs \<Rightarrow> xs))" for width pad
        unfolding b Text by (intro emit_padded_string_each) simp_all
      show ?thesis using r as(2-3) unfolding Cons Text as(1) b
        by (auto simp: defs s split: if_splits intro: exI [of _ "Str s # as"])
    qed
  qed
qed

lemma printk_loop_renders:
  assumes "cstr fmt i (concat (map unparse ps))" "list_all wf_piece ps" "list_all2 arg_is args targs"
    "render ps targs = Some t"
  shows "printk_loop uptime fmt i args st = each uptime t st"
  using assms
proof (induction ps arbitrary: i args targs t st)
  case Nil
  then show ?case by (simp add: printk_loop.simps [of _ fmt i])
next
  case (Cons p ps)
  show ?case
  proof (cases p)
    case (Plain c)
    then show ?thesis using Cons.prems
      by (subst printk_loop.simps) (auto simp: bind_eq_Some_conv Cons.IH intro!: arg_cong2 [where f = Option.bind] ext)
  next
    case (Spec zero w len c)
    let ?n = "of_nat (length (unparse p)) :: u64"
    obtain s targs' u where r: "render_spec zero w len c targs = Some (s, targs')" "render ps targs' = Some u" "t = s @ u"
      using Cons.prems(4) Spec by (auto simp: bind_eq_Some_conv)
    have wf: "wf_piece (Spec zero w len c)" using Cons.prems(2) Spec by simp
    then obtain args' where a: "list_all2 arg_is args' targs'"
      "\<And>st. emit_directive uptime c len (of_nat w) (if zero then chr (CHR ''0'') else chr (CHR '' '')) args st =
        do { st \<leftarrow> each uptime s st; Some (args', st) }"
      using emit_directive_text [OF r(1) Cons.prems(3)] by (metis wf_piece.simps(2))
    have whole: "cstr fmt i (unparse p @ concat (map unparse ps))" using Cons.prems(1) by simp
    then have tail: "cstr fmt (i + ?n) (concat (map unparse ps))" unfolding cstr_append by simp
    note d = directive_unparsed [OF whole [unfolded Spec] wf]
    from d(2) obtain c' where c': "fmt (i + 1) = Some c'" "c' \<noteq> 0" by blast
    show ?thesis unfolding printk_loop_directive [OF d(1) c' d(3)] a(2) r(3) for_each_append
      using Cons.IH [OF tail _ a(1) r(2)] Cons.prems(2) Spec by simp
  qed
qed

section \<open>Line feeds and time stamps\<close>

text \<open>The stamp of \<open>emit_log_prefix\<close>: seconds and three digits of milliseconds.\<close>

definition stamp_text :: "u64 \<Rightarrow> u8 list" where
  "stamp_text ms = chr (CHR ''['') # number_text 10 False (unat ms div 1000) @
     chr (CHR ''.'') # map (\<lambda>d. digit False (unat ms div d mod 10)) [100, 10, 1] @ [chr (CHR '']''), chr (CHR '' '')]"

definition crlf :: "u8 list \<Rightarrow> u8 list" where
  "crlf t = concat (map (\<lambda>c. if c = 10 then [13, 10] else [c]) t)"

text \<open>The lines of a text, each one behind the time of the clock when it starts.\<close>

fun stamped :: "(nat \<Rightarrow> u64) \<Rightarrow> nat \<Rightarrow> bool \<Rightarrow> u8 list \<Rightarrow> u8 list" where
  "stamped uptime n start [] = []"
| "stamped uptime n start (c # t) =
     (if start then stamp_text (uptime n) @ crlf [c] @ stamped uptime (Suc n) (c = 10) t
      else crlf [c] @ stamped uptime n (c = 10) t)"

fun stamps :: "bool \<Rightarrow> u8 list \<Rightarrow> nat" where
  "stamps start [] = 0"
| "stamps start (c # t) = (if start then 1 else 0) + stamps (c = 10) t"

definition add_text :: "u8 list \<Rightarrow> printk_state \<Rightarrow> printk_state" where
  "add_text t st = st\<lparr>written := written st + of_nat (length t), con := (con st)\<lparr>printed := printed (con st) @ t\<rparr>\<rparr>"

lemma add_text_append [simp]: "add_text u (add_text t st) = add_text (t @ u) st"
  by (simp add: add_text_def)

lemma add_text_fields [simp]: "prefix_enabled (add_text t st) = prefix_enabled st"
    "at_line_start (add_text t st) = at_line_start st" "time_reads (con (add_text t st)) = time_reads (con st)"
  by (simp_all add: add_text_def)

lemma emit_raw_char_text:
  "emit_raw_char c st = (add_text (crlf [c]) st)\<lparr>at_line_start := (c = 10 \<or> at_line_start st)\<rparr>"
  by (cases st) (simp add: emit_raw_char_def printk_putc_def add_text_def crlf_def)

lemma fold_emit_raw_char: "10 \<notin> set t \<Longrightarrow> fold emit_raw_char t st = add_text t st"
proof (induction t arbitrary: st)
  case (Cons c t)
  then show ?case by (cases st) (simp add: emit_raw_char_text add_text_def crlf_def)
qed (cases st, simp add: add_text_def)

lemma digit_char_code: "unat w < 10 \<Longrightarrow> ucast (48 + w :: u64) = digit False (unat w)"
proof -
  assume w: "unat w < 10"
  then have "unat w \<in> set [0..<10]" by simp
  moreover have "\<forall>d\<in>set [0..<10]. ucast (48 + of_nat d :: u64) = digit False d" by code_simp
  ultimately have "ucast (48 + of_nat (unat w) :: u64) = digit False (unat w)" by blast
  then show ?thesis by simp
qed

lemma number_text_no_line: "10 \<notin> set (number_text 10 False n)"
  using number_text_decimal [of n] by (auto simp: digit_char_def)

definition reads_clock :: "printk_state \<Rightarrow> printk_state" where
  "reads_clock st = st\<lparr>con := (con st)\<lparr>time_reads := Suc (time_reads (con st))\<rparr>, at_line_start := False\<rparr>"

lemma milli_digits:
  fixes n :: nat
  shows "n mod 1000 div 100 mod 10 = n div 100 mod 10" "n mod 1000 div 10 mod 10 = n div 10 mod 10"
    "n mod 1000 mod 10 = n mod 10"
proof -
  have "n mod 1000 div 100 = n div 100 mod 10" using mod_mult2_eq [of n 100 10] by simp
  then show "n mod 1000 div 100 mod 10 = n div 100 mod 10" by simp
  have "n mod 1000 div 10 = n div 10 mod 100" using mod_mult2_eq [of n 10 100] by simp
  then show "n mod 1000 div 10 mod 10 = n div 10 mod 10" by (simp add: mod_mod_cancel)
qed (simp add: mod_mod_cancel)

lemma emit_log_prefix_text:
  assumes "prefix_enabled st" "at_line_start st"
  shows "emit_log_prefix uptime st = Some (reads_clock (add_text (stamp_text (uptime (time_reads (con st)))) st))"
proof -
  let ?ms = "uptime (time_reads (con st))"
  have raw: "emit_raw_unsigned v 10 False st = Some (add_text (number_text 10 False (unat v)) st)" for v st
    using digit_loop_number [of 10 False v] number_text_no_line by (simp add: emit_raw_unsigned_def fold_emit_raw_char)
  have num: "unat (100 :: u64) = 100" "unat (10 :: u64) = 10" "unat (1000 :: u64) = 1000" by simp_all
  have d: "ucast (48 + (?ms mod 1000) div 100 mod 10) = digit False (unat ?ms div 100 mod 10)"
    "ucast (48 + (?ms mod 1000) div 10 mod 10) = digit False (unat ?ms div 10 mod 10)"
    "ucast (48 + ?ms mod 1000 mod 10) = digit False (unat ?ms mod 10)"
    using digit_char_code [of "(?ms mod 1000) div 100 mod 10"]
      digit_char_code [of "(?ms mod 1000) div 10 mod 10"] digit_char_code [of "?ms mod 1000 mod 10"]
    by (simp_all only: unat_div unat_mod num milli_digits mod_less_divisor zero_less_numeral)
  have plain: "emit_raw_char (digit False (k mod 10)) s = add_text [digit False (k mod 10)] s" for k s
    using number_text_no_line [of "k mod 10"] fold_emit_raw_char [of "[digit False (k mod 10)]" s]
    by (simp add: number_text.simps [of _ _ "k mod 10"])
  have fixed: "emit_raw_char 91 s = add_text [91] s" "emit_raw_char 46 s = add_text [46] s"
    "emit_raw_char 93 s = add_text [93] s" "emit_raw_char 32 s = add_text [32] s" for s
    using fold_emit_raw_char [of "[91]" s] fold_emit_raw_char [of "[46]" s]
      fold_emit_raw_char [of "[93]" s] fold_emit_raw_char [of "[32]" s] by simp_all
  have "emit_log_prefix uptime st =
      Some ((add_text (stamp_text ?ms) (st\<lparr>con := (con st)\<lparr>time_reads := time_reads (con st) + 1\<rparr>\<rparr>))\<lparr>at_line_start := False\<rparr>)"
    using assms unfolding emit_log_prefix_def Let_def raw d
    by (simp add: plain fixed stamp_text_def unat_div num)
  then show ?thesis by (simp add: reads_clock_def add_text_def)
qed

text \<open>One character of a log line.\<close>

lemma emit_char_stamped:
  assumes "prefix_enabled st"
  shows "emit_char uptime c st = Some ((if at_line_start st
     then add_text (stamp_text (uptime (time_reads (con st))) @ crlf [c]) (reads_clock st)
     else add_text (crlf [c]) st)\<lparr>at_line_start := (c = 10)\<rparr>)"
proof (cases "at_line_start st")
  case True
  then show ?thesis using assms emit_log_prefix_text [of st uptime]
    by (cases "c = 10") (simp_all add: emit_char_def emit_raw_char_text reads_clock_def add_text_def Let_def)
next
  case False
  then show ?thesis using assms
    by (cases "c = 10") (simp_all add: emit_char_def emit_log_prefix_def emit_raw_char_text add_text_def Let_def)
qed

lemma emit_char_plain:
  assumes "\<not> prefix_enabled st"
  shows "emit_char uptime c st = Some ((add_text (crlf [c]) st)\<lparr>at_line_start := (c = 10)\<rparr>)"
  using assms by (cases "c = 10") (simp_all add: emit_char_def emit_log_prefix_def emit_raw_char_text add_text_def Let_def)

lemma each_stamped:
  assumes "prefix_enabled st"
  shows "\<exists>st'. each uptime t st = Some st' \<and> prefix_enabled st' \<and>
    written st' = written st + of_nat (length (stamped uptime (time_reads (con st)) (at_line_start st) t)) \<and>
    con st' = (con st)\<lparr>printed := printed (con st) @ stamped uptime (time_reads (con st)) (at_line_start st) t,
      time_reads := time_reads (con st) + stamps (at_line_start st) t\<rparr>"
  using assms
proof (induction t arbitrary: st)
  case (Cons c t)
  note c = emit_char_stamped [OF Cons.prems, of uptime c]
  show ?case
  proof (cases "at_line_start st")
    case True
    let ?s = "(add_text (stamp_text (uptime (time_reads (con st))) @ crlf [c]) (reads_clock st))\<lparr>at_line_start := (c = 10)\<rparr>"
    have "prefix_enabled ?s" using Cons.prems by (simp add: reads_clock_def)
    from Cons.IH [OF this] show ?thesis using True c
      by (auto simp: reads_clock_def add_text_def ac_simps)
  next
    case False
    let ?s = "(add_text (crlf [c]) st)\<lparr>at_line_start := (c = 10)\<rparr>"
    have "prefix_enabled ?s" using Cons.prems by simp
    from Cons.IH [OF this] show ?thesis using False c
      by (auto simp: add_text_def ac_simps)
  qed
qed (cases st, simp)

lemma each_plain:
  assumes "\<not> prefix_enabled st"
  shows "\<exists>st'. each uptime t st = Some st' \<and> \<not> prefix_enabled st' \<and>
    written st' = written st + of_nat (length (crlf t)) \<and> con st' = (con st)\<lparr>printed := printed (con st) @ crlf t\<rparr>"
  using assms
proof (induction t arbitrary: st)
  case (Cons c t)
  let ?s = "(add_text (crlf [c]) st)\<lparr>at_line_start := (c = 10)\<rparr>"
  have "\<not> prefix_enabled ?s" using Cons.prems by simp
  from Cons.IH [OF this] show ?case using emit_char_plain [OF Cons.prems, of uptime c]
    by (auto simp: add_text_def crlf_def)
qed (simp add: crlf_def)

section \<open>Properties\<close>

lemma printk_text:
  assumes "cstr fmt 0 (concat (map unparse ps))" "list_all wf_piece ps" "list_all2 arg_is args targs"
    "render ps targs = Some t"
  shows "kprintf uptime fmt args cn = Some (of_nat (length (crlf t)), cn\<lparr>printed := printed cn @ crlf t\<rparr>)"
    and "vprintk_internal uptime True fmt args cn = Some (of_nat (length (stamped uptime (time_reads cn) True t)),
      cn\<lparr>printed := printed cn @ stamped uptime (time_reads cn) True t, time_reads := time_reads cn + stamps True t\<rparr>)"
proof -
  note loop = printk_loop_renders [OF assms, of uptime]
  show "kprintf uptime fmt args cn = Some (of_nat (length (crlf t)), cn\<lparr>printed := printed cn @ crlf t\<rparr>)"
    using each_plain [of "\<lparr>prefix_enabled = False, at_line_start = True, written = 0, con = cn\<rparr>" uptime t]
    by (auto simp: kprintf_def vkprintf_def vprintk_internal_def loop)
  show "vprintk_internal uptime True fmt args cn = Some (of_nat (length (stamped uptime (time_reads cn) True t)),
      cn\<lparr>printed := printed cn @ stamped uptime (time_reads cn) True t, time_reads := time_reads cn + stamps True t\<rparr>)"
    using each_stamped [of "\<lparr>prefix_enabled = True, at_line_start = True, written = 0, con = cn\<rparr>" uptime t]
    by (auto simp: vprintk_internal_def loop)
qed

text \<open>The line that \<open>klog\<close> writes.\<close>

definition log_line :: "(nat \<Rightarrow> u64) \<Rightarrow> nat \<Rightarrow> u8 list \<Rightarrow> u8 list" where
  "log_line uptime n t = stamped uptime n True t @ [13, 10]"

lemma klog_text:
  assumes "cstr fmt 0 (concat (map unparse ps))" "list_all wf_piece ps" "list_all2 arg_is args targs"
    "render ps targs = Some t"
  shows "klog uptime fmt args cn = Some (of_nat (length (log_line uptime (time_reads cn) t)),
    cn\<lparr>printed := printed cn @ log_line uptime (time_reads cn) t, time_reads := time_reads cn + stamps True t\<rparr>)"
proof -
  have "cstr (lit [CHR 0x0A]) 0 (concat (map unparse [Plain 10]))" by code_simp
  then have "kprintf uptime (lit [CHR 0x0A]) [] cn = Some (of_nat (length (crlf [10])), cn\<lparr>printed := printed cn @ crlf [10]\<rparr>)" for cn
    by (rule printk_text) simp_all
  then show ?thesis by (simp add: klog_def vklog_def printk_text(2) [OF assms] log_line_def crlf_def)
qed

text \<open>A text without a line feed is logged behind one stamp.\<close>

lemma stamped_line: "10 \<notin> set t \<Longrightarrow> stamped uptime n False t = t \<and> stamps False t = 0"
  by (induction t) (auto simp: crlf_def)

text \<open>
  C33: \<open>kprintf\<close> prints the text that its format denotes.  Whatever the pieces of the format, with any
  padding, width below \<open>2 ^ 32\<close>, length modifier and conversion, and whatever the arguments, the bytes
  handed to \<open>printk_putc\<close> are the rendered text, where each number is written by its value at the
  width of its length modifier, with a carriage return before every line feed; the result is their count.
\<close>

theorem kprintf_renders:
  assumes "cstr fmt 0 (concat (map unparse ps))" "list_all wf_piece ps" "list_all2 arg_is args targs"
    "render ps targs = Some t"
  shows "kprintf uptime fmt args cn = Some (of_nat (length (crlf t)), cn\<lparr>printed := printed cn @ crlf t\<rparr>)"
  by (rule printk_text(1) [OF assms])

theorem kprintf_renders_witness:
  "kprintf (\<lambda>_. 0) (lit ''%04x=%5d %s%%'') [Val 0xFFFF000000000BEE, Val 0xFFFFFFFE, Str None]
     \<lparr>printed = [], time_reads = 0\<rparr> = Some (19, \<lparr>printed = text_bytes ''0bee=-    2 (null)%'', time_reads = 0\<rparr>)"
proof -
  let ?ps = "[Spec True 4 PRINTK_LEN_DEFAULT (chr (CHR ''x'')), Plain (chr (CHR ''='')),
    Spec False 5 PRINTK_LEN_DEFAULT (chr (CHR ''d'')), Plain (chr (CHR '' '')),
    Spec False 0 PRINTK_LEN_DEFAULT (chr (CHR ''s'')), Spec False 0 PRINTK_LEN_DEFAULT (chr (CHR ''%''))]"
  have w: "number_text 10 False 4 = text_bytes ''4''" "number_text 10 False 5 = text_bytes ''5''"
    by (simp_all add: number_text.simps digit_def text_bytes_def)
  have "concat (map unparse ?ps) = text_bytes ''%04x=%5d %s%%''" by (simp add: width_text_def w text_bytes_def)
  then have 1: "cstr (lit ''%04x=%5d %s%%'') 0 (concat (map unparse ?ps))" by (simp add: cstr_lit)
  have 2: "list_all wf_piece ?ps" by (simp add: conversion_for_def)
  have 3: "list_all2 arg_is [Val 0xFFFF000000000BEE, Val 0xFFFFFFFE, Str None]
      [Number 0xFFFF000000000BEE, Number 0xFFFFFFFE, Text None]" by simp
  have v: "unsigned_value PRINTK_LEN_DEFAULT 0xFFFF000000000BEE = 0xBEE" "signed_value PRINTK_LEN_DEFAULT 0xFFFFFFFE = - 2"
    by (simp_all add: unsigned_value_def signed_value_def signed_take_bit_eq_if_negative)
  have n: "number_text 16 False 0xBEE = text_bytes ''bee''" "number_text 10 False 2 = text_bytes ''2''"
    by (simp_all add: number_text.simps digit_def text_bytes_def)
  have r: "replicate 4 x = [x, x, x, x]" for x :: u8 by (simp add: numeral_eq_Suc)
  have 4: "render ?ps [Number 0xFFFF000000000BEE, Number 0xFFFFFFFE, Text None] =
      Some (text_bytes ''0bee=-    2 (null)%'')"
    by (simp add: render_spec_def padded_def signed_text_def v n r text_bytes_def)
  from kprintf_renders [OF 1 2 3 4] show ?thesis by (simp add: crlf_def text_bytes_def)
qed

lemma log_line_plain:
  "t \<noteq> [] \<Longrightarrow> 10 \<notin> set t \<Longrightarrow> log_line uptime n t = stamp_text (uptime n) @ t @ [13, 10] \<and> stamps True t = 1"
  using stamped_line [of "tl t"] by (cases t) (auto simp: log_line_def crlf_def)

text \<open>
  A format that ends inside a directive, after its length modifier, is read past its terminator: the
  default case prints the terminator as if it were a conversion and steps over it.  (A format that ends
  right after the per cent sign stops there.)
\<close>

lemma printk_runs_past:
  "kprintf uptime (lit ''%'') args cn = Some (0, cn) \<and> kprintf uptime (lit ''%l'') args cn = None"
proof
  have "lit ''%'' 0 = Some 37" "lit ''%'' 1 = Some 0" by (simp_all add: lit_def)
  then show "kprintf uptime (lit ''%'') args cn = Some (0, cn)"
    by (simp add: kprintf_def vkprintf_def vprintk_internal_def printk_loop.simps [of _ "lit ''%''"])
  have l: "lit ''%l'' 0 = Some 37" "lit ''%l'' 1 = Some 108" "lit ''%l'' 2 = Some 0" "lit ''%l'' 3 = None"
    by (simp_all add: lit_def)
  have "directive_at (lit ''%l'') 0 = Some (0, PRINTK_LEN_LONG, 0, 32, 3)"
    by (simp add: directive_at_def parse_length_def width_loop.simps [of "lit ''%l''" 1] l)
  moreover have "emit_directive uptime 0 PRINTK_LEN_LONG 0 32 args \<lparr>prefix_enabled = False, at_line_start = True, written = 0, con = cn\<rparr> =
      Some (args, add_text [37, 0] \<lparr>prefix_enabled = False, at_line_start = False, written = 0, con = cn\<rparr>)"
    by (simp add: emit_directive_def emit_char_plain add_text_def crlf_def)
  moreover have "printk_loop uptime (lit ''%l'') 3 args st = None" for st
    by (simp add: printk_loop.simps [of _ "lit ''%l''" 3] l)
  ultimately show "kprintf uptime (lit ''%l'') args cn = None"
    using printk_loop_directive [of "lit ''%l''" 0 108 0 PRINTK_LEN_LONG 0 32 3] l
    by (simp add: kprintf_def vkprintf_def vprintk_internal_def)
qed

end
