(* ===== verification/Uart.thy ===== *)
theory Uart
  imports PrintkProps Boot
begin

text \<open>
  The registers and the character functions of \<open>kernel/src/platform/generic/uart.c\<close>, over the
  accessors of \<open>cpu.h\<close>.

  A device is what it answers: \<open>registers h a\<close> is the value that a read of address \<open>a\<close> gives after the
  accesses \<open>h\<close>, for any function of that type.  The state keeps the accesses in their order.  The
  static objects of the file are the record \<open>serial\<close>; the boot loader's answers, the device and the
  time register make up a \<open>platform\<close>, an argument that never changes.
\<close>

section \<open>Memory-mapped registers\<close>

datatype mmio = Read8 u64 | Read32 u64 | Write8 u64 u8 | Write32 u64 u32

record platform =
  loader :: boot
  registers :: "mmio list \<Rightarrow> u64 \<Rightarrow> u32"
  time_register :: "nat \<Rightarrow> u64"

record uart_port =
  uart_base :: u64
  uart_size :: u64
  reg_shift :: u32
  reg_io_width :: u32

record serial =
  uart0 :: uart_port
  uart_ready :: bool
  accesses :: "mmio list"

definition access :: "mmio \<Rightarrow> 'a serial_scheme \<Rightarrow> 'a serial_scheme" where
  "access x s = s\<lparr>accesses := accesses s @ [x]\<rparr>"

definition mmio_write8 :: "platform \<Rightarrow> u64 \<Rightarrow> u8 \<Rightarrow> 'a serial_scheme \<Rightarrow> 'a serial_scheme option" where
  "mmio_write8 p phys_addr v s = do {
     hhdm \<leftarrow> hhdm_response (loader p);
     Some (access (Write8 (PHYS_TO_VIRT hhdm phys_addr) v) s) }"

definition mmio_read8 :: "platform \<Rightarrow> u64 \<Rightarrow> 'a serial_scheme \<Rightarrow> (u8 \<times> 'a serial_scheme) option" where
  "mmio_read8 p phys_addr s = do {
     hhdm \<leftarrow> hhdm_response (loader p);
     let a = PHYS_TO_VIRT hhdm phys_addr;
     Some (ucast (registers p (accesses s) a), access (Read8 a) s) }"

definition mmio_write32 :: "platform \<Rightarrow> u64 \<Rightarrow> u32 \<Rightarrow> 'a serial_scheme \<Rightarrow> 'a serial_scheme option" where
  "mmio_write32 p phys_addr v s = do {
     hhdm \<leftarrow> hhdm_response (loader p);
     Some (access (Write32 (PHYS_TO_VIRT hhdm phys_addr) v) s) }"

definition mmio_read32 :: "platform \<Rightarrow> u64 \<Rightarrow> 'a serial_scheme \<Rightarrow> (u32 \<times> 'a serial_scheme) option" where
  "mmio_read32 p phys_addr s = do {
     hhdm \<leftarrow> hhdm_response (loader p);
     let a = PHYS_TO_VIRT hhdm phys_addr;
     Some (registers p (accesses s) a, access (Read32 a) s) }"

section \<open>The registers of the UART\<close>

definition UART_RBR :: u32 where "UART_RBR = 0"
definition UART_THR :: u32 where "UART_THR = 0"
definition UART_DLL :: u32 where "UART_DLL = 0"
definition UART_IER :: u32 where "UART_IER = 1"
definition UART_DLM :: u32 where "UART_DLM = 1"
definition UART_FCR :: u32 where "UART_FCR = 2"
definition UART_LCR :: u32 where "UART_LCR = 3"
definition UART_LSR :: u32 where "UART_LSR = 5"

definition UART_LSR_RX_READY :: u8 where "UART_LSR_RX_READY = 0x01"
definition UART_LSR_TX_EMPTY :: u8 where "UART_LSR_TX_EMPTY = 0x20"
definition UART_LCR_DLAB :: u8 where "UART_LCR_DLAB = 0x80"

text \<open>
  Two expressions of the code: the register's offset, undefined where the shift is not below the width
  of \<open>uintptr_t\<close>, and its address.
\<close>

definition reg_offset :: "uart_port \<Rightarrow> u32 \<Rightarrow> u64 option" where
  "reg_offset u reg = (if unat (reg_shift u) < 64 then Some (push_bit (unat (reg_shift u)) (ucast reg)) else None)"

definition uart_write_reg :: "platform \<Rightarrow> u32 \<Rightarrow> u8 \<Rightarrow> 'a serial_scheme \<Rightarrow> 'a serial_scheme option" where
  "uart_write_reg p reg v s = do {
     off \<leftarrow> reg_offset (uart0 s) reg;
     let addr = uart_base (uart0 s) + off;
     if reg_io_width (uart0 s) = 4 then mmio_write32 p addr (ucast v) s
     else mmio_write8 p addr v s }"

definition uart_read_reg :: "platform \<Rightarrow> u32 \<Rightarrow> 'a serial_scheme \<Rightarrow> (u8 \<times> 'a serial_scheme) option" where
  "uart_read_reg p reg s = do {
     off \<leftarrow> reg_offset (uart0 s) reg;
     let addr = uart_base (uart0 s) + off;
     if reg_io_width (uart0 s) = 4 then do { (v, s) \<leftarrow> mmio_read32 p addr s; Some (ucast v, s) }
     else mmio_read8 p addr s }"

section \<open>Characters\<close>

definition uart_is_ready :: "'a serial_scheme \<Rightarrow> bool" where
  "uart_is_ready s = uart_ready s"

function tx_wait :: "platform \<Rightarrow> u64 \<Rightarrow> 'a serial_scheme \<Rightarrow> 'a serial_scheme option" where
  "tx_wait p spins s =
     (if spins < 1000000 then do {
        (v, s) \<leftarrow> uart_read_reg p UART_LSR s;
        if v AND UART_LSR_TX_EMPTY = 0 then tx_wait p (spins + 1) s else Some s }
      else Some s)"
  by pat_completeness auto
termination
  by (relation "measure (\<lambda>(p, spins, s). 1000000 - unat spins)")
    (auto simp: word_less_nat_alt unat_plus1_less [of _ 1000000])

declare tx_wait.simps [simp del]

definition uart_putc :: "platform \<Rightarrow> u8 \<Rightarrow> 'a serial_scheme \<Rightarrow> 'a serial_scheme option" where
  "uart_putc p c s =
     (if \<not> uart_ready s then Some s
      else do { s \<leftarrow> tx_wait p 0 s; uart_write_reg p UART_THR c s })"

partial_function (option) puts_loop :: "platform \<Rightarrow> bytes \<Rightarrow> u64 \<Rightarrow> 'a serial_scheme \<Rightarrow> 'a serial_scheme option" where
  "puts_loop p t i s = do {
     c \<leftarrow> t i;
     if c \<noteq> 0 then do { s \<leftarrow> uart_putc p c s; puts_loop p t (i + 1) s } else Some s }"

definition uart_puts :: "platform \<Rightarrow> bytes \<Rightarrow> 'a serial_scheme \<Rightarrow> 'a serial_scheme option" where
  "uart_puts p t s = puts_loop p t 0 s"

partial_function (option) rx_wait :: "platform \<Rightarrow> 'a serial_scheme \<Rightarrow> 'a serial_scheme option" where
  "rx_wait p s = do {
     (v, s) \<leftarrow> uart_read_reg p UART_LSR s;
     if v AND UART_LSR_RX_READY = 0 then rx_wait p s else Some s }"

definition uart_getc :: "platform \<Rightarrow> 'a serial_scheme \<Rightarrow> (u8 \<times> 'a serial_scheme) option" where
  "uart_getc p s =
     (if \<not> uart_ready s then Some (0, s)
      else do { s \<leftarrow> rx_wait p s; uart_read_reg p UART_RBR s })"

end
