(* ===== verification/UartProps.thy ===== *)
theory UartProps
  imports Uart
begin

text \<open>
  The UART as a sink of bytes.  The locale \<open>byte_sink\<close> is what a stream of output relies on; the UART
  that is ready is one, whatever its device answers, because \<open>uart_putc\<close> polls for a bounded time only.
\<close>

section \<open>Sinks of bytes\<close>

text \<open>\<open>took cs s s'\<close>: between \<open>s\<close> and \<open>s'\<close> the bytes \<open>cs\<close> went out and nothing else happened.\<close>

locale byte_sink =
  fixes put :: "u8 \<Rightarrow> 's \<Rightarrow> 's option"
    and up :: "'s \<Rightarrow> bool"
    and took :: "u8 list \<Rightarrow> 's \<Rightarrow> 's \<Rightarrow> bool"
  assumes took_Nil: "took [] s s"
    and took_append: "took cs s t \<Longrightarrow> took ds t u \<Longrightarrow> took (cs @ ds) s u"
    and took_up: "took cs s t \<Longrightarrow> up s \<Longrightarrow> up t"
    and put_law: "up s \<Longrightarrow> \<exists>s'. put c s = Some s' \<and> took [c] s s'"
begin

lemma put_all: "up s \<Longrightarrow> \<exists>s'. for_each put cs s = Some s' \<and> up s' \<and> took cs s s'"
proof (induction cs arbitrary: s)
  case Nil
  then show ?case using took_Nil by simp
next
  case (Cons c cs)
  obtain s1 where s1: "put c s = Some s1" "took [c] s s1" using put_law [OF Cons.prems] by blast
  from Cons.IH [OF took_up [OF s1(2) Cons.prems]] obtain s2
    where s2: "for_each put cs s1 = Some s2" "up s2" "took cs s1 s2" by blast
  have "took (c # cs) s s2" using took_append [OF s1(2) s2(3)] by simp
  then show ?case using s1(1) s2(1,2) by simp
qed

end

section \<open>The UART\<close>

definition port_up :: "platform \<Rightarrow> 'a serial_scheme \<Rightarrow> bool" where
  "port_up p s \<longleftrightarrow> hhdm_response (loader p) \<noteq> None \<and> unat (reg_shift (uart0 s)) < 64 \<and> uart_ready s"

definition reg_addr :: "platform \<Rightarrow> uart_port \<Rightarrow> u32 \<Rightarrow> u64" where
  "reg_addr p u reg = PHYS_TO_VIRT (the (hhdm_response (loader p))) (uart_base u + push_bit (unat (reg_shift u)) (ucast reg))"

definition reg_read :: "platform \<Rightarrow> uart_port \<Rightarrow> u32 \<Rightarrow> mmio" where
  "reg_read p u reg = (if reg_io_width u = 4 then Read32 (reg_addr p u reg) else Read8 (reg_addr p u reg))"

definition reg_write :: "platform \<Rightarrow> uart_port \<Rightarrow> u32 \<Rightarrow> u8 \<Rightarrow> mmio" where
  "reg_write p u reg v =
     (if reg_io_width u = 4 then Write32 (reg_addr p u reg) (ucast v) else Write8 (reg_addr p u reg) v)"

lemma uart_read_reg_up:
  "hhdm_response (loader p) \<noteq> None \<Longrightarrow> unat (reg_shift (uart0 s)) < 64 \<Longrightarrow>
   uart_read_reg p reg s = Some (ucast (registers p (accesses s) (reg_addr p (uart0 s) reg)), access (reg_read p (uart0 s) reg) s)"
  by (auto simp: uart_read_reg_def reg_offset_def mmio_read8_def mmio_read32_def reg_read_def reg_addr_def Let_def)

lemma uart_write_reg_up:
  "hhdm_response (loader p) \<noteq> None \<Longrightarrow> unat (reg_shift (uart0 s)) < 64 \<Longrightarrow>
   uart_write_reg p reg v s = Some (access (reg_write p (uart0 s) reg v) s)"
  by (auto simp: uart_write_reg_def reg_offset_def mmio_write8_def mmio_write32_def reg_write_def reg_addr_def)

lemma access_fields [simp]: "uart0 (access x s) = uart0 s" "uart_ready (access x s) = uart_ready s"
    "accesses (access x s) = accesses s @ [x]"
  by (simp_all add: access_def)

text \<open>The transmitter is empty when the line status is read after the accesses \<open>h\<close>.\<close>

definition tx_empty :: "platform \<Rightarrow> uart_port \<Rightarrow> mmio list \<Rightarrow> bool" where
  "tx_empty p u h \<longleftrightarrow> (ucast (registers p h (reg_addr p u UART_LSR)) :: u8) AND UART_LSR_TX_EMPTY \<noteq> 0"

definition polls :: "platform \<Rightarrow> uart_port \<Rightarrow> nat \<Rightarrow> mmio list" where
  "polls p u k = replicate k (reg_read p u UART_LSR)"

lemma tx_wait_polls:
  assumes "hhdm_response (loader p) \<noteq> None" "unat (reg_shift (uart0 s)) < 64"
  shows "\<exists>k. tx_wait p spins s = Some (s\<lparr>accesses := accesses s @ polls p (uart0 s) k\<rparr>) \<and>
    k \<le> 1000000 - unat spins \<and> (\<forall>j. j + 1 < k \<longrightarrow> \<not> tx_empty p (uart0 s) (accesses s @ polls p (uart0 s) j)) \<and>
    (k < 1000000 - unat spins \<longrightarrow> 0 < k \<and> tx_empty p (uart0 s) (accesses s @ polls p (uart0 s) (k - 1)))"
  using assms
proof (induction p spins s rule: tx_wait.induct)
  case (1 p spins s)
  let ?rd = "reg_read p (uart0 s) UART_LSR"
  have poll: "polls p (uart0 s) (Suc j) = ?rd # polls p (uart0 s) j" for j by (simp add: polls_def)
  note rd = uart_read_reg_up [OF 1(2,3), of UART_LSR]
  show ?case
  proof (cases "spins < 1000000")
    case False
    then have "1000000 - unat spins = 0" by (simp add: word_le_nat_alt not_less)
    then show ?thesis using False by (intro exI [of _ 0]) (simp add: tx_wait.simps [of p spins] polls_def)
  next
    case True
    then have lt: "unat spins < 1000000" by (simp add: word_less_nat_alt)
    then have n: "unat (spins + 1) = Suc (unat spins)" by (rule unat_plus1_less) simp
    show ?thesis
    proof (cases "tx_empty p (uart0 s) (accesses s)")
      case yes: True
      then have "tx_wait p spins s = Some (access ?rd s)" using True rd
        by (simp add: tx_wait.simps [of p spins] tx_empty_def)
      then show ?thesis using yes lt by (intro exI [of _ 1]) (simp add: polls_def access_def)
    next
      case no: False
      then have step: "tx_wait p spins s = tx_wait p (spins + 1) (access ?rd s)" using True rd
        by (simp add: tx_wait.simps [of p spins] tx_empty_def)
      have "\<exists>k. tx_wait p (spins + 1) (access ?rd s) = Some (s\<lparr>accesses := accesses s @ ?rd # polls p (uart0 s) k\<rparr>) \<and>
          k \<le> 1000000 - unat (spins + 1) \<and>
          (\<forall>j. j + 1 < k \<longrightarrow> \<not> tx_empty p (uart0 s) (accesses s @ ?rd # polls p (uart0 s) j)) \<and>
          (k < 1000000 - unat (spins + 1) \<longrightarrow> 0 < k \<and> tx_empty p (uart0 s) (accesses s @ ?rd # polls p (uart0 s) (k - 1)))"
        using "1.IH" [OF True rd] no 1(2,3) by (simp add: tx_empty_def access_def)
      then obtain k where k: "tx_wait p spins s = Some (s\<lparr>accesses := accesses s @ polls p (uart0 s) (Suc k)\<rparr>)"
        "k \<le> 1000000 - unat (spins + 1)"
        "\<And>j. j + 1 < k \<Longrightarrow> \<not> tx_empty p (uart0 s) (accesses s @ polls p (uart0 s) (Suc j))"
        "k < 1000000 - unat (spins + 1) \<Longrightarrow> 0 < k \<and> tx_empty p (uart0 s) (accesses s @ polls p (uart0 s) (Suc (k - 1)))"
        unfolding step poll by blast
      have "\<not> tx_empty p (uart0 s) (accesses s @ polls p (uart0 s) j)" if "j + 1 < Suc k" for j
        using that k(3) [of "j - 1"] no by (cases j) (simp_all add: polls_def)
      moreover have "tx_empty p (uart0 s) (accesses s @ polls p (uart0 s) k)" if "Suc k < 1000000 - unat spins"
      proof -
        have "k < 1000000 - unat (spins + 1)" using that n by linarith
        from k(4) [OF this] show ?thesis by (cases k) simp_all
      qed
      ultimately show ?thesis using k(1,2) n lt by (intro exI [of _ "Suc k"]) auto
    qed
  qed
qed

text \<open>The bytes written to an address.\<close>

definition written_at :: "u64 \<Rightarrow> mmio list \<Rightarrow> u8 list" where
  "written_at a h = concat (map (\<lambda>x. case x of
     Write8 b v \<Rightarrow> if b = a then [v] else [] | Write32 b v \<Rightarrow> if b = a then [ucast v] else [] | _ \<Rightarrow> []) h)"

lemma written_at_append [simp]: "written_at a (g @ h) = written_at a g @ written_at a h"
  by (simp add: written_at_def)

lemma written_at_polls [simp]: "written_at a (polls p u k) = []"
  by (induction k) (auto simp: written_at_def polls_def reg_read_def)

lemma written_at_write [simp]: "written_at (reg_addr p u reg) [reg_write p u reg v] = [v]"
proof -
  have "ucast (ucast v :: u32) = v" by (rule bit_word_eqI) (simp add: bit_simps)
  then show ?thesis by (simp add: written_at_def reg_write_def)
qed

definition uart_took :: "platform \<Rightarrow> u8 list \<Rightarrow> 'a serial_scheme \<Rightarrow> 'a serial_scheme \<Rightarrow> bool" where
  "uart_took p cs s s' \<longleftrightarrow> (\<exists>h. s' = s\<lparr>accesses := accesses s @ h\<rparr> \<and> written_at (reg_addr p (uart0 s) UART_THR) h = cs)"

lemma uart_putc_accesses:
  assumes "port_up p s"
  shows "\<exists>k. uart_putc p c s =
      Some (s\<lparr>accesses := accesses s @ polls p (uart0 s) k @ [reg_write p (uart0 s) UART_THR c]\<rparr>) \<and> k \<le> 1000000 \<and>
    (\<forall>j. j + 1 < k \<longrightarrow> \<not> tx_empty p (uart0 s) (accesses s @ polls p (uart0 s) j)) \<and>
    (k < 1000000 \<longrightarrow> 0 < k \<and> tx_empty p (uart0 s) (accesses s @ polls p (uart0 s) (k - 1)))"
proof -
  have up: "hhdm_response (loader p) \<noteq> None" "unat (reg_shift (uart0 s)) < 64" "uart_ready s"
    using assms by (simp_all add: port_up_def)
  obtain k where k: "tx_wait p 0 s = Some (s\<lparr>accesses := accesses s @ polls p (uart0 s) k\<rparr>)" "k \<le> 1000000"
    "\<forall>j. j + 1 < k \<longrightarrow> \<not> tx_empty p (uart0 s) (accesses s @ polls p (uart0 s) j)"
    "k < 1000000 \<longrightarrow> 0 < k \<and> tx_empty p (uart0 s) (accesses s @ polls p (uart0 s) (k - 1))"
    using tx_wait_polls [OF up(1,2), of 0] by auto
  then show ?thesis using up
    by (intro exI [of _ k]) (simp add: uart_putc_def uart_write_reg_up access_def)
qed

interpretation port: byte_sink "uart_putc p" "port_up p" "uart_took p"
proof unfold_locales
  show "uart_took p [] s s" for s :: "'a serial_scheme"
    by (auto simp: uart_took_def written_at_def intro: exI [of _ "[]"])
  show "uart_took p cs s t \<Longrightarrow> uart_took p ds t u \<Longrightarrow> uart_took p (cs @ ds) s u" for cs ds and s t u :: "'a serial_scheme"
    by (auto simp: uart_took_def)
  show "uart_took p cs s t \<Longrightarrow> port_up p s \<Longrightarrow> port_up p t" for cs and s t :: "'a serial_scheme"
    by (auto simp: uart_took_def port_up_def)
  show "port_up p s \<Longrightarrow> \<exists>s'. uart_putc p c s = Some s' \<and> uart_took p [c] s s'" for c and s :: "'a serial_scheme"
    using uart_putc_accesses [of p s c] by (fastforce simp: uart_took_def)
qed

lemma puts_loop_each: "cstr t i xs \<Longrightarrow> puts_loop p t i = for_each (uart_putc p) xs"
proof (induction xs arbitrary: i)
  case Nil
  then show ?case by (intro ext) (simp add: puts_loop.simps [of _ t i])
next
  case (Cons x xs)
  then show ?case by (intro ext) (simp add: puts_loop.simps [of _ t i])
qed

lemma uart_puts_sends:
  "port_up p s \<Longrightarrow> cstr t 0 xs \<Longrightarrow> \<exists>s'. uart_puts p t s = Some s' \<and> port_up p s' \<and> uart_took p xs s s'"
  using port.put_all by (auto simp: uart_puts_def puts_loop_each)

text \<open>
  C38: \<open>uart_putc\<close> always gets its byte out.  Whatever the device answers, it polls the line status at
  most 1,000,000 times, stops at the first poll that finds the transmitter empty, and then writes the
  byte to the transmit register, once; a port that is not ready is not touched.
\<close>

theorem uart_putc_bounded:
  assumes "hhdm_response (loader p) = Some h" "unat (reg_shift (uart0 s)) < 64"
  shows "\<exists>k s'. uart_putc p c s = Some s' \<and>
    (\<not> uart_ready s \<longrightarrow> s' = s) \<and>
    (uart_ready s \<longrightarrow> s' = s\<lparr>accesses := accesses s @ polls p (uart0 s) k @ [reg_write p (uart0 s) UART_THR c]\<rparr> \<and> k \<le> 1000000 \<and>
      (\<forall>j. j + 1 < k \<longrightarrow> \<not> tx_empty p (uart0 s) (accesses s @ polls p (uart0 s) j)) \<and>
      (k < 1000000 \<longrightarrow> 0 < k \<and> tx_empty p (uart0 s) (accesses s @ polls p (uart0 s) (k - 1))))"
proof (cases "uart_ready s")
  case True
  then have "port_up p s" using assms by (simp add: port_up_def)
  from uart_putc_accesses [OF this, of c] True show ?thesis by auto
qed (simp add: uart_putc_def)

text \<open>A device whose transmitter is empty from the third poll on.\<close>

definition demo_platform :: platform where
  "demo_platform = \<lparr>
     loader = \<lparr>hhdm_response = Some 0xffff800000000000, memmap_response = None,
       executable_address_response = None, view = (\<lambda>_. None)\<rparr>,
     registers = (\<lambda>h a. if a = 0xffff800010000005 \<and> 2 \<le> length h then 0x60 else 0),
     time_register = (\<lambda>n. of_nat n)\<rparr>"

definition demo_serial :: serial where
  "demo_serial = \<lparr>uart0 = \<lparr>uart_base = 0x10000000, uart_size = 0x100, reg_shift = 0, reg_io_width = 1\<rparr>,
     uart_ready = True, accesses = []\<rparr>"

theorem uart_putc_bounded_witness:
  "uart_putc demo_platform 65 demo_serial = Some (demo_serial\<lparr>accesses :=
     [Read8 0xffff800010000005, Read8 0xffff800010000005, Read8 0xffff800010000005, Write8 0xffff800010000000 65]\<rparr>)"
proof -
  let ?u = "uart0 demo_serial"
  have s: "hhdm_response (loader demo_platform) = Some 0xffff800000000000" "unat (reg_shift ?u) < 64"
    "uart_ready demo_serial" "accesses demo_serial = []" by (simp_all add: demo_platform_def demo_serial_def)
  have e: "tx_empty demo_platform ?u (polls demo_platform ?u j) \<longleftrightarrow> 2 \<le> j" for j
    by (simp add: tx_empty_def polls_def reg_addr_def demo_platform_def demo_serial_def PHYS_TO_VIRT_def
        UART_LSR_def UART_LSR_TX_EMPTY_def)
  from uart_putc_bounded [OF s(1,2), of 65] obtain k where k: "uart_putc demo_platform 65 demo_serial =
      Some (demo_serial\<lparr>accesses := polls demo_platform ?u k @ [reg_write demo_platform ?u UART_THR 65]\<rparr>)"
    "\<forall>j. j + 1 < k \<longrightarrow> \<not> 2 \<le> j" "k < 1000000 \<longrightarrow> 0 < k \<and> 2 \<le> k - 1" using s e by auto
  have "\<not> 3 < k" using k(2) [rule_format, of 2] by auto
  then have "k = 3" using k(3) by auto
  moreover have "replicate 3 x = [x, x, x]" for x :: mmio by (simp add: numeral_eq_Suc)
  ultimately show ?thesis unfolding k(1)
    by (simp add: polls_def reg_read_def reg_write_def reg_addr_def demo_platform_def demo_serial_def
        PHYS_TO_VIRT_def UART_LSR_def UART_THR_def)
qed

end
