(* ===== verification/PrintkTypes.thy ===== *)
theory PrintkTypes
  imports PrintkProps
begin

text \<open>
  Types for formats: the kinds of the arguments that a format consumes.  Printing with arguments of these
  kinds never goes wrong.  \<open>well_typed\<close> checks a string literal by evaluation; the pieces that
  \<open>parse_pieces\<close> guesses are checked against the literal, so nothing rests on the guess.
\<close>

section \<open>Kinds\<close>

datatype arg_kind = A_number | A_string

definition spec_kinds :: "u8 \<Rightarrow> arg_kind list" where
  "spec_kinds c = (if c = chr (CHR ''s'') then [A_string]
     else if c \<in> set (map chr ''cdiuxXp'') then [A_number] else [])"

fun arity :: "piece list \<Rightarrow> arg_kind list" where
  "arity [] = []"
| "arity (Plain c # ps) = arity ps"
| "arity (Spec zero w len c # ps) = spec_kinds c @ arity ps"

fun has_kind :: "printk_arg \<Rightarrow> arg_kind \<Rightarrow> bool" where
  "has_kind (Val a) A_number \<longleftrightarrow> True"
| "has_kind (Str s) A_string \<longleftrightarrow> (case s of None \<Rightarrow> True | Some s \<Rightarrow> \<exists>xs. cstr s 0 xs \<and> length xs < 2 ^ 64)"
| "has_kind _ _ \<longleftrightarrow> False"

lemma has_kind_Val [simp]: "has_kind (Val a) k \<longleftrightarrow> k = A_number"
  by (cases k) simp_all

lemma has_kind_Str: "has_kind (Str s) k \<longleftrightarrow> k = A_string \<and> (\<forall>b. s = Some b \<longrightarrow> (\<exists>xs. cstr b 0 xs \<and> length xs < 2 ^ 64))"
  by (cases k; cases s) simp_all

lemma has_kind_lit: "0 \<notin> set (map chr x) \<Longrightarrow> length x < 2 ^ 64 \<Longrightarrow> has_kind (Str (Some (lit x))) A_string"
  using cstr_lit [of x] by (fastforce simp: text_bytes_def has_kind_Str)

declare has_kind.simps [simp del]

lemma has_kind_arg: "has_kind a k \<Longrightarrow> \<exists>t. arg_is a t \<and> (k = A_number \<longrightarrow> (\<exists>n. t = Number n)) \<and> (k = A_string \<longrightarrow> (\<exists>x. t = Text x))"
proof (cases a)
  case (Str s)
  assume "has_kind a k"
  then show ?thesis using Str by (cases s) (auto simp: has_kind_Str intro: exI [of _ "Text None"] exI [of _ "Text (Some _)"])
qed (auto intro: exI [of _ "Number _"])

definition text_kind :: "text_arg \<Rightarrow> arg_kind \<Rightarrow> bool" where
  "text_kind t k \<longleftrightarrow> (k = A_number \<longrightarrow> (\<exists>n. t = Number n)) \<and> (k = A_string \<longrightarrow> (\<exists>x. t = Text x))"

lemma has_kind_args: "list_all2 has_kind args ks \<Longrightarrow> \<exists>ts. list_all2 arg_is args ts \<and> list_all2 text_kind ts ks"
proof (induction args ks rule: list_all2_induct)
  case (Cons a args k ks)
  obtain t where "arg_is a t" "text_kind t k" using has_kind_arg [OF Cons.hyps(1)] by (auto simp: text_kind_def)
  then show ?case using Cons.IH by (auto simp: list_all2_Cons1)
qed simp

lemma render_spec_typed:
  assumes "list_all2 text_kind ts (spec_kinds c @ ks)"
  shows "\<exists>t ts'. render_spec zero w len c ts = Some (t, ts') \<and> list_all2 text_kind ts' ks"
  using assms by (auto simp: spec_kinds_def render_spec_def Let_def list_all2_Cons2 text_kind_def split: if_splits)

lemma render_typed: "list_all2 text_kind ts (arity ps) \<Longrightarrow> \<exists>t. render ps ts = Some t"
proof (induction ps arbitrary: ts)
  case (Cons p ps)
  show ?case
  proof (cases p)
    case (Spec zero w len c)
    then obtain t ts' where "render_spec zero w len c ts = Some (t, ts')" "list_all2 text_kind ts' (arity ps)"
      using render_spec_typed [of ts c "arity ps" zero w len] Cons.prems by auto
    then show ?thesis using Cons.IH [of ts'] Spec by auto
  next
    case (Plain c)
    then show ?thesis using Cons.IH [of ts] Cons.prems by auto
  qed
qed simp

section \<open>Literals\<close>

fun parse_len :: "u8 list \<Rightarrow> printk_length \<times> u8 list" where
  "parse_len (c # cs) =
     (if c = 104 then (if take 1 cs = [104] then (PRINTK_LEN_CHAR, tl cs) else (PRINTK_LEN_SHORT, cs))
      else if c = 108 then (if take 1 cs = [108] then (PRINTK_LEN_LLONG, tl cs) else (PRINTK_LEN_LONG, cs))
      else if c = 122 then (PRINTK_LEN_SIZE, cs)
      else if c = 116 then (PRINTK_LEN_PTRDIFF, cs)
      else (PRINTK_LEN_DEFAULT, c # cs))"
| "parse_len [] = (PRINTK_LEN_DEFAULT, [])"

fun parse_pieces :: "nat \<Rightarrow> u8 list \<Rightarrow> piece list" where
  "parse_pieces (Suc n) (c # cs) =
     (if c \<noteq> 37 then Plain c # parse_pieces n cs
      else
        let zero = (take 1 cs = [48]); cs = (if zero then tl cs else cs);
            w = foldl (\<lambda>w c. w * 10 + (unat c - 48)) 0 (takeWhile digit_char cs);
            (len, cs) = parse_len (dropWhile digit_char cs)
        in case cs of [] \<Rightarrow> [] | c # cs \<Rightarrow> Spec zero w len c # parse_pieces n cs)"
| "parse_pieces _ _ = []"

text \<open>For evaluation: the bound on the width as an integer.\<close>

lemma wf_piece_code [code]:
  "wf_piece (Plain c) \<longleftrightarrow> c \<noteq> chr (CHR ''%'')"
  "wf_piece (Spec zero w len c) \<longleftrightarrow> int w < 4294967296 \<and> conversion_for len c"
  by simp_all

definition well_typed :: "string \<Rightarrow> arg_kind list \<Rightarrow> bool" where
  "well_typed f ks \<longleftrightarrow> (let t = map chr f; ps = parse_pieces (length t) t in
     concat (map unparse ps) = t \<and> 0 \<notin> set t \<and> list_all wf_piece ps \<and> arity ps = ks)"

lemma well_typedE:
  assumes "well_typed f ks"
  obtains ps where "concat (map unparse ps) = map chr f" "0 \<notin> set (map chr f)" "list_all wf_piece ps" "arity ps = ks"
  using assms by (auto simp: well_typed_def Let_def)

lemma well_typed_text:
  assumes "well_typed f ks" "list_all2 has_kind args ks" "length f < 2 ^ 64"
  obtains ps targs t where "cstr (lit f) 0 (concat (map unparse ps))" "list_all wf_piece ps"
    "list_all2 arg_is args targs" "render ps targs = Some t"
proof -
  obtain ps where ps: "concat (map unparse ps) = map chr f" "0 \<notin> set (map chr f)" "list_all wf_piece ps" "arity ps = ks"
    using assms(1) by (rule well_typedE)
  obtain ts where ts: "list_all2 arg_is args ts" "list_all2 text_kind ts ks" using has_kind_args [OF assms(2)] by blast
  obtain t where "render ps ts = Some t" using render_typed [of ts ps] ts(2) ps(4) by auto
  moreover have "\<forall>c\<in>set f. (chr c :: u8) \<noteq> 0" using ps(2) by (force simp: image_iff)
  then have "cstr (lit f) 0 (concat (map unparse ps))" using cstr_lit [of f] assms(3) ps(1) by (simp add: text_bytes_def)
  ultimately show ?thesis using that ps(3) ts(1) by blast
qed

text \<open>
  C35: Formats are types: \<open>kprintf\<close> with arguments of the kinds that its format asks for always returns,
  never reads an argument that is not there and never leaves the format or a string; it adds to the
  output as many bytes as it returns and leaves the clock alone.
\<close>

theorem kprintf_type_safe:
  assumes "cstr fmt 0 (concat (map unparse ps))" "list_all wf_piece ps" "list_all2 has_kind args (arity ps)"
  shows "\<exists>out. kprintf uptime fmt args cn = Some (of_nat (length out), cn\<lparr>printed := printed cn @ out\<rparr>)"
proof -
  obtain ts where ts: "list_all2 arg_is args ts" "list_all2 text_kind ts (arity ps)"
    using has_kind_args [OF assms(3)] by blast
  obtain t where "render ps ts = Some t" using render_typed [OF ts(2)] by blast
  from printk_text(1) [OF assms(1,2) ts(1) this] show ?thesis by blast
qed

theorem kprintf_type_safe_witness:
  "\<exists>out. kprintf (\<lambda>_. 0) (lit ''t0: 0x%016lx <%s>'') [Val 42, Str (Some (lit ''breakpoint''))] \<lparr>printed = [], time_reads = 0\<rparr> =
     Some (of_nat (length out), \<lparr>printed = out, time_reads = 0\<rparr>)"
proof -
  have "well_typed ''t0: 0x%016lx <%s>'' [A_number, A_string]" by code_simp
  then obtain ps where ps: "concat (map unparse ps) = map chr ''t0: 0x%016lx <%s>''" "list_all wf_piece ps"
    "arity ps = [A_number, A_string]" by (rule well_typedE)
  have "cstr (lit ''t0: 0x%016lx <%s>'') 0 (text_bytes ''t0: 0x%016lx <%s>'')" by (rule cstr_lit) simp_all
  then have f: "cstr (lit ''t0: 0x%016lx <%s>'') 0 (concat (map unparse ps))" unfolding ps(1) text_bytes_def .
  have "has_kind (Str (Some (lit ''breakpoint''))) A_string" by (rule has_kind_lit) simp_all
  then have "list_all2 has_kind [Val 42, Str (Some (lit ''breakpoint''))] (arity ps)" by (simp add: ps(3))
  from kprintf_type_safe [OF f ps(2) this, of "\<lambda>_. 0" "\<lparr>printed = [], time_reads = 0\<rparr>"] show ?thesis by auto
qed

end
