(* ===== verification/Terminal.thy ===== *)
theory Terminal
  imports UartProps PrintkTypes
begin

text \<open>
  Where the characters go: \<open>printk_putc\<close> of \<open>kernel/src/main.c\<close>, and the log functions over it.

  \<open>printk.c\<close> reads nothing back from \<open>printk_putc\<close>, so the characters that a call of \<open>klog\<close> hands over, in
  their order, followed by \<open>terminal_putc\<close> on each, are that call.  The firmware's console and the
  framebuffer terminal (a vendored library) are the lists of the bytes they were given; the latter is
  \<open>None\<close> while \<open>g_ft_ctx\<close> is NULL.
\<close>

section \<open>The operations\<close>

record terminal = serial +
  sbi_console :: "u8 list"
  g_ft_ctx :: "u8 list option"
  clock :: ktime
  clock_reads :: nat

definition sbi_legacy_console_putchar :: "u8 \<Rightarrow> 'a terminal_scheme \<Rightarrow> 'a terminal_scheme" where
  "sbi_legacy_console_putchar c s = s\<lparr>sbi_console := sbi_console s @ [c]\<rparr>"

definition terminal_putc :: "platform \<Rightarrow> u8 \<Rightarrow> 'a terminal_scheme \<Rightarrow> 'a terminal_scheme option" where
  "terminal_putc p c s = do {
     s \<leftarrow> (if uart_is_ready s then uart_putc p c s else Some (sbi_legacy_console_putchar c s));
     Some (if g_ft_ctx s \<noteq> None then s\<lparr>g_ft_ctx := map_option (\<lambda>t. t @ [c]) (g_ft_ctx s)\<rparr> else s) }"

text \<open>The time that \<open>ktime_get_ms\<close> gives at the \<open>n\<close>-th reading of the clock.\<close>

definition uptime_ms :: "platform \<Rightarrow> 'a terminal_scheme \<Rightarrow> nat \<Rightarrow> u64" where
  "uptime_ms p s n = ktime_get_ms (time_register p n) (clock s)"

text \<open>A call of \<open>klog\<close>, with the characters delivered.\<close>

definition log_bytes :: "platform \<Rightarrow> bytes \<Rightarrow> printk_arg list \<Rightarrow> 'a terminal_scheme \<Rightarrow> 'a terminal_scheme option" where
  "log_bytes p fmt args s = do {
     (n, cn) \<leftarrow> klog (uptime_ms p s) fmt args \<lparr>printed = [], time_reads = clock_reads s\<rparr>;
     for_each (terminal_putc p) (printed cn) (s\<lparr>clock_reads := time_reads cn\<rparr>) }"

abbreviation log :: "platform \<Rightarrow> string \<Rightarrow> printk_arg list \<Rightarrow> 'a terminal_scheme \<Rightarrow> 'a terminal_scheme option" where
  "log p fmt \<equiv> log_bytes p (lit fmt)"

section \<open>The terminal is a sink of bytes\<close>

definition terminal_up :: "platform \<Rightarrow> 'a terminal_scheme \<Rightarrow> bool" where
  "terminal_up p s \<longleftrightarrow> (uart_ready s \<longrightarrow> port_up p s)"

text \<open>The bytes go to the UART once it is ready, before that to the firmware, and always to the framebuffer.\<close>

definition terminal_took :: "platform \<Rightarrow> u8 list \<Rightarrow> 'a terminal_scheme \<Rightarrow> 'a terminal_scheme \<Rightarrow> bool" where
  "terminal_took p cs s s' \<longleftrightarrow> (\<exists>h. s' = s\<lparr>accesses := accesses s @ h,
     sbi_console := sbi_console s @ (if uart_ready s then [] else cs),
     g_ft_ctx := map_option (\<lambda>t. t @ cs) (g_ft_ctx s)\<rparr> \<and>
   (if uart_ready s then written_at (reg_addr p (uart0 s) UART_THR) h = cs else h = []))"

lemma terminal_putc_takes:
  assumes "terminal_up p s"
  shows "\<exists>s'. terminal_putc p c s = Some s' \<and> terminal_took p [c] s s'"
proof (cases "uart_ready s")
  case True
  then obtain k where "uart_putc p c s =
      Some (s\<lparr>accesses := accesses s @ polls p (uart0 s) k @ [reg_write p (uart0 s) UART_THR c]\<rparr>)"
    using uart_putc_accesses [of p s c] assms by (auto simp: terminal_up_def)
  then show ?thesis using True
    by (cases "g_ft_ctx s") (auto simp: terminal_putc_def uart_is_ready_def terminal_took_def
        intro!: exI [of _ "polls p (uart0 s) k @ [reg_write p (uart0 s) UART_THR c]"])
next
  case False
  then show ?thesis
    by (cases "g_ft_ctx s") (simp_all add: terminal_putc_def uart_is_ready_def terminal_took_def sbi_legacy_console_putchar_def)
qed

interpretation tty: byte_sink "terminal_putc p" "terminal_up p" "terminal_took p"
proof unfold_locales
  show "terminal_took p [] s s" for s :: "'a terminal_scheme"
    by (cases "g_ft_ctx s") (auto simp: terminal_took_def written_at_def intro!: exI [of _ "[]"])
  show "terminal_took p cs s t \<Longrightarrow> terminal_took p ds t u \<Longrightarrow> terminal_took p (cs @ ds) s u"
    for cs ds and s t u :: "'a terminal_scheme"
    by (cases "g_ft_ctx s") (auto simp: terminal_took_def)
  show "terminal_took p cs s t \<Longrightarrow> terminal_up p s \<Longrightarrow> terminal_up p t" for cs and s t :: "'a terminal_scheme"
    by (auto simp: terminal_took_def terminal_up_def port_up_def)
  show "terminal_up p s \<Longrightarrow> \<exists>s'. terminal_putc p c s = Some s' \<and> terminal_took p [c] s s'"
    for c and s :: "'a terminal_scheme"
    by (rule terminal_putc_takes)
qed

section \<open>Log lines arrive\<close>

lemma log_line_delivered:
  assumes "terminal_up p s" "cstr fmt 0 (concat (map unparse ps))" "list_all wf_piece ps"
    "list_all2 arg_is args targs" "render ps targs = Some t"
  shows "\<exists>s'. log_bytes p fmt args s = Some s' \<and> terminal_up p s' \<and>
    terminal_took p (log_line (uptime_ms p s) (clock_reads s) t) (s\<lparr>clock_reads := clock_reads s + stamps True t\<rparr>) s'"
proof -
  have "terminal_up p (s\<lparr>clock_reads := clock_reads s + stamps True t\<rparr>)"
    using assms(1) by (simp add: terminal_up_def port_up_def)
  from tty.put_all [OF this, of "log_line (uptime_ms p s) (clock_reads s) t"] show ?thesis
    using klog_text [OF assms(2-5), of "uptime_ms p s" "\<lparr>printed = [], time_reads = clock_reads s\<rparr>"]
    by (simp add: log_bytes_def)
qed

text \<open>
  C37: Refinement: a log call on the running machine implements the abstract log, which only appends the
  stamped line to what was printed.  With the UART ready the bytes written to its transmit register are
  exactly the stamp, the text and the line end, in this order; before that the firmware's console gets
  exactly these bytes and no register is touched; a framebuffer terminal, when there is one, gets them
  too.  Nothing else changes except that the clock was read once.
\<close>

theorem log_refines:
  assumes up: "uart_ready s \<Longrightarrow> hhdm_response (loader p) \<noteq> None \<and> unat (reg_shift (uart0 s)) < 64"
    and fmt: "cstr fmt 0 (concat (map unparse ps))" "list_all wf_piece ps" "list_all2 arg_is args targs"
      "render ps targs = Some t" "t \<noteq> []" "10 \<notin> set t"
  shows "\<exists>out h. out = stamp_text (uptime_ms p s (clock_reads s)) @ t @ [13, 10] \<and>
    log_bytes p fmt args s = Some (s\<lparr>clock_reads := clock_reads s + 1, accesses := accesses s @ h,
      sbi_console := sbi_console s @ (if uart_ready s then [] else out),
      g_ft_ctx := map_option (\<lambda>ft. ft @ out) (g_ft_ctx s)\<rparr>) \<and>
    (if uart_ready s then written_at (reg_addr p (uart0 s) UART_THR) h = out else h = [])"
proof -
  have tu: "terminal_up p s" using up by (simp add: terminal_up_def port_up_def)
  have l: "log_line (uptime_ms p s) (clock_reads s) t = stamp_text (uptime_ms p s (clock_reads s)) @ t @ [13, 10]"
    "stamps True t = 1" using log_line_plain [OF fmt(5,6)] by simp_all
  from log_line_delivered [OF tu fmt(1-4)] show ?thesis unfolding l
    by (cases "g_ft_ctx s") (auto simp: terminal_took_def)
qed

definition demo_terminal :: terminal where
  "demo_terminal = \<lparr>uart0 = uart0 demo_serial, uart_ready = True, accesses = [], sbi_console = [],
     g_ft_ctx = Some [], clock = \<lparr>ktime_boot_ticks = 0, ktime_tick_freq = 10000000, ktime_ready = True\<rparr>, clock_reads = 123450000\<rparr>"

theorem log_refines_witness:
  "\<exists>h. log demo_platform ''hi'' [] demo_terminal = Some (demo_terminal\<lparr>clock_reads := 123450001, accesses := h,
     g_ft_ctx := Some (text_bytes ''[12.345] hi'' @ [13, 10])\<rparr>) \<and>
   written_at 0xffff800010000000 h = text_bytes ''[12.345] hi'' @ [13, 10]"
proof -
  let ?ps = "[Plain (chr (CHR ''h'')), Plain (chr (CHR ''i''))]" and ?s = demo_terminal
  have "concat (map unparse ?ps) = text_bytes ''hi''" by (simp add: text_bytes_def)
  then have 1: "cstr (lit ''hi'') 0 (concat (map unparse ?ps))" by (simp add: cstr_lit)
  have 2: "list_all wf_piece ?ps" "list_all2 arg_is [] []" "render ?ps [] = Some (text_bytes ''hi'')"
    "text_bytes ''hi'' \<noteq> []" "10 \<notin> set (text_bytes ''hi'')"
    by (simp_all add: text_bytes_def)
  have up: "hhdm_response (loader demo_platform) \<noteq> None" "unat (reg_shift (uart0 ?s)) < 64"
    by (simp_all add: demo_platform_def demo_terminal_def demo_serial_def)
  have s: "uart_ready ?s" "accesses ?s = []" "g_ft_ctx ?s = Some []" "sbi_console ?s = []" "clock_reads ?s = 123450000"
    "reg_addr demo_platform (uart0 ?s) UART_THR = 0xffff800010000000"
    by (simp_all add: demo_terminal_def demo_serial_def demo_platform_def reg_addr_def PHYS_TO_VIRT_def UART_THR_def)
  have "uptime_ms demo_platform ?s 123450000 = 12345"
    by (simp add: uptime_ms_def demo_platform_def demo_terminal_def ktime_get_ms_def ktime_get_ticks_def ktime_get_freq_def)
  moreover have "stamp_text 12345 = text_bytes ''[12.345] ''"
    by (simp add: stamp_text_def number_text.simps digit_def text_bytes_def)
  ultimately have t: "stamp_text (uptime_ms demo_platform ?s 123450000) @ text_bytes ''hi'' @ [13, 10] =
      text_bytes ''[12.345] hi'' @ [13, 10]" by (simp add: text_bytes_def)
  from log_refines [OF _ 1 2, of ?s demo_platform] up obtain h where
    "log demo_platform ''hi'' [] ?s = Some (?s\<lparr>clock_reads := 123450000 + 1, accesses := [] @ h, sbi_console := [],
       g_ft_ctx := Some (text_bytes ''[12.345] hi'' @ [13, 10])\<rparr>)"
    "written_at 0xffff800010000000 h = text_bytes ''[12.345] hi'' @ [13, 10]"
    unfolding s t by (auto simp: s(1))
  moreover have "?s\<lparr>clock_reads := x, accesses := y, sbi_console := [], g_ft_ctx := z\<rparr> =
      ?s\<lparr>clock_reads := x, accesses := y, g_ft_ctx := z\<rparr>" for x y z by (simp add: demo_terminal_def)
  ultimately show ?thesis by auto
qed

end
