(* ===== verification/Csr.thy ===== *)
theory Csr
  imports Prelude
begin

text \<open>
  \<open>kernel/src/platform/generic/csr.h\<close>: the control and status registers.  The macros take the name of a
  register and are one instruction each (\<open>csrr\<close>, \<open>csrw\<close>, \<open>csrrw\<close>, \<open>csrrs\<close>, \<open>csrs\<close>, \<open>csrrc\<close>, \<open>csrc\<close>);
  they are modelled on a file of registers in which every register keeps what is written to it.  The
  time register, which changes by itself, is an argument of the definitions that read it.
\<close>

datatype csr = Sstatus | Sie | Stvec | Sepc | Scause | Stval

type_synonym csr_file = "csr \<Rightarrow> u64"

definition csr_read :: "csr \<Rightarrow> csr_file \<Rightarrow> u64" where
  "csr_read r c = c r"

definition csr_write :: "csr \<Rightarrow> u64 \<Rightarrow> csr_file \<Rightarrow> csr_file" where
  "csr_write r v c = c(r := v)"

definition csr_swap :: "csr \<Rightarrow> u64 \<Rightarrow> csr_file \<Rightarrow> u64 \<times> csr_file" where
  "csr_swap r v c = (c r, c(r := v))"

definition csr_read_set :: "csr \<Rightarrow> u64 \<Rightarrow> csr_file \<Rightarrow> u64 \<times> csr_file" where
  "csr_read_set r m c = (c r, c(r := c r OR m))"

definition csr_set :: "csr \<Rightarrow> u64 \<Rightarrow> csr_file \<Rightarrow> csr_file" where
  "csr_set r m c = c(r := c r OR m)"

definition csr_read_clear :: "csr \<Rightarrow> u64 \<Rightarrow> csr_file \<Rightarrow> u64 \<times> csr_file" where
  "csr_read_clear r m c = (c r, c(r := c r AND NOT m))"

definition csr_clear :: "csr \<Rightarrow> u64 \<Rightarrow> csr_file \<Rightarrow> csr_file" where
  "csr_clear r m c = c(r := c r AND NOT m)"

section \<open>What the operations do to a register\<close>

lemma csr_read_after [simp]:
  "csr_read r (csr_write q v c) = (if r = q then v else csr_read r c)"
  "csr_read r (csr_set q m c) = (if r = q then csr_read r c OR m else csr_read r c)"
  "csr_read r (csr_clear q m c) = (if r = q then csr_read r c AND NOT m else csr_read r c)"
  by (simp_all add: csr_read_def csr_write_def csr_set_def csr_clear_def)

text \<open>The reading forms give the old value and do what the plain forms do.\<close>

lemma csr_swap_write: "csr_swap r v c = (csr_read r c, csr_write r v c)"
  by (simp add: csr_swap_def csr_read_def csr_write_def)

lemma csr_read_set_set: "csr_read_set r m c = (csr_read r c, csr_set r m c)"
  by (simp add: csr_read_set_def csr_read_def csr_set_def)

lemma csr_read_clear_clear: "csr_read_clear r m c = (csr_read r c, csr_clear r m c)"
  by (simp add: csr_read_clear_def csr_read_def csr_clear_def)

lemma csr_bits:
  "bit (csr_read r (csr_set r m c)) n \<longleftrightarrow> bit (csr_read r c) n \<or> bit m n"
  "bit (csr_read r (csr_clear r m c)) n \<longleftrightarrow> bit (csr_read r c) n \<and> \<not> bit m n"
proof -
  show "bit (csr_read r (csr_set r m c)) n \<longleftrightarrow> bit (csr_read r c) n \<or> bit m n" by (simp add: bit_simps)
  show "bit (csr_read r (csr_clear r m c)) n \<longleftrightarrow> bit (csr_read r c) n \<and> \<not> bit m n"
    using bit_imp_le_length [of "csr_read r c" n] by (auto simp: bit_simps)
qed

text \<open>
  Code that masks bits and later puts the register back, as a critical section does, leaves the file as
  it was.
\<close>

lemma csr_mask_restore: "(let (old, c') = csr_read_clear r m c in csr_write r old c') = c"
  by (simp add: csr_read_clear_def csr_write_def)

end
