(* ===== verification/Trap.thy ===== *)
theory Trap
  imports Terminal Csr
begin

text \<open>
  \<open>kernel/src/platform/generic/trap.c\<close> and \<open>trap.h\<close>: the trap frame, its report and the handlers.
\<close>

section \<open>The frame\<close>

record trap_frame =
  tf_ra :: u64  tf_sp :: u64  tf_gp :: u64  tf_tp :: u64
  tf_t0 :: u64  tf_t1 :: u64  tf_t2 :: u64
  tf_s0 :: u64  tf_s1 :: u64
  tf_a0 :: u64  tf_a1 :: u64  tf_a2 :: u64  tf_a3 :: u64
  tf_a4 :: u64  tf_a5 :: u64  tf_a6 :: u64  tf_a7 :: u64
  tf_s2 :: u64  tf_s3 :: u64  tf_s4 :: u64  tf_s5 :: u64  tf_s6 :: u64
  tf_s7 :: u64  tf_s8 :: u64  tf_s9 :: u64  tf_s10 :: u64  tf_s11 :: u64
  tf_t3 :: u64  tf_t4 :: u64  tf_t5 :: u64  tf_t6 :: u64
  tf_sstatus :: u64  tf_sepc :: u64  tf_scause :: u64  tf_stval :: u64
  tf_padding :: u64

definition SCAUSE_INTERRUPT_BIT :: u64 where "SCAUSE_INTERRUPT_BIT = push_bit 63 1"
definition SCAUSE_CAUSE_MASK :: u64 where "SCAUSE_CAUSE_MASK = NOT SCAUSE_INTERRUPT_BIT"

definition IRQ_S_SOFTWARE :: u64 where "IRQ_S_SOFTWARE = 1"
definition IRQ_S_TIMER :: u64 where "IRQ_S_TIMER = 5"
definition IRQ_S_EXTERNAL :: u64 where "IRQ_S_EXTERNAL = 9"

definition EXC_INST_MISALIGNED :: u64 where "EXC_INST_MISALIGNED = 0"
definition EXC_INST_ACCESS :: u64 where "EXC_INST_ACCESS = 1"
definition EXC_ILLEGAL_INST :: u64 where "EXC_ILLEGAL_INST = 2"
definition EXC_BREAKPOINT :: u64 where "EXC_BREAKPOINT = 3"
definition EXC_LOAD_MISALIGNED :: u64 where "EXC_LOAD_MISALIGNED = 4"
definition EXC_LOAD_ACCESS :: u64 where "EXC_LOAD_ACCESS = 5"
definition EXC_STORE_MISALIGNED :: u64 where "EXC_STORE_MISALIGNED = 6"
definition EXC_STORE_ACCESS :: u64 where "EXC_STORE_ACCESS = 7"
definition EXC_ECALL_FROM_U :: u64 where "EXC_ECALL_FROM_U = 8"
definition EXC_ECALL_FROM_S :: u64 where "EXC_ECALL_FROM_S = 9"
definition EXC_INST_PAGE_FAULT :: u64 where "EXC_INST_PAGE_FAULT = 12"
definition EXC_LOAD_PAGE_FAULT :: u64 where "EXC_LOAD_PAGE_FAULT = 13"
definition EXC_STORE_PAGE_FAULT :: u64 where "EXC_STORE_PAGE_FAULT = 15"

definition SSTATUS_SIE :: u64 where "SSTATUS_SIE = push_bit 1 1"
definition SSTATUS_SPP :: u64 where "SSTATUS_SPP = push_bit 8 1"
definition SIE_SSIE :: u64 where "SIE_SSIE = push_bit 1 1"
definition SIE_STIE :: u64 where "SIE_STIE = push_bit 5 1"
definition SIE_SEIE :: u64 where "SIE_SEIE = push_bit 9 1"
definition STVEC_MODE_DIRECT :: u64 where "STVEC_MODE_DIRECT = 0"
definition STVEC_MODE_MASK :: u64 where "STVEC_MODE_MASK = 0x3"

lemmas trap_causes = IRQ_S_SOFTWARE_def IRQ_S_TIMER_def IRQ_S_EXTERNAL_def EXC_INST_MISALIGNED_def EXC_INST_ACCESS_def
  EXC_ILLEGAL_INST_def EXC_BREAKPOINT_def EXC_LOAD_MISALIGNED_def EXC_LOAD_ACCESS_def EXC_STORE_MISALIGNED_def
  EXC_STORE_ACCESS_def EXC_ECALL_FROM_U_def EXC_ECALL_FROM_S_def EXC_INST_PAGE_FAULT_def EXC_LOAD_PAGE_FAULT_def
  EXC_STORE_PAGE_FAULT_def

section \<open>Names\<close>

definition trap_interrupt_name :: "u64 \<Rightarrow> string" where
  "trap_interrupt_name cause =
     (if cause = IRQ_S_SOFTWARE then ''supervisor software interrupt''
      else if cause = IRQ_S_TIMER then ''supervisor timer interrupt''
      else if cause = IRQ_S_EXTERNAL then ''supervisor external interrupt''
      else ''unknown supervisor interrupt'')"

definition trap_exception_name :: "u64 \<Rightarrow> string" where
  "trap_exception_name cause =
     (if cause = EXC_INST_MISALIGNED then ''instruction address misaligned''
      else if cause = EXC_INST_ACCESS then ''instruction access fault''
      else if cause = EXC_ILLEGAL_INST then ''illegal instruction''
      else if cause = EXC_BREAKPOINT then ''breakpoint''
      else if cause = EXC_LOAD_MISALIGNED then ''load address misaligned''
      else if cause = EXC_LOAD_ACCESS then ''load access fault''
      else if cause = EXC_STORE_MISALIGNED then ''store/AMO address misaligned''
      else if cause = EXC_STORE_ACCESS then ''store/AMO access fault''
      else if cause = EXC_ECALL_FROM_U then ''environment call from U-mode''
      else if cause = EXC_ECALL_FROM_S then ''environment call from S-mode''
      else if cause = EXC_INST_PAGE_FAULT then ''instruction page fault''
      else if cause = EXC_LOAD_PAGE_FAULT then ''load page fault''
      else if cause = EXC_STORE_PAGE_FAULT then ''store/AMO page fault''
      else ''unknown exception'')"

definition trap_mode_name :: "trap_frame \<Rightarrow> string" where
  "trap_mode_name tf = (if tf_sstatus tf AND SSTATUS_SPP \<noteq> 0 then ''S-mode'' else ''U-mode'')"

section \<open>The report\<close>

definition trap_dump_frame :: "platform \<Rightarrow> trap_frame \<Rightarrow> 'a terminal_scheme \<Rightarrow> 'a terminal_scheme option" where
  "trap_dump_frame p tf s = do {
     s \<leftarrow> log p ''mode:    %s'' [Str (Some (lit (trap_mode_name tf)))] s;
     s \<leftarrow> log p ''sepc:    0x%016lx'' [Val (tf_sepc tf)] s;
     s \<leftarrow> log p ''sstatus: 0x%016lx'' [Val (tf_sstatus tf)] s;
     s \<leftarrow> log p ''scause:  0x%016lx'' [Val (tf_scause tf)] s;
     s \<leftarrow> log p ''stval:   0x%016lx'' [Val (tf_stval tf)] s;
     s \<leftarrow> log p ''ra: 0x%016lx  sp: 0x%016lx  gp: 0x%016lx  tp: 0x%016lx''
       [Val (tf_ra tf), Val (tf_sp tf), Val (tf_gp tf), Val (tf_tp tf)] s;
     s \<leftarrow> log p ''t0: 0x%016lx  t1: 0x%016lx  t2: 0x%016lx'' [Val (tf_t0 tf), Val (tf_t1 tf), Val (tf_t2 tf)] s;
     s \<leftarrow> log p ''s0: 0x%016lx  s1: 0x%016lx'' [Val (tf_s0 tf), Val (tf_s1 tf)] s;
     s \<leftarrow> log p ''a0: 0x%016lx  a1: 0x%016lx  a2: 0x%016lx  a3: 0x%016lx''
       [Val (tf_a0 tf), Val (tf_a1 tf), Val (tf_a2 tf), Val (tf_a3 tf)] s;
     s \<leftarrow> log p ''a4: 0x%016lx  a5: 0x%016lx  a6: 0x%016lx  a7: 0x%016lx''
       [Val (tf_a4 tf), Val (tf_a5 tf), Val (tf_a6 tf), Val (tf_a7 tf)] s;
     s \<leftarrow> log p ''s2: 0x%016lx  s3: 0x%016lx  s4: 0x%016lx  s5: 0x%016lx''
       [Val (tf_s2 tf), Val (tf_s3 tf), Val (tf_s4 tf), Val (tf_s5 tf)] s;
     s \<leftarrow> log p ''s6: 0x%016lx  s7: 0x%016lx  s8: 0x%016lx  s9: 0x%016lx''
       [Val (tf_s6 tf), Val (tf_s7 tf), Val (tf_s8 tf), Val (tf_s9 tf)] s;
     s \<leftarrow> log p ''s10:0x%016lx  s11:0x%016lx'' [Val (tf_s10 tf), Val (tf_s11 tf)] s;
     log p ''t3: 0x%016lx  t4: 0x%016lx  t5: 0x%016lx  t6: 0x%016lx''
       [Val (tf_t3 tf), Val (tf_t4 tf), Val (tf_t5 tf), Val (tf_t6 tf)] s }"

text \<open>The result is the state in which the machine waits for ever; the frame and the format may be NULL.\<close>

definition kpanic :: "platform \<Rightarrow> trap_frame option \<Rightarrow> string option \<Rightarrow> printk_arg list \<Rightarrow>
    'a terminal_scheme \<Rightarrow> 'a terminal_scheme option" where
  "kpanic p tf fmt args s = do {
     let raw = (case tf of Some tf \<Rightarrow> tf_scause tf | None \<Rightarrow> 0);
     let is_interrupt = raw AND SCAUSE_INTERRUPT_BIT;
     let cause = raw AND SCAUSE_CAUSE_MASK;
     s \<leftarrow> log p '''' [] s;
     s \<leftarrow> log p ''------------[ kernel panic ]------------'' [] s;
     s \<leftarrow> (case fmt of Some fmt \<Rightarrow> log p fmt args s | None \<Rightarrow> Some s);
     s \<leftarrow> (case tf of
        Some tf \<Rightarrow> do {
          s \<leftarrow> log p ''trap: %s cause=%lu <%s>''
            [Str (Some (lit (if is_interrupt \<noteq> 0 then ''interrupt'' else ''exception''))), Val cause,
             Str (Some (lit (if is_interrupt \<noteq> 0 then trap_interrupt_name cause else trap_exception_name cause)))] s;
          trap_dump_frame p tf s }
      | None \<Rightarrow> Some s);
     log p ''----------------------------------------'' [] s }"

section \<open>The handlers\<close>

text \<open>A trap either goes back to the interrupted program, with the frame as it is left, or stops for good.\<close>

datatype 's trap_outcome = Resume trap_frame 's | Stop trap_frame 's

definition handle_interrupt :: "platform \<Rightarrow> trap_frame \<Rightarrow> u64 \<Rightarrow> 'a terminal_scheme \<Rightarrow> 'a terminal_scheme option" where
  "handle_interrupt p tf cause s =
     (if cause = IRQ_S_TIMER then Some s
      else log p ''trap: ignoring unhandled interrupt cause=%lu <%s> sepc=0x%lx stval=0x%lx''
        [Val cause, Str (Some (lit (trap_interrupt_name cause))), Val (tf_sepc tf), Val (tf_stval tf)] s)"

definition stop :: "platform \<Rightarrow> trap_frame \<Rightarrow> string \<Rightarrow> printk_arg list \<Rightarrow>
    'a terminal_scheme \<Rightarrow> 'a terminal_scheme trap_outcome option" where
  "stop p tf fmt args s = do { s \<leftarrow> kpanic p (Some tf) (Some fmt) args s; Some (Stop tf s) }"

definition handle_exception :: "platform \<Rightarrow> trap_frame \<Rightarrow> u64 \<Rightarrow> 'a terminal_scheme \<Rightarrow> 'a terminal_scheme trap_outcome option" where
  "handle_exception p tf cause s =
     (if cause = EXC_ECALL_FROM_U then
        let tf = tf\<lparr>tf_sepc := tf_sepc tf + 4\<rparr> in stop p tf ''U-mode ecall'' [] s
      else if cause = EXC_ECALL_FROM_S then
        let tf = tf\<lparr>tf_sepc := tf_sepc tf + 4\<rparr> in stop p tf ''S-mode ecall'' [] s
      else if cause = EXC_BREAKPOINT then stop p tf ''breakpoint'' [] s
      else if cause = EXC_ILLEGAL_INST then stop p tf ''illegal instruction at sepc=0x%lx'' [Val (tf_sepc tf)] s
      else if cause = EXC_INST_PAGE_FAULT \<or> cause = EXC_LOAD_PAGE_FAULT \<or> cause = EXC_STORE_PAGE_FAULT then
        stop p tf ''page fault at sepc=0x%lx fault=0x%lx'' [Val (tf_sepc tf), Val (tf_stval tf)] s
      else if cause = EXC_INST_MISALIGNED \<or> cause = EXC_INST_ACCESS \<or> cause = EXC_LOAD_MISALIGNED \<or>
          cause = EXC_LOAD_ACCESS \<or> cause = EXC_STORE_MISALIGNED \<or> cause = EXC_STORE_ACCESS then
        stop p tf ''%s'' [Str (Some (lit (trap_exception_name cause)))] s
      else stop p tf ''unhandled exception cause=%lu'' [Val cause] s)"

definition trap_handler :: "platform \<Rightarrow> trap_frame \<Rightarrow> 'a terminal_scheme \<Rightarrow> 'a terminal_scheme trap_outcome option" where
  "trap_handler p tf s =
     (let raw = tf_scause tf; is_interrupt = raw AND SCAUSE_INTERRUPT_BIT; cause = raw AND SCAUSE_CAUSE_MASK in
      if is_interrupt \<noteq> 0 then do { s \<leftarrow> handle_interrupt p tf cause s; Some (Resume tf s) }
      else handle_exception p tf cause s)"

section \<open>Interrupts\<close>

definition trap_enable_interrupts :: "csr_file \<Rightarrow> csr_file" where
  "trap_enable_interrupts = csr_set Sstatus SSTATUS_SIE"

definition trap_disable_interrupts :: "csr_file \<Rightarrow> csr_file" where
  "trap_disable_interrupts = csr_clear Sstatus SSTATUS_SIE"

definition trap_enable_interrupt_sources :: "csr_file \<Rightarrow> csr_file" where
  "trap_enable_interrupt_sources = csr_set Sie (SIE_SSIE OR SIE_STIE OR SIE_SEIE)"

definition trap_disable_interrupt_sources :: "csr_file \<Rightarrow> csr_file" where
  "trap_disable_interrupt_sources = csr_clear Sie (SIE_SSIE OR SIE_STIE OR SIE_SEIE)"

definition trap_init :: "platform \<Rightarrow> u64 \<Rightarrow> csr_file \<Rightarrow> 'a terminal_scheme \<Rightarrow> (csr_file \<times> 'a terminal_scheme) option" where
  "trap_init p trap_entry c s = do {
     let stvec_value = (trap_entry AND NOT STVEC_MODE_MASK) OR STVEC_MODE_DIRECT;
     let c = trap_disable_interrupts c;
     let c = trap_disable_interrupt_sources c;
     let c = csr_write Stvec stvec_value c;
     s \<leftarrow> log p ''trap: stvec=0x%lx'' [Val (csr_read Stvec c)] s;
     Some (c, s) }"

end
