(* ===== verification/Hart.thy ===== *)
theory Hart
  imports Trap
begin

text \<open>
  \<open>kernel/src/platform/generic/trap.S\<close>: the code between the processor and \<open>trap_handler\<close>, on a machine
  with the thirty-one general registers, the control registers and the aligned 64-bit words of the stack.

  What the processor does when it takes a trap and on \<open>sret\<close> is the RISC-V privileged architecture,
  for an implementation with supervisor and user mode.  The call of \<open>trap_handler\<close> runs the model of
  the C function on the frame that \<open>a0\<close> points to; what the compiled code does to the registers and to
  the stack besides is an argument, \<open>callee\<close>.
\<close>

section \<open>The machine\<close>

datatype reg = Ra | Sp | Gp | Tp | T0 | T1 | T2 | S0 | S1
  | A0 | A1 | A2 | A3 | A4 | A5 | A6 | A7
  | S2 | S3 | S4 | S5 | S6 | S7 | S8 | S9 | S10 | S11 | T3 | T4 | T5 | T6

datatype privilege = User | Supervisor

record hart =
  pc :: u64
  mode :: privilege
  gpr :: "reg \<Rightarrow> u64"
  csr_regs :: csr_file
  stack :: "u64 \<Rightarrow> u64 option"

datatype instr = Addi reg reg u64 | Sd reg u64 reg | Ld reg u64 reg | Csrr reg csr | Csrw csr reg | Mv reg reg

text \<open>
  \<open>Sd r o b\<close> is \<open>sd r, o(b)\<close>, likewise \<open>Ld\<close>.  An address that is not aligned, or not memory, is \<open>None\<close>.
\<close>

definition aligned8 :: "u64 \<Rightarrow> bool" where
  "aligned8 a \<longleftrightarrow> 8 dvd unat a"

fun exec1 :: "instr \<Rightarrow> hart \<Rightarrow> hart option" where
  "exec1 (Addi d r i) h = Some (h\<lparr>gpr := (gpr h)(d := gpr h r + i)\<rparr>)"
| "exec1 (Sd r off b) h =
     (let a = gpr h b + off in
      if aligned8 a \<and> stack h a \<noteq> None then Some (h\<lparr>stack := (stack h)(a \<mapsto> gpr h r)\<rparr>) else None)"
| "exec1 (Ld r off b) h =
     (let a = gpr h b + off in
      if aligned8 a then do { x \<leftarrow> stack h a; Some (h\<lparr>gpr := (gpr h)(r := x)\<rparr>) } else None)"
| "exec1 (Csrr d c) h = Some (h\<lparr>gpr := (gpr h)(d := csr_read c (csr_regs h))\<rparr>)"
| "exec1 (Csrw c r) h = Some (h\<lparr>csr_regs := csr_write c (gpr h r) (csr_regs h)\<rparr>)"
| "exec1 (Mv d r) h = Some (h\<lparr>gpr := (gpr h)(d := gpr h r)\<rparr>)"

abbreviation exec :: "instr list \<Rightarrow> hart \<Rightarrow> hart option" where
  "exec \<equiv> for_each exec1"

section \<open>The code\<close>

definition TF_SIZE :: u64 where "TF_SIZE = 288"

definition trap_entry_save :: "instr list" where
  "trap_entry_save =
     [Addi Sp Sp (- TF_SIZE),
      Sd Ra 0 Sp, Sd Sp 8 Sp, Sd Gp 16 Sp, Sd Tp 24 Sp,
      Sd T0 32 Sp, Sd T1 40 Sp, Sd T2 48 Sp,
      Sd S0 56 Sp, Sd S1 64 Sp,
      Sd A0 72 Sp, Sd A1 80 Sp, Sd A2 88 Sp, Sd A3 96 Sp, Sd A4 104 Sp, Sd A5 112 Sp, Sd A6 120 Sp, Sd A7 128 Sp,
      Sd S2 136 Sp, Sd S3 144 Sp, Sd S4 152 Sp, Sd S5 160 Sp, Sd S6 168 Sp, Sd S7 176 Sp, Sd S8 184 Sp,
      Sd S9 192 Sp, Sd S10 200 Sp, Sd S11 208 Sp,
      Sd T3 216 Sp, Sd T4 224 Sp, Sd T5 232 Sp, Sd T6 240 Sp,
      Csrr T0 Sstatus, Sd T0 248 Sp,
      Csrr T0 Sepc, Sd T0 256 Sp,
      Csrr T0 Scause, Sd T0 264 Sp,
      Csrr T0 Stval, Sd T0 272 Sp,
      Mv A0 Sp]"

definition trap_entry_restore :: "instr list" where
  "trap_entry_restore =
     [Ld T0 248 Sp, Csrw Sstatus T0,
      Ld T0 256 Sp, Csrw Sepc T0,
      Ld Ra 0 Sp, Ld Gp 16 Sp, Ld Tp 24 Sp,
      Ld T0 32 Sp, Ld T1 40 Sp, Ld T2 48 Sp,
      Ld S0 56 Sp, Ld S1 64 Sp,
      Ld A0 72 Sp, Ld A1 80 Sp, Ld A2 88 Sp, Ld A3 96 Sp, Ld A4 104 Sp, Ld A5 112 Sp, Ld A6 120 Sp, Ld A7 128 Sp,
      Ld S2 136 Sp, Ld S3 144 Sp, Ld S4 152 Sp, Ld S5 160 Sp, Ld S6 168 Sp, Ld S7 176 Sp, Ld S8 184 Sp,
      Ld S9 192 Sp, Ld S10 200 Sp, Ld S11 208 Sp,
      Ld T3 216 Sp, Ld T4 224 Sp, Ld T5 232 Sp, Ld T6 240 Sp,
      Addi Sp Sp TF_SIZE]"

text \<open>The frame in memory: the members of \<open>struct trap_frame\<close> in their order.\<close>

definition load_frame :: "u64 \<Rightarrow> (u64 \<Rightarrow> u64 option) \<Rightarrow> trap_frame option" where
  "load_frame a m = do {
     ra \<leftarrow> m a; sp \<leftarrow> m (a + 8); gp \<leftarrow> m (a + 16); tp \<leftarrow> m (a + 24);
     t0 \<leftarrow> m (a + 32); t1 \<leftarrow> m (a + 40); t2 \<leftarrow> m (a + 48); s0 \<leftarrow> m (a + 56); s1 \<leftarrow> m (a + 64);
     a0 \<leftarrow> m (a + 72); a1 \<leftarrow> m (a + 80); a2 \<leftarrow> m (a + 88); a3 \<leftarrow> m (a + 96);
     a4 \<leftarrow> m (a + 104); a5 \<leftarrow> m (a + 112); a6 \<leftarrow> m (a + 120); a7 \<leftarrow> m (a + 128);
     s2 \<leftarrow> m (a + 136); s3 \<leftarrow> m (a + 144); s4 \<leftarrow> m (a + 152); s5 \<leftarrow> m (a + 160); s6 \<leftarrow> m (a + 168);
     s7 \<leftarrow> m (a + 176); s8 \<leftarrow> m (a + 184); s9 \<leftarrow> m (a + 192); s10 \<leftarrow> m (a + 200); s11 \<leftarrow> m (a + 208);
     t3 \<leftarrow> m (a + 216); t4 \<leftarrow> m (a + 224); t5 \<leftarrow> m (a + 232); t6 \<leftarrow> m (a + 240);
     sstatus \<leftarrow> m (a + 248); sepc \<leftarrow> m (a + 256); scause \<leftarrow> m (a + 264); stval \<leftarrow> m (a + 272); padding \<leftarrow> m (a + 280);
     Some \<lparr>tf_ra = ra, tf_sp = sp, tf_gp = gp, tf_tp = tp, tf_t0 = t0, tf_t1 = t1, tf_t2 = t2, tf_s0 = s0, tf_s1 = s1,
       tf_a0 = a0, tf_a1 = a1, tf_a2 = a2, tf_a3 = a3, tf_a4 = a4, tf_a5 = a5, tf_a6 = a6, tf_a7 = a7,
       tf_s2 = s2, tf_s3 = s3, tf_s4 = s4, tf_s5 = s5, tf_s6 = s6, tf_s7 = s7, tf_s8 = s8, tf_s9 = s9,
       tf_s10 = s10, tf_s11 = s11, tf_t3 = t3, tf_t4 = t4, tf_t5 = t5, tf_t6 = t6,
       tf_sstatus = sstatus, tf_sepc = sepc, tf_scause = scause, tf_stval = stval, tf_padding = padding\<rparr> }"

text \<open>The only member that the handlers assign is \<open>sepc\<close>.\<close>

definition store_sepc :: "u64 \<Rightarrow> trap_frame \<Rightarrow> (u64 \<Rightarrow> u64 option) \<Rightarrow> (u64 \<Rightarrow> u64 option)" where
  "store_sepc a tf m = m(a + 256 \<mapsto> tf_sepc tf)"

section \<open>Taking a trap and going back\<close>

text \<open>The bits of \<open>sstatus\<close>: 1 is \<open>SIE\<close>, 5 is \<open>SPIE\<close>, 8 is \<open>SPP\<close>.\<close>

definition take_trap :: "u64 \<Rightarrow> u64 \<Rightarrow> hart \<Rightarrow> hart" where
  "take_trap cause tval h =
     (let c = csr_regs h; st = c Sstatus;
          st = (if bit st 1 then set_bit 5 st else unset_bit 5 st);
          st = unset_bit 1 st;
          st = (if mode h = Supervisor then set_bit 8 st else unset_bit 8 st)
      in h\<lparr>pc := c Stvec AND NOT STVEC_MODE_MASK, mode := Supervisor,
           csr_regs := c(Sstatus := st, Sepc := pc h, Scause := cause, Stval := tval)\<rparr>)"

definition sret :: "hart \<Rightarrow> hart" where
  "sret h =
     (let c = csr_regs h; st = c Sstatus;
          m = (if bit st 8 then Supervisor else User);
          st = (if bit st 5 then set_bit 1 st else unset_bit 1 st);
          st = unset_bit 8 (set_bit 5 st)
      in h\<lparr>pc := c Sepc, mode := m, csr_regs := c(Sstatus := st)\<rparr>)"

datatype 's entry_outcome = Returned hart 's | Halted 's

definition run_trap_entry :: "platform \<Rightarrow> (hart \<Rightarrow> hart) \<Rightarrow> hart \<Rightarrow> 'a terminal_scheme \<Rightarrow> 'a terminal_scheme entry_outcome option" where
  "run_trap_entry p callee h s = do {
     h \<leftarrow> exec trap_entry_save h;
     tf \<leftarrow> load_frame (gpr h A0) (stack h);
     r \<leftarrow> trap_handler p tf s;
     case r of
       Stop tf s \<Rightarrow> Some (Halted s)
     | Resume tf s \<Rightarrow> do {
         let h = callee (h\<lparr>stack := store_sepc (gpr h A0) tf (stack h)\<rparr>);
         h \<leftarrow> exec trap_entry_restore h;
         Some (Returned (sret h) s) } }"

section \<open>Saving and restoring\<close>

lemma aligned8_add: "aligned8 a \<Longrightarrow> aligned8 (a + c) \<longleftrightarrow> aligned8 c"
proof -
  assume "aligned8 a"
  moreover have "unat (a + c) = (unat a + unat c) mod 2 ^ 64" by (simp add: unat_word_ariths)
  ultimately show ?thesis by (simp add: aligned8_def dvd_mod_iff dvd_add_right_iff)
qed

definition frame_offsets :: "u64 list" where
  "frame_offsets =
     [0, 8, 16, 24, 32, 40, 48, 56, 64, 72, 80, 88, 96, 104, 112, 120, 128, 136, 144, 152, 160, 168, 176, 184,
      192, 200, 208, 216, 224, 232, 240, 248, 256, 264, 272, 280]"

lemma exec_append: "exec (is @ js) h = exec is h \<bind> exec js"
  by (rule for_each_append)

text \<open>A run of stores at distinct addresses, and a run of loads, relative to the stack pointer.\<close>

lemma exec_stores:
  assumes "gpr h = f" "stack h = m" "f Sp = b" "aligned8 b" "\<forall>(r, off)\<in>set xs. aligned8 off \<and> m (b + off) \<noteq> None"
  shows "exec (map (\<lambda>(r, off). Sd r off Sp) xs) h =
    Some (h\<lparr>stack := m(map (\<lambda>(r, off). b + off) xs [\<mapsto>] map (\<lambda>(r, off). f r) xs)\<rparr>)"
  using assms
proof (induction xs arbitrary: h m)
  case (Cons x xs)
  obtain r off where x: "x = (r, off)" by (cases x)
  let ?h = "h\<lparr>stack := m(b + off \<mapsto> f r)\<rparr>"
  have "exec (map (\<lambda>(r, off). Sd r off Sp) xs) ?h =
    Some (?h\<lparr>stack := (m(b + off \<mapsto> f r))(map (\<lambda>(r, off). b + off) xs [\<mapsto>] map (\<lambda>(r, off). f r) xs)\<rparr>)"
    by (rule Cons.IH) (use Cons.prems in auto)
  then show ?case using Cons.prems x by (auto simp: aligned8_add)
qed simp

fun set_regs :: "(reg \<times> u64) list \<Rightarrow> (reg \<Rightarrow> u64) \<Rightarrow> (reg \<Rightarrow> u64)" where
  "set_regs [] f = f"
| "set_regs ((r, v) # rvs) f = set_regs rvs (f(r := v))"

lemma exec_loads:
  assumes "gpr h Sp = b" "aligned8 b" "\<forall>(r, off, v)\<in>set xs. aligned8 off \<and> r \<noteq> Sp \<and> stack h (b + off) = Some v"
  shows "exec (map (\<lambda>(r, off, v). Ld r off Sp) xs) h = Some (h\<lparr>gpr := set_regs (map (\<lambda>(r, off, v). (r, v)) xs) (gpr h)\<rparr>)"
  using assms
proof (induction xs arbitrary: h)
  case (Cons x xs)
  obtain r off v where x: "x = (r, off, v)" by (cases x)
  let ?h = "h\<lparr>gpr := (gpr h)(r := v)\<rparr>"
  have "exec (map (\<lambda>(r, off, v). Ld r off Sp) xs) ?h = Some (?h\<lparr>gpr := set_regs (map (\<lambda>(r, off, v). (r, v)) xs) (gpr ?h)\<rparr>)"
    by (rule Cons.IH) (use Cons.prems x in auto)
  then show ?case using Cons.prems x by (auto simp: aligned8_add)
qed simp

lemma exec_store_csrs:
  assumes "gpr h Sp = b" "\<forall>off\<in>{248, 256, 264, 272}. aligned8 (b + off) \<and> stack h (b + off) \<noteq> None"
  shows "exec [Csrr T0 Sstatus, Sd T0 248 Sp, Csrr T0 Sepc, Sd T0 256 Sp, Csrr T0 Scause, Sd T0 264 Sp,
      Csrr T0 Stval, Sd T0 272 Sp, Mv A0 Sp] h =
    Some (h\<lparr>gpr := (gpr h)(T0 := csr_regs h Stval, A0 := b),
      stack := (stack h)(b + 248 \<mapsto> csr_regs h Sstatus, b + 256 \<mapsto> csr_regs h Sepc, b + 264 \<mapsto> csr_regs h Scause,
        b + 272 \<mapsto> csr_regs h Stval)\<rparr>)"
  using assms by (auto simp: csr_read_def)

lemma map_upds_room: "m a \<noteq> None \<Longrightarrow> (m(ks [\<mapsto>] vs)) a \<noteq> None"
  by (auto simp: map_upds_def map_add_def split: option.split)

lemma map_upds_append:
  "length vs = length ks \<Longrightarrow> m(ks @ ks' [\<mapsto>] vs @ vs') = m(ks [\<mapsto>] vs, ks' [\<mapsto>] vs')"
  by (induction ks arbitrary: m vs) (auto simp: length_Suc_conv)

lemma exec_Addi: "exec (Addi d r i # is) h = exec is (h\<lparr>gpr := (gpr h)(d := gpr h r + i)\<rparr>)"
  by simp

text \<open>The frame that the code builds at \<open>b\<close>: the member \<open>sp\<close> is \<open>b\<close>, not the stack pointer at the trap.\<close>

definition frame_words :: "u64 \<Rightarrow> hart \<Rightarrow> u64 list" where
  "frame_words b h =
     map ((gpr h)(Sp := b)) [Ra, Sp, Gp, Tp, T0, T1, T2, S0, S1, A0, A1, A2, A3, A4, A5, A6, A7,
       S2, S3, S4, S5, S6, S7, S8, S9, S10, S11, T3, T4, T5, T6] @
     [csr_regs h Sstatus, csr_regs h Sepc, csr_regs h Scause, csr_regs h Stval]"

definition frame_saved :: "u64 \<Rightarrow> hart \<Rightarrow> (u64 \<Rightarrow> u64 option)" where
  "frame_saved b h = (stack h)(map ((+) b) (butlast frame_offsets) [\<mapsto>] frame_words b h)"

lemma exec_save:
  assumes al: "aligned8 (gpr h Sp)" and room: "\<forall>i\<in>set frame_offsets. stack h (gpr h Sp - TF_SIZE + i) \<noteq> None"
  defines "b \<equiv> gpr h Sp - TF_SIZE"
  shows "exec trap_entry_save h =
    Some (h\<lparr>gpr := (gpr h)(Sp := b, T0 := csr_regs h Stval, A0 := b), stack := frame_saved b h\<rparr>)"
proof -
  let ?xs = "[(Ra, 0), (Sp, 8), (Gp, 16), (Tp, 24), (T0, 32), (T1, 40), (T2, 48), (S0, 56), (S1, 64),
      (A0, 72), (A1, 80), (A2, 88), (A3, 96), (A4, 104), (A5, 112), (A6, 120), (A7, 128),
      (S2, 136), (S3, 144), (S4, 152), (S5, 160), (S6, 168), (S7, 176), (S8, 184), (S9, 192), (S10, 200), (S11, 208),
      (T3, 216), (T4, 224), (T5, 232), (T6, 240)] :: (reg \<times> u64) list"
  let ?rest = "[Csrr T0 Sstatus, Sd T0 248 Sp, Csrr T0 Sepc, Sd T0 256 Sp, Csrr T0 Scause, Sd T0 264 Sp,
      Csrr T0 Stval, Sd T0 272 Sp, Mv A0 Sp]"
  let ?h = "h\<lparr>gpr := (gpr h)(Sp := b)\<rparr>"
  have al: "aligned8 b" using al aligned8_add [of "gpr h Sp" "- TF_SIZE"] by (simp add: b_def TF_SIZE_def aligned8_def)
  have code: "trap_entry_save = Addi Sp Sp (- TF_SIZE) # map (\<lambda>(r, off). Sd r off Sp) ?xs @ ?rest"
    by (simp add: trap_entry_save_def)
  define m where "m = (stack h)(map (\<lambda>(r, off). b + off) ?xs [\<mapsto>] map (\<lambda>(r, off). ((gpr h)(Sp := b)) r) ?xs)"
  have stores: "exec (map (\<lambda>(r, off). Sd r off Sp) ?xs) ?h = Some (?h\<lparr>stack := m\<rparr>)"
    unfolding m_def
    by (rule exec_stores [where f = "(gpr h)(Sp := b)", OF _ _ _ al]) (use room in \<open>simp_all add: b_def [symmetric] frame_offsets_def aligned8_def\<close>)
  have "?h = h\<lparr>gpr := (gpr h)(Sp := gpr h Sp + - TF_SIZE)\<rparr>" by (simp add: b_def)
  with stores have code': "exec trap_entry_save h = exec ?rest (?h\<lparr>stack := m\<rparr>)"
    unfolding code exec_Addi exec_append by (simp only: bind.bind_lunit)
  have "m (b + off) \<noteq> None" if "off \<in> {248, 256, 264, 272}" for off
    unfolding m_def by (rule map_upds_room) (use that room in \<open>auto simp: b_def [symmetric] frame_offsets_def\<close>)
  moreover have "aligned8 (b + off)" if "off \<in> {248, 256, 264, 272}" for off
    unfolding aligned8_add [OF al] using that by (auto simp: aligned8_def)
  ultimately have rest: "exec ?rest (?h\<lparr>stack := m\<rparr>) = Some (h\<lparr>gpr := (gpr h)(Sp := b, T0 := csr_regs h Stval, A0 := b),
      stack := m(b + 248 \<mapsto> csr_regs h Sstatus, b + 256 \<mapsto> csr_regs h Sepc, b + 264 \<mapsto> csr_regs h Scause,
        b + 272 \<mapsto> csr_regs h Stval)\<rparr>)"
    by (subst exec_store_csrs [where b = b]) simp_all
  have "map ((+) b) (butlast frame_offsets) = map (\<lambda>(r, off). b + off) ?xs @ [b + 248, b + 256, b + 264, b + 272]"
    by (simp add: frame_offsets_def)
  moreover have "frame_words b h = map (\<lambda>(r, off). ((gpr h)(Sp := b)) r) ?xs @
      [csr_regs h Sstatus, csr_regs h Sepc, csr_regs h Scause, csr_regs h Stval]"
    by (simp add: frame_words_def)
  ultimately have "frame_saved b h = m(b + 248 \<mapsto> csr_regs h Sstatus, b + 256 \<mapsto> csr_regs h Sepc,
      b + 264 \<mapsto> csr_regs h Scause, b + 272 \<mapsto> csr_regs h Stval)"
    unfolding frame_saved_def m_def by (simp only: map_upds_append length_map map_upds_Cons map_upds_Nil1)
  then show ?thesis unfolding code' rest by simp
qed

text \<open>What is read back: every word that was stored, and every other word as it was.\<close>

lemma frame_addresses: "distinct (map ((+) b) (butlast frame_offsets))"
  by (simp add: distinct_map frame_offsets_def)

lemma map_upds_nth:
  "distinct ks \<Longrightarrow> length vs = length ks \<Longrightarrow> map (m(ks [\<mapsto>] vs)) ks = map Some vs"
  by (induction ks arbitrary: m vs) (auto simp: length_Suc_conv)

lemma frame_saved_words: "map (\<lambda>i. frame_saved b h (b + i)) (butlast frame_offsets) = map Some (frame_words b h)"
proof -
  have "length (frame_words b h) = length (map ((+) b) (butlast frame_offsets))"
    by (simp add: frame_words_def frame_offsets_def)
  from map_upds_nth [OF frame_addresses this, of "stack h"] show ?thesis
    unfolding frame_saved_def map_map o_def .
qed

lemma frame_saved_other: "a \<notin> (+) b ` set (butlast frame_offsets) \<Longrightarrow> frame_saved b h a = stack h a"
  unfolding frame_saved_def by (rule map_upds_apply_nontin) simp

lemmas frame_saved_at = frame_saved_words [unfolded frame_offsets_def frame_words_def, simplified]

text \<open>The frame that the handler sees: its member \<open>sp\<close> is \<open>b\<close>, not the stack pointer at the trap.\<close>

definition frame_for :: "u64 \<Rightarrow> hart \<Rightarrow> u64 \<Rightarrow> trap_frame" where
  "frame_for b h padding =
     \<lparr>tf_ra = gpr h Ra, tf_sp = b, tf_gp = gpr h Gp, tf_tp = gpr h Tp, tf_t0 = gpr h T0, tf_t1 = gpr h T1, tf_t2 = gpr h T2,
       tf_s0 = gpr h S0, tf_s1 = gpr h S1, tf_a0 = gpr h A0, tf_a1 = gpr h A1, tf_a2 = gpr h A2, tf_a3 = gpr h A3,
       tf_a4 = gpr h A4, tf_a5 = gpr h A5, tf_a6 = gpr h A6, tf_a7 = gpr h A7, tf_s2 = gpr h S2, tf_s3 = gpr h S3,
       tf_s4 = gpr h S4, tf_s5 = gpr h S5, tf_s6 = gpr h S6, tf_s7 = gpr h S7, tf_s8 = gpr h S8, tf_s9 = gpr h S9,
       tf_s10 = gpr h S10, tf_s11 = gpr h S11, tf_t3 = gpr h T3, tf_t4 = gpr h T4, tf_t5 = gpr h T5, tf_t6 = gpr h T6,
       tf_sstatus = csr_regs h Sstatus, tf_sepc = csr_regs h Sepc, tf_scause = csr_regs h Scause,
       tf_stval = csr_regs h Stval, tf_padding = padding\<rparr>"

lemma load_frame_saved:
  assumes "frame_saved b h (b + 280) = Some padding"
  shows "load_frame b (frame_saved b h) = Some (frame_for b h padding)"
  by (simp add: load_frame_def frame_saved_at assms frame_for_def)

lemma exec_restore:
  assumes sp: "gpr k Sp = b" "aligned8 b"
    and words: "\<forall>i\<in>set (butlast frame_offsets). stack k (b + i) = frame_saved b h (b + i)"
  shows "exec trap_entry_restore k = Some (k\<lparr>gpr := (gpr h)(Sp := b + TF_SIZE),
    csr_regs := (csr_regs k)(Sstatus := csr_regs h Sstatus, Sepc := csr_regs h Sepc)\<rparr>)"
proof -
  let ?xs = "map (\<lambda>(r, off). (r, off, gpr h r)) [(Ra, 0), (Gp, 16), (Tp, 24), (T0, 32), (T1, 40), (T2, 48), (S0, 56), (S1, 64),
      (A0, 72), (A1, 80), (A2, 88), (A3, 96), (A4, 104), (A5, 112), (A6, 120), (A7, 128),
      (S2, 136), (S3, 144), (S4, 152), (S5, 160), (S6, 168), (S7, 176), (S8, 184), (S9, 192), (S10, 200), (S11, 208),
      (T3, 216), (T4, 224), (T5, 232), (T6, 240)] :: (reg \<times> u64 \<times> u64) list"
  note at = words [unfolded frame_offsets_def, simplified] frame_saved_at
  let ?k = "k\<lparr>gpr := (gpr k)(T0 := csr_regs h Sepc),
    csr_regs := (csr_regs k)(Sstatus := csr_regs h Sstatus, Sepc := csr_regs h Sepc)\<rparr>"
  have code: "trap_entry_restore = [Ld T0 248 Sp, Csrw Sstatus T0, Ld T0 256 Sp, Csrw Sepc T0] @
      map (\<lambda>(r, off, v). Ld r off Sp) ?xs @ [Addi Sp Sp TF_SIZE]"
    by (simp add: trap_entry_restore_def)
  have "aligned8 (b + 248)" "aligned8 (b + 256)" by (simp_all add: aligned8_add [OF sp(2)]) (simp_all add: aligned8_def)
  then have first: "exec [Ld T0 248 Sp, Csrw Sstatus T0, Ld T0 256 Sp, Csrw Sepc T0] k = Some ?k"
    using sp(1) at by (simp add: csr_write_def)
  have loads: "exec (map (\<lambda>(r, off, v). Ld r off Sp) ?xs) ?k =
      Some (?k\<lparr>gpr := set_regs (map (\<lambda>(r, off, v). (r, v)) ?xs) (gpr ?k)\<rparr>)"
    by (rule exec_loads [OF _ sp(2)]) (use sp(1) at in \<open>simp_all add: aligned8_def\<close>)
  have "set_regs (map (\<lambda>(r, off, v). (r, v)) ?xs) (gpr ?k) r = gpr h r" if "r \<noteq> Sp" for r
    using that by (cases r) simp_all
  then have regs: "(set_regs (map (\<lambda>(r, off, v). (r, v)) ?xs) (gpr ?k))(Sp := b + TF_SIZE) = (gpr h)(Sp := b + TF_SIZE)"
    by (auto intro!: ext)
  have "set_regs (map (\<lambda>(r, off, v). (r, v)) ?xs) (gpr ?k) Sp = b" using sp(1) by simp
  with regs show ?thesis unfolding code exec_append first loads bind.bind_lunit by simp
qed

end
