(* ===== verification/LogSteps.thy ===== *)
theory LogSteps
  imports Terminal
begin

text \<open>
  Steps of the kernel that only log.  \<open>logs p t f\<close> says that the step \<open>f\<close> always returns, writes to the
  terminal only, and writes \<open>t\<close> somewhere; the rules compose such steps as the code composes them, and
  a log call whose literal is well typed is one.
\<close>

section \<open>Steps that only log\<close>

definition logs :: "platform \<Rightarrow> u8 list \<Rightarrow> ('a terminal_scheme \<Rightarrow> 'a terminal_scheme option) \<Rightarrow> bool" where
  "logs p t f \<longleftrightarrow> (\<forall>s. terminal_up p s \<longrightarrow>
     (\<exists>s' pre post n. f s = Some s' \<and> terminal_took p (pre @ t @ post) (s\<lparr>clock_reads := n\<rparr>) s'))"

lemma took_up: "terminal_took p cs (s\<lparr>clock_reads := n\<rparr>) t \<Longrightarrow> terminal_up p s \<Longrightarrow> terminal_up p t"
  by (auto simp: terminal_took_def terminal_up_def port_up_def)

lemma took_reads:
  "terminal_took p cs (s\<lparr>clock_reads := n\<rparr>) t \<Longrightarrow> terminal_took p ds (t\<lparr>clock_reads := k\<rparr>) u \<Longrightarrow>
   terminal_took p (cs @ ds) (s\<lparr>clock_reads := k\<rparr>) u"
  by (cases "g_ft_ctx s") (auto simp: terminal_took_def)

lemma logs_Nil: "logs p t f \<Longrightarrow> logs p [] f"
  unfolding logs_def by (metis append_Nil)

lemma logs_Some: "logs p [] Some"
proof -
  have "terminal_took p ([] @ [] @ []) (s\<lparr>clock_reads := clock_reads s\<rparr>) s" for s :: "'a terminal_scheme"
    by (cases "g_ft_ctx s") (auto simp: terminal_took_def written_at_def intro!: exI [of _ "[]"])
  then show ?thesis unfolding logs_def by blast
qed

lemma logs_then: "logs p [] f \<Longrightarrow> logs p t g \<Longrightarrow> logs p t (\<lambda>s. f s \<bind> g)"
proof (unfold logs_def, intro allI impI)
  fix s :: "'a terminal_scheme" assume up: "terminal_up p s"
  assume f: "\<forall>s. terminal_up p s \<longrightarrow> (\<exists>s' pre post n. f s = Some s' \<and> terminal_took p (pre @ [] @ post) (s\<lparr>clock_reads := n\<rparr>) s')"
    and g: "\<forall>s. terminal_up p s \<longrightarrow> (\<exists>s' pre post n. g s = Some s' \<and> terminal_took p (pre @ t @ post) (s\<lparr>clock_reads := n\<rparr>) s')"
  from f up obtain s1 cs n where s1: "f s = Some s1" "terminal_took p cs (s\<lparr>clock_reads := n\<rparr>) s1" by blast
  from g took_up [OF s1(2) up] obtain s2 pre post k
    where s2: "g s1 = Some s2" "terminal_took p (pre @ t @ post) (s1\<lparr>clock_reads := k\<rparr>) s2" by blast
  from took_reads [OF s1(2) s2(2)] have "terminal_took p ((cs @ pre) @ t @ post) (s\<lparr>clock_reads := k\<rparr>) s2" by simp
  then show "\<exists>s' pre post n. f s \<bind> g = Some s' \<and> terminal_took p (pre @ t @ post) (s\<lparr>clock_reads := n\<rparr>) s'"
    using s1(1) s2(1) by (metis bind.bind_lunit)
qed

lemma logs_before: "logs p t f \<Longrightarrow> logs p [] g \<Longrightarrow> logs p t (\<lambda>s. f s \<bind> g)"
proof (unfold logs_def, intro allI impI)
  fix s :: "'a terminal_scheme" assume up: "terminal_up p s"
  assume f: "\<forall>s. terminal_up p s \<longrightarrow> (\<exists>s' pre post n. f s = Some s' \<and> terminal_took p (pre @ t @ post) (s\<lparr>clock_reads := n\<rparr>) s')"
    and g: "\<forall>s. terminal_up p s \<longrightarrow> (\<exists>s' pre post n. g s = Some s' \<and> terminal_took p (pre @ [] @ post) (s\<lparr>clock_reads := n\<rparr>) s')"
  from f up obtain s1 pre post n where s1: "f s = Some s1" "terminal_took p (pre @ t @ post) (s\<lparr>clock_reads := n\<rparr>) s1" by blast
  from g took_up [OF s1(2) up] obtain s2 cs k
    where s2: "g s1 = Some s2" "terminal_took p cs (s1\<lparr>clock_reads := k\<rparr>) s2" by blast
  from took_reads [OF s1(2) s2(2)] have "terminal_took p (pre @ t @ (post @ cs)) (s\<lparr>clock_reads := k\<rparr>) s2" by simp
  then show "\<exists>s' pre post n. f s \<bind> g = Some s' \<and> terminal_took p (pre @ t @ post) (s\<lparr>clock_reads := n\<rparr>) s'"
    using s1(1) s2(1) by (metis bind.bind_lunit)
qed

section \<open>Log calls\<close>

lemma logs_typed:
  assumes "well_typed f ks" "list_all2 has_kind args ks" "length f < 2 ^ 64"
  shows "logs p [] (log p f args)"
proof -
  from well_typed_text [OF assms] obtain ps targs t where t: "cstr (lit f) 0 (concat (map unparse ps))"
    "list_all wf_piece ps" "list_all2 arg_is args targs" "render ps targs = Some t" .
  from log_line_delivered [OF _ t] show ?thesis unfolding logs_def by (metis append_Nil)
qed

text \<open>A call with a given text of one line.\<close>

lemma logs_rendered:
  assumes "concat (map unparse ps) = text_bytes f" "0 \<notin> set (text_bytes f)" "length f < 2 ^ 64" "list_all wf_piece ps"
    "list_all2 arg_is args targs" "render ps targs = Some t" "t \<noteq> []" "10 \<notin> set t"
  shows "logs p t (log p f args)"
proof -
  have "\<forall>c\<in>set f. (of_char c :: u8) \<noteq> 0" using assms(2) by (force simp: text_bytes_def image_iff)
  then have "cstr (lit f) 0 (concat (map unparse ps))" using cstr_lit [of f] assms(1,3) by simp
  note d = log_line_delivered [OF _ this assms(4-6)]
  have l: "log_line u n t = stamp_text (u n) @ t @ [13, 10]" for u n using log_line_plain [OF assms(7,8)] by simp
  show ?thesis unfolding logs_def using d unfolding l by blast
qed

lemma render_Plain: "render (map Plain xs @ ps) ts = map_option (append xs) (render ps ts)"
proof (induction xs)
  case Nil
  show ?case by (cases "render ps ts") simp_all
next
  case (Cons x xs)
  then show ?case by (cases "render ps ts") simp_all
qed

lemma unparse_Plain: "concat (map unparse (map Plain xs @ ps)) = xs @ concat (map unparse ps)"
  by (induction xs) simp_all

lemma number_text_one_line: "2 \<le> base \<Longrightarrow> base \<le> 16 \<Longrightarrow> 10 \<notin> set (number_text base u n)"
proof (induction base u n rule: number_text.induct)
  case (1 base u n)
  have d: "digit u d \<noteq> 10" if "d < 16" for d
  proof -
    have "d \<in> set [0..<16]" using that by simp
    moreover have "\<forall>u\<in>{False, True}. \<forall>d\<in>set [0..<16]. digit u d \<noteq> 10" by code_simp
    ultimately show ?thesis by (cases u) auto
  qed
  have "n mod base < base" using 1(2) by simp
  then have "n mod base < 16" using 1(3) by linarith
  then show ?case using 1 d by (subst number_text.simps) auto
qed

text \<open>A string that can be an argument of \<open>%s\<close>.\<close>

definition c_string :: "string \<Rightarrow> bool" where
  "c_string x \<longleftrightarrow> 0 \<notin> set (map chr x) \<and> 10 \<notin> set (map chr x) \<and> x \<noteq> [] \<and> length x < 2 ^ 64"

lemma c_string_kind [simp]: "c_string x \<Longrightarrow> has_kind (Str (Some (lit x))) A_string"
  by (intro has_kind_lit) (simp_all add: c_string_def)

lemma c_string_arg: "c_string x \<Longrightarrow> arg_is (Str (Some (lit x))) (Text (Some (text_bytes x)))"
  using cstr_lit [of x] by (fastforce simp: c_string_def text_bytes_def)

text \<open>A format without directives is logged as it is.\<close>

lemma logs_plain:
  assumes "c_string f" "37 \<notin> set (text_bytes f)"
  shows "logs p (text_bytes f) (log p f [])"
proof (rule logs_rendered)
  show "concat (map unparse (map Plain (text_bytes f))) = text_bytes f"
    using unparse_Plain [of "text_bytes f" "[]"] by simp
  show "list_all wf_piece (map Plain (text_bytes f))"
    using assms(2) by (auto simp: list_all_iff text_bytes_def)
  show "render (map Plain (text_bytes f)) [] = Some (text_bytes f)" using render_Plain [of "text_bytes f" "[]" "[]"] by simp
qed (use assms(1) in \<open>simp_all add: c_string_def text_bytes_def\<close>)

end
