(* ===== verification/TrapProps.thy ===== *)
theory TrapProps
  imports Trap LogSteps
begin

text \<open>
  What a trap does: every format of \<open>trap.c\<close> is well typed, so its reports always come to their end, and
  the handler goes back to the interrupted program for interrupts only.
\<close>

section \<open>The formats of the file\<close>

lemma c_string_names [simp]: "c_string (trap_interrupt_name c)" "c_string (trap_exception_name c)" "c_string (trap_mode_name tf)"
    "c_string ''interrupt''" "c_string ''exception''"
  by (simp_all add: c_string_def trap_interrupt_name_def trap_exception_name_def trap_mode_name_def)

lemma trap_formats:
  "well_typed ''mode:    %s'' [A_string]"
  "well_typed ''sepc:    0x%016lx'' [A_number]"
  "well_typed ''sstatus: 0x%016lx'' [A_number]"
  "well_typed ''scause:  0x%016lx'' [A_number]"
  "well_typed ''stval:   0x%016lx'' [A_number]"
  "well_typed ''ra: 0x%016lx  sp: 0x%016lx  gp: 0x%016lx  tp: 0x%016lx'' [A_number, A_number, A_number, A_number]"
  "well_typed ''t0: 0x%016lx  t1: 0x%016lx  t2: 0x%016lx'' [A_number, A_number, A_number]"
  "well_typed ''s0: 0x%016lx  s1: 0x%016lx'' [A_number, A_number]"
  "well_typed ''a0: 0x%016lx  a1: 0x%016lx  a2: 0x%016lx  a3: 0x%016lx'' [A_number, A_number, A_number, A_number]"
  "well_typed ''a4: 0x%016lx  a5: 0x%016lx  a6: 0x%016lx  a7: 0x%016lx'' [A_number, A_number, A_number, A_number]"
  "well_typed ''s2: 0x%016lx  s3: 0x%016lx  s4: 0x%016lx  s5: 0x%016lx'' [A_number, A_number, A_number, A_number]"
  "well_typed ''s6: 0x%016lx  s7: 0x%016lx  s8: 0x%016lx  s9: 0x%016lx'' [A_number, A_number, A_number, A_number]"
  "well_typed ''s10:0x%016lx  s11:0x%016lx'' [A_number, A_number]"
  "well_typed ''t3: 0x%016lx  t4: 0x%016lx  t5: 0x%016lx  t6: 0x%016lx'' [A_number, A_number, A_number, A_number]"
  by code_simp+

lemma panic_formats:
  "well_typed [] []"
  "well_typed ''------------[ kernel panic ]------------'' []"
  "well_typed ''----------------------------------------'' []"
  "well_typed ''trap: %s cause=%lu <%s>'' [A_string, A_number, A_string]"
  "well_typed ''trap: ignoring unhandled interrupt cause=%lu <%s> sepc=0x%lx stval=0x%lx'' [A_number, A_string, A_number, A_number]"
  "well_typed ''trap: stvec=0x%lx'' [A_number]"
  by code_simp+

lemma logs_dump_frame: "logs p [] (trap_dump_frame p tf)"
  unfolding trap_dump_frame_def by (intro logs_then trap_formats [THEN logs_typed]) simp_all

lemma logs_kpanic:
  fixes step :: "'a terminal_scheme \<Rightarrow> 'a terminal_scheme option"
  assumes "logs p t (log p f args :: 'a terminal_scheme \<Rightarrow> 'a terminal_scheme option)"
    and "step = kpanic p (Some tf) (Some f) args"
  shows "logs p t step"
proof -
  have mid: "logs p [] (\<lambda>s. log p ''trap: %s cause=%lu <%s>'' [Str (Some (lit (if i then ''interrupt'' else ''exception''))),
      Val c, Str (Some (lit (if i then trap_interrupt_name c else trap_exception_name c)))] s \<bind> trap_dump_frame p tf)" for i c
    by (intro logs_then panic_formats [THEN logs_typed] logs_dump_frame) simp_all
  have e: "logs p [] (log p [] [])" "logs p [] (log p ''------------[ kernel panic ]------------'' [])"
    "logs p [] (log p ''----------------------------------------'' [])"
    by (rule panic_formats [THEN logs_typed]; simp)+
  show ?thesis
    unfolding assms(2) kpanic_def Let_def option.case
    by (rule logs_then [OF e(1) logs_then [OF e(2) logs_before [OF assms(1) logs_then [OF mid e(3)]]]])
qed

section \<open>What the reports say\<close>

definition hex :: "u64 \<Rightarrow> u8 list" where "hex v = number_text 16 False (unat v)"
definition dec :: "u64 \<Rightarrow> u8 list" where "dec v = number_text 10 False (unat v)"

lemma hex_dec_one_line [simp]: "10 \<notin> set (hex v)" "10 \<notin> set (dec v)"
  by (simp_all add: hex_def dec_def number_text_one_line)

lemma render_number:
  "render (Spec False 0 PRINTK_LEN_LONG (chr (CHR ''x'')) # ps) (Number v # ts) = map_option (append (hex v)) (render ps ts)"
  "render (Spec False 0 PRINTK_LEN_LONG (chr (CHR ''u'')) # ps) (Number v # ts) = map_option (append (dec v)) (render ps ts)"
  "render (Spec False 0 PRINTK_LEN_DEFAULT (chr (CHR ''s'')) # ps) (Text (Some x) # ts) = map_option (append x) (render ps ts)"
proof -
  have "unat v < 2 ^ LENGTH(64)" by (rule unsigned_less)
  then show "render (Spec False 0 PRINTK_LEN_LONG (chr (CHR ''x'')) # ps) (Number v # ts) = map_option (append (hex v)) (render ps ts)"
    "render (Spec False 0 PRINTK_LEN_LONG (chr (CHR ''u'')) # ps) (Number v # ts) = map_option (append (dec v)) (render ps ts)"
    by (cases "render ps ts"; simp add: render_spec_def padded_def unsigned_value_def hex_def dec_def)+
qed (cases "render ps ts"; simp add: render_spec_def padded_def)

definition stop_reason :: "trap_frame \<Rightarrow> u64 \<Rightarrow> u8 list" where
  "stop_reason tf cause =
     (if cause = 8 then text_bytes ''U-mode ecall''
      else if cause = 9 then text_bytes ''S-mode ecall''
      else if cause = 3 then text_bytes ''breakpoint''
      else if cause = 2 then text_bytes ''illegal instruction at sepc=0x'' @ hex (tf_sepc tf)
      else if cause \<in> {12, 13, 15} then
        text_bytes ''page fault at sepc=0x'' @ hex (tf_sepc tf) @ text_bytes '' fault=0x'' @ hex (tf_stval tf)
      else if cause \<in> {0, 1, 4, 5, 6, 7} then text_bytes (trap_exception_name cause)
      else text_bytes ''unhandled exception cause='' @ dec cause)"

abbreviation "spec_x \<equiv> Spec False 0 PRINTK_LEN_LONG (chr (CHR ''x''))"
abbreviation "spec_u \<equiv> Spec False 0 PRINTK_LEN_LONG (chr (CHR ''u''))"

lemma logs_stop_reasons:
  "logs p (text_bytes ''illegal instruction at sepc=0x'' @ hex v) (log p ''illegal instruction at sepc=0x%lx'' [Val v])"
  "logs p (text_bytes ''page fault at sepc=0x'' @ hex v @ text_bytes '' fault=0x'' @ hex w)
     (log p ''page fault at sepc=0x%lx fault=0x%lx'' [Val v, Val w])"
  "logs p (text_bytes ''unhandled exception cause='' @ dec v) (log p ''unhandled exception cause=%lu'' [Val v])"
  "c_string x \<Longrightarrow> logs p (text_bytes x) (log p ''%s'' [Str (Some (lit x))])"
proof -
  note pieces = unparse_Plain render_Plain render_number width_text_def conversion_for_def
  show "logs p (text_bytes ''illegal instruction at sepc=0x'' @ hex v) (log p ''illegal instruction at sepc=0x%lx'' [Val v])"
    by (rule logs_rendered [where ps = "map Plain (text_bytes ''illegal instruction at sepc=0x'') @ [spec_x]" and targs = "[Number v]"])
      (simp_all only: pieces, simp_all add: pieces text_bytes_def)
  show "logs p (text_bytes ''page fault at sepc=0x'' @ hex v @ text_bytes '' fault=0x'' @ hex w)
     (log p ''page fault at sepc=0x%lx fault=0x%lx'' [Val v, Val w])"
    by (rule logs_rendered [where ps = "map Plain (text_bytes ''page fault at sepc=0x'') @ spec_x #
        map Plain (text_bytes '' fault=0x'') @ [spec_x]" and targs = "[Number v, Number w]"])
      (simp_all only: pieces, simp_all add: pieces text_bytes_def)
  show "logs p (text_bytes ''unhandled exception cause='' @ dec v) (log p ''unhandled exception cause=%lu'' [Val v])"
    by (rule logs_rendered [where ps = "map Plain (text_bytes ''unhandled exception cause='') @ [spec_u]" and targs = "[Number v]"])
      (simp_all only: pieces, simp_all add: pieces text_bytes_def)
  show "logs p (text_bytes x) (log p ''%s'' [Str (Some (lit x))])" if "c_string x"
    using that c_string_arg [OF that]
    by (intro logs_rendered [where ps = "[Spec False 0 PRINTK_LEN_DEFAULT (chr (CHR ''s''))]" and targs = "[Text (Some (text_bytes x))]"])
      (simp_all only: pieces, simp_all add: pieces c_string_def text_bytes_def)
qed

lemma logs_exception:
  fixes s :: "'a terminal_scheme"
  assumes up: "terminal_up p s"
  shows "\<exists>s' pre post n. handle_exception p tf cause s =
      Some (Stop (if cause = 8 \<or> cause = 9 then tf\<lparr>tf_sepc := tf_sepc tf + 4\<rparr> else tf) s') \<and>
    terminal_took p (pre @ stop_reason tf cause @ post) (s\<lparr>clock_reads := n\<rparr>) s'"
proof -
  have k: "\<exists>s' pre post n. stop p tf f args s = Some (Stop tf s') \<and> terminal_took p (pre @ t @ post) (s\<lparr>clock_reads := n\<rparr>) s'"
    if "logs p t (log p f args :: 'a terminal_scheme \<Rightarrow> 'a terminal_scheme option)" for f args t tf
  proof -
    from logs_kpanic [OF that refl, of tf] up obtain s' pre post n where
      "kpanic p (Some tf) (Some f) args s = Some s'" "terminal_took p (pre @ t @ post) (s\<lparr>clock_reads := n\<rparr>) s'"
      unfolding logs_def by blast
    then show ?thesis unfolding stop_def by auto
  qed
  have plain: "c_string f \<Longrightarrow> 37 \<notin> set (text_bytes f) \<Longrightarrow>
      \<exists>s' pre post n. stop p tf f [] s = Some (Stop tf s') \<and> terminal_took p (pre @ text_bytes f @ post) (s\<lparr>clock_reads := n\<rparr>) s'" for f tf
    by (rule k [OF logs_plain])
  show ?thesis
  proof (cases "cause = 8 \<or> cause = 9")
    case True
    then show ?thesis using plain [of "''U-mode ecall''"] plain [of "''S-mode ecall''"]
      by (auto simp: handle_exception_def stop_reason_def trap_causes c_string_def text_bytes_def Let_def)
  next
    case False
    note defs = handle_exception_def stop_reason_def trap_causes
    consider "cause = 3" | "cause = 2" | "cause \<in> {12, 13, 15}" | "cause \<in> {0, 1, 4, 5, 6, 7}"
      | "cause \<notin> {0, 1, 2, 3, 4, 5, 6, 7, 8, 9, 12, 13, 15}" using False by auto
    then show ?thesis
    proof cases
      case 1
      then show ?thesis using plain [of "''breakpoint''"] by (auto simp: defs c_string_def text_bytes_def)
    next
      case 2
      then show ?thesis using k [OF logs_stop_reasons(1)] by (simp add: defs)
    next
      case 3
      then show ?thesis using k [OF logs_stop_reasons(2)] by (auto simp: defs)
    next
      case 4
      then show ?thesis using k [OF logs_stop_reasons(4), of "trap_exception_name cause"] by (auto simp: defs)
    next
      case 5
      then show ?thesis using k [OF logs_stop_reasons(3)] by (simp add: defs)
    qed
  qed
qed

section \<open>The handler\<close>

lemma scause_fields:
  fixes c :: u64
  shows "c AND SCAUSE_INTERRUPT_BIT \<noteq> 0 \<longleftrightarrow> bit c 63" "c AND SCAUSE_CAUSE_MASK = take_bit 63 c"
proof -
  show "c AND SCAUSE_INTERRUPT_BIT \<noteq> 0 \<longleftrightarrow> bit c 63"
    unfolding SCAUSE_INTERRUPT_BIT_def push_bit_of_1 and_exp_eq_0_iff_not_bit by simp
  have b: "bit SCAUSE_INTERRUPT_BIT n \<longleftrightarrow> n = 63" for n
    unfolding SCAUSE_INTERRUPT_BIT_def push_bit_of_1 bit_exp_iff by auto
  show "c AND SCAUSE_CAUSE_MASK = take_bit 63 c"
  proof (rule bit_word_eqI)
    fix n assume "n < LENGTH(64)"
    then have "n \<noteq> 63 \<longleftrightarrow> n < 63" by auto
    then show "bit (c AND SCAUSE_CAUSE_MASK) n = bit (take_bit 63 c) n"
      using \<open>n < LENGTH(64)\<close> by (auto simp: SCAUSE_CAUSE_MASK_def bit_and_iff bit_not_iff bit_take_bit_iff b)
  qed
qed

lemma logs_interrupt: "cause \<noteq> 5 \<Longrightarrow> logs p [] (handle_interrupt p tf cause)"
  unfolding handle_interrupt_def IRQ_S_TIMER_def
  by (simp add: logs_typed [OF panic_formats(5)])

lemma handler_interrupt:
  fixes s :: "'a terminal_scheme"
  assumes up: "terminal_up p s" and int: "bit (tf_scause tf) 63"
  shows "\<exists>s' out n. trap_handler p tf s = Some (Resume tf s') \<and> terminal_took p out (s\<lparr>clock_reads := n\<rparr>) s' \<and>
    (take_bit 63 (tf_scause tf) = 5 \<longrightarrow> s' = s \<and> out = [])"
proof (cases "take_bit 63 (tf_scause tf) = 5")
  case True
  have "terminal_took p [] (s\<lparr>clock_reads := clock_reads s\<rparr>) s" using tty.took_Nil by simp
  then show ?thesis using int True
    by (intro exI [of _ s] exI [of _ "[]"] exI [of _ "clock_reads s"])
      (simp add: trap_handler_def scause_fields handle_interrupt_def IRQ_S_TIMER_def Let_def)
next
  case False
  from logs_interrupt [OF False, of p tf] up obtain s' out n where
    "handle_interrupt p tf (take_bit 63 (tf_scause tf)) s = Some s'" "terminal_took p out (s\<lparr>clock_reads := n\<rparr>) s'"
    unfolding logs_def by blast
  then show ?thesis using int False by (auto simp: trap_handler_def scause_fields Let_def)
qed

lemma handler_exception:
  fixes s :: "'a terminal_scheme"
  assumes up: "terminal_up p s" and exc: "\<not> bit (tf_scause tf) 63"
  defines "cause \<equiv> take_bit 63 (tf_scause tf)"
  shows "\<exists>s' pre post n. trap_handler p tf s =
      Some (Stop (if cause = 8 \<or> cause = 9 then tf\<lparr>tf_sepc := tf_sepc tf + 4\<rparr> else tf) s') \<and>
    terminal_took p (pre @ stop_reason tf cause @ post) (s\<lparr>clock_reads := n\<rparr>) s'"
  using logs_exception [OF up, of tf cause] exc by (simp add: trap_handler_def scause_fields Let_def cause_def)

text \<open>
  C40: \<open>trap_handler\<close> returns to the interrupted program exactly for interrupts, with the frame unchanged;
  a timer interrupt has no other effect, the others are reported.  Every exception stops the machine for
  good, after a report that contains its reason, with the program counter and the faulting address
  where the cause has them; only for environment calls the frame's program counter is advanced.  For
  every frame the handler runs to its end, and it changes nothing but the output.
\<close>

theorem trap_handler_correct:
  assumes up: "uart_ready s \<Longrightarrow> hhdm_response (loader p) \<noteq> None \<and> unat (reg_shift (uart0 s)) < 64"
  shows "\<exists>s' out n. terminal_took p out (s\<lparr>clock_reads := n\<rparr>) s' \<and>
    (let cause = take_bit 63 (tf_scause tf) in
     if bit (tf_scause tf) 63 then trap_handler p tf s = Some (Resume tf s') \<and> (cause = 5 \<longrightarrow> s' = s \<and> out = [])
     else trap_handler p tf s = Some (Stop (if cause = 8 \<or> cause = 9 then tf\<lparr>tf_sepc := tf_sepc tf + 4\<rparr> else tf) s') \<and>
       (\<exists>pre post. out = pre @ stop_reason tf cause @ post))"
proof -
  have tu: "terminal_up p s" using up by (simp add: terminal_up_def port_up_def)
  show ?thesis
  proof (cases "bit (tf_scause tf) 63")
    case True
    with handler_interrupt [OF tu this] show ?thesis by (auto simp: Let_def)
  next
    case False
    with handler_exception [OF tu this] show ?thesis by (fastforce simp: Let_def)
  qed
qed

definition demo_frame :: trap_frame where
  "demo_frame = \<lparr>tf_ra = 0, tf_sp = 0xffff800000010000, tf_gp = 0, tf_tp = 0, tf_t0 = 0, tf_t1 = 0, tf_t2 = 0, tf_s0 = 0, tf_s1 = 0,
     tf_a0 = 0, tf_a1 = 0, tf_a2 = 0, tf_a3 = 0, tf_a4 = 0, tf_a5 = 0, tf_a6 = 0, tf_a7 = 0,
     tf_s2 = 0, tf_s3 = 0, tf_s4 = 0, tf_s5 = 0, tf_s6 = 0, tf_s7 = 0, tf_s8 = 0, tf_s9 = 0, tf_s10 = 0, tf_s11 = 0,
     tf_t3 = 0, tf_t4 = 0, tf_t5 = 0, tf_t6 = 0, tf_sstatus = 0x100, tf_sepc = 0x80200000, tf_scause = 13, tf_stval = 0x10,
     tf_padding = 0\<rparr>"

theorem trap_handler_correct_witness:
  "\<exists>s' pre post. trap_handler demo_platform demo_frame demo_terminal = Some (Stop demo_frame s') \<and>
     g_ft_ctx s' = Some (pre @ text_bytes ''page fault at sepc=0x80200000 fault=0x10'' @ post)"
proof -
  have up: "hhdm_response (loader demo_platform) \<noteq> None" "unat (reg_shift (uart0 demo_terminal)) < 64"
    by (simp_all add: demo_platform_def demo_terminal_def demo_serial_def)
  have f: "tf_scause demo_frame = 13" "tf_sepc demo_frame = 0x80200000" "tf_stval demo_frame = 0x10"
    "\<not> bit (13 :: u64) 63" "take_bit 63 (13 :: u64) = 13" "g_ft_ctx demo_terminal = Some []"
    by (simp_all add: demo_frame_def demo_terminal_def)
  have r: "stop_reason demo_frame 13 = text_bytes ''page fault at sepc=0x80200000 fault=0x10''"
    by (simp add: stop_reason_def f hex_def number_text.simps digit_def text_bytes_def)
  from trap_handler_correct [of demo_terminal demo_platform demo_frame] up obtain s' pre post n where
    "trap_handler demo_platform demo_frame demo_terminal = Some (Stop demo_frame s')"
    "terminal_took demo_platform (pre @ stop_reason demo_frame 13 @ post) (demo_terminal\<lparr>clock_reads := n\<rparr>) s'"
    by (auto simp: f Let_def)
  moreover from this have "g_ft_ctx s' = Some (pre @ stop_reason demo_frame 13 @ post)"
    by (auto simp: terminal_took_def f)
  ultimately show ?thesis unfolding r by blast
qed

text \<open>\<open>trap_init\<close> masks every interrupt before it sets the vector.\<close>

lemma trap_init_masked:
  assumes "terminal_up p s" "take_bit 2 trap_entry = 0"
  shows "\<exists>c' s' out n. trap_init p trap_entry c s = Some (c', s') \<and> terminal_took p out (s\<lparr>clock_reads := n\<rparr>) s' \<and>
    csr_read Stvec c' = trap_entry \<and> csr_read Sstatus c' AND SSTATUS_SIE = 0 \<and> csr_read Sie c' AND (SIE_SSIE OR SIE_STIE OR SIE_SEIE) = 0"
proof -
  have low: "n < 2 \<Longrightarrow> \<not> bit trap_entry n" for n
    using assms(2) bit_take_bit_iff [of 2 trap_entry n] by simp
  have mask: "STVEC_MODE_MASK = mask 2" by (simp add: STVEC_MODE_MASK_def mask_eq_exp_minus_1)
  have "bit STVEC_MODE_MASK n \<longleftrightarrow> n < 2" for n unfolding mask bit_mask_iff by auto
  then have v: "(trap_entry AND NOT STVEC_MODE_MASK) OR STVEC_MODE_DIRECT = trap_entry"
    using low by (intro bit_word_eqI) (auto simp: STVEC_MODE_DIRECT_def bit_simps)
  have m: "(x AND NOT y) AND y = 0" "(x AND NOT a AND NOT b AND NOT d) AND (a OR b OR d) = 0" for x y a b d :: u64
    by (rule bit_word_eqI; auto simp: bit_simps)+
  obtain s' out n where "log p ''trap: stvec=0x%lx'' [Val trap_entry] s = Some s'"
    "terminal_took p out (s\<lparr>clock_reads := n\<rparr>) s'"
    using logs_typed [OF panic_formats(6), of "[Val trap_entry]" p] assms(1) unfolding logs_def by (auto; blast)
  then show ?thesis
    by (auto simp: trap_init_def v m [simplified] trap_disable_interrupts_def trap_disable_interrupt_sources_def Let_def)
qed

end
