(* ===== verification/TrapEntry.thy ===== *)
theory TrapEntry
  imports Hart TrapProps
begin

text \<open>
  Traps from the interrupted program's point of view: the code of \<open>trap.S\<close> around the handler of
  \<open>trap.c\<close>, between the processor's trap and its return.
\<close>

text \<open>
  What the code relies on in a compiled C function, from the calling convention: the stack pointer is
  as before the call, and what lies at and above it is not touched; the control registers are those of
  the model of the function, which writes none.
\<close>

definition keeps_frame :: "(hart \<Rightarrow> hart) \<Rightarrow> bool" where
  "keeps_frame callee \<longleftrightarrow> (\<forall>k. gpr (callee k) Sp = gpr k Sp \<and> csr_regs (callee k) = csr_regs k \<and>
     (\<forall>a. unat (gpr k Sp) \<le> unat a \<longrightarrow> stack (callee k) a = stack k a))"

text \<open>Room for a frame below the stack pointer.\<close>

definition frame_room :: "hart \<Rightarrow> bool" where
  "frame_room h \<longleftrightarrow> aligned8 (gpr h Sp) \<and> 288 \<le> unat (gpr h Sp) \<and>
     (\<forall>i\<in>set frame_offsets. stack h (gpr h Sp - TF_SIZE + i) \<noteq> None)"

lemma frame_address:
  assumes "frame_room h" "i \<in> set frame_offsets"
  shows "unat (gpr h Sp - TF_SIZE + i) = unat (gpr h Sp) - 288 + unat i" "unat i \<le> 280"
proof -
  have i: "unat i \<le> 280" using assms(2) by (auto simp: frame_offsets_def)
  then show "unat i \<le> 280" .
  have sp: "288 \<le> unat (gpr h Sp)" using assms(1) by (simp add: frame_room_def)
  have "unat (gpr h Sp - 288) = unat (gpr h Sp) - 288"
    using sp by (simp add: unat_sub word_le_nat_alt)
  moreover have "unat (gpr h Sp) < 2 ^ 64" using unsigned_less [of "gpr h Sp"] by simp
  ultimately show "unat (gpr h Sp - TF_SIZE + i) = unat (gpr h Sp) - 288 + unat i"
    using i sp by (subst unat_add_lem [THEN iffD1]) (simp_all add: TF_SIZE_def)
qed

lemma frame_below:
  assumes "frame_room h" "unat (gpr h Sp) \<le> unat a"
  shows "a \<notin> (+) (gpr h Sp - TF_SIZE) ` set (butlast frame_offsets)"
proof
  assume "a \<in> (+) (gpr h Sp - TF_SIZE) ` set (butlast frame_offsets)"
  then obtain i where "i \<in> set frame_offsets" "a = gpr h Sp - TF_SIZE + i" by (auto dest: in_set_butlastD)
  with frame_address [OF assms(1) this(1)] have "unat a = unat (gpr h Sp) - 288 + unat i" "unat i \<le> 280" by simp_all
  moreover have "288 \<le> unat (gpr h Sp)" using assms(1) by (simp add: frame_room_def)
  ultimately show False using assms(2) by linarith
qed

section \<open>The code around the handler\<close>

text \<open>The frame that the handler is given, for any trap: its member \<open>sp\<close> is not that of the interrupted program.\<close>

lemma entry_frame:
  assumes "frame_room h"
  defines "b \<equiv> gpr h Sp - TF_SIZE"
  obtains padding h' where "exec trap_entry_save h = Some h'" "gpr h' A0 = b" "gpr h' Sp = b" "csr_regs h' = csr_regs h"
    "stack h' = frame_saved b h" "load_frame b (stack h') = Some (frame_for b h padding)"
proof -
  have room: "aligned8 (gpr h Sp)" "\<forall>i\<in>set frame_offsets. stack h (gpr h Sp - TF_SIZE + i) \<noteq> None"
    using assms(1) by (simp_all add: frame_room_def)
  have "b + 280 \<notin> (+) b ` set (butlast frame_offsets)" by (auto simp: frame_offsets_def)
  then have "frame_saved b h (b + 280) = stack h (b + 280)" by (rule frame_saved_other)
  moreover have "stack h (b + 280) \<noteq> None" using room(2) by (simp add: b_def frame_offsets_def)
  ultimately obtain padding where "frame_saved b h (b + 280) = Some padding" by auto
  from that [OF exec_save [OF room, folded b_def]] load_frame_saved [OF this] show thesis by simp
qed

lemma run_interrupt:
  fixes s :: "'a terminal_scheme"
  assumes room: "frame_room h" and callee: "keeps_frame callee"
    and up: "terminal_up p s" and int: "bit (csr_regs h Scause) 63"
  shows "\<exists>h' s' out n. run_trap_entry p callee h s = Some (Returned (sret h') s') \<and>
    terminal_took p out (s\<lparr>clock_reads := n\<rparr>) s' \<and> gpr h' = gpr h \<and> csr_regs h' = csr_regs h \<and>
    (\<forall>a. unat (gpr h Sp) \<le> unat a \<longrightarrow> stack h' a = stack h a)"
proof -
  define b where "b = gpr h Sp - TF_SIZE"
  obtain padding h1 where h1: "exec trap_entry_save h = Some h1" "gpr h1 A0 = b" "gpr h1 Sp = b" "csr_regs h1 = csr_regs h"
    "stack h1 = frame_saved b h" "load_frame b (stack h1) = Some (frame_for b h padding)"
    by (rule entry_frame [OF room, folded b_def])
  let ?tf = "frame_for b h padding"
  from handler_interrupt [OF up, of ?tf] int obtain s' out n where s': "trap_handler p ?tf s = Some (Resume ?tf s')"
    "terminal_took p out (s\<lparr>clock_reads := n\<rparr>) s'" by (auto simp: frame_for_def)
  have "store_sepc b ?tf (stack h1) = stack h1"
    using frame_saved_at by (simp add: store_sepc_def h1(5) frame_for_def fun_upd_idem_iff)
  then have same: "h1\<lparr>stack := store_sepc (gpr h1 A0) ?tf (stack h1)\<rparr> = h1" unfolding h1(2) by simp
  define k where "k = callee h1"
  have k: "gpr k Sp = b" "csr_regs k = csr_regs h" "unat b \<le> unat a \<Longrightarrow> stack k a = frame_saved b h a" for a
    using callee h1(3-5) by (simp_all add: keeps_frame_def k_def)
  have "unat b = unat (gpr h Sp) - 288"
    using frame_address [OF room, of 0] by (simp add: b_def frame_offsets_def)
  then have words: "\<forall>i\<in>set (butlast frame_offsets). stack k (b + i) = frame_saved b h (b + i)"
    using frame_address(1) [OF room, folded b_def] by (auto intro!: k(3) dest: in_set_butlastD)
  have "aligned8 b" using room aligned8_add [of "gpr h Sp" "- TF_SIZE"]
    by (simp add: b_def frame_room_def TF_SIZE_def aligned8_def)
  from exec_restore [OF k(1) this words] obtain h2 where h2: "exec trap_entry_restore k = Some h2"
    "gpr h2 = gpr h" "csr_regs h2 = csr_regs h" "stack h2 = stack k"
    by (simp add: k(2) fun_upd_idem) (simp add: b_def fun_upd_idem)
  have "stack h2 a = stack h a" if "unat (gpr h Sp) \<le> unat a" for a
    using that frame_below [OF room that] \<open>unat b = _\<close> by (simp add: h2(4) k(3) frame_saved_other b_def)
  moreover have "run_trap_entry p callee h s = Some (Returned (sret h2) s')"
    by (simp add: run_trap_entry_def h1(1,2,6) s'(1) same [unfolded h1(2)] k_def [symmetric] h2(1) Let_def)
  ultimately show ?thesis using s'(2) h2(2,3) by blast
qed

lemma run_exception:
  fixes s :: "'a terminal_scheme"
  assumes room: "frame_room h" and up: "terminal_up p s" and exc: "\<not> bit (csr_regs h Scause) 63"
  shows "\<exists>s' pre post n padding. run_trap_entry p callee h s = Some (Halted s') \<and>
    terminal_took p (pre @ stop_reason (frame_for (gpr h Sp - TF_SIZE) h padding) (take_bit 63 (csr_regs h Scause)) @ post)
      (s\<lparr>clock_reads := n\<rparr>) s'"
proof -
  obtain padding h1 where h1: "exec trap_entry_save h = Some h1" "gpr h1 A0 = gpr h Sp - TF_SIZE"
    "load_frame (gpr h Sp - TF_SIZE) (stack h1) = Some (frame_for (gpr h Sp - TF_SIZE) h padding)"
    by (rule entry_frame [OF room])
  from handler_exception [OF up, of "frame_for (gpr h Sp - TF_SIZE) h padding"] exc show ?thesis
    by (auto simp: run_trap_entry_def h1 frame_for_def) blast
qed

section \<open>From trap to return\<close>

lemma take_trap_regs:
  "gpr (take_trap cause tval h) = gpr h" "stack (take_trap cause tval h) = stack h"
  "csr_regs (take_trap cause tval h) Scause = cause" "csr_regs (take_trap cause tval h) Stval = tval"
  "csr_regs (take_trap cause tval h) Sepc = pc h" "r \<in> {Stvec, Sie} \<Longrightarrow> csr_regs (take_trap cause tval h) r = csr_regs h r"
  by (auto simp: take_trap_def Let_def)

lemma take_trap_room: "frame_room (take_trap cause tval h) = frame_room h"
  by (simp add: frame_room_def take_trap_regs)

text \<open>
  \<open>sret\<close> undoes what the trap did to the program counter, the mode and the interrupt enable; the two bits
  that remember the state before the trap are left as the architecture says.
\<close>

lemma sret_after_trap:
  assumes "csr_regs h' = csr_regs (take_trap cause tval h)"
  shows "pc (sret h') = pc h" "mode (sret h') = mode h"
    "csr_regs (sret h') Sstatus = set_bit 5 (unset_bit 8 (csr_regs h Sstatus))"
    "r \<in> {Stvec, Sie} \<Longrightarrow> csr_regs (sret h') r = csr_regs h r"
proof -
  show "pc (sret h') = pc h" "r \<in> {Stvec, Sie} \<Longrightarrow> csr_regs (sret h') r = csr_regs h r"
    by (auto simp: sret_def Let_def assms take_trap_regs)
  have st: "csr_regs h' Sstatus = (let st = csr_regs h Sstatus;
      st = unset_bit 1 (if bit st 1 then set_bit 5 st else unset_bit 5 st)
      in if mode h = Supervisor then set_bit 8 st else unset_bit 8 st)"
    by (simp add: assms take_trap_def Let_def)
  show "mode (sret h') = mode h"
    by (cases "mode h") (simp_all add: sret_def Let_def st bit_simps)
  show "csr_regs (sret h') Sstatus = set_bit 5 (unset_bit 8 (csr_regs h Sstatus))"
    by (rule bit_word_eqI) (auto simp: sret_def Let_def st bit_simps)
qed

text \<open>
  C39: An interrupt is transparent: from the trap of the processor through \<open>trap_entry\<close>, the handler and
  \<open>sret\<close>, the interrupted program goes on at the same instruction, in the same mode, with every general
  register, the stack at and above its stack pointer, the interrupt enable and the trap vector as they were;
  only \<open>SPIE\<close> and \<open>SPP\<close> of \<open>sstatus\<close> are set as \<open>sret\<close> leaves them.  An exception never comes back: the
  machine stops after a report whose reason names the program counter and the address of the fault.
  All that is needed is an aligned stack pointer with room for the frame, and a compiled handler that keeps
  to the calling convention.
\<close>

theorem trap_transparent:
  fixes s :: "'a terminal_scheme"
  assumes room: "frame_room h" and callee: "keeps_frame callee"
    and up: "uart_ready s \<Longrightarrow> hhdm_response (loader p) \<noteq> None \<and> unat (reg_shift (uart0 s)) < 64"
  shows "\<exists>s' out n. terminal_took p out (s\<lparr>clock_reads := n\<rparr>) s' \<and>
    (if bit cause 63 then
       \<exists>h'. run_trap_entry p callee (take_trap cause tval h) s = Some (Returned h' s') \<and>
         pc h' = pc h \<and> mode h' = mode h \<and> gpr h' = gpr h \<and>
         (\<forall>a. unat (gpr h Sp) \<le> unat a \<longrightarrow> stack h' a = stack h a) \<and>
         csr_regs h' Sstatus = set_bit 5 (unset_bit 8 (csr_regs h Sstatus)) \<and>
         csr_regs h' Stvec = csr_regs h Stvec \<and> csr_regs h' Sie = csr_regs h Sie
     else
       run_trap_entry p callee (take_trap cause tval h) s = Some (Halted s') \<and>
         (\<exists>pre tf post. out = pre @ stop_reason tf (take_bit 63 cause) @ post \<and> tf_sepc tf = pc h \<and> tf_stval tf = tval))"
proof -
  let ?h = "take_trap cause tval h"
  have tu: "terminal_up p s" using up by (simp add: terminal_up_def port_up_def)
  have room': "frame_room ?h" using room by (simp add: take_trap_room)
  show ?thesis
  proof (cases "bit cause 63")
    case True
    with run_interrupt [OF room' callee tu] obtain h' s' out n where
      "run_trap_entry p callee ?h s = Some (Returned (sret h') s')" "terminal_took p out (s\<lparr>clock_reads := n\<rparr>) s'"
      and h': "gpr h' = gpr h" "csr_regs h' = csr_regs ?h" "\<forall>a. unat (gpr h Sp) \<le> unat a \<longrightarrow> stack h' a = stack h a"
      by (auto simp: take_trap_regs)
    moreover have "gpr (sret h') = gpr h" "stack (sret h') = stack h'" using h'(1) by (simp_all add: sret_def Let_def)
    ultimately show ?thesis using True h'(3) sret_after_trap [OF h'(2)]
      by (intro exI [of _ s'] exI [of _ out] exI [of _ n]) auto
  next
    case False
    with run_exception [OF room' tu, of callee] show ?thesis
      by (auto simp: take_trap_regs) (fastforce simp: frame_for_def take_trap_regs)
  qed
qed

definition demo_hart :: hart where
  "demo_hart = \<lparr>pc = 0x80200000, mode = Supervisor, gpr = (\<lambda>_. 7)(Sp := 0x1000), csr_regs = (\<lambda>_. 0)(Sstatus := 2, Stvec := 0x80000000),
     stack = (\<lambda>a. if unat a < 0x2000 then Some 0 else None)\<rparr>"

definition demo_callee :: "hart \<Rightarrow> hart" where
  "demo_callee k = k\<lparr>gpr := (gpr k)(A0 := 0, T0 := 1, Ra := 2)\<rparr>"

theorem trap_transparent_witness:
  "\<exists>h' s'. run_trap_entry demo_platform demo_callee (take_trap 0x8000000000000005 0 demo_hart) demo_terminal = Some (Returned h' s') \<and>
     pc h' = 0x80200000 \<and> gpr h' T0 = 7 \<and> csr_regs h' Sstatus = 0x22"
proof -
  have room: "frame_room demo_hart"
    by (auto simp: frame_room_def demo_hart_def aligned8_def frame_offsets_def TF_SIZE_def)
  have callee: "keeps_frame demo_callee" by (simp add: keeps_frame_def demo_callee_def)
  have up: "hhdm_response (loader demo_platform) \<noteq> None \<and> unat (reg_shift (uart0 demo_terminal)) < 64"
    by (simp add: demo_platform_def demo_terminal_def demo_serial_def)
  have f: "bit (0x8000000000000005 :: u64) 63" "pc demo_hart = 0x80200000" "gpr demo_hart T0 = 7"
    "csr_regs demo_hart Sstatus = 2" "set_bit 5 (unset_bit 8 (2 :: u64)) = 0x22"
    by (simp_all add: demo_hart_def)
  from trap_transparent [OF room callee up, of "0x8000000000000005" 0] f show ?thesis by auto
qed

end
