(* ===== verification/UartInit.thy ===== *)
theory UartInit
  imports Terminal Paging
begin

text \<open>
  The initialisation of \<open>kernel/src/platform/generic/uart.c\<close>: finding the port in the device tree,
  mapping it and programming it.  The state is the whole kernel: the terminal, the memory with the device
  tree, and the page tables.  The addresses of the two local arrays of \<open>uart_find_port\<close> are arguments.
  The port is filled in through a pointer, so it comes back also where the function returns false.
\<close>

record kernel = terminal +
  mem :: memory
  tree :: dtb
  vm :: paging

definition UART_PATH_MAX :: u64 where "UART_PATH_MAX = 256"
definition UART_DEFAULT_BASE :: u64 where "UART_DEFAULT_BASE = 0x10000000"
definition UART_DEFAULT_SIZE :: u64 where "UART_DEFAULT_SIZE = 0x100"

definition uart_compatibles :: "string list" where
  "uart_compatibles = [''ns16550a'', ''ns16550'', ''snps,dw-apb-uart'', ''uart8250'']"

section \<open>Finding the port\<close>

text \<open>The two loops over the list: does the node have one of them, and which node has the first.\<close>

fun any_compatible :: "memory \<Rightarrow> dtb \<Rightarrow> dtb_node \<Rightarrow> string list \<Rightarrow> bool option" where
  "any_compatible m d node [] = Some False"
| "any_compatible m d node (c # cs) = do {
     y \<leftarrow> dtb_node_has_compatible m d (Some node) (Some (lit c));
     if y then Some True else any_compatible m d node cs }"

fun first_compatible :: "memory \<Rightarrow> dtb \<Rightarrow> string list \<Rightarrow> dtb_node option option" where
  "first_compatible m d [] = Some None"
| "first_compatible m d (c # cs) = do {
     node \<leftarrow> dtb_find_compatible m d (Some (lit c)) (Some ());
     if node \<noteq> None then Some node else first_compatible m d cs }"

text \<open>The part that follows \<open>stdout-path\<close>, with the memory that holds the two arrays.\<close>

definition stdout_port :: "u64 \<Rightarrow> u64 \<Rightarrow> memory \<Rightarrow> dtb \<Rightarrow> (dtb_node option \<times> memory) option" where
  "stdout_port path resolved m d = do {
     (ok, m) \<leftarrow> dtb_get_stdout_path m d path UART_PATH_MAX;
     if \<not> ok then Some (None, m)
     else do {
       c \<leftarrow> m path;
       (p, m) \<leftarrow> (if c \<noteq> chr (CHR ''/'') then do {
                    (ok, m) \<leftarrow> dtb_resolve_alias m d (Some (bytes_at m path)) resolved UART_PATH_MAX;
                    Some (if ok then resolved else path, m) }
                  else Some (path, m));
       node \<leftarrow> dtb_find_node_by_path m d (Some (bytes_at m p)) (Some ());
       case node of
         None \<Rightarrow> Some (None, m)
       | Some nd \<Rightarrow> do {
           y \<leftarrow> any_compatible m d nd uart_compatibles;
           Some (if y then Some nd else None, m) } } }"

text \<open>The part that reads the registers' place and shape from the node.\<close>

definition read_port :: "platform \<Rightarrow> dtb_node \<Rightarrow> uart_port \<Rightarrow> 'a kernel_scheme \<Rightarrow> (bool \<times> uart_port \<times> 'a kernel_scheme) option" where
  "read_port p node port s = do {
     reg \<leftarrow> dtb_get_reg (mem s) (tree s) (Some node) 0 (Some ()) (Some ());
     case reg of
       None \<Rightarrow> do { s \<leftarrow> log p ''uart: failed to read uart reg from dtb'' [] s; Some (False, port, s) }
     | Some (base, sz) \<Rightarrow>
         let port = port\<lparr>uart_base := base\<rparr> in
         if sz = 0 then do { s \<leftarrow> log p ''uart: failed to read uart reg from dtb'' [] s; Some (False, port, s) }
         else do {
           let port = port\<lparr>uart_size := sz, reg_shift := 0, reg_io_width := 1\<rparr>;
           shift \<leftarrow> dtb_get_u32 (mem s) (tree s) (Some node) (Some (lit ''reg-shift'')) (Some ());
           let port = (case shift of None \<Rightarrow> port | Some x \<Rightarrow> port\<lparr>reg_shift := x\<rparr>);
           width \<leftarrow> dtb_get_u32 (mem s) (tree s) (Some node) (Some (lit ''reg-io-width'')) (Some ());
           let port = (case width of None \<Rightarrow> port | Some x \<Rightarrow> port\<lparr>reg_io_width := x\<rparr>);
           if width \<noteq> None \<and> reg_io_width port \<noteq> 1 \<and> reg_io_width port \<noteq> 4 then do {
             s \<leftarrow> log p ''uart: unsupported reg-io-width=%u'' [Val (ucast (reg_io_width port))] s;
             Some (False, port, s) }
           else Some (True, port, s) } }"

definition uart_find_port ::
    "platform \<Rightarrow> u64 \<Rightarrow> u64 \<Rightarrow> uart_port \<Rightarrow> 'a kernel_scheme \<Rightarrow> (bool \<times> uart_port \<times> 'a kernel_scheme) option" where
  "uart_find_port p path resolved port s = do {
     (node, m) \<leftarrow> stdout_port path resolved (mem s) (tree s);
     let s = s\<lparr>mem := m\<rparr>;
     node \<leftarrow> (if node = None then first_compatible (mem s) (tree s) uart_compatibles else Some node);
     case node of
       None \<Rightarrow> do {
         s \<leftarrow> log p ''uart: failed to find uart in dtb, using fallback'' [] s;
         Some (False, port, s) }
     | Some node \<Rightarrow> read_port p node port s }"

section \<open>Initialisation\<close>

definition uart_program :: "platform \<Rightarrow> 'a serial_scheme \<Rightarrow> 'a serial_scheme option" where
  "uart_program p s = do {
     s \<leftarrow> uart_write_reg p UART_IER 0x00 s;
     s \<leftarrow> uart_write_reg p UART_LCR UART_LCR_DLAB s;
     s \<leftarrow> uart_write_reg p UART_DLL 0x02 s;
     s \<leftarrow> uart_write_reg p UART_DLM 0x00 s;
     s \<leftarrow> uart_write_reg p UART_LCR 0x03 s;
     uart_write_reg p UART_FCR 0x07 s }"

text \<open>The loop that empties the receive buffer; it ends when the device says so.\<close>

partial_function (option) uart_drain :: "platform \<Rightarrow> 'a serial_scheme \<Rightarrow> 'a serial_scheme option" where
  "uart_drain p s = do {
     (v, s) \<leftarrow> uart_read_reg p UART_LSR s;
     if v AND UART_LSR_RX_READY \<noteq> 0 then do {
       (_, s) \<leftarrow> uart_read_reg p UART_RBR s;
       uart_drain p s }
     else Some s }"

definition uart_fallback :: "platform \<Rightarrow> 'a terminal_scheme \<Rightarrow> 'a terminal_scheme option" where
  "uart_fallback p s = do {
     let s = s\<lparr>uart0 := \<lparr>uart_base = UART_DEFAULT_BASE, uart_size = UART_DEFAULT_SIZE, reg_shift = 0, reg_io_width = 1\<rparr>\<rparr>;
     log p ''uart: using default fallback uart at phys=0x%llx'' [Val (uart_base (uart0 s))] s }"

text \<open>From the mapping of the registers on.\<close>

definition uart_bring_up :: "platform \<Rightarrow> kernel_image \<Rightarrow> 'a kernel_scheme \<Rightarrow> (bool \<times> 'a kernel_scheme) option" where
  "uart_bring_up p img s = do {
     (ok, v) \<leftarrow> paging_map_mmio (loader p) img (uart_base (uart0 s)) (uart_size (uart0 s)) (vm s);
     let s = s\<lparr>vm := v\<rparr>;
     if \<not> ok then do {
       s \<leftarrow> log p ''uart: failed to map mmio phys=0x%llx size=0x%llx'' [Val (uart_base (uart0 s)), Val (uart_size (uart0 s))] s;
       Some (False, s) }
     else do {
       s \<leftarrow> uart_program p s;
       let s = s\<lparr>uart_ready := True\<rparr>;
       s \<leftarrow> log p ''uart: init ok phys=0x%llx shift=%u width=%u''
         [Val (uart_base (uart0 s)), Val (ucast (reg_shift (uart0 s))), Val (ucast (reg_io_width (uart0 s)))] s;
       s \<leftarrow> uart_drain p s;
       Some (True, s) } }"

definition uart_init :: "platform \<Rightarrow> kernel_image \<Rightarrow> u64 \<Rightarrow> u64 \<Rightarrow> 'a kernel_scheme \<Rightarrow> (bool \<times> 'a kernel_scheme) option" where
  "uart_init p img path resolved s = do {
     let s = s\<lparr>uart_ready := False\<rparr>;
     (ok, port, s) \<leftarrow> uart_find_port p path resolved (uart0 s) s;
     let s = s\<lparr>uart0 := port\<rparr>;
     s \<leftarrow> (if \<not> ok then uart_fallback p s else Some s);
     uart_bring_up p img s }"

end
