(* ===== verification/Kmain.thy ===== *)
theory Kmain
  imports UartInit TrapProps
begin

text \<open>
  \<open>kernel/src/main.c\<close>: the boot sequence.  Every path of \<open>kmain\<close> ends in \<open>hlt\<close>; its result is the state
  in which the machine halts.  The boot loader's remaining answers are the record \<open>requests\<close>;
  whether \<open>flanterm_fb_init\<close> (a vendored library) gives a terminal is \<open>ft_init_ok\<close>.

  \<open>pfndb_init\<close> writes the memory map, so what follows sees the \<open>platform\<close> with the changed entries.
\<close>

record requests =
  base_revision_supported :: bool
  dtb_response :: "u64 option"
  framebuffer_count :: "u64 option"
  ft_init_ok :: bool
  mp_response :: "(u64 \<times> u64) option"

text \<open>The addresses that the code owns: the two arrays of \<open>uart_find_port\<close> and \<open>trap_entry\<close>.\<close>

record code_addresses =
  path_array :: u64
  resolved_array :: u64
  trap_entry :: u64

section \<open>The phases\<close>

text \<open>The clock and the memory managers.\<close>

definition boot_memory :: "platform \<Rightarrow> kernel \<Rightarrow> (bool \<times> platform \<times> kernel) option" where
  "boot_memory p s = do {
     (ok, k) \<leftarrow> ktime_init (mem s) (tree s) (time_register p (clock_reads s)) (clock s);
     let s = s\<lparr>clock := k, clock_reads := clock_reads s + 1\<rparr>;
     (es, a) \<leftarrow> pfndb_init (hhdm_response (loader p)) (memmap_response (loader p)) (allocator (vm s));
     let p = p\<lparr>loader := (loader p)\<lparr>memmap_response := es\<rparr>\<rparr>;
     (ok, a) \<leftarrow> pmm_init a;
     let s = s\<lparr>vm := (vm s)\<lparr>allocator := a\<rparr>\<rparr>;
     if \<not> ok then do { s \<leftarrow> log p ''boot: pmm_init failed'' [] s; Some (False, p, s) }
     else Some (True, p, s) }"

text \<open>The device tree, the address space and the UART.\<close>

definition boot_devices :: "platform \<Rightarrow> requests \<Rightarrow> kernel_image \<Rightarrow> code_addresses \<Rightarrow> kernel \<Rightarrow> (bool \<times> kernel) option" where
  "boot_devices p r img a s = do {
     (ok, d) \<leftarrow> dtb_init (mem s) (dtb_response r);
     let s = s\<lparr>tree := d\<rparr>;
     s \<leftarrow> (if \<not> ok then log p ''boot: dtb_init failed'' [] s else Some s);
     let (ok, v) = paging_early_init (loader p) (vm s);
     let s = s\<lparr>vm := v\<rparr>;
     if \<not> ok then do { s \<leftarrow> log p ''boot: paging_early_init failed'' [] s; Some (False, s) }
     else do {
       (ok, s) \<leftarrow> uart_init p img (path_array a) (resolved_array a) s;
       if \<not> ok then do { s \<leftarrow> log p ''boot: uart_init failed'' [] s; Some (False, s) }
       else do {
         (ok, v) \<leftarrow> paging_init (loader p) img (vm s);
         let s = s\<lparr>vm := v\<rparr>;
         if \<not> ok then do { s \<leftarrow> log p ''boot: paging_init failed'' [] s; Some (False, s) }
         else Some (True, s) } } }"

definition boot_framebuffer :: "platform \<Rightarrow> requests \<Rightarrow> kernel \<Rightarrow> kernel option" where
  "boot_framebuffer p r s =
     (if framebuffer_count r = None \<or> the (framebuffer_count r) < 1
      then log p ''early: failed to get framebuffer, no ramfb?'' [] s
      else
        let s = s\<lparr>g_ft_ctx := (if ft_init_ok r then Some [] else None)\<rparr> in
        if g_ft_ctx s = None then log p ''early: failed to initialize flanterm'' [] s else Some s)"

text \<open>A 32-bit object in memory, little endian.\<close>

definition store32 :: "u64 \<Rightarrow> u32 \<Rightarrow> memory \<Rightarrow> memory option" where
  "store32 a x m = for_each (\<lambda>i. store8 (a + of_nat i) (ucast (drop_bit (8 * i) x))) [0..<4] m"

definition load32 :: "u64 \<Rightarrow> memory \<Rightarrow> u32 option" where
  "load32 a m = do {
     b0 \<leftarrow> m a; b1 \<leftarrow> m (a + 1); b2 \<leftarrow> m (a + 2); b3 \<leftarrow> m (a + 3);
     Some (ucast b0 OR push_bit 8 (ucast b1) OR push_bit 16 (ucast b2) OR push_bit 24 (ucast b3)) }"

text \<open>The allocation test: the pointer is used as it comes.\<close>

definition boot_test :: "platform \<Rightarrow> kernel \<Rightarrow> kernel option" where
  "boot_test p s = do {
     s \<leftarrow> log p ''early: Hello, World!'' [] s;
     hhdm \<leftarrow> hhdm_response (loader p);
     (a, al) \<leftarrow> pmm_alloc hhdm 0 (allocator (vm s));
     let s = s\<lparr>vm := (vm s)\<lparr>allocator := al\<rparr>\<rparr>;
     s \<leftarrow> log p ''test: allocated single page: %p'' [Val a] s;
     m \<leftarrow> store32 a 42 (mem s);
     let s = s\<lparr>mem := m\<rparr>;
     x \<leftarrow> load32 a (mem s);
     s \<leftarrow> log p ''test: value after write: %d'' [Val (ucast x)] s;
     al \<leftarrow> pmm_free hhdm a (allocator (vm s));
     Some (s\<lparr>vm := (vm s)\<lparr>allocator := al\<rparr>\<rparr>) }"

definition boot_traps :: "platform \<Rightarrow> requests \<Rightarrow> code_addresses \<Rightarrow> csr_file \<Rightarrow> kernel \<Rightarrow> (csr_file \<times> kernel) option" where
  "boot_traps p r a c s = do {
     (c, s) \<leftarrow> trap_init p (trap_entry a) c s;
     s \<leftarrow> log p ''early: setup trap handler'' [] s;
     s \<leftarrow> (case mp_response r of
        None \<Rightarrow> log p ''early: failed to get mp info'' [] s
      | Some (cpu_count, bsp_hartid) \<Rightarrow>
          log p ''early: CPU count=%d, bsp hartid=%d'' [Val cpu_count, Val bsp_hartid] s);
     Some (c, s) }"

section \<open>The boot sequence\<close>

definition kmain :: "platform \<Rightarrow> requests \<Rightarrow> kernel_image \<Rightarrow> code_addresses \<Rightarrow> csr_file \<Rightarrow> kernel \<Rightarrow> (csr_file \<times> kernel) option" where
  "kmain p r img a c s =
     (if \<not> base_revision_supported r then Some (c, s)
      else do {
        (ok, p, s) \<leftarrow> boot_memory p s;
        if \<not> ok then Some (c, s)
        else do {
          (ok, s) \<leftarrow> boot_devices p r img a s;
          if \<not> ok then Some (c, s)
          else do {
            s \<leftarrow> boot_framebuffer p r s;
            s \<leftarrow> boot_test p s;
            boot_traps p r a c s } } })"

section \<open>The clock during the boot\<close>

text \<open>No step after \<open>ktime_init\<close> touches the clock.\<close>

lemma mmio_clock:
  "uart_write_reg p reg v s = Some s' \<Longrightarrow> clock s' = clock s"
  "uart_read_reg p reg s = Some (x, s') \<Longrightarrow> clock s' = clock s" for s s' :: "'a terminal_scheme"
  by (auto simp: uart_write_reg_def uart_read_reg_def mmio_write8_def mmio_write32_def mmio_read8_def mmio_read32_def
      access_def bind_eq_Some_conv Let_def split: if_splits)

lemma tx_wait_clock: "tx_wait p n s = Some s' \<Longrightarrow> clock s' = clock s" for s s' :: "'a terminal_scheme"
proof (induction p n s rule: tx_wait.induct)
  case (1 p n s)
  from 1(2) show ?case using 1(1)
    by (subst (asm) tx_wait.simps [of p n s]) (auto simp: bind_eq_Some_conv dest: mmio_clock split: if_splits)
qed

lemma terminal_putc_clock: "terminal_putc p c s = Some s' \<Longrightarrow> clock s' = clock s"
  by (auto simp: terminal_putc_def uart_putc_def sbi_legacy_console_putchar_def bind_eq_Some_conv
      dest!: tx_wait_clock mmio_clock split: if_splits)

lemma putc_each_clock: "for_each (terminal_putc p) cs s = Some s' \<Longrightarrow> clock s' = clock s"
  by (induction cs arbitrary: s) (auto simp: bind_eq_Some_conv dest: terminal_putc_clock)

lemma log_clock: "log_bytes p f args s = Some s' \<Longrightarrow> clock s' = clock s"
  by (auto simp: log_bytes_def bind_eq_Some_conv dest!: putc_each_clock)

lemma uart_drain_clock: "uart_drain p s = Some s' \<Longrightarrow> clock s' = clock s" for s s' :: "'a terminal_scheme"
proof (erule uart_drain.raw_induct [where P = "\<lambda>p s s'. clock s' = clock s", rotated])
  fix drain p and s s' :: "'a terminal_scheme"
  assume "\<And>p s s'. drain p s = Some s' \<Longrightarrow> clock s' = clock s"
    and "do { (v, s) \<leftarrow> uart_read_reg p UART_LSR s;
      if v AND UART_LSR_RX_READY \<noteq> 0 then do { (_, s) \<leftarrow> uart_read_reg p UART_RBR s; drain p s } else Some s } = Some s'"
  then show "clock s' = clock s" by (auto simp: bind_eq_Some_conv dest!: mmio_clock split: if_splits)
qed

text \<open>What holds of the result of a step, if there is one.\<close>

definition after :: "('b \<Rightarrow> bool) \<Rightarrow> 'b option \<Rightarrow> bool" where
  "after P m \<longleftrightarrow> (\<forall>r. m = Some r \<longrightarrow> P r)"

lemma after_Some [simp]: "after P (Some r) \<longleftrightarrow> P r"
  by (simp add: after_def)

lemma after_bindI: "(\<And>r. m = Some r \<Longrightarrow> after P (f r)) \<Longrightarrow> after P (m \<bind> f)"
  by (auto simp: after_def bind_eq_Some_conv)

lemma uart_program_clock: "uart_program p s = Some s' \<Longrightarrow> clock s' = clock s" for s s' :: "'a terminal_scheme"
  by (auto simp: uart_program_def bind_eq_Some_conv dest!: mmio_clock)

lemma read_port_clock: "after (\<lambda>(ok, port, s'). clock s' = clock s) (read_port p node port s)"
  unfolding read_port_def Let_def
  by (auto intro!: after_bindI dest!: log_clock split: option.split prod.split if_split)

lemma uart_find_port_clock: "after (\<lambda>(ok, port, s'). clock s' = clock s) (uart_find_port p path resolved port s)"
  unfolding uart_find_port_def Let_def
  using read_port_clock [of "s\<lparr>mem := _\<rparr>" p _ port]
  by (auto intro!: after_bindI dest!: log_clock split: option.split prod.split if_split)

lemma uart_init_clock: "uart_init p img path resolved s = Some (ok, s') \<Longrightarrow> clock s' = clock s"
  using uart_find_port_clock [of "s\<lparr>uart_ready := False\<rparr>" p path resolved "uart0 s"]
  by (auto simp: uart_init_def uart_bring_up_def uart_fallback_def bind_eq_Some_conv Let_def after_def
      dest!: log_clock uart_program_clock uart_drain_clock split: if_splits)

lemma boot_devices_after: "after (\<lambda>(ok, s'). clock s' = clock s) (boot_devices p r img a s)"
  unfolding boot_devices_def Let_def
  by (auto intro!: after_bindI dest!: log_clock uart_init_clock split: prod.split if_split)
    (auto dest!: log_clock split: if_splits)

lemma boot_devices_clock: "boot_devices p r img a s = Some (ok, s') \<Longrightarrow> clock s' = clock s"
  using boot_devices_after [of s p r img a] by (simp add: after_def)

lemma boot_framebuffer_clock: "boot_framebuffer p r s = Some s' \<Longrightarrow> clock s' = clock s"
  by (auto simp: boot_framebuffer_def Let_def dest!: log_clock split: if_splits)

lemma boot_test_clock: "boot_test p s = Some s' \<Longrightarrow> clock s' = clock s"
  by (auto simp: boot_test_def bind_eq_Some_conv Let_def dest!: log_clock)

lemma boot_traps_clock: "boot_traps p r a c s = Some (c', s') \<Longrightarrow> clock s' = clock s"
  by (auto simp: boot_traps_def trap_init_def bind_eq_Some_conv Let_def dest!: log_clock split: option.splits prod.splits)

lemma boot_memory_clock:
  assumes "\<not> dtb_ready (tree s)" "boot_memory p s = Some (ok, p', s')"
  shows "clock s' = \<lparr>ktime_boot_ticks = time_register p (clock_reads s), ktime_tick_freq = KTIME_FALLBACK_FREQ, ktime_ready = True\<rparr>"
  using assms by (auto simp: boot_memory_def ktime_init_no_tree bind_eq_Some_conv Let_def dest!: log_clock split: if_splits)

text \<open>
  The order of the boot sequence decides the clock: \<open>kmain\<close> calls \<open>ktime_init\<close> before \<open>dtb_init\<close>, when no
  device tree can be read, so on every boot that ends, however it ends, the clock runs at the fallback
  frequency and started at the first reading.
\<close>

lemma kmain_clock:
  assumes "\<not> dtb_ready (tree s)" "base_revision_supported r" "kmain p r img a c s = Some (c', s')"
  shows "clock s' = \<lparr>ktime_boot_ticks = time_register p (clock_reads s), ktime_tick_freq = 10000000, ktime_ready = True\<rparr>"
proof -
  from assms(2,3) obtain ok p1 s1 where m: "boot_memory p s = Some (ok, p1, s1)"
    "(if \<not> ok then Some (c, s1) else do {
       (ok, s) \<leftarrow> boot_devices p1 r img a s1;
       if \<not> ok then Some (c, s)
       else do { s \<leftarrow> boot_framebuffer p1 r s; s \<leftarrow> boot_test p1 s; boot_traps p1 r a c s } }) = Some (c', s')"
    by (auto simp: kmain_def bind_eq_Some_conv)
  then have "clock s' = clock s1"
    by (auto simp: bind_eq_Some_conv dest!: boot_devices_clock boot_framebuffer_clock boot_test_clock boot_traps_clock
        split: if_splits)
  then show ?thesis using boot_memory_clock [OF assms(1) m(1)] by (simp add: KTIME_FALLBACK_FREQ_def)
qed

end
