(* ===== verification/UartConsole.thy ===== *)
theory UartConsole
  imports UartInit
begin

text \<open>
  The first part of \<open>uart_find_port\<close> on a tree: which node \<open>stdout-path\<close>, cut at the colon and looked up
  among the aliases, leads to.  The two local arrays lie outside the blob, so that the tree is still
  there when they have been written.
\<close>

section \<open>The blob in a larger memory\<close>

lemma map_leD: "m \<subseteq>\<^sub>m m' \<Longrightarrow> m a = Some x \<Longrightarrow> m' a = Some x"
  by (force simp: map_le_def dom_def)

lemma region_mono: "region m p n \<Longrightarrow> m \<subseteq>\<^sub>m m' \<Longrightarrow> region m' p n"
  unfolding region_def using map_leD by fastforce

lemma holds_mono: "holds m p xs \<Longrightarrow> m \<subseteq>\<^sub>m m' \<Longrightarrow> holds m' p xs"
  unfolding holds_def by (auto intro: map_leD)

lemma cstr_mono: "cstr m p xs \<Longrightarrow> m \<subseteq>\<^sub>m m' \<Longrightarrow> cstr m' p xs"
  by (induction xs arbitrary: p) (auto dest: map_leD)

lemma wf_dt_mono: "wf_dt P p d t \<Longrightarrow> (\<And>x. P x \<Longrightarrow> Q x) \<Longrightarrow> wf_dt Q p d t"
  by (induction P p d t rule: wf_dt.induct) (auto simp: list_all_iff)

lemma blob_of_mono: "blob_of m fdt off t \<Longrightarrow> m \<subseteq>\<^sub>m m' \<Longrightarrow> blob_of m' fdt off t"
  unfolding blob_of_def fdt_placed_def
  by (auto intro: region_mono holds_mono elim!: wf_dt_mono simp: prop_ok_def cstr_mono)

lemma dtb_presents_mono: "dtb_presents (m, d) ns \<Longrightarrow> m \<subseteq>\<^sub>m m' \<Longrightarrow> dtb_presents (m', d) ns"
  unfolding dtb_presents_def by (auto intro: blob_of_mono)

text \<open>An array for a path: outside the blob \<open>mb\<close>, and writable.\<close>

definition path_buffer :: "memory \<Rightarrow> memory \<Rightarrow> u64 \<Rightarrow> bool" where
  "path_buffer mb m p \<longleftrightarrow> p \<noteq> 0 \<and> region m p 256 \<and> (\<forall>i<256. p + of_nat i \<notin> dom mb)"

lemma outside_keeps:
  assumes "mb \<subseteq>\<^sub>m m" "outside p n m m'" "\<forall>i<n. p + of_nat i \<notin> dom mb"
  shows "mb \<subseteq>\<^sub>m m'"
  unfolding map_le_def
proof
  fix a assume a: "a \<in> dom mb"
  then have "\<forall>i<n. a \<noteq> p + of_nat i" using assms(3) by blast
  then have "m' a = m a" using assms(2) by (simp add: outside_def)
  then show "mb a = m' a" using assms(1) a by (simp add: map_le_def)
qed

text \<open>Two regions without a common byte lie one behind the other.\<close>

lemma regions_apart:
  assumes "region mb s n" "0 < n" "\<forall>i<k. p + of_nat i \<notin> dom mb" "unat p + k \<le> 2 ^ 64" "0 < k"
  shows "unat p + k \<le> unat s \<or> unat s + n \<le> unat p"
proof (rule ccontr)
  assume "\<not> ?thesis"
  then have o: "unat s < unat p + k" "unat p < unat s + n" by auto
  show False
  proof (cases "unat p \<le> unat s")
    case True
    have "of_nat (unat s - unat p) = (of_nat (unat s) :: u64) - of_nat (unat p)" by (rule of_nat_diff [OF True])
    then have "p + of_nat (unat s - unat p) = s" by simp
    moreover have "s \<in> dom mb" using assms(1,2) by (auto simp: region_def dest: spec [of _ 0])
    moreover have "unat s - unat p < k" using True o(1) by simp
    ultimately show False using assms(3) by (metis)
  next
    case False
    then have "of_nat (unat p - unat s) = (of_nat (unat p) :: u64) - of_nat (unat s)" by (intro of_nat_diff) simp
    then have "s + of_nat (unat p - unat s) = p" by simp
    moreover have "unat p - unat s < n" using False o(2) by simp
    ultimately have "p \<in> dom mb" using assms(1) unfolding region_def by (metis domIff)
    then show False using assms(3,5) by (auto dest: spec [of _ 0])
  qed
qed

lemma path_buffer_apart:
  assumes "path_buffer mb m p" "blob_of mb fdt off t"
  shows "unat p + 256 \<le> unat (struct_block fdt) \<or> unat (struct_block_end fdt) \<le> unat p"
proof -
  let ?n = "unat (struct_block_end fdt) - unat (struct_block fdt)"
  have "region mb (struct_block fdt) ?n" "unat (struct_block fdt) \<le> unat (struct_block_end fdt)" "0 < ?n"
    using assms(2) by (auto simp: blob_of_def fdt_placed_def block_size_def)
  moreover have "\<forall>i<256. p + of_nat i \<notin> dom mb" "unat p + 256 \<le> 2 ^ 64"
    using assms(1) by (auto simp: path_buffer_def region_def)
  ultimately show ?thesis using regions_apart [of mb "struct_block fdt" ?n 256 p] by simp
qed

section \<open>The console of a tree\<close>

type_synonym nodes = "(u8 list \<times> dtb_node \<times> dt) list"

definition node_at :: "nodes \<Rightarrow> u8 list \<Rightarrow> (u8 list \<times> dtb_node \<times> dt) option" where
  "node_at ns path = List.find (\<lambda>x. fst x = path) ns"

lemma node_at_in: "node_at ns path = Some x \<Longrightarrow> x \<in> set ns"
  by (auto simp: node_at_def find_Some_iff)

definition property_at :: "nodes \<Rightarrow> string \<Rightarrow> u8 list \<Rightarrow> u8 list option" where
  "property_at ns path name = Option.bind (node_at ns (text_bytes path)) (\<lambda>(_, _, u). map_of (dt_props u) name)"

definition string_property :: "u8 list option \<Rightarrow> u8 list option" where
  "string_property d = Option.bind d (\<lambda>d. if is_text d then Some (text_of d) else None)"

definition console_text :: "nodes \<Rightarrow> u8 list option" where
  "console_text ns = map_option (takeWhile (\<lambda>c. c \<noteq> colon)) (string_property
     (case property_at ns ''/chosen'' (text_bytes ''stdout-path'') of
        Some d \<Rightarrow> Some d | None \<Rightarrow> property_at ns ''/chosen'' (text_bytes ''linux,stdout-path'')))"

definition alias_text :: "nodes \<Rightarrow> u8 list \<Rightarrow> u8 list option" where
  "alias_text ns name = string_property (property_at ns ''/aliases'' name)"

text \<open>A string that fits into an array of \<open>UART_PATH_MAX\<close> bytes.\<close>

definition fitting :: "u8 list option \<Rightarrow> u8 list option" where
  "fitting w = Option.bind w (\<lambda>w. if length w < 256 then Some w else None)"

text \<open>What does not begin with a slash is an alias, or taken as it is when there is no such alias.\<close>

definition console_path :: "nodes \<Rightarrow> u8 list option" where
  "console_path ns = map_option (\<lambda>w. if w \<noteq> [] \<and> hd w = chr (CHR ''/'') then w
     else case fitting (alias_text ns w) of Some a \<Rightarrow> a | None \<Rightarrow> w) (fitting (console_text ns))"

definition console_node :: "nodes \<Rightarrow> (dtb_node \<times> dt) option" where
  "console_node ns = Option.bind (Option.bind (console_path ns) (node_at ns))
     (\<lambda>(_, nd, u). if \<exists>c\<in>set uart_compatibles. lists_compatible (text_bytes c) u then Some (nd, u) else None)"

lemma console_node_in: "console_node ns = Some (nd, u) \<Longrightarrow> \<exists>q. (q, nd, u) \<in> set ns"
  by (auto simp: console_node_def bind_eq_Some_conv split: if_splits dest: node_at_in)

text \<open>The copies of \<open>fdt.c\<close> in terms of the list of nodes.\<close>

lemma property_at_tree:
  assumes "ns = map (\<lambda>x. (fst x, fdt_node_to_dtb (fst (snd x)), snd (snd x))) (dt_nodes off t)"
  shows "property_at ns path name = Option.bind (find_by_path off t path) (\<lambda>(_, _, u). map_of (dt_props u) name)"
  by (cases "find_by_path off t path")
    (simp_all add: property_at_def node_at_def assms find_map find_by_path_def comp_def case_prod_unfold)

lemma copies_tree:
  assumes blob: "blob_of mb (dtb_fdt d) off t" "mb \<subseteq>\<^sub>m m" and al: "fdt_aligned (dtb_fdt d)" and ready: "dtb_ready d"
    and ns: "ns = map (\<lambda>x. (fst x, fdt_node_to_dtb (fst (snd x)), snd (snd x))) (dt_nodes off t)"
    and buf: "path_buffer mb m p"
  shows "copied_out m p 256 (console_text ns) (dtb_get_stdout_path m d p 256)"
    "cstr name 0 nm \<Longrightarrow> copied_out m p 256 (alias_text ns nm) (dtb_resolve_alias m d (Some name) p 256)"
proof -
  note b = blob_of_mono [OF blob]
  have p: "p \<noteq> 0" "region m p (unat (256 :: u64))"
    "unat p + unat (256 :: u64) \<le> unat (struct_block (dtb_fdt d)) \<or> unat (struct_block_end (dtb_fdt d)) \<le> unat p"
    using buf path_buffer_apart [OF buf blob(1)] by (simp_all add: path_buffer_def)
  have "console_text ns = (case stdout_source off t of None \<Rightarrow> None
      | Some d \<Rightarrow> if is_text d then Some (takeWhile (\<lambda>c. c \<noteq> colon) (text_of d)) else None)"
    by (auto simp: console_text_def string_property_def property_at_tree [OF ns] stdout_source_def split: option.split)
  then show "copied_out m p 256 (console_text ns) (dtb_get_stdout_path m d p 256)"
    using stdout_path_copy [OF b al p] p(1) ready by (simp add: dtb_get_stdout_path_def)
  have "alias_text ns nm = (case find_by_path off t ''/aliases'' of None \<Rightarrow> None
      | Some (_, _, u) \<Rightarrow> (case map_of (dt_props u) nm of None \<Rightarrow> None
          | Some d \<Rightarrow> if is_text d then Some (text_of d) else None))"
    by (auto simp: alias_text_def string_property_def property_at_tree [OF ns] split: option.split)
  then show "copied_out m p 256 (alias_text ns nm) (dtb_resolve_alias m d (Some name) p 256)" if "cstr name 0 nm"
    using alias_copy [OF b al that p] p(1) ready by (simp add: dtb_resolve_alias_def)
qed

section \<open>The search\<close>

text \<open>The memory after the search differs in the two arrays only.\<close>

definition arrays_changed :: "u64 \<Rightarrow> u64 \<Rightarrow> memory \<Rightarrow> memory \<Rightarrow> bool" where
  "arrays_changed p r m m' \<longleftrightarrow> dom m' = dom m \<and> (\<forall>q. (\<forall>i<256. q \<noteq> p + of_nat i \<and> q \<noteq> r + of_nat i) \<longrightarrow> m' q = m q)"

lemma copied_out_fits:
  "copied_out m p 256 w r \<Longrightarrow> \<exists>m'. r = Some (fitting w \<noteq> None, m') \<and> outside p 256 m m' \<and> dom m' = dom m \<and>
     (case fitting w of None \<Rightarrow> m' = m | Some x \<Rightarrow> cstr m' p x)"
  by (cases w) (auto simp: copied_out_def fitting_def)

lemma any_compatible_tree:
  assumes "dtb_presents (m, d) ns" "(q, nd, u) \<in> set ns" "\<forall>c\<in>set cs. cstr (lit c) 0 (text_bytes c)"
  shows "any_compatible m d nd cs = Some (\<exists>c\<in>set cs. lists_compatible (text_bytes c) u)"
  using assms(3)
proof (induction cs)
  case (Cons c cs)
  have "cstr (lit c) 0 (text_bytes c)" using Cons.prems by simp
  from tree.has_compatible [OF assms(1,2) this] Cons show ?case by auto
qed simp

text \<open>From the path in the array \<open>p\<close> on.\<close>

lemma node_of_path:
  assumes tree: "dtb_presents (m, d) ns" and p: "cstr m p w"
  shows "do { node \<leftarrow> dtb_find_node_by_path m d (Some (bytes_at m p)) (Some ());
    case node of None \<Rightarrow> Some (None, m)
    | Some nd \<Rightarrow> do { y \<leftarrow> any_compatible m d nd uart_compatibles; Some (if y then Some nd else None, m) } } =
    Some (map_option fst (Option.bind (node_at ns w)
      (\<lambda>(_, nd, u). if \<exists>c\<in>set uart_compatibles. lists_compatible (text_bytes c) u then Some (nd, u) else None)), m)"
proof -
  have "cstr (bytes_at m p) 0 w" using p by (simp add: cstr_bytes_at)
  from tree.by_path [OF tree this]
  have f: "dtb_find_node_by_path m d (Some (bytes_at m p)) (Some ()) = Some (map_option (fst \<circ> snd) (node_at ns w))"
    by (simp add: node_at_def)
  have nz: "\<forall>c\<in>set uart_compatibles. cstr (lit c) 0 (text_bytes c)"
    by (auto simp: uart_compatibles_def intro!: cstr_lit)
  show ?thesis
  proof (cases "node_at ns w")
    case (Some x)
    then obtain q nd u where x: "x = (q, nd, u)" "(q, nd, u) \<in> set ns"
      by (cases x) (auto simp: node_at_def find_Some_iff)
    from any_compatible_tree [OF tree x(2) nz] show ?thesis by (simp add: f Some x(1))
  qed (simp add: f)
qed

text \<open>The tree that the driver finds: that of the blob \<open>mb\<close>, or none when \<open>dtb_init\<close> has failed.\<close>

definition tree_given :: "memory \<Rightarrow> dtb \<Rightarrow> nodes \<Rightarrow> bool" where
  "tree_given mb d ns \<longleftrightarrow> (if dtb_ready d then dtb_presents (mb, d) ns \<and> fdt_aligned (dtb_fdt d) else ns = [])"

lemma stdout_port_ready:
  assumes tree: "dtb_presents (mb, d) ns" "mb \<subseteq>\<^sub>m m" and al: "fdt_aligned (dtb_fdt d)"
    and bufs: "path_buffer mb m path" "path_buffer mb m resolved"
  shows "\<exists>m'. stdout_port path resolved m d = Some (map_option fst (console_node ns), m') \<and> mb \<subseteq>\<^sub>m m' \<and>
    arrays_changed path resolved m m'"
proof -
  from tree(1) obtain off t where b: "dtb_ready d" "blob_of mb (dtb_fdt d) off t"
    and ns: "ns = map (\<lambda>x. (fst x, fdt_node_to_dtb (fst (snd x)), snd (snd x))) (dt_nodes off t)"
    by (auto simp: dtb_presents_def)
  note copies = copies_tree [OF b(2) _ al b(1) ns]
  from copied_out_fits [OF copies(1) [OF tree(2) bufs(1)]] obtain m1 where
    m1: "dtb_get_stdout_path m d path 256 = Some (fitting (console_text ns) \<noteq> None, m1)" "outside path 256 m m1" "dom m1 = dom m"
      "case fitting (console_text ns) of None \<Rightarrow> m1 = m | Some x \<Rightarrow> cstr m1 path x" by blast
  have le1: "mb \<subseteq>\<^sub>m m1" using outside_keeps [OF tree(2) m1(2)] bufs(1) by (simp add: path_buffer_def)
  have ch1: "arrays_changed path resolved m m1" using m1(2,3) by (auto simp: arrays_changed_def outside_def)
  show ?thesis
  proof (cases "fitting (console_text ns)")
    case None
    then show ?thesis using m1(1) le1 ch1 by (auto simp: stdout_port_def UART_PATH_MAX_def console_node_def console_path_def)
  next
    case (Some w)
    then have w: "cstr m1 path w" using m1(4) by simp
    then have c: "m1 path = Some (if w = [] then 0 else hd w)" by (cases w) auto
    have slash: "chr (CHR ''/'') \<noteq> 0" by simp
    show ?thesis
    proof (cases "w \<noteq> [] \<and> hd w = chr (CHR ''/'')")
      case True
      then show ?thesis using node_of_path [OF dtb_presents_mono [OF tree(1) le1] w] le1 ch1 Some
        by (intro exI [of _ m1]) (simp add: stdout_port_def UART_PATH_MAX_def m1(1) c console_node_def console_path_def)
    next
      case False
      have "path_buffer mb m1 resolved"
        using bufs(2) m1(3) by (auto simp: path_buffer_def region_def dom_def set_eq_iff)
      from copied_out_fits [OF copies(2) [OF le1 this, of "bytes_at m1 path" w]] w obtain m2 where
        m2: "dtb_resolve_alias m1 d (Some (bytes_at m1 path)) resolved 256 = Some (fitting (alias_text ns w) \<noteq> None, m2)"
          "outside resolved 256 m1 m2" "dom m2 = dom m1" "case fitting (alias_text ns w) of None \<Rightarrow> m2 = m1 | Some x \<Rightarrow> cstr m2 resolved x"
        by (auto simp: cstr_bytes_at)
      have le2: "mb \<subseteq>\<^sub>m m2" using outside_keeps [OF le1 m2(2)] bufs(2) by (simp add: path_buffer_def)
      have ch2: "arrays_changed path resolved m m2" using ch1 m2(2,3) by (auto simp: arrays_changed_def outside_def)
      let ?p = "if fitting (alias_text ns w) \<noteq> None then resolved else path"
      have "cstr m2 ?p (case fitting (alias_text ns w) of Some a \<Rightarrow> a | None \<Rightarrow> w)"
        using m2(4) w by (auto split: option.splits)
      from node_of_path [OF dtb_presents_mono [OF tree(1) le2] this] show ?thesis using False le2 ch2 Some slash
        by (intro exI [of _ m2])
          (auto simp: stdout_port_def UART_PATH_MAX_def m1(1) c m2(1) console_node_def console_path_def cong: if_cong)
    qed
  qed
qed

lemma stdout_port_tree:
  assumes "tree_given mb d ns" "mb \<subseteq>\<^sub>m m" "path_buffer mb m path" "path_buffer mb m resolved"
  shows "\<exists>m'. stdout_port path resolved m d = Some (map_option fst (console_node ns), m') \<and> mb \<subseteq>\<^sub>m m' \<and>
    arrays_changed path resolved m m'"
proof (cases "dtb_ready d")
  case True
  then show ?thesis using stdout_port_ready assms by (simp add: tree_given_def)
next
  case False
  then have "console_node ns = None"
    using assms(1) by (simp add: tree_given_def console_node_def console_path_def console_text_def property_at_def node_at_def
      string_property_def fitting_def)
  then show ?thesis using False assms(2)
    by (intro exI [of _ m]) (simp add: stdout_port_def dtb_get_stdout_path_def arrays_changed_def)
qed

lemma tree_given_mono: "tree_given mb d ns \<Longrightarrow> mb \<subseteq>\<^sub>m m \<Longrightarrow> tree_given m d ns"
  unfolding tree_given_def by (auto intro: dtb_presents_mono)

end
