(* ===== verification/UartInitProps.thy ===== *)
theory UartInitProps
  imports UartConsole LogSteps
begin

text \<open>
  What \<open>uart_init\<close> does to the device: it finds the port that the device tree calls for, programs it once
  it is mapped, and only then lets the terminal use it.
\<close>

section \<open>Finding the port\<close>

text \<open>\<open>first_compatible\<close> is the search of the locale \<open>device_tree\<close> over a list of strings.\<close>

lemma first_compatible_foldr:
  "first_compatible m d cs =
   foldr (\<lambda>c rest. do { nd \<leftarrow> dtb_find_compatible m d (Some c) (Some ()); if nd \<noteq> None then Some nd else rest }) (map lit cs) (Some None)"
  by (induction cs) (simp_all cong: if_cong)

definition chosen_node :: "(u8 list \<times> dtb_node \<times> dt) list \<Rightarrow> (dtb_node \<times> dt) option" where
  "chosen_node ns = (case List.find (\<lambda>xs. \<exists>x\<in>set ns. lists_compatible xs (snd (snd x))) (map text_bytes uart_compatibles) of
     None \<Rightarrow> None
   | Some xs \<Rightarrow> map_option snd (List.find (\<lambda>x. lists_compatible xs (snd (snd x))) ns))"

lemma uart_compatibles_cstr: "list_all2 (\<lambda>c xs. cstr c 0 xs) (map lit uart_compatibles) (map text_bytes uart_compatibles)"
  by (auto simp: uart_compatibles_def intro!: cstr_lit)

lemma first_compatible_tree:
  assumes "dtb_presents (m, d) ns"
  shows "first_compatible m d uart_compatibles = Some (map_option fst (chosen_node ns))"
proof -
  have "first_compatible m d uart_compatibles = Some (case List.find (\<lambda>xs. \<exists>x\<in>set ns. lists_compatible xs (snd (snd x)))
      (map text_bytes uart_compatibles) of None \<Rightarrow> None
    | Some xs \<Rightarrow> map_option (fst \<circ> snd) (List.find (\<lambda>x. lists_compatible xs (snd (snd x))) ns))"
    using tree.first_compatible_list [OF assms uart_compatibles_cstr] by (simp add: first_compatible_foldr)
  then show ?thesis by (simp add: chosen_node_def option.map_comp comp_def split: option.split)
qed

lemma chosen_node_in:
  assumes "chosen_node ns = Some (nd, u)" shows "\<exists>q. (q, nd, u) \<in> set ns"
proof -
  from assms obtain xs x where "List.find (\<lambda>x. lists_compatible xs (snd (snd x))) ns = Some x" "snd x = (nd, u)"
    by (auto simp: chosen_node_def split: option.splits)
  moreover from this have "x \<in> set ns" by (auto simp: find_Some_iff)
  ultimately show ?thesis by (cases x) auto
qed

text \<open>The port that a node describes: none where the width is not one of the two that the driver knows.\<close>

definition node_port :: "u64 \<Rightarrow> u64 \<Rightarrow> dt \<Rightarrow> uart_port" where
  "node_port base sz u = \<lparr>uart_base = base, uart_size = sz,
     reg_shift = (case cell_property u (text_bytes ''reg-shift'') of None \<Rightarrow> 0 | Some x \<Rightarrow> x),
     reg_io_width = (case cell_property u (text_bytes ''reg-io-width'') of None \<Rightarrow> 1 | Some x \<Rightarrow> x)\<rparr>"

definition known_width :: "dt \<Rightarrow> bool" where
  "known_width u \<longleftrightarrow> cell_property u (text_bytes ''reg-io-width'') \<in> {None, Some 1, Some 4}"

section \<open>Logging before the port is ready\<close>

text \<open>Output that does not touch a register.\<close>

definition said :: "'a terminal_scheme \<Rightarrow> 'a terminal_scheme \<Rightarrow> bool" where
  "said s s' \<longleftrightarrow> (\<exists>b f n. s' = s\<lparr>sbi_console := b, g_ft_ctx := f, clock_reads := n\<rparr>)"

lemma said_refl [simp]: "said s s"
  unfolding said_def by (intro exI [of _ "sbi_console s"] exI [of _ "g_ft_ctx s"] exI [of _ "clock_reads s"]) simp

lemma saidI: "said s (s\<lparr>sbi_console := b, g_ft_ctx := f, clock_reads := n\<rparr>)"
  unfolding said_def by blast

lemma log_said:
  assumes "logs p t (log p f args :: 'a terminal_scheme \<Rightarrow> 'a terminal_scheme option)" "\<not> uart_ready s"
  shows "\<exists>s'. log p f args s = Some s' \<and> said s (s' :: 'a terminal_scheme)"
proof -
  have "terminal_up p s" using assms(2) by (simp add: terminal_up_def)
  then obtain s' cs n where s': "log p f args s = Some s'" "terminal_took p cs (s\<lparr>clock_reads := n\<rparr>) s'"
    using assms(1) unfolding logs_def by blast
  from s'(2) assms(2) have "s' = s\<lparr>clock_reads := n, accesses := accesses s, sbi_console := sbi_console s @ cs,
      g_ft_ctx := map_option (\<lambda>t. t @ cs) (g_ft_ctx s)\<rparr>" by (auto simp: terminal_took_def)
  then have "s' = s\<lparr>sbi_console := sbi_console s @ cs, g_ft_ctx := map_option (\<lambda>t. t @ cs) (g_ft_ctx s), clock_reads := n\<rparr>"
    by simp
  then show ?thesis using s'(1) unfolding said_def by blast
qed

lemma said_trans: "said s t \<Longrightarrow> said t u \<Longrightarrow> said s u"
  by (auto simp: said_def [of s t] said_def [of t u] intro: saidI)

lemma said_port:
  assumes "said s t" shows "said (s\<lparr>uart0 := u\<rparr>) (t\<lparr>uart0 := u\<rparr>)"
proof -
  from assms obtain b f n where "t = s\<lparr>sbi_console := b, g_ft_ctx := f, clock_reads := n\<rparr>" by (auto simp: said_def)
  then have "t\<lparr>uart0 := u\<rparr> = s\<lparr>uart0 := u, sbi_console := b, g_ft_ctx := f, clock_reads := n\<rparr>" by simp
  then show ?thesis by (simp only: saidI)
qed

lemma says:
  fixes s :: "'a terminal_scheme"
  assumes "\<not> uart_ready s" "well_typed f ks" "list_all2 has_kind args ks" "length f < 2 ^ 64"
  shows "\<exists>s'. log p f args s = Some s' \<and> said s (s' :: 'a terminal_scheme)"
  by (rule log_said [OF logs_typed [OF assms(2-4)] assms(1)])

lemma uart_formats:
  "well_typed ''uart: failed to find uart in dtb, using fallback'' []"
  "well_typed ''uart: failed to read uart reg from dtb'' []"
  "well_typed ''uart: unsupported reg-io-width=%u'' [A_number]"
  "well_typed ''uart: using default fallback uart at phys=0x%llx'' [A_number]"
  "well_typed ''uart: failed to map mmio phys=0x%llx size=0x%llx'' [A_number, A_number]"
  "well_typed ''uart: init ok phys=0x%llx shift=%u width=%u'' [A_number, A_number, A_number]"
  by code_simp+

section \<open>Programming the port\<close>

definition init_writes :: "platform \<Rightarrow> uart_port \<Rightarrow> mmio list" where
  "init_writes p u = map (\<lambda>(r, x). reg_write p u r x)
     [(UART_IER, 0x00), (UART_LCR, 0x80), (UART_DLL, 0x02), (UART_DLM, 0x00), (UART_LCR, 0x03), (UART_FCR, 0x07)]"

lemma uart_program_writes:
  assumes "hhdm_response (loader p) \<noteq> None" "unat (reg_shift (uart0 s)) < 64"
  shows "uart_program p s = Some (s\<lparr>accesses := accesses s @ init_writes p (uart0 s)\<rparr>)"
  using assms by (simp add: uart_program_def uart_write_reg_up init_writes_def access_def UART_LCR_DLAB_def)

text \<open>The receiver has a byte when the line status is read after the accesses \<open>h\<close>.\<close>

definition rx_ready :: "platform \<Rightarrow> uart_port \<Rightarrow> mmio list \<Rightarrow> bool" where
  "rx_ready p u h \<longleftrightarrow> (ucast (registers p h (reg_addr p u UART_LSR)) :: u8) AND UART_LSR_RX_READY \<noteq> 0"

lemma uart_drain_ends:
  assumes "hhdm_response (loader p) \<noteq> None" "unat (reg_shift (uart0 s)) < 64"
    and "\<forall>h. k \<le> length h \<longrightarrow> \<not> rx_ready p (uart0 s) h"
  shows "\<exists>h. uart_drain p s = Some (s\<lparr>accesses := accesses s @ h @ [reg_read p (uart0 s) UART_LSR]\<rparr>) \<and>
    set h \<subseteq> {reg_read p (uart0 s) UART_LSR, reg_read p (uart0 s) UART_RBR} \<and> \<not> rx_ready p (uart0 s) (accesses s @ h)"
  using assms
proof (induction "k - length (accesses s)" arbitrary: s rule: less_induct)
  case less
  note rd = uart_read_reg_up [OF less.prems(1)]
  let ?l = "reg_read p (uart0 s) UART_LSR" and ?b = "reg_read p (uart0 s) UART_RBR"
  show ?case
  proof (cases "rx_ready p (uart0 s) (accesses s)")
    case False
    then show ?thesis using less.prems(2)
      by (intro exI [of _ "[]"]) (simp add: uart_drain.simps [of p s] rd rx_ready_def access_def)
  next
    case True
    let ?s = "access ?b (access ?l s)"
    have step: "uart_drain p s = uart_drain p ?s" using True less.prems(2)
      by (simp add: uart_drain.simps [of p s] rd rx_ready_def)
    have "length (accesses s) < k" using True less.prems(3) by (meson not_le)
    then have "k - length (accesses ?s) < k - length (accesses s)" by simp
    from less.hyps [OF this] less.prems obtain h where h: "uart_drain p ?s = Some (?s\<lparr>accesses := accesses ?s @ h @ [?l]\<rparr>)"
      "set h \<subseteq> {?l, ?b}" "\<not> rx_ready p (uart0 s) (accesses ?s @ h)" by auto
    show ?thesis unfolding step h(1)
      using h(2,3) by (intro exI [of _ "?l # ?b # h"]) (simp add: access_def)
  qed
qed

section \<open>Initialisation\<close>

definition default_port :: uart_port where
  "default_port = \<lparr>uart_base = 0x10000000, uart_size = 0x100, reg_shift = 0, reg_io_width = 1\<rparr>"

lemma uart_fallback_said:
  assumes "\<not> uart_ready s"
  shows "\<exists>s'. uart_fallback p s = Some s' \<and> said (s\<lparr>uart0 := default_port\<rparr>) s'"
proof -
  have "logs p [] (log p ''uart: using default fallback uart at phys=0x%llx'' [Val (uart_base default_port)])"
    by (rule logs_typed [OF uart_formats(4)]) simp_all
  from log_said [OF this, of "s\<lparr>uart0 := default_port\<rparr>"] assms show ?thesis
    by (simp add: uart_fallback_def default_port_def UART_DEFAULT_BASE_def UART_DEFAULT_SIZE_def)
qed

text \<open>
  The node that the driver takes, the one that \<open>stdout-path\<close> leads to or else the first compatible one, and
  its port: the default port where there is no such node or its registers cannot be used.
\<close>

definition taken_node :: "nodes \<Rightarrow> (dtb_node \<times> dt) option" where
  "taken_node ns = (case console_node ns of None \<Rightarrow> chosen_node ns | Some x \<Rightarrow> Some x)"

definition node_uart :: "dtb_node \<Rightarrow> dt \<Rightarrow> uart_port option" where
  "node_uart nd u = Option.bind (node_reg (dtb_node_to_fdt nd) u 0)
     (\<lambda>(base, sz). if sz \<noteq> 0 \<and> known_width u then Some (node_port base sz u) else None)"

definition tree_port :: "nodes \<Rightarrow> uart_port" where
  "tree_port ns = (case Option.bind (taken_node ns) (\<lambda>(nd, u). node_uart nd u) of None \<Rightarrow> default_port | Some u \<Rightarrow> u)"

lemma taken_node_in: "taken_node ns = Some (nd, u) \<Longrightarrow> \<exists>q. (q, nd, u) \<in> set ns"
  by (auto simp: taken_node_def split: option.splits dest: chosen_node_in console_node_in)

lemma get_reg_node:
  assumes "dtb_presents (m, d) ns" "(q, nd, u) \<in> set ns"
  shows "dtb_get_reg m d (Some nd) 0 (Some ()) (Some ()) = Some (node_reg (dtb_node_to_fdt nd) u 0)"
proof -
  from assms(1) obtain off t where b: "dtb_ready d" "blob_of m (dtb_fdt d) off t"
    and ns: "ns = map (\<lambda>x. (fst x, fdt_node_to_dtb (fst (snd x)), snd (snd x))) (dt_nodes off t)"
    by (auto simp: dtb_presents_def)
  from assms(2) have "(q, dtb_node_to_fdt nd, u) \<in> set (dt_nodes off t)" unfolding ns by auto
  from node_reg_tree [OF b(2) this, of 0] b(1) show ?thesis by (simp add: dtb_get_reg_def)
qed

lemma read_port_tree:
  assumes tree: "dtb_presents (mem s, tree s) ns" "(q, nd, u) \<in> set ns" and off: "\<not> uart_ready s"
  shows "\<exists>port' s'. read_port p nd port s = Some (node_uart nd u \<noteq> None, port', s') \<and> said s s' \<and>
    (\<forall>x. node_uart nd u = Some x \<longrightarrow> port' = x)"
proof -
  note reg = get_reg_node [OF tree]
  have n: "cstr (lit ''reg-shift'') 0 (text_bytes ''reg-shift'')" "cstr (lit ''reg-io-width'') 0 (text_bytes ''reg-io-width'')"
    by (rule cstr_lit; simp)+
  have g: "dtb_get_u32 (mem s) (tree s) (Some nd) (Some (lit ''reg-shift'')) (Some ()) = Some (cell_property u (text_bytes ''reg-shift''))"
    "dtb_get_u32 (mem s) (tree s) (Some nd) (Some (lit ''reg-io-width'')) (Some ()) = Some (cell_property u (text_bytes ''reg-io-width''))"
    using tree.get_u32 [OF tree n(1)] tree.get_u32 [OF tree n(2)] by simp_all
  obtain s1 where s1: "log p ''uart: failed to read uart reg from dtb'' [] s = Some s1" "said s s1"
    using says [OF off uart_formats(2), of "[]" p] by auto
  show ?thesis
  proof (cases "node_reg (dtb_node_to_fdt nd) u 0")
    case None
    then show ?thesis using s1 by (simp add: read_port_def reg node_uart_def)
  next
    case (Some x)
    then obtain base sz where x: "node_reg (dtb_node_to_fdt nd) u 0 = Some (base, sz)" by (cases x) auto
    consider "sz = 0" | "sz \<noteq> 0" "known_width u"
      | w where "sz \<noteq> 0" "cell_property u (text_bytes ''reg-io-width'') = Some w" "w \<noteq> 1" "w \<noteq> 4"
      by (cases "cell_property u (text_bytes ''reg-io-width'')") (auto simp: known_width_def)
    then show ?thesis
    proof cases
      case 1
      then show ?thesis using s1 by (simp add: read_port_def reg x node_uart_def)
    next
      case 2
      then show ?thesis
        by (cases port) (auto simp: read_port_def reg x g node_uart_def node_port_def known_width_def Let_def split: option.splits)
    next
      case (3 w)
      obtain s2 where "log p ''uart: unsupported reg-io-width=%u'' [Val (ucast w)] s = Some s2" "said s s2"
        using says [OF off uart_formats(3), of "[Val (ucast w)]" p] by auto
      then show ?thesis using 3 by (simp add: read_port_def reg x g node_uart_def known_width_def Let_def split: option.split)
    qed
  qed
qed

lemma find_port_tree:
  assumes tree: "tree_given mb (tree s) ns" "mb \<subseteq>\<^sub>m mem s"
    and bufs: "path_buffer mb (mem s) path" "path_buffer mb (mem s) resolved" and off: "\<not> uart_ready s"
  shows "\<exists>ok port' m s'. uart_find_port p path resolved port s = Some (ok, port', s') \<and> said (s\<lparr>mem := m\<rparr>) s' \<and>
    arrays_changed path resolved (mem s) m \<and> (if ok then port' = tree_port ns else tree_port ns = default_port)"
proof -
  from stdout_port_tree [OF tree bufs] obtain m where
    m: "stdout_port path resolved (mem s) (tree s) = Some (map_option fst (console_node ns), m)" "mb \<subseteq>\<^sub>m m"
      "arrays_changed path resolved (mem s) m" by blast
  let ?s = "s\<lparr>mem := m\<rparr>"
  have given: "tree_given m (tree s) ns" by (rule tree_given_mono [OF tree(1) m(2)])
  have "first_compatible m (tree s) uart_compatibles = Some (map_option fst (chosen_node ns))"
  proof (cases "dtb_ready (tree s)")
    case True
    then show ?thesis using first_compatible_tree given by (simp add: tree_given_def)
  next
    case False
    then show ?thesis using given
      by (simp add: tree_given_def uart_compatibles_def dtb_find_compatible_def chosen_node_def split: option.split)
  qed
  then have code: "uart_find_port p path resolved port s = (case taken_node ns of
      None \<Rightarrow> do { s \<leftarrow> log p ''uart: failed to find uart in dtb, using fallback'' [] ?s; Some (False, port, s) }
    | Some (nd, _) \<Rightarrow> read_port p nd port ?s)"
    by (cases "console_node ns"; cases "chosen_node ns")
      (auto simp: uart_find_port_def m(1) taken_node_def split: prod.split)
  show ?thesis
  proof (cases "taken_node ns")
    case None
    obtain s1 where "log p ''uart: failed to find uart in dtb, using fallback'' [] ?s = Some s1" "said ?s s1"
      using says [of ?s "''uart: failed to find uart in dtb, using fallback''" "[]" "[]" p, OF _ uart_formats(1)] off by auto
    then show ?thesis using None m(3) by (intro exI [of _ False]) (auto simp: code tree_port_def)
  next
    case (Some x)
    then obtain nd u where x: "taken_node ns = Some (nd, u)" by (cases x) auto
    from taken_node_in [OF this] obtain q where q: "(q, nd, u) \<in> set ns" by blast
    then have "dtb_presents (m, tree s) ns" using given by (auto simp: tree_given_def split: if_splits)
    with read_port_tree [of ?s ns q nd u p port] q off obtain port' s' where
      "read_port p nd port ?s = Some (node_uart nd u \<noteq> None, port', s')" "said ?s s'"
      "\<forall>x. node_uart nd u = Some x \<longrightarrow> port' = x" by auto
    then show ?thesis using m(3)
      by (intro exI [of _ "node_uart nd u \<noteq> None"] exI [of _ port'] exI [of _ m] exI [of _ s']) (auto simp: code x tree_port_def)
  qed
qed

text \<open>Up to the mapping of the registers the driver has taken the port of the tree, and printed something.\<close>

lemma uart_init_port:
  assumes tree: "tree_given mb (tree s) ns" "mb \<subseteq>\<^sub>m mem s"
    and bufs: "path_buffer mb (mem s) path" "path_buffer mb (mem s) resolved"
  shows "\<exists>m s1. said (s\<lparr>uart_ready := False, mem := m, uart0 := tree_port ns\<rparr>) s1 \<and> arrays_changed path resolved (mem s) m \<and>
    uart_init p img path resolved s = uart_bring_up p img s1"
proof -
  let ?s = "s\<lparr>uart_ready := False\<rparr>"
  from find_port_tree [of mb ?s ns path resolved p "uart0 s"] assms obtain ok port m s1 where
    f: "uart_find_port p path resolved (uart0 s) ?s = Some (ok, port, s1)" "said (?s\<lparr>mem := m\<rparr>) s1"
      "arrays_changed path resolved (mem s) m" "if ok then port = tree_port ns else tree_port ns = default_port" by auto
  from f(2) have s1: "said (?s\<lparr>mem := m, uart0 := port\<rparr>) (s1\<lparr>uart0 := port\<rparr>)" by (rule said_port)
  show ?thesis
  proof (cases ok)
    case True
    then show ?thesis using f s1 by (intro exI [of _ m] exI [of _ "s1\<lparr>uart0 := port\<rparr>"]) (simp add: uart_init_def)
  next
    case False
    have "\<not> uart_ready (s1\<lparr>uart0 := port\<rparr>)" using f(2) by (auto simp: said_def)
    from uart_fallback_said [OF this, of p] obtain s2 where s2: "uart_fallback p (s1\<lparr>uart0 := port\<rparr>) = Some s2"
      "said (s1\<lparr>uart0 := default_port\<rparr>) s2" by auto
    moreover have "said (?s\<lparr>mem := m, uart0 := default_port\<rparr>) (s1\<lparr>uart0 := default_port\<rparr>)" using f(2) by (rule said_port)
    ultimately have "said (?s\<lparr>mem := m, uart0 := tree_port ns\<rparr>) s2" using False f(4) said_trans by auto
    then show ?thesis using f(1,3) s2(1) False by (intro exI [of _ m] exI [of _ s2]) (simp add: uart_init_def)
  qed
qed

lemma bring_up_off:
  assumes "\<not> uart_ready s" "uart0 s = u"
    and "paging_map_mmio (loader p) img (uart_base u) (uart_size u) (vm s) = Some (False, v)"
  shows "\<exists>s'. uart_bring_up p img s = Some (False, s') \<and> said (s\<lparr>vm := v\<rparr>) s'"
proof -
  have "logs p [] (log p ''uart: failed to map mmio phys=0x%llx size=0x%llx'' [Val (uart_base u), Val (uart_size u)])"
    by (rule logs_typed [OF uart_formats(5)]) simp_all
  from log_said [OF this, of "s\<lparr>vm := v\<rparr>"] assms show ?thesis by (auto simp: uart_bring_up_def)
qed

lemma bring_up_on:
  assumes "uart0 s = u" "paging_map_mmio (loader p) img (uart_base u) (uart_size u) (vm s) = Some (True, v)"
    and hhdm: "hhdm_response (loader p) \<noteq> None" and shift: "unat (reg_shift u) < 64"
    and quiet: "\<exists>k. \<forall>h. k \<le> length h \<longrightarrow> \<not> rx_ready p u h"
  shows "\<exists>s' h r. uart_bring_up p img s = Some (True, s') \<and> uart0 s' = u \<and> uart_ready s' \<and> vm s' = v \<and>
    mem s' = mem s \<and> tree s' = tree s \<and> clock s' = clock s \<and>
    accesses s' = accesses s @ init_writes p u @ h @ r @ [reg_read p u UART_LSR] \<and>
    set r \<subseteq> {reg_read p u UART_LSR, reg_read p u UART_RBR} \<and> \<not> rx_ready p u (accesses s @ init_writes p u @ h @ r)"
proof -
  let ?s = "s\<lparr>vm := v, accesses := accesses s @ init_writes p u, uart_ready := True\<rparr>"
  let ?args = "[Val (uart_base u), Val (ucast (reg_shift u)), Val (ucast (reg_io_width u))]"
  have "uart_program p (s\<lparr>vm := v\<rparr>) = Some (s\<lparr>vm := v, accesses := accesses s @ init_writes p u\<rparr>)"
    using uart_program_writes [of p "s\<lparr>vm := v\<rparr>"] hhdm shift assms(1) by simp
  then have i: "uart_bring_up p img s = do {
      s \<leftarrow> log p ''uart: init ok phys=0x%llx shift=%u width=%u'' ?args ?s;
      s \<leftarrow> uart_drain p s; Some (True, s) }" using assms(1,2) by (simp add: uart_bring_up_def)
  have "logs p [] (log p ''uart: init ok phys=0x%llx shift=%u width=%u'' ?args)"
    by (rule logs_typed [OF uart_formats(6)]) simp_all
  moreover have "terminal_up p ?s" using hhdm shift assms(1) by (simp add: terminal_up_def port_up_def)
  ultimately obtain s2 cs n where s2: "log p ''uart: init ok phys=0x%llx shift=%u width=%u'' ?args ?s = Some s2"
    "terminal_took p cs (?s\<lparr>clock_reads := n\<rparr>) s2" unfolding logs_def by blast
  then obtain h where h: "uart0 s2 = u" "uart_ready s2" "vm s2 = v" "mem s2 = mem s" "tree s2 = tree s" "clock s2 = clock s" "accesses s2 = accesses s @ init_writes p u @ h"
    using assms(1) by (auto simp: terminal_took_def)
  from quiet obtain k where "\<forall>h. k \<le> length h \<longrightarrow> \<not> rx_ready p (uart0 s2) h" using h(1) by auto
  from uart_drain_ends [OF hhdm _ this] shift h(1) obtain r where r: "uart_drain p s2 = Some (s2\<lparr>accesses :=
      accesses s2 @ r @ [reg_read p u UART_LSR]\<rparr>)" "set r \<subseteq> {reg_read p u UART_LSR, reg_read p u UART_RBR}"
    "\<not> rx_ready p u (accesses s2 @ r)" by auto
  have "uart_bring_up p img s = Some (True, s2\<lparr>accesses := accesses s2 @ r @ [reg_read p u UART_LSR]\<rparr>)"
    by (simp add: i s2(1) r(1))
  then show ?thesis using h r(2,3) by auto
qed

lemma uart_init_tree:
  assumes tree: "tree_given mb (tree s) ns" "mb \<subseteq>\<^sub>m mem s"
    and bufs: "path_buffer mb (mem s) path" "path_buffer mb (mem s) resolved"
    and shift: "unat (reg_shift (tree_port ns)) < 64" and hhdm: "hhdm_response (loader p) \<noteq> None"
    and map: "paging_map_mmio (loader p) img (uart_base (tree_port ns)) (uart_size (tree_port ns)) (vm s) = Some (ok, v)"
    and quiet: "\<exists>k. \<forall>h. k \<le> length h \<longrightarrow> \<not> rx_ready p (tree_port ns) h"
  shows "\<exists>s'. uart_init p img path resolved s = Some (ok, s') \<and> uart0 s' = tree_port ns \<and> uart_ready s' = ok \<and> vm s' = v \<and>
    tree s' = tree s \<and> clock s' = clock s \<and> arrays_changed path resolved (mem s) (mem s') \<and>
    (if ok then \<exists>h r. accesses s' = accesses s @ init_writes p (tree_port ns) @ h @ r @ [reg_read p (tree_port ns) UART_LSR] \<and>
        set r \<subseteq> {reg_read p (tree_port ns) UART_LSR, reg_read p (tree_port ns) UART_RBR} \<and>
        \<not> rx_ready p (tree_port ns) (accesses s @ init_writes p (tree_port ns) @ h @ r)
     else accesses s' = accesses s)"
proof -
  from uart_init_port [OF tree bufs, of p img] obtain m s1
    where s1: "said (s\<lparr>uart_ready := False, mem := m, uart0 := tree_port ns\<rparr>) s1" "arrays_changed path resolved (mem s) m"
    and init: "uart_init p img path resolved s = uart_bring_up p img s1" by blast
  have f: "uart0 s1 = tree_port ns" "\<not> uart_ready s1" "accesses s1 = accesses s" "vm s1 = vm s" "mem s1 = m" "tree s1 = tree s"
    "clock s1 = clock s" using s1(1) by (auto simp: said_def)
  show ?thesis
  proof (cases ok)
    case False
    then show ?thesis using bring_up_off [OF f(2,1), of p img v] map f s1(2) by (auto simp: init said_def)
  next
    case True
    with bring_up_on [OF f(1) _ hhdm shift quiet, of img v] map obtain s' h r where
      "uart_bring_up p img s1 = Some (True, s')" "uart0 s' = tree_port ns" "uart_ready s'" "vm s' = v" "mem s' = m"
      "tree s' = tree s" "clock s' = clock s"
      "accesses s' = accesses s @ init_writes p (tree_port ns) @ h @ r @ [reg_read p (tree_port ns) UART_LSR]"
      "set r \<subseteq> {reg_read p (tree_port ns) UART_LSR, reg_read p (tree_port ns) UART_RBR}"
      "\<not> rx_ready p (tree_port ns) (accesses s @ init_writes p (tree_port ns) @ h @ r)" by (auto simp: f)
    then show ?thesis using True s1(2) by (intro exI [of _ s']) (simp only: init simp_thms if_True; blast)
  qed
qed

text \<open>
  C36: \<open>uart_init\<close> brings up the UART that the device tree \<open>ns\<close> calls for: that of the node that
  \<open>stdout-path\<close> leads to, cut at the colon, as a path or through \<open>/aliases\<close>, if it is compatible with the
  driver; else the first node, in document order, that is compatible with the first string of the
  driver's list that any node has; with the registers of its \<open>reg\<close>, its shift and its width.  It is the
  board's default port when there is no such node, no tree, no usable \<open>reg\<close> or an unknown width.  The
  driver maps the registers, and only when that succeeded programs the port with the six writes of the 8250
  protocol, in their order, before any other access; what follows are the log line and reads of the
  line status and the receive buffer until that is empty.  If the mapping fails no register is touched and
  the port stays off.  Of the memory only the two local arrays change.  (The device is one whose receive
  buffer runs empty, the arrays lie outside the blob \<open>mb\<close>.)
\<close>

theorem uart_init_correct:
  assumes tree: "tree_given mb (tree s) ns" "mb \<subseteq>\<^sub>m mem s"
    and bufs: "path_buffer mb (mem s) path" "path_buffer mb (mem s) resolved"
    and shift: "unat (reg_shift (tree_port ns)) < 64" and hhdm: "hhdm_response (loader p) \<noteq> None"
    and map: "paging_map_mmio (loader p) img (uart_base (tree_port ns)) (uart_size (tree_port ns)) (vm s) = Some (ok, v)"
    and quiet: "\<exists>k. \<forall>h. k \<le> length h \<longrightarrow> \<not> rx_ready p (tree_port ns) h"
  shows "\<exists>s'. uart_init p img path resolved s = Some (ok, s') \<and> uart0 s' = tree_port ns \<and> uart_ready s' = ok \<and> vm s' = v \<and>
    tree s' = tree s \<and> clock s' = clock s \<and> arrays_changed path resolved (mem s) (mem s') \<and>
    (if ok then \<exists>h r. accesses s' = accesses s @ init_writes p (tree_port ns) @ h @ r @ [reg_read p (tree_port ns) UART_LSR] \<and>
        set r \<subseteq> {reg_read p (tree_port ns) UART_LSR, reg_read p (tree_port ns) UART_RBR} \<and>
        \<not> rx_ready p (tree_port ns) (accesses s @ init_writes p (tree_port ns) @ h @ r)
     else accesses s' = accesses s)"
  by (rule uart_init_tree [OF assms])

end
