(* ===== verification/UartDemo.thy ===== *)
theory UartDemo
  imports UartInitProps PagingProps
begin

text \<open>
  A concrete machine for \<open>uart_init\<close> and the boot: a device tree, with its header, whose \<open>stdout-path\<close> names
  an alias of a UART behind the address space of the demo in \<open>VmDemo\<close>; the device; and a memory with the
  blob, the two local arrays and the direct map.  The strings and their offsets are those of \<open>FdtDemo\<close>.
\<close>

section \<open>The device tree\<close>

definition plain_uart :: dt where
  "plain_uart = Dt (text_bytes ''uart@4010'')
     [(text_bytes ''compatible'', text_bytes ''ns16550a'' @ [0]), (text_bytes ''reg'', cell_bytes [0, 0x4010, 0x20])] []"

definition plain_chosen :: dt where
  "plain_chosen = Dt (text_bytes ''chosen'') [(text_bytes ''stdout-path'', text_bytes ''serial0:115200'' @ [0])] []"

definition plain_aliases :: dt where
  "plain_aliases = Dt (text_bytes ''aliases'') [(text_bytes ''serial0'', text_bytes ''/uart@4010'' @ [0])] []"

definition plain_tree :: dt where
  "plain_tree = Dt [] [(text_bytes ''#address-cells'', be32 2), (text_bytes ''#size-cells'', be32 1)]
     [plain_uart, plain_chosen, plain_aliases]"

definition plain_struct :: "u8 list" where
  "plain_struct = flatten demo_off plain_tree @ be32 FDT_END"

text \<open>The header: magic, total size, the offsets of the two blocks, the reserved map, versions, and the sizes.\<close>

definition plain_header :: "u8 list" where
  "plain_header = cell_bytes [FDT_MAGIC, 40 + 200 + 62, 40, 40 + 200, 40, 17, 16, 0, 62, 200]"

definition plain_blob :: memory where
  "plain_blob = memory_of 0x80000000 (plain_header @ plain_struct @ demo_names)"

definition plain_fdt :: fdt where
  "plain_fdt = \<lparr>blob = 0x80000000, struct_block = 0x80000028, struct_block_end = 0x800000F0,
     strings_block = 0x800000F0, strings_size = 62\<rparr>"

lemma plain_length: "length plain_struct = 200" "length plain_header = 40"
  by code_simp+

lemma plain_holds: "holds plain_blob 0x80000000 plain_header" "holds plain_blob 0x80000028 plain_struct"
    "holds plain_blob 0x800000F0 demo_names"
  using holds_memory_of [of "plain_header @ plain_struct @ demo_names" "0x80000000"] plain_length demo_lengths(2)
  by (simp_all add: plain_blob_def)

lemma plain_blob_of: "blob_of plain_blob plain_fdt demo_off plain_tree"
proof -
  have "fdt_placed plain_blob plain_fdt"
    using holds_region [OF plain_holds(2)] holds_region [OF plain_holds(3)]
    by (simp add: fdt_placed_def plain_fdt_def plain_length demo_lengths)
  moreover have "cstr plain_blob 0x800000F0 (text_bytes ''#address-cells'')" "cstr plain_blob 0x800000FF (text_bytes ''#size-cells'')"
    "cstr plain_blob 0x8000010B (text_bytes ''compatible'')" "cstr plain_blob 0x80000116 (text_bytes ''reg'')"
    "cstr plain_blob 0x8000011A (text_bytes ''stdout-path'')" "cstr plain_blob 0x80000126 (text_bytes ''serial0'')"
    using plain_holds(3) by (simp_all add: demo_names_def cstr_holds text_bytes_def)
  then have "wf_dt (prop_ok plain_blob plain_fdt demo_off) [slash] 0 plain_tree"
    by (simp add: plain_tree_def plain_uart_def plain_chosen_def plain_aliases_def prop_ok_def demo_off_def text_bytes_def
        join_path_def path_dir_def slash_def plain_fdt_def)
  ultimately show ?thesis
    using plain_holds(2) plain_length by (simp add: blob_of_def plain_fdt_def block_size_def plain_struct_def)
qed

definition plain_dtb :: dtb where
  "plain_dtb = \<lparr>dtb_fdt = plain_fdt, dtb_ready = True\<rparr>"

lemma plain_init: "plain_blob \<subseteq>\<^sub>m m \<Longrightarrow> dtb_init m (Some 0x80000000) = Some (True, plain_dtb)"
proof -
  assume "plain_blob \<subseteq>\<^sub>m m"
  from holds_mono [OF plain_holds(1) this] have h: "holds m 0x80000000 plain_header" .
  have "fdt_read_be32 m (0x80000000 + of_nat (4 * i)) =
      Some ([FDT_MAGIC, 302, 40, 240, 40, 17, 16, 0, 62, 200] ! i)" if "i < 10" for i
    using holds_cell [OF h [unfolded plain_header_def], of i] that by simp
  from this [of 0] this [of 1] this [of 2] this [of 3] this [of 8] this [of 9] show ?thesis
    by (simp add: dtb_init_def fdt_init_def read_header_def fdt_range_valid_def plain_dtb_def plain_fdt_def)
qed

definition plain_list :: nodes where
  "plain_list = map (\<lambda>x. (fst x, fdt_node_to_dtb (fst (snd x)), snd (snd x))) (dt_nodes demo_off plain_tree)"

lemma plain_given: "tree_given plain_blob plain_dtb plain_list"
proof -
  have "dtb_presents (plain_blob, plain_dtb) plain_list"
    unfolding dtb_presents_def using plain_blob_of
    by (intro exI [of _ demo_off] exI [of _ plain_tree]) (simp add: plain_dtb_def plain_list_def)
  moreover have "fdt_aligned plain_fdt" by (simp add: fdt_aligned_def plain_fdt_def)
  ultimately show ?thesis by (simp add: tree_given_def plain_dtb_def)
qed

definition plain_uart_node :: dtb_node where
  "plain_uart_node = \<lparr>dtb_struct_offset = 40, dtb_parent_address_cells = 2, dtb_parent_size_cells = 1\<rparr>"

text \<open>The console: \<open>serial0:115200\<close>, cut, resolved to \<open>/uart@4010\<close>, the compatible node.\<close>

lemma plain_taken: "taken_node plain_list = Some (plain_uart_node, plain_uart)"
  by code_simp

definition plain_port :: uart_port where
  "plain_port = \<lparr>uart_base = 0x4010, uart_size = 0x20, reg_shift = 0, reg_io_width = 1\<rparr>"

lemma plain_tree_port: "tree_port plain_list = plain_port"
proof -
  have "cells_of (cell_bytes [0, 0x4010, 0x20]) = [0, 0x4010, 0x20]" by code_simp
  then have "node_reg (dtb_node_to_fdt plain_uart_node) plain_uart 0 = Some (0x4010, 0x20)"
    by (simp add: node_reg_def plain_uart_def text_bytes_def reg_entry_def plain_uart_node_def dtb_node_to_fdt_def del: cell_bytes_simps)
  moreover have "known_width plain_uart" "node_port 0x4010 0x20 plain_uart = plain_port"
    by (simp_all add: node_port_def known_width_def cell_property_def plain_uart_def text_bytes_def plain_port_def)
  ultimately show ?thesis by (simp add: tree_port_def plain_taken node_uart_def)
qed

section \<open>The machine\<close>

text \<open>The blob, the two arrays at \<open>0x90000000\<close> and the direct map of sixteen frames.\<close>

definition plain_mem :: memory where
  "plain_mem = (\<lambda>a. if a - 0x90000000 < 0x200 then Some 0 else if a - vm_hhdm < 0x10000 then Some 0 else plain_blob a)"

lemma plain_blob_dom: "a \<in> dom plain_blob \<longleftrightarrow> unat a - 0x80000000 < 302 \<and> 0x80000000 \<le> unat a"
  using unsigned_less [of a]
  by (auto simp: plain_blob_def memory_of_def plain_length demo_lengths unat_sub_if' split: if_splits)

lemma plain_mem_blob: "plain_blob \<subseteq>\<^sub>m plain_mem"
  unfolding map_le_def
proof
  fix a assume "a \<in> dom plain_blob"
  then have "\<not> a - 0x90000000 < 0x200" "\<not> a - vm_hhdm < 0x10000"
    by (auto simp: plain_blob_dom vm_hhdm_def word_less_nat_alt unat_sub_if')
  then show "plain_blob a = plain_mem a" by (simp add: plain_mem_def)
qed

lemma plain_buffers: "path_buffer plain_blob plain_mem 0x90000000" "path_buffer plain_blob plain_mem 0x90000100"
proof -
  have a: "unat (b + of_nat i) = unat b + i" if "i < 256" "b \<in> {0x90000000, 0x90000100}" for i and b :: u64
    using that by (auto simp: unat_add_nowrap unat_of_nat_small)
  have "path_buffer plain_blob plain_mem b" if b: "b \<in> {0x90000000, 0x90000100}" for b
  proof -
    have "b + of_nat i - 0x90000000 < 0x200" if "i < 256" for i
      using a [OF that b] that b by (auto simp: word_less_nat_alt unat_sub_if')
    moreover have "b + of_nat i \<notin> dom plain_blob" if "i < 256" for i
      unfolding plain_blob_dom using a [OF that b] that b by auto
    ultimately show ?thesis using b by (auto simp: path_buffer_def region_def plain_mem_def)
  qed
  then show "path_buffer plain_blob plain_mem 0x90000000" "path_buffer plain_blob plain_mem 0x90000100" by simp_all
qed

text \<open>A device that has three bytes waiting.\<close>

definition plain_platform :: platform where
  "plain_platform = \<lparr>loader = vm_boot, registers = (\<lambda>h a. if length h < 12 then 0x61 else 0x60), time_register = of_nat\<rparr>"

definition plain_kernel :: kernel where
  "plain_kernel = \<lparr>uart0 = default_port, uart_ready = False, accesses = [], sbi_console = [], g_ft_ctx = None,
     clock = ktime_reset, clock_reads = 0, mem = plain_mem, tree = plain_dtb, vm = vm_ready\<rparr>"

lemma plain_quiet: "\<exists>k. \<forall>h. k \<le> length h \<longrightarrow> \<not> rx_ready plain_platform u h"
  by (intro exI [of _ 12]) (simp add: rx_ready_def plain_platform_def UART_LSR_RX_READY_def)

theorem uart_init_correct_witness:
  "\<exists>ok s'. uart_init plain_platform vm_image 0x90000000 0x90000100 plain_kernel = Some (ok, s') \<and>
     uart0 s' = plain_port \<and> uart_ready s' = ok \<and>
     (ok \<longrightarrow> hd (accesses s') = Write8 (PHYS_TO_VIRT vm_hhdm 0x4011) 0)"
proof -
  have b: "hhdm_response (loader plain_platform) = Some vm_hhdm" "loader plain_platform = vm_boot"
    by (simp_all add: plain_platform_def vm_boot_def)
  have k: "tree plain_kernel = plain_dtb" "mem plain_kernel = plain_mem" "vm plain_kernel = vm_ready" "accesses plain_kernel = []"
    by (simp_all add: plain_kernel_def)
  obtain ok v where map: "paging_map_mmio (loader plain_platform) vm_image (uart_base plain_port) (uart_size plain_port)
      (vm plain_kernel) = Some (ok, v)"
    using vm_mmio_runs b(2) by (auto simp: k(3) plain_port_def)
  have shift: "unat (reg_shift plain_port) < 64" "hhdm_response (loader plain_platform) \<noteq> None"
    using b by (simp_all add: plain_port_def)
  have i: "init_writes plain_platform plain_port \<noteq> []"
    "hd (init_writes plain_platform plain_port) = Write8 (PHYS_TO_VIRT vm_hhdm 0x4011) 0"
    using b(1) by (simp_all add: init_writes_def reg_write_def reg_addr_def UART_IER_def plain_port_def)
  from uart_init_correct [of plain_blob plain_kernel plain_list, unfolded k plain_tree_port,
      OF plain_given plain_mem_blob plain_buffers shift map [unfolded k] plain_quiet] obtain s' where
    "uart_init plain_platform vm_image 0x90000000 0x90000100 plain_kernel = Some (ok, s')" "uart0 s' = plain_port" "uart_ready s' = ok"
    "ok \<longrightarrow> (\<exists>h. accesses s' = init_writes plain_platform plain_port @ h)" by (auto split: if_splits)
  with i show ?thesis by auto
qed

end
