(* ===== verification/KernelBoot.thy ===== *)
theory KernelBoot
  imports Kmain UartDemo MmProps
begin

text \<open>
  The whole boot: the contracts of the components of \<open>kmain\<close>, put together in the order in which it calls
  them, and a concrete boot of the machine of \<open>UartDemo\<close>.
\<close>

section \<open>Steps that only print\<close>

definition spoke :: "kernel \<Rightarrow> kernel \<Rightarrow> bool" where
  "spoke s s' \<longleftrightarrow> uart0 s' = uart0 s \<and> uart_ready s' = uart_ready s \<and> clock s' = clock s \<and> mem s' = mem s \<and>
     tree s' = tree s \<and> vm s' = vm s \<and> (\<exists>h. accesses s' = accesses s @ h)"

lemma spoke_refl [simp]: "spoke s s"
  by (simp add: spoke_def)

lemma spoke_trans: "spoke s t \<Longrightarrow> spoke t u \<Longrightarrow> spoke s u"
  by (auto simp: spoke_def)

lemma spoke_up: "spoke s s' \<Longrightarrow> terminal_up p s' = terminal_up p s"
  by (simp add: spoke_def terminal_up_def port_up_def)

lemma took_spoke: "terminal_took p cs (s\<lparr>clock_reads := n\<rparr>) s' \<Longrightarrow> spoke s s'"
  by (auto simp: terminal_took_def spoke_def)

text \<open>A log call of the boot.\<close>

lemma talks:
  assumes "terminal_up p s" "well_typed f ks" "list_all2 has_kind args ks" "length f < 2 ^ 64"
  shows "\<exists>s'. log p f args s = Some s' \<and> spoke s s'"
  using logs_typed [OF assms(2-4), of p] assms(1) took_spoke unfolding logs_def by blast

lemma boot_formats:
  "well_typed ''boot: dtb_init failed'' []"
  "well_typed ''early: failed to get framebuffer, no ramfb?'' []"
  "well_typed ''early: failed to initialize flanterm'' []"
  "well_typed ''early: Hello, World!'' []"
  "well_typed ''test: allocated single page: %p'' [A_number]"
  "well_typed ''test: value after write: %d'' [A_number]"
  "well_typed ''early: setup trap handler'' []"
  "well_typed ''early: failed to get mp info'' []"
  "well_typed ''early: CPU count=%d, bsp hartid=%d'' [A_number, A_number]"
  by code_simp+

section \<open>The framebuffer and the traps\<close>

lemma framebuffer_speaks:
  assumes "terminal_up p s" shows "\<exists>s'. boot_framebuffer p r s = Some s' \<and> spoke s s'"
proof (cases "framebuffer_count r = None \<or> the (framebuffer_count r) < 1")
  case True
  then show ?thesis using talks [OF assms boot_formats(2), of "[]"] by (simp add: boot_framebuffer_def)
next
  case False
  let ?s = "s\<lparr>g_ft_ctx := (if ft_init_ok r then Some [] else None)\<rparr>"
  have sp: "spoke s ?s" by (simp add: spoke_def)
  then have "terminal_up p ?s" using assms spoke_up by blast
  from talks [OF this boot_formats(3), of "[]"] sp False show ?thesis
    by (auto simp: boot_framebuffer_def Let_def intro: spoke_trans)
qed

lemma traps_speak:
  assumes up: "terminal_up p s" and entry: "take_bit 2 (trap_entry a) = 0"
  shows "\<exists>c' s'. boot_traps p r a c s = Some (c', s') \<and> spoke s s' \<and> csr_read Stvec c' = trap_entry a \<and>
    csr_read Sstatus c' AND SSTATUS_SIE = 0 \<and> csr_read Sie c' AND (SIE_SSIE OR SIE_STIE OR SIE_SEIE) = 0"
proof -
  from trap_init_masked [OF up entry] obtain c' s1 out n where t: "trap_init p (trap_entry a) c s = Some (c', s1)"
    "terminal_took p out (s\<lparr>clock_reads := n\<rparr>) s1" and c: "csr_read Stvec c' = trap_entry a"
    "csr_read Sstatus c' AND SSTATUS_SIE = 0" "csr_read Sie c' AND (SIE_SSIE OR SIE_STIE OR SIE_SEIE) = 0" by blast
  have s1: "spoke s s1" "terminal_up p s1" using took_spoke [OF t(2)] up spoke_up by blast+
  from talks [OF s1(2) boot_formats(7), of "[]"] obtain s2 where s2: "log p ''early: setup trap handler'' [] s1 = Some s2" "spoke s1 s2"
    by auto
  have up2: "terminal_up p s2" using s1(2) s2(2) spoke_up by blast
  have "\<exists>s3. (case mp_response r of None \<Rightarrow> log p ''early: failed to get mp info'' [] s2
      | Some (cpu_count, bsp_hartid) \<Rightarrow> log p ''early: CPU count=%d, bsp hartid=%d'' [Val cpu_count, Val bsp_hartid] s2) = Some s3 \<and> spoke s2 s3"
    using talks [OF up2 boot_formats(8), of "[]"] talks [OF up2 boot_formats(9), of "[Val _, Val _]"]
    by (auto split: option.split)
  then show ?thesis using t(1) s1(1) s2 c by (auto simp: boot_traps_def intro: spoke_trans [OF spoke_trans])
qed

section \<open>The allocation test\<close>

lemma store32_dom:
  assumes "region m a 4" shows "\<exists>m'. store32 a x m = Some m' \<and> dom m' = dom m"
proof -
  have "\<exists>m'. for_each (\<lambda>i. store8 (a + of_nat i) (ucast (drop_bit (8 * i) x))) is m = Some m' \<and> dom m' = dom m"
    if "set is \<subseteq> {..<4}" "\<forall>i<4. a + of_nat i \<in> dom m" for "is" and m :: memory
    using that
  proof (induction "is" arbitrary: m)
    case (Cons i "is")
    then have "a + of_nat i \<in> dom m" by simp
    then obtain m1 where m1: "store8 (a + of_nat i) (ucast (drop_bit (8 * i) x)) m = Some m1" "dom m1 = dom m"
      by (auto simp: store8_def insert_absorb domI)
    with Cons.IH [of m1] Cons.prems show ?case by simp
  qed simp
  from this [of "[0..<4]" m] assms show ?thesis by (simp add: store32_def region_def domIff subset_eq)
qed

lemma load32_dom:
  assumes "region m a 4" shows "\<exists>x. load32 a m = Some x"
proof -
  have "m (a + of_nat i) \<noteq> None" if "i < 4" for i using assms that by (simp add: region_def)
  from this [of 0] this [of 1] this [of 2] this [of 3] show ?thesis by (auto simp: load32_def)
qed

text \<open>The page of the test is one of the free frames, it is writable, and it comes back.\<close>

lemma test_page:
  assumes av: "pmm_avail X al" and X: "X \<noteq> {}" and nz: "\<forall>q\<in>X. frame_ptr hhdm q \<noteq> 0"
  shows "\<exists>q\<in>X. \<exists>al1 al2. pmm_alloc hhdm 0 al = Some (frame_ptr hhdm q, al1) \<and> pmm_free hhdm (frame_ptr hhdm q) al1 = Some al2 \<and> pmm_avail X al2"
proof -
  from av obtain U F A where inv: "pmm_inv U F A al" and XF: "X = frames_of F" by (auto simp: pmm_avail_def)
  have "F \<noteq> {}" using X XF by (auto simp: frames_of_def)
  then obtain q0 j0 where "smallest_fit F 0 q0 j0" by (rule smallest_fit_0)
  with page_alloc_cases [OF inv, of 0] obtain q j al1 where
    q: "smallest_fit F 0 q j" "page_alloc 0 al = Some (Some q, al1)" "pmm_inv U (abs_take q 0 j F) (insert (q, 0) A) al1"
    by (auto simp: PMM_MAX_ORDER_def)
  note fit = fit_block [OF inv q(1)]
  have fr: "frames q 0 = {q}" by (auto simp: frames_def)
  have mem: "q \<in> X" using fit(2) fr XF by simp
  have alloc: "pmm_alloc hhdm 0 al = Some (frame_ptr hhdm q, al1)"
    using q(2) pmm_page_phys [OF q(3) insertI1] by (simp add: pmm_alloc_eq_page_alloc frame_ptr_def PagingBits.frame_at_def)
  from pmm_free_used [OF q(3) insertI1 frame_ptr_def] nz mem obtain al2 where
    al2: "pmm_free hhdm (frame_ptr hhdm q) al1 = Some al2" "pmm_inv U (abs_release q 0 (abs_take q 0 j F)) (insert (q, 0) A - {(q, 0)}) al2"
    by blast
  note core = pmm_inv_core [OF q(3)]
  have "frames_of (abs_release q 0 (abs_take q 0 j F)) = frames q 0 \<union> frames_of (abs_take q 0 j F)"
    by (rule abs_release_ok(2) [OF fit(1) core_blocks(2) [OF core]]) (simp add: fit(4) Diff_disjoint)
  then have "X = frames_of (abs_release q 0 (abs_take q 0 j F))" using fit(4) fr XF mem by auto
  then have "pmm_avail X al2" using al2(2) unfolding pmm_avail_def by blast
  then show ?thesis using mem alloc al2(1) by blast
qed

lemma boot_test_ends:
  assumes up: "terminal_up p s" and hh: "hhdm_response (loader p) = Some hhdm"
    and av: "pmm_avail X (allocator (vm s))" "X \<noteq> {}"
    and acc: "\<forall>q\<in>X. frame_ptr hhdm q \<noteq> 0 \<and> region (mem s) (frame_ptr hhdm q) 4"
  shows "\<exists>s' m al. boot_test p s = Some s' \<and> spoke (s\<lparr>mem := m, vm := (vm s)\<lparr>allocator := al\<rparr>\<rparr>) s' \<and> pmm_avail X al"
proof -
  from test_page [OF av, of hhdm] acc obtain q al1 al2 where q: "q \<in> X" "pmm_alloc hhdm 0 (allocator (vm s)) = Some (frame_ptr hhdm q, al1)"
    "pmm_free hhdm (frame_ptr hhdm q) al1 = Some al2" "pmm_avail X al2" by blast
  from talks [OF up boot_formats(4), of "[]"] obtain s1 where s1: "log p ''early: Hello, World!'' [] s = Some s1" "spoke s s1" by auto
  let ?s1 = "s1\<lparr>vm := (vm s1)\<lparr>allocator := al1\<rparr>\<rparr>"
  have up1: "terminal_up p ?s1" using up spoke_up [OF s1(2), of p] by (simp add: terminal_up_def port_up_def)
  from talks [OF up1 boot_formats(5), of "[Val (frame_ptr hhdm q)]"] obtain s2 where
    s2: "log p ''test: allocated single page: %p'' [Val (frame_ptr hhdm q)] ?s1 = Some s2" "spoke ?s1 s2" by auto
  have mem2: "mem s2 = mem s" using s1(2) s2(2) by (simp add: spoke_def)
  from store32_dom [of "mem s" "frame_ptr hhdm q" 42] acc q(1) obtain m where
    m: "store32 (frame_ptr hhdm q) 42 (mem s) = Some m" "dom m = dom (mem s)" by auto
  then have "region m (frame_ptr hhdm q) 4" using acc q(1) by (auto simp: region_def dom_def set_eq_iff)
  then obtain x where x: "load32 (frame_ptr hhdm q) m = Some x" using load32_dom by blast
  let ?s2 = "s2\<lparr>mem := m\<rparr>"
  have up2: "terminal_up p ?s2" using up1 spoke_up [OF s2(2), of p] by (simp add: terminal_up_def port_up_def)
  from talks [OF up2 boot_formats(6), of "[Val (ucast x)]"] obtain s3 where
    s3: "log p ''test: value after write: %d'' [Val (ucast x)] ?s2 = Some s3" "spoke ?s2 s3" by auto
  have al: "allocator (vm s1) = allocator (vm s)" "allocator (vm s3) = al1" using s1(2) s2(2) s3(2) by (simp_all add: spoke_def)
  have "boot_test p s = Some (s3\<lparr>vm := (vm s3)\<lparr>allocator := al2\<rparr>\<rparr>)"
    by (simp add: boot_test_def s1(1) hh al q(2,3) s2(1) mem2 m(1) x s3(1))
  moreover have "spoke (s\<lparr>mem := m, vm := (vm s)\<lparr>allocator := al2\<rparr>\<rparr>) (s3\<lparr>vm := (vm s3)\<lparr>allocator := al2\<rparr>\<rparr>)"
    using s1(2) s2(2) s3(2) by (auto simp: spoke_def)
  ultimately show ?thesis using q(4) by blast
qed

section \<open>Memory\<close>

text \<open>The boot loader's answers after \<open>pfndb_init\<close> has taken its storage from the memory map.\<close>

definition reserved :: "platform \<Rightarrow> memmap_entry list \<Rightarrow> platform" where
  "reserved p es = p\<lparr>loader := (loader p)\<lparr>memmap_response := Some es\<rparr>\<rparr>"

lemma reserved_simps [simp]:
  "loader (reserved p es) = (loader p)\<lparr>memmap_response := Some es\<rparr>" "registers (reserved p es) = registers p"
  "time_register (reserved p es) = time_register p"
  by (simp_all add: reserved_def)

lemma vm_ok_memmap: "vm_ok (b\<lparr>memmap_response := x\<rparr>) X v = vm_ok b X v"
  by (simp add: vm_ok_def direct_mapped_def hhdm_of_def)

lemma early_init_memmap: "paging_early_init (b\<lparr>memmap_response := x\<rparr>) v = paging_early_init b v"
  by (simp add: paging_early_init_def split: prod.split)

lemma boot_memory_ends:
  assumes start: "\<not> dtb_ready (tree s)" and h: "hhdm_response (loader p) = Some hhdm" and es: "memmap_response (loader p) = Some es"
    and map: "memmap_wf es" "reserve_storage_loop (storage_size es) es = (Some phys, es')" "phys \<noteq> 0"
  shows "\<exists>al. boot_memory p s = Some (True, reserved p es', s\<lparr>clock :=
      \<lparr>ktime_boot_ticks = time_register p (clock_reads s), ktime_tick_freq = KTIME_FALLBACK_FREQ, ktime_ready = True\<rparr>, clock_reads := clock_reads s + 1, vm := (vm s)\<lparr>allocator := al\<rparr>\<rparr>) \<and> pmm_avail (usable_pfns es') al"
proof -
  from memory_boot_ok [OF map, of hhdm "allocator (vm s)"] obtain a1 F al where
    a: "pfndb_init (Some hhdm) (Some es) (allocator (vm s)) = Some (Some es', a1)" "pmm_init a1 = Some (True, al)"
    "pmm_inv (usable_pfns es') F {} al" "frames_of F = usable_pfns es'" by blast
  then have "pmm_avail (usable_pfns es') al" unfolding pmm_avail_def by metis
  then show ?thesis using a(1,2) by (intro exI [of _ al]) (simp add: boot_memory_def ktime_init_no_tree [OF start] h es reserved_def Let_def)
qed

section \<open>Devices\<close>

text \<open>The registers of a UART, as one more entry of the memory map.\<close>

definition uart_region :: "uart_port \<Rightarrow> memmap_entry" where
  "uart_region u = \<lparr>mm_base = uart_base u, mm_length = uart_size u, mm_usable = False\<rparr>"

lemma tree_port_size: "uart_size (tree_port ns) \<noteq> 0"
  by (auto simp: tree_port_def default_port_def node_uart_def node_port_def bind_eq_Some_conv split: option.splits prod.splits if_splits)

lemma boot_devices_ends:
  assumes off: "\<not> uart_ready s"
    and dtb: "dtb_init (mem s) (dtb_response r) = Some (dtb_ok, d)" "tree_given mb d ns" "mb \<subseteq>\<^sub>m mem s"
    and arrays: "path_buffer mb (mem s) (path_array a)" "path_buffer mb (mem s) (resolved_array a)"
    and device: "unat (reg_shift (tree_port ns)) < 64" "\<exists>k. \<forall>h. k \<le> length h \<longrightarrow> \<not> rx_ready p (tree_port ns) h"
    and root: "paging_early_init (loader p) (vm s) = (True, v0)" and h: "hhdm_response (loader p) = Some hhdm"
    and mmio: "paging_map_mmio (loader p) img (uart_base (tree_port ns)) (uart_size (tree_port ns)) v0 = Some (True, v1)"
    and init: "paging_init (loader p) img v1 = Some (True, v2)"
  shows "\<exists>s'. boot_devices p r img a s = Some (True, s') \<and> uart_ready s' \<and> uart0 s' = tree_port ns \<and> tree s' = d \<and> vm s' = v2 \<and>
    clock s' = clock s \<and> dom (mem s') = dom (mem s) \<and> (\<exists>h. accesses s' = accesses s @ init_writes p (tree_port ns) @ h)"
proof -
  let ?s = "s\<lparr>tree := d\<rparr>"
  have up: "terminal_up p ?s" using off by (simp add: terminal_up_def)
  have "\<exists>s1. (if \<not> dtb_ok then log p ''boot: dtb_init failed'' [] ?s else Some ?s) = Some s1 \<and> said ?s s1"
    using says [OF _ boot_formats(1), of ?s "[]" p] off by auto
  then obtain s1 where s1: "(if \<not> dtb_ok then log p ''boot: dtb_init failed'' [] ?s else Some ?s) = Some s1" "said ?s s1" by blast
  let ?s1 = "s1\<lparr>vm := v0\<rparr>"
  have f: "tree ?s1 = d" "mem ?s1 = mem s" "vm s1 = vm s" "clock ?s1 = clock s" "accesses ?s1 = accesses s" "vm ?s1 = v0"
    using s1(2) by (auto simp: said_def)
  from uart_init_tree [of mb ?s1 ns "path_array a" "resolved_array a" p img True v1, unfolded f, OF dtb(2,3) arrays device(1) _ mmio device(2)]
  obtain s2 where s2: "uart_init p img (path_array a) (resolved_array a) ?s1 = Some (True, s2)" "uart0 s2 = tree_port ns" "uart_ready s2"
    "vm s2 = v1" "tree s2 = d" "clock s2 = clock s" "arrays_changed (path_array a) (resolved_array a) (mem s) (mem s2)"
    "\<exists>h. accesses s2 = accesses s @ init_writes p (tree_port ns) @ h" using h by auto
  have "boot_devices p r img a s = Some (True, s2\<lparr>vm := v2\<rparr>)"
    using s1(1) by (simp add: boot_devices_def dtb(1) f(3) root s2(1,4) init)
  then show ?thesis using s2 by (intro exI [of _ "s2\<lparr>vm := v2\<rparr>"]) (simp add: arrays_changed_def)
qed

section \<open>The address space\<close>

lemma setup_root_levels:
  assumes "paging_setup_root s = (True, v)" shows "3 \<le> levels_of v" "levels_of v \<le> 5" "g_root_phys v \<noteq> 0"
proof -
  have nz: "g_levels v \<noteq> 0" "g_root_phys v \<noteq> 0" using assms by (auto simp: paging_setup_root_def Let_def)
  then show "3 \<le> levels_of v" "levels_of v \<le> 5" "g_root_phys v \<noteq> 0"
    using satp_levels_range [of "satp s"] paging_setup_root_fields(7) [OF assms] by auto
qed

lemma paging_boots:
  assumes answers: "hhdm_response b = Some hhdm" "memmap_response b = Some es" "executable_address_response b = Some (pb, vb)"
    and tables: "paging_early_init b v = (True, v0)" "direct_mapped b (ram v0)" "pt_ok (ram v0) (g_root_phys v0) (levels_of v0) X"
    and frames: "pmm_avail X al" "\<forall>q\<in>X. frame_ptr hhdm q \<noteq> 0"
    and fits: "\<forall>e\<in>set (uart_region (tree_port ns) # es). entry_fits hhdm e" "\<forall>x\<in>set (kernel_segments img). segment_fits x"
    and pages: "ps = init_pages img hhdm (uart_region (tree_port ns) # es) pb vb" "\<forall>m\<in>set ps. mapping_ok (levels_of v0) m"
      "consistent ps" "\<forall>(va, pa, f)\<in>set ps. \<not> blocked v0 va pa f" "card (missing (pages_of ps) v0) < card X"
  shows "\<exists>v1 X' v2. paging_early_init b (v\<lparr>allocator := al\<rparr>) = (True, v0\<lparr>allocator := al\<rparr>) \<and>
    paging_map_mmio b img (uart_base (tree_port ns)) (uart_size (tree_port ns)) (v0\<lparr>allocator := al\<rparr>) = Some (True, v1) \<and>
    paging_init b img v1 = Some (True, v2) \<and> vm_ok b X' v2 \<and> X' \<subseteq> X \<and> X' \<noteq> {} \<and> last (fences v2) = Sfence_vma_all \<and>
    (\<forall>(va, pa, f)\<in>set ps. maps_to v2 va pa f) \<and>
    (\<forall>w acc. (\<forall>va\<in>pages_of ps. \<not> same_page va w) \<longrightarrow> translate v2 w acc = translate v0 w acc)"
proof -
  let ?v0 = "v0\<lparr>allocator := al\<rparr>"
  have e0: "paging_early_init b (v\<lparr>allocator := al\<rparr>) = (True, ?v0)"
    "paging_setup_root (v\<lparr>allocator := al, g_early_pt_pool_used := 0\<rparr>) = (True, ?v0)"
    using tables(1) answers(1) by (auto simp: paging_early_init_def paging_setup_root_def Let_def split: if_splits)
  have vm0: "vm_ok b X ?v0"
    using tables(2,3) frames setup_root_levels [OF e0(2)] answers(1)
    by (auto simp: vm_ok_def direct_mapped_def hhdm_of_def frame_ptr_def PagingBits.frame_at_def)
  have ps: "hhdm_pages hhdm (uart_region (tree_port ns)) @ init_pages img hhdm es pb vb = ps" by (simp add: pages(1) init_pages_def)
  have same0: "missing VA ?v0 = missing VA v0" "blocked ?v0 va pa f = blocked v0 va pa f" "translate ?v0 w acc = translate v0 w acc"
    for VA va pa f w acc by (simp_all add: missing_def blocked_def)
  have sp: "spare_frames 1 (pages_of ps) X ?v0" using pages(5) by (simp add: spare_frames_def same0(1))
  from address_space_up [OF answers uart_region_def tree_port_size fits _ vm0, unfolded ps, of "v\<lparr>allocator := al\<rparr>" 1]
    e0(2) sp pages(2-4) obtain v1 X' v2 where "paging_map_mmio b img (uart_base (tree_port ns)) (uart_size (tree_port ns)) ?v0 = Some (True, v1)"
      "paging_init b img v1 = Some (True, v2)" "vm_ok b X' v2" "X' \<subseteq> X" "1 \<le> card X'" "last (fences v2) = Sfence_vma_all"
      "\<forall>(va, pa, f)\<in>set ps. maps_to v2 va pa f"
      "\<forall>w acc. (\<forall>va\<in>pages_of ps. \<not> same_page va w) \<longrightarrow> translate v2 w acc = translate v0 w acc"
    by (auto simp: same0)
  moreover from this(5) have "X' \<noteq> {}" by auto
  ultimately show ?thesis using e0(1) by blast
qed

section \<open>The boot\<close>

text \<open>What follows the devices.\<close>

lemma kmain_tail:
  assumes up: "terminal_up p s" and hh: "hhdm_response (loader p) = Some hhdm"
    and av: "pmm_avail X (allocator (vm s))" "X \<noteq> {}"
    and acc: "\<forall>q\<in>X. frame_ptr hhdm q \<noteq> 0 \<and> region (mem s) (frame_ptr hhdm q) 4" and entry: "take_bit 2 (trap_entry a) = 0"
  shows "\<exists>c' s' m al. do { s \<leftarrow> boot_framebuffer p r s; s \<leftarrow> boot_test p s; boot_traps p r a c s } = Some (c', s') \<and>
    spoke (s\<lparr>mem := m, vm := (vm s)\<lparr>allocator := al\<rparr>\<rparr>) s' \<and> pmm_avail X al \<and> csr_read Stvec c' = trap_entry a \<and>
    csr_read Sstatus c' AND SSTATUS_SIE = 0 \<and> csr_read Sie c' AND (SIE_SSIE OR SIE_STIE OR SIE_SEIE) = 0"
proof -
  from framebuffer_speaks [OF up, of r] obtain s1 where s1: "boot_framebuffer p r s = Some s1" "spoke s s1" by blast
  have up1: "terminal_up p s1" using up s1(2) spoke_up by blast
  from boot_test_ends [OF up1 hh, of X] av acc s1(2) obtain s2 m al where
    s2: "boot_test p s1 = Some s2" "spoke (s1\<lparr>mem := m, vm := (vm s1)\<lparr>allocator := al\<rparr>\<rparr>) s2" "pmm_avail X al"
    by (auto simp: spoke_def [of s s1])
  have up2: "terminal_up p s2" using up1 s2(2) by (simp add: spoke_def terminal_up_def port_up_def)
  from traps_speak [OF up2 entry, of r c] obtain c' s3 where s3: "boot_traps p r a c s2 = Some (c', s3)" "spoke s2 s3"
    "csr_read Stvec c' = trap_entry a" "csr_read Sstatus c' AND SSTATUS_SIE = 0"
    "csr_read Sie c' AND (SIE_SSIE OR SIE_STIE OR SIE_SEIE) = 0" by blast
  have "spoke (s\<lparr>mem := m, vm := (vm s)\<lparr>allocator := al\<rparr>\<rparr>) s3" using s1(2) s2(2) s3(2) by (auto simp: spoke_def)
  then show ?thesis using s1(1) s2(1,3) s3(1,3-5)
    by (intro exI [of _ c'] exI [of _ s3] exI [of _ m] exI [of _ al]) simp
qed

text \<open>
  C1: the whole boot.  On a machine that the boot loader has set up as its protocol says (a well-formed
  memory map with room for the page frame database, a direct map, page tables that are a tree with
  no conflicting larger leaf, more free frames than missing tables) and with a device whose receive
  buffer runs empty, \<open>kmain\<close> comes to its end without a fault: the UART that the device tree calls
  for is mapped, programmed and in use; its registers, every entry of the memory map and every segment of
  the kernel translate as they should, all other addresses as before; the page tables and the allocator
  are well formed with frames left, the page of the test given back; traps are taken at
  \<open>trap_entry\<close>, with every interrupt masked; and the clock runs at the fallback frequency, although the
  device tree has been read.
\<close>

theorem kmain_boots:
  fixes s :: kernel
  assumes start: "base_revision_supported r" "\<not> dtb_ready (tree s)" "\<not> uart_ready s"
    and answers: "hhdm_response (loader p) = Some hhdm" "memmap_response (loader p) = Some es"
      "executable_address_response (loader p) = Some (pb, vb)"
    and map: "memmap_wf es" "reserve_storage_loop (storage_size es) es = (Some phys, es')" "phys \<noteq> 0"
    and dtb: "dtb_init (mem s) (dtb_response r) = Some (dtb_ok, d)" "tree_given mb d ns" "mb \<subseteq>\<^sub>m mem s"
    and arrays: "path_buffer mb (mem s) (path_array a)" "path_buffer mb (mem s) (resolved_array a)"
    and device: "unat (reg_shift (tree_port ns)) < 64" "\<exists>k. \<forall>h. k \<le> length h \<longrightarrow> \<not> rx_ready p (tree_port ns) h"
    and tables: "paging_early_init (loader p) (vm s) = (True, v0)" "direct_mapped (loader p) (ram v0)"
      "pt_ok (ram v0) (g_root_phys v0) (levels_of v0) (usable_pfns es')"
    and frames: "\<forall>q\<in>usable_pfns es'. frame_ptr hhdm q \<noteq> 0 \<and> region (mem s) (frame_ptr hhdm q) 4"
    and fits: "\<forall>e\<in>set (uart_region (tree_port ns) # es'). entry_fits hhdm e" "\<forall>x\<in>set (kernel_segments img). segment_fits x"
    and pages: "ps = init_pages img hhdm (uart_region (tree_port ns) # es') pb vb" "\<forall>m\<in>set ps. mapping_ok (levels_of v0) m"
      "consistent ps" "\<forall>(va, pa, f)\<in>set ps. \<not> blocked v0 va pa f" "card (missing (pages_of ps) v0) < card (usable_pfns es')"
    and entry: "take_bit 2 (trap_entry a) = 0"
  shows "\<exists>c' s' X. kmain p r img a c s = Some (c', s') \<and>
    uart_ready s' \<and> uart0 s' = tree_port ns \<and> tree s' = d \<and> (\<exists>h. accesses s' = accesses s @ init_writes p (tree_port ns) @ h) \<and>
    vm_ok (loader p) X (vm s') \<and> X \<noteq> {} \<and> X \<subseteq> usable_pfns es' \<and> last (fences (vm s')) = Sfence_vma_all \<and>
    (\<forall>e\<in>set (uart_region (tree_port ns) # es'). \<forall>q acc. unat (mm_base e) \<le> unat q \<longrightarrow>
       unat q < unat (mm_base e) + unat (mm_length e) \<longrightarrow> acc \<in> {Load, Store} \<longrightarrow>
       translate (vm s') (PHYS_TO_VIRT hhdm q) acc = Some q) \<and>
    (\<forall>x\<in>set (kernel_segments img). \<forall>(va, pa, f)\<in>set (segment_pages pb vb x). maps_to (vm s') va pa f) \<and>
    (\<forall>w acc. (\<forall>va\<in>pages_of ps. \<not> same_page va w) \<longrightarrow> translate (vm s') w acc = translate v0 w acc) \<and>
    csr_read Stvec c' = trap_entry a \<and> csr_read Sstatus c' AND SSTATUS_SIE = 0 \<and>
    csr_read Sie c' AND (SIE_SSIE OR SIE_STIE OR SIE_SEIE) = 0 \<and>
    clock s' = \<lparr>ktime_boot_ticks = time_register p (clock_reads s), ktime_tick_freq = 10000000, ktime_ready = True\<rparr>"
proof -
  let ?b = "(loader p)\<lparr>memmap_response := Some es'\<rparr>" and ?p = "reserved p es'" and ?u = "tree_port ns"
  from boot_memory_ends [OF start(2) answers(1,2) map] obtain al k where
    m: "boot_memory p s = Some (True, ?p, s\<lparr>clock := k, clock_reads := clock_reads s + 1, vm := (vm s)\<lparr>allocator := al\<rparr>\<rparr>)"
    and al: "pmm_avail (usable_pfns es') al" by blast
  let ?s1 = "s\<lparr>clock := k, clock_reads := clock_reads s + 1, vm := (vm s)\<lparr>allocator := al\<rparr>\<rparr>"
  have b: "hhdm_response ?b = Some hhdm" "memmap_response ?b = Some es'" "executable_address_response ?b = Some (pb, vb)"
    "paging_early_init ?b (vm s) = (True, v0)" "direct_mapped ?b (ram v0)"
    using answers tables by (simp_all add: early_init_memmap direct_mapped_def hhdm_of_def)
  have nz: "\<forall>q\<in>usable_pfns es'. frame_ptr hhdm q \<noteq> 0" using frames by blast
  from paging_boots [OF b tables(3) al nz fits pages] obtain v1 X v2 where
    v: "paging_early_init ?b ((vm s)\<lparr>allocator := al\<rparr>) = (True, v0\<lparr>allocator := al\<rparr>)"
      "paging_map_mmio ?b img (uart_base ?u) (uart_size ?u) (v0\<lparr>allocator := al\<rparr>) = Some (True, v1)"
      "paging_init ?b img v1 = Some (True, v2)" "vm_ok ?b X v2" "X \<subseteq> usable_pfns es'" "X \<noteq> {}" "last (fences v2) = Sfence_vma_all"
      "\<forall>(va, pa, f)\<in>set ps. maps_to v2 va pa f"
      "\<forall>w acc. (\<forall>va\<in>pages_of ps. \<not> same_page va w) \<longrightarrow> translate v2 w acc = translate v0 w acc" by blast
  have iw: "init_writes ?p ?u = init_writes p ?u" "rx_ready ?p ?u h = rx_ready p ?u h" for h
    by (simp_all add: init_writes_def rx_ready_def reg_write_def reg_addr_def)
  from boot_devices_ends [of ?s1 r dtb_ok d mb ns a ?p "v0\<lparr>allocator := al\<rparr>" hhdm img v1 v2] start(3) dtb arrays device answers(1) v(1-3)
  obtain s2 where s2: "boot_devices ?p r img a ?s1 = Some (True, s2)" "uart_ready s2" "uart0 s2 = ?u" "tree s2 = d" "vm s2 = v2"
    "dom (mem s2) = dom (mem s)" "\<exists>h. accesses s2 = accesses s @ init_writes p ?u @ h" by (auto simp: iw)
  have up: "terminal_up ?p s2" using s2(2,3) device(1) answers(1) by (simp add: terminal_up_def port_up_def)
  have "\<forall>q\<in>X. frame_ptr hhdm q \<noteq> 0 \<and> region (mem s2) (frame_ptr hhdm q) 4"
    using frames v(5) s2(6) unfolding region_def by (metis domIff subsetD)
  from kmain_tail [OF up _ _ v(6) this entry, of r c] answers(1) vm_okD(2) [OF v(4)] s2(5) obtain c' s' m al' where
    t: "do { s \<leftarrow> boot_framebuffer ?p r s2; s \<leftarrow> boot_test ?p s; boot_traps ?p r a c s } = Some (c', s')"
      "spoke (s2\<lparr>mem := m, vm := v2\<lparr>allocator := al'\<rparr>\<rparr>) s'" "pmm_avail X al'" "csr_read Stvec c' = trap_entry a"
      "csr_read Sstatus c' AND SSTATUS_SIE = 0" "csr_read Sie c' AND (SIE_SSIE OR SIE_STIE OR SIE_SEIE) = 0" by auto
  have run: "kmain p r img a c s = Some (c', s')" 
    using t(1) by (simp add: kmain_def start(1) m s2(1) [unfolded Suc_eq_plus1 [symmetric]])
  have f: "uart_ready s'" "uart0 s' = ?u" "tree s' = d" "vm s' = v2\<lparr>allocator := al'\<rparr>" "\<exists>h. accesses s' = accesses s2 @ h"
    using s2 t(2) by (auto simp: spoke_def)
  have "vm_ok (loader p) X (vm s')" using v(4) t(3) unfolding f(4) vm_ok_memmap by (simp add: vm_ok_def)
  moreover have maps: "\<forall>(va, pa, f)\<in>set ps. maps_to (vm s') va pa f" using v(8) by (simp add: f(4) maps_to_def)
  moreover have "\<forall>w acc. (\<forall>va\<in>pages_of ps. \<not> same_page va w) \<longrightarrow> translate (vm s') w acc = translate v0 w acc"
    using v(9) by (simp add: f(4))
  moreover have "\<exists>h. accesses s' = accesses s @ init_writes p ?u @ h" using s2(7) f(5) by auto
  moreover have "last (fences (vm s')) = Sfence_vma_all" using v(7) by (simp add: f(4))
  ultimately show ?thesis
    using run f(1-3) v(5,6) t(4-6) init_pages_mapped [OF fits(1) pages(2) [unfolded pages(1)] maps [unfolded pages(1)]]
      kmain_clock [OF start(2,1) run] by blast
qed

section \<open>A boot\<close>

text \<open>
  The machine of \<open>UartDemo\<close> at power on: the memory map before the database has been cut out of it, nothing
  initialised, and the empty root table of \<open>VmDemo\<close> in \<open>satp\<close>.
\<close>

definition boot_map :: "memmap_entry list" where
  "boot_map =
     [\<lparr>mm_base = 0, mm_length = 0x1000, mm_usable = False\<rparr>,
      \<lparr>mm_base = 0x1000, mm_length = 0x8000, mm_usable = True\<rparr>]"

definition boot_platform :: platform where
  "boot_platform = plain_platform\<lparr>loader := vm_boot\<lparr>memmap_response := Some boot_map\<rparr>\<rparr>"

definition boot_kernel :: kernel where
  "boot_kernel = plain_kernel\<lparr>tree := \<lparr>dtb_fdt = zero_fdt, dtb_ready = False\<rparr>, vm := vm_cold\<lparr>allocator := demo_cold\<rparr>\<rparr>"

definition boot_requests :: requests where
  "boot_requests = \<lparr>base_revision_supported = True, dtb_response = Some 0x80000000, framebuffer_count = Some 1,
     ft_init_ok = True, mp_response = Some (4, 0)\<rparr>"

definition boot_addresses :: code_addresses where
  "boot_addresses = \<lparr>path_array = 0x90000000, resolved_array = 0x90000100, trap_entry = 0xffffffff80000100\<rparr>"

lemma boot_reserve: "reserve_storage_loop (storage_size boot_map) boot_map = (Some 0x1000, vm_map)"
proof -
  have "storage_size boot_map = 0x1000" by code_simp
  then show ?thesis by (simp add: boot_map_def vm_map_def)
qed

lemma boot_map_wf: "memmap_wf boot_map"
  by (simp add: memmap_wf_def boot_map_def vm_entry_pfns)

definition boot_pages :: "mapping list" where
  "boot_pages = init_pages vm_image vm_hhdm (uart_region plain_port # vm_map) 0x9000 0xffffffff80000000"

lemma boot_pages_list: "boot_pages = (0xffffffc000004000, 0x4000, PAGING_PROT_RWG) # vm_pages"
proof -
  have "hhdm_pages vm_hhdm (uart_region plain_port) = [(0xffffffc000004000, 0x4000, PAGING_PROT_RWG)]" by code_simp
  then show ?thesis by (simp add: boot_pages_def vm_pages_def init_pages_def)
qed

lemma boot_tables:
  defines "v0 \<equiv> vm_ready\<lparr>allocator := demo_cold\<rparr>"
  shows "paging_early_init (loader boot_platform) (vm boot_kernel) = (True, v0)" "direct_mapped (loader boot_platform) (ram v0)"
    "pt_ok (ram v0) (g_root_phys v0) (levels_of v0) {2..<9}" "\<forall>m\<in>set boot_pages. mapping_ok (levels_of v0) m"
    "consistent boot_pages" "\<forall>(va, pa, f)\<in>set boot_pages. \<not> blocked v0 va pa f" "card (missing (pages_of boot_pages) v0) < card {2..<9::nat}"
proof -
  show "paging_early_init (loader boot_platform) (vm boot_kernel) = (True, v0)"
    by (simp add: v0_def paging_early_init_def boot_platform_def boot_kernel_def plain_platform_def vm_boot_def vm_cold_def vm_ready_def
        paging_setup_root_def paging_satp_levels_def SATP_MODE_SV39_def SATP_MODE_SV48_def SATP_MODE_SV57_def SATP_PPN_MASK_def)
  show "direct_mapped (loader boot_platform) (ram v0)" "pt_ok (ram v0) (g_root_phys v0) (levels_of v0) {2..<9}"
    using vm_ok_ready by (simp_all add: v0_def vm_ok_def direct_mapped_def hhdm_of_def boot_platform_def)
  have lev: "levels_of v0 = 3" by (simp add: v0_def vm_levels)
  show "\<forall>m\<in>set boot_pages. mapping_ok (levels_of v0) m"
    unfolding lev boot_pages_list vm_pages_list by (rule mapping_ok_check) code_simp
  show "consistent boot_pages" unfolding boot_pages_list vm_pages_list by (rule consistent_check) code_simp
  have "\<not> blocked v0 va pa f" for va pa f unfolding blocked_def v0_def using vm_walk [of va] by simp
  then show "\<forall>(va, pa, f)\<in>set boot_pages. \<not> blocked v0 va pa f" by simp
  have "missing (pages_of boot_pages) v0 = missing (pages_of boot_pages) vm_ready" by (simp add: missing_def v0_def)
  moreover have "length (routes 3 (map fst boot_pages)) \<le> 6" unfolding boot_pages_list vm_pages_list by code_simp
  then have "card (missing (set (map fst boot_pages)) vm_ready) \<le> 6"
    using card_missing_routes [of "map fst boot_pages" vm_ready] by (simp add: vm_levels)
  ultimately show "card (missing (pages_of boot_pages) v0) < card {2..<9::nat}" by (simp add: pages_of_def)
qed

lemma boot_frames: "\<forall>q\<in>usable_pfns vm_map. frame_ptr vm_hhdm q \<noteq> 0 \<and> region plain_mem (frame_ptr vm_hhdm q) 4"
proof
  fix q assume "q \<in> usable_pfns vm_map"
  then have q: "2 \<le> q" "q < 9" by (simp_all add: vm_usable)
  have ptr: "frame_ptr vm_hhdm q + of_nat i = vm_hhdm + of_nat (q * 4096 + i)" for i
    by (simp add: frame_ptr_def PHYS_TO_VIRT_def PFN_PHYS_eq push_bit_eq_mult)
  have off: "unat (of_nat (q * 4096 + i) :: u64) = q * 4096 + i" if "i < 5" for i
    by (rule unat_of_nat_small) (use q that in simp)
  have addr: "unat (vm_hhdm + of_nat (q * 4096 + i)) = unat vm_hhdm + (q * 4096 + i)" if "i < 5" for i
    using off [OF that] q that by (subst unat_add_nowrap) (simp_all add: vm_hhdm_def)
  have "plain_mem (vm_hhdm + of_nat (q * 4096 + i)) \<noteq> None" if "i < 4" for i
  proof -
    have "vm_hhdm + of_nat (q * 4096 + i) - vm_hhdm < 0x10000" using off [of i] that q by (simp add: word_less_nat_alt)
    then show ?thesis by (simp add: plain_mem_def)
  qed
  moreover have "unat (frame_ptr vm_hhdm q) + 4 \<le> 2 ^ 64" "frame_ptr vm_hhdm q \<noteq> 0"
    using addr [of 0] ptr [of 0] q by (auto simp: vm_hhdm_def)
  ultimately show "frame_ptr vm_hhdm q \<noteq> 0 \<and> region plain_mem (frame_ptr vm_hhdm q) 4"
    unfolding region_def ptr by blast
qed

theorem kmain_boots_witness:
  "\<exists>c' s'. kmain boot_platform boot_requests vm_image boot_addresses (\<lambda>_. 0) boot_kernel = Some (c', s') \<and>
     uart_ready s' \<and> uart0 s' = plain_port \<and> csr_read Stvec c' = 0xffffffff80000100 \<and>
     translate (vm s') 0xffffffc000008123 Store = Some 0x8123"
proof -
  have fits: "\<forall>e\<in>set (uart_region plain_port # vm_map). entry_fits vm_hhdm e"
    by (simp add: vm_map_def vm_fits_defs uart_region_def plain_port_def)
  have seg: "\<forall>x\<in>set (kernel_segments vm_image). segment_fits x"
    by (simp add: kernel_segments_def segment_fits_def vm_image_def)
  have init: "dtb_init plain_mem (Some 0x80000000) = Some (True, plain_dtb)" by (rule plain_init [OF plain_mem_blob])
  have b: "base_revision_supported boot_requests" "\<not> dtb_ready (tree boot_kernel)" "\<not> uart_ready boot_kernel"
    "hhdm_response (loader boot_platform) = Some vm_hhdm" "memmap_response (loader boot_platform) = Some boot_map"
    "executable_address_response (loader boot_platform) = Some (0x9000, 0xffffffff80000000)"
    "mem boot_kernel = plain_mem" "dtb_response boot_requests = Some 0x80000000"
    "path_array boot_addresses = 0x90000000" "resolved_array boot_addresses = 0x90000100"
    "take_bit 2 (trap_entry boot_addresses) = 0" "trap_entry boot_addresses = 0xffffffff80000100"
    by (simp_all add: boot_requests_def boot_kernel_def plain_kernel_def boot_platform_def vm_boot_def boot_addresses_def)
  have quiet: "\<exists>k. \<forall>h. k \<le> length h \<longrightarrow> \<not> rx_ready boot_platform (tree_port plain_list) h"
    by (intro exI [of _ 12]) (simp add: rx_ready_def boot_platform_def plain_platform_def UART_LSR_RX_READY_def)
  have shift: "unat (reg_shift (tree_port plain_list)) < 64" by (simp add: plain_tree_port plain_port_def)
  have e: "\<lparr>mm_base = 0x2000, mm_length = 0x7000, mm_usable = True\<rparr> \<in> set (uart_region plain_port # vm_map)" by (simp add: vm_map_def)
  have frames: "card (missing (pages_of boot_pages) (vm_ready\<lparr>allocator := demo_cold\<rparr>)) < card (usable_pfns vm_map)"
    using boot_tables(7) by (simp only: vm_usable)
  have nz: "(0x1000 :: u64) \<noteq> 0" by simp
  have bp: "boot_pages = init_pages vm_image vm_hhdm (uart_region (tree_port plain_list) # vm_map) 0x9000 0xffffffff80000000"
    by (simp add: boot_pages_def plain_tree_port)
  note boots = kmain_boots [where c = "\<lambda>_. 0", OF b(1-6) boot_map_wf boot_reserve nz init [folded b(7,8)] plain_given
      plain_mem_blob [folded b(7)] plain_buffers [folded b(7,9,10)] shift quiet boot_tables(1,2) boot_tables(3) [folded vm_usable]
      boot_frames [folded b(7)] fits [folded plain_tree_port] seg bp boot_tables(4-6) frames b(11)]
  obtain c' s' where s': "kmain boot_platform boot_requests vm_image boot_addresses (\<lambda>_. 0) boot_kernel = Some (c', s')"
    "uart_ready s'" "uart0 s' = plain_port" "csr_read Stvec c' = 0xffffffff80000100"
    "\<forall>e\<in>set (uart_region plain_port # vm_map). \<forall>q acc. unat (mm_base e) \<le> unat q \<longrightarrow>
       unat q < unat (mm_base e) + unat (mm_length e) \<longrightarrow> acc \<in> {Load, Store} \<longrightarrow>
       translate (vm s') (PHYS_TO_VIRT vm_hhdm q) acc = Some q"
    using boots [unfolded plain_tree_port b(12)] by blast
  have "translate (vm s') (PHYS_TO_VIRT vm_hhdm 0x8123) Store = Some 0x8123" using bspec [OF s'(5) e] by simp
  moreover have "PHYS_TO_VIRT vm_hhdm 0x8123 = 0xffffffc000008123" by (simp add: PHYS_TO_VIRT_def vm_hhdm_def)
  ultimately show ?thesis using s'(1-4) by auto
qed

end
