(* ===== verification/Spec2Isabelle.thy ===== *)
theory Spec2Isabelle
  imports MmProps EarlyPool CStringProps FdtProps TrapEntry KernelBoot
begin

text \<open>
  Verification of the risky RISC-V kernel (\<open>kernel/src\<close>, C).

  \<^bold>\<open>The program.\<close>  The kernel is started by a Limine boot loader in supervisor mode with paging on.
  \<open>main.c\<close> (\<open>kmain\<close>) starts the clock (\<open>lib/time.c\<close>), builds the page frame database from the memory map
  (\<open>mm/pfndb.c\<close>) and the buddy allocator over it (\<open>mm/pmm.c\<close>), reads the flattened device tree
  (\<open>dev/fdt.c\<close>, \<open>dev/dtb.c\<close>), takes over the page tables (\<open>mm/paging.c\<close>), finds, maps and programs the UART
  (\<open>platform/generic/uart.c\<close>), completes the kernel's address space, and installs the trap handler
  (\<open>platform/generic/trap.S\<close>, \<open>trap.c\<close>).  Everything logs through \<open>lib/printk.c\<close>, whose characters
  \<open>printk_putc\<close> of \<open>main.c\<close> sends to the UART once it is ready and to the firmware before.

  \<^bold>\<open>Conventions of the model.\<close>  Integers are words at their C width, with C's wrap-around; where C leaves
  a result undefined (a shift by the width, a read outside every object, a missing \<open>va_arg\<close>) the
  model's result is \<open>None\<close>, so a theorem that something is \<open>Some\<close> says that this does not happen.  There is
  one exception: \<open>int written\<close> of \<open>printk.c\<close>, the number of characters printed so far, is kept as a word that
  wraps, which differs from C only for a single call that prints more than \<open>2 ^ 31 - 1\<close> characters.  A
  pointer that the code compares with NULL is an \<open>option\<close> or an address; static objects of a file are
  the fields of a record, returned updated.  A loop with a known bound is \<open>for_each\<close> or a \<open>function\<close> with
  a termination proof; a loop that may run for ever is \<open>partial_function (option)\<close>, where \<open>None\<close>
  is also the run that does not end, and the theorems say when it ends.  What is not under the kernel's
  control is an argument: the boot loader's answers (\<open>boot\<close>, \<open>requests\<close>), the linker's symbols
  (\<open>kernel_image\<close>, \<open>code_addresses\<close>), the time register, and a device, which is any function from the
  history of register accesses to what it answers (\<open>platform\<close>).

  \<^bold>\<open>Theories, in the order of the layers.\<close>

  \<^item> \<open>Prelude\<close>: word lemmas, \<open>for_each\<close> and its invariant rule; \<open>Cpu\<close>: the direct map of \<open>cpu.h\<close>.

  \<^item> Memory: \<open>Page\<close> (\<open>page.h\<close>: descriptors and their flags), \<open>Pfndb\<close> (\<open>pfndb.c\<close>), \<open>Buddy\<close> (the
    geometry of buddies), \<open>Pmm\<close> (\<open>pmm.c\<close>).  \<open>PmmLists\<close> shows that the intrusive free lists are lists,
    \<open>PmmInv\<close> states the invariant \<open>pmm_inv U F A\<close> (usable frames, free blocks, blocks handed out) and
    \<open>PmmCorrect\<close>, \<open>PmmInit\<close>, \<open>PfndbCorrect\<close> show that every operation keeps it and computes the abstract
    operation on the sets \<open>F\<close> and \<open>A\<close>.  \<open>BlockAllocator\<close> is the interface (a locale) under which any client
    program is safe; \<open>PmmDoubleFree\<close> follows a second free of a merged block; \<open>MmProps\<close> has the properties,
    \<open>MmDemo\<close> the concrete machine of their witnesses.

  \<^item> Address space: \<open>Boot\<close>, \<open>Sv\<close> (the translation of the RISC-V privileged architecture, for the three
    modes the code knows), \<open>Paging\<close> (\<open>paging.c\<close>).  \<open>PagingBits\<close>, \<open>PageTables\<close> (the tables are a tree in
    memory: \<open>vm_ok\<close>), \<open>FrameSource\<close> (a locale for what the mapper needs of an allocator, provided by
    \<open>page_alloc\<close>), \<open>PagingCorrect\<close>, \<open>PagingMap\<close>, \<open>PagingRange\<close>, \<open>PagingInit\<close> lead to the properties in
    \<open>PagingProps\<close>, which speak of what the processor translates; \<open>EarlyPool\<close>: tables of the early pool
    are linked at an address where the processor does not find them; \<open>VmDemo\<close>: the concrete machine.

  \<^item> Strings: \<open>CString\<close> (\<open>string.c\<close>) and \<open>CStringProps\<close>.

  \<^item> Device tree: \<open>Fdt\<close> (\<open>fdt.c\<close>), \<open>Dtb\<close> (\<open>dtb.c\<close>).  For any bytes: \<open>FdtBytes\<close>, \<open>FdtPath\<close>, \<open>FdtWalk\<close> (the invariant
    of the walk), \<open>FdtSearch\<close> (a locale for searches by walking), \<open>FdtLookup\<close>, \<open>FdtProps\<close>.  For a blob that
    holds a tree: \<open>FdtTree\<close> (trees, \<open>flatten\<close>, the nodes in document order), \<open>FdtDecode\<close>, \<open>FdtTrace\<close> (the walk
    of a flattened tree), \<open>FdtRound\<close>, \<open>FdtTreeProps\<close>, \<open>FdtOut\<close>; \<open>FdtDemo\<close> is a concrete blob.  The locale
    \<open>device_tree\<close> in \<open>Dtb\<close> is what the drivers rely on; \<open>dtb.c\<close> over a blob provides it.

  \<^item> Output: \<open>Ktime\<close> (\<open>time.c\<close>), \<open>Printk\<close> (\<open>printk.c\<close>).  \<open>PrintkText\<close> (numbers and their digits, every emitting
    operation is \<open>emit_char\<close> over a text), \<open>PrintkFormat\<close> (formats as pieces, \<open>render\<close>, the parser of the loop),
    \<open>PrintkProps\<close>, \<open>PrintkTypes\<close> (formats as types of their arguments).

  \<^item> Devices: \<open>Uart\<close> (registers and characters of \<open>uart.c\<close>, accessors of \<open>cpu.h\<close>), \<open>UartProps\<close> (the locale
    \<open>byte_sink\<close>, provided by the UART), \<open>Terminal\<close> (\<open>printk_putc\<close> of \<open>main.c\<close>, also a byte sink, and the log
    functions over it), \<open>LogSteps\<close> (rules for steps that only log), \<open>UartInit\<close> (\<open>uart_find_port\<close>,
    \<open>uart_init\<close>), \<open>UartConsole\<close> (the node that \<open>stdout-path\<close> and \<open>/aliases\<close> lead to), \<open>UartInitProps\<close> and
    \<open>UartDemo\<close>, a device tree with its machine.

  \<^item> Traps: \<open>Csr\<close> (the macros of \<open>csr.h\<close>), \<open>Trap\<close> (\<open>trap.c\<close>, \<open>trap.h\<close>), \<open>TrapProps\<close>; \<open>Hart\<close> (the instructions that
    \<open>trap.S\<close> uses, trap entry and \<open>sret\<close> of the processor, and \<open>trap.S\<close> itself, instruction by instruction) and
    \<open>TrapEntry\<close> (a trap from its entry to \<open>sret\<close>).

  \<^item> Boot: \<open>Kmain\<close> (\<open>main.c\<close>) and \<open>KernelBoot\<close>, where the contracts of all components are put together in the
    order of the calls.

  \<^bold>\<open>What is shown.\<close>  The allocator: from a well-formed memory map the database and the allocator come up with
  exactly the usable frames, allocation and free are correct and complete against sets of blocks, invert each
  other, and no client that frees what it holds makes them fault.  The address space: mapping a page,
  a range, a device and the whole kernel makes the processor translate exactly what was asked for.  The
  string functions compute their list counterparts.  The device tree: on any blob the walk and the
  searches end and stay inside; on a flattened tree lookups return what the tree says.  Output: \<open>kprintf\<close>
  prints the text its format denotes, well-typed calls never go wrong, a log line reaches the wire byte for
  byte, \<open>uart_putc\<close> ends on every device, \<open>uart_init\<close> finds the console of the tree and programs it in order.
  Traps: the handler resumes for interrupts only, its reports always come to their end, and an interrupt
  leaves the interrupted program as it was.  The boot: on a machine that is set up as the boot protocol says
  \<open>kmain\<close> comes to its end, with the device in use, the address space built and frames left.  Theorems about errors show
  where the code does not do what it means to: double frees of merged blocks that go unnoticed, ranges that
  wrap, tables of the early pool that the processor does not find, and reads behind a truncated blob; the
  findings of the manifest add the index of \<open>fdt_get_reg\<close> that wraps and the clock that is started before the
  device tree can be read.

  \<^bold>\<open>Bounds.\<close>  \<open>uart_putc\<close> polls 1,000,000 times, the bound of the code; the number buffer has the 64
  bytes of the code, enough for every base from 2 up; the walk of a device tree ends because its cursor
  grows; the digits of a width are those of a number below \<open>2 ^ 32\<close>.

  \<^bold>\<open>Not modelled.\<close>  The framebuffer terminal and the boot protocol headers, which are third-party code
  (\<open>g_ft_ctx\<close> is the list of the bytes that the terminal was given); the log calls inside \<open>pfndb.c\<close>, \<open>pmm.c\<close>,
  \<open>paging.c\<close> and \<open>dtb.c\<close>, which report and change nothing else (so in a run of \<open>kmain\<close> their lines are missing
  from the console, while the log calls of \<open>main.c\<close>, \<open>uart.c\<close> and \<open>trap.c\<close> are part of it); faults of the
  kernel's own accesses under the page tables it builds: \<open>paging.c\<close> reads and writes tables through the boot
  loader's address space (\<open>view\<close>), which stays as it was, and the device registers of \<open>cpu.h\<close> are accessed at
  their direct-map address whether it is mapped or not, the mapping being shown by the properties of
  \<open>paging_map_mmio\<close>, \<open>uart_init\<close> and \<open>kmain\<close>; what a register does beyond keeping what is written to it (the time register is an argument,
  \<open>wfi\<close> and \<open>hlt\<close> are ends of runs, fences are recorded).  The page tables' memory (\<open>ram\<close>), the memory of
  the device tree (\<open>mem\<close>) and the registers are separate parts of the state, so that a page that \<open>kmain\<close> writes
  cannot be a page table; the stack of the trap entry is a third one, and the compiled handler between
  the two halves of \<open>trap.S\<close> is \<open>trap_handler\<close> with the calling convention as a hypothesis.
\<close>

end
